(* ===== verification/Prelude.thy ===== *)
theory Prelude
  imports Main "HOL-Library.Sublist"
begin

text \<open>
  Shared vocabulary of the development: Python strings and bytes, results of code that may
  raise, and the library functions of Python on strings that the components call.

  Conventions.
  \<^item> A Python \<open>str\<close> is represented by its UTF-8 encoding and a \<open>bytes\<close> object by its
    octets; both are \<open>string\<close> (a list of 8-bit characters). Concatenation, equality, prefix
    tests and splitting at ASCII separators commute with this representation, and
    \<open>s.encode("utf-8")\<close> is the identity; \<open>b.decode("utf-8")\<close> is guarded by \<open>utf8_valid\<close>
    and \<open>len\<close> of a \<open>str\<close> counts code points (\<open>str_len\<close>).
  \<^item> \<open>strip\<close>, \<open>lower\<close> and \<open>int\<close> are modelled on the ASCII range: Unicode white space, case
    pairs and decimal digits outside ASCII are left alone.
  \<^item> Code that may raise returns \<open>exn + 'a\<close>: \<open>Inl\<close> the exception, \<open>Inr\<close> the value. The
    detail text of an exception is its constant part; interpolated values are dropped.
\<close>

subsection \<open>Results\<close>

datatype exn =
    HTTPException nat string   \<comment> \<open>status code, detail\<close>
  | PyExn string               \<comment> \<open>any other Python exception, by class name: a 500 at the boundary\<close>

type_synonym 'a res = "exn + 'a"

definition bind_res :: "'a res \<Rightarrow> ('a \<Rightarrow> 'b res) \<Rightarrow> 'b res" where
  "bind_res m f = (case m of Inl e \<Rightarrow> Inl e | Inr v \<Rightarrow> f v)"

named_theorems model_defs \<open>definitions unfolded together in component proofs\<close>

lemma bind_res_simps [simp]:
  "bind_res (Inl e) f = Inl e"
  "bind_res (Inr v) f = f v"
  by (simp_all add: bind_res_def)

lemma bind_res_Inr_iff: "bind_res m f = Inr v \<longleftrightarrow> (\<exists>u. m = Inr u \<and> f u = Inr v)"
  by (cases m) simp_all

lemma bind_res_assoc: "bind_res (bind_res m f) g = bind_res m (\<lambda>x. bind_res (f x) g)"
  by (cases m) simp_all

definition is_ok :: "'a res \<Rightarrow> bool" where
  "is_ok r \<longleftrightarrow> (case r of Inl _ \<Rightarrow> False | Inr _ \<Rightarrow> True)"

lemma is_ok_simps [simp]: "is_ok (Inr v)" "\<not> is_ok (Inl e)"
  by (simp_all add: is_ok_def)

lemma is_ok_iff: "is_ok r \<longleftrightarrow> (\<exists>v. r = Inr v)"
  by (cases r) simp_all

text \<open>
  A handler returns its result and the next state of the store. A step that may raise before
  anything is written leaves the state as it is.
\<close>

definition lift_res :: "'a res \<Rightarrow> 'db \<Rightarrow> ('a \<Rightarrow> 'b res \<times> 'db) \<Rightarrow> 'b res \<times> 'db" where
  "lift_res m d f = (case m of Inl e \<Rightarrow> (Inl e, d) | Inr v \<Rightarrow> f v)"

lemma lift_res_simps [simp]:
  "lift_res (Inl e) d f = (Inl e, d)"
  "lift_res (Inr v) d f = f v"
  by (simp_all add: lift_res_def)

lemma lift_res_cases:
  "lift_res m d f = (r, d') \<longleftrightarrow> (\<exists>e. m = Inl e \<and> r = Inl e \<and> d' = d) \<or> (\<exists>v. m = Inr v \<and> f v = (r, d'))"
  by (cases m) auto

text \<open>Sequencing of two steps that both may change the state; the first exception ends it.\<close>

definition and_then :: "'r res \<times> 'db \<Rightarrow> ('r \<Rightarrow> 'db \<Rightarrow> 's res \<times> 'db) \<Rightarrow> 's res \<times> 'db" where
  "and_then m f = (case m of (Inl e, d) \<Rightarrow> (Inl e, d) | (Inr r, d) \<Rightarrow> f r d)"

lemma and_then_simps [simp]:
  "and_then (Inl e, d) f = (Inl e, d)"
  "and_then (Inr r, d) f = f r d"
  by (simp_all add: and_then_def)

lemma and_then_Inr: "and_then m f = (Inr r, d') \<longleftrightarrow> (\<exists>r1 d1. m = (Inr r1, d1) \<and> f r1 d1 = (Inr r, d'))"
  by (auto simp: and_then_def split: prod.splits sum.splits)

subsection \<open>Association lists as Python dicts\<close>

text \<open>A dict keeps insertion order: an update replaces in place, a new key goes to the end.\<close>

fun dict_set :: "'k \<Rightarrow> 'v \<Rightarrow> ('k \<times> 'v) list \<Rightarrow> ('k \<times> 'v) list" where
  "dict_set k v [] = [(k, v)]"
| "dict_set k v ((k', v') # xs) = (if k = k' then (k, v) # xs else (k', v') # dict_set k v xs)"

lemma map_of_dict_set [simp]: "map_of (dict_set k v xs) = (map_of xs)(k \<mapsto> v)"
  by (induction xs) (auto simp: fun_eq_iff)

lemma keys_dict_set: "fst ` set (dict_set k v xs) = insert k (fst ` set xs)"
  by (induction k v xs rule: dict_set.induct) (auto simp: insert_commute)

lemma distinct_dict_set: "distinct (map fst xs) \<Longrightarrow> distinct (map fst (dict_set k v xs))"
  by (induction xs) (auto simp: keys_dict_set)

lemma dict_set_fresh: "k \<notin> fst ` set xs \<Longrightarrow> dict_set k v xs = xs @ [(k, v)]"
  by (induction xs) auto

subsection \<open>Splitting, joining, replacing\<close>

text \<open>\<open>s.split(c)\<close> for a one-character separator.\<close>

fun split_on :: "char \<Rightarrow> string \<Rightarrow> string list" where
  "split_on c [] = [[]]"
| "split_on c (x # xs) =
     (if x = c then [] # split_on c xs
      else (case split_on c xs of [] \<Rightarrow> [[x]] | w # ws \<Rightarrow> (x # w) # ws))"

text \<open>\<open>s.split(c, 1)\<close>: \<open>Some (head, tail)\<close> when the separator occurs, \<open>None\<close> when it does not.\<close>

fun split1 :: "char \<Rightarrow> string \<Rightarrow> (string \<times> string) option" where
  "split1 c [] = None"
| "split1 c (x # xs) =
     (if x = c then Some ([], xs) else map_option (\<lambda>(a, b). (x # a, b)) (split1 c xs))"

text \<open>\<open>s.rsplit(c, 1)\<close>.\<close>

definition rsplit1 :: "char \<Rightarrow> string \<Rightarrow> (string \<times> string) option" where
  "rsplit1 c s = map_option (\<lambda>(a, b). (rev b, rev a)) (split1 c (rev s))"

fun join :: "string \<Rightarrow> string list \<Rightarrow> string" where
  "join sep [] = []"
| "join sep [x] = x"
| "join sep (x # xs) = x @ sep @ join sep xs"

text \<open>\<open>s.replace(old, new)\<close> for a non-empty \<open>old\<close>, left to right without overlaps.\<close>

function replace_all :: "string \<Rightarrow> string \<Rightarrow> string \<Rightarrow> string" where
  "replace_all old new s =
     (case s of [] \<Rightarrow> []
      | c # cs \<Rightarrow> if old \<noteq> [] \<and> prefix old s then new @ replace_all old new (drop (length old) s)
                 else c # replace_all old new cs)"
  by pat_completeness auto
termination by (relation "measure (\<lambda>(old, new, s). length s)") auto

declare replace_all.simps [simp del]

text \<open>\<open>s.replace(old, new, 1)\<close>.\<close>

fun replace_first :: "string \<Rightarrow> string \<Rightarrow> string \<Rightarrow> string" where
  "replace_first old new [] = []"
| "replace_first old new (c # cs) =
     (if prefix old (c # cs) then new @ drop (length old) (c # cs)
      else c # replace_first old new cs)"

lemma split_on_nonempty [simp]: "split_on c s \<noteq> []"
  by (induction s) (auto split: list.splits)

lemma split_on_no_sep: "c \<notin> set s \<Longrightarrow> split_on c s = [s]"
  by (induction s) auto

lemma split_on_append_sep: "c \<notin> set a \<Longrightarrow> split_on c (a @ c # b) = a # split_on c b"
  by (induction a) auto

lemma set_split_on_no_sep: "w \<in> set (split_on c s) \<Longrightarrow> c \<notin> set w"
proof (induction s arbitrary: w)
  case Nil
  then show ?case by simp
next
  case (Cons x xs)
  then show ?case by (auto split: if_splits list.splits)
qed

lemma join_split_on: "join [c] (split_on c s) = s"
proof (induction s)
  case Nil
  then show ?case by simp
next
  case (Cons x xs)
  obtain w ws where "split_on c xs = w # ws" by (cases "split_on c xs") simp_all
  with Cons show ?case by (cases ws) auto
qed

lemma split_on_single_iff: "split_on c s = [w] \<longleftrightarrow> s = w \<and> c \<notin> set w"
proof
  assume h: "split_on c s = [w]"
  then show "s = w \<and> c \<notin> set w"
    using join_split_on [of c s] set_split_on_no_sep [of w c s] by simp
qed (simp add: split_on_no_sep)

lemma split_on_two_iff:
  "split_on c s = [a, b] \<longleftrightarrow> s = a @ c # b \<and> c \<notin> set a \<and> c \<notin> set b"
proof
  assume h: "s = a @ c # b \<and> c \<notin> set a \<and> c \<notin> set b"
  then show "split_on c s = [a, b]"
    by (simp add: split_on_append_sep split_on_no_sep)
next
  assume "split_on c s = [a, b]"
  then show "s = a @ c # b \<and> c \<notin> set a \<and> c \<notin> set b"
  proof (induction s arbitrary: a)
    case Nil
    then show ?case by simp
  next
    case (Cons x xs)
    then show ?case
      by (auto split: if_splits list.splits simp: split_on_single_iff)
  qed
qed

lemma split1_None_iff: "split1 c s = None \<longleftrightarrow> c \<notin> set s"
  by (induction s) auto

lemma split1_Some_iff: "split1 c s = Some (a, b) \<longleftrightarrow> s = a @ c # b \<and> c \<notin> set a"
proof (induction s arbitrary: a)
  case Nil
  then show ?case by simp
next
  case (Cons x xs)
  show ?case
  proof (cases "x = c")
    case True
    then show ?thesis by (cases a) auto
  next
    case False
    then show ?thesis using Cons.IH by (cases a) (auto 0 3)
  qed
qed

lemma split1_append [simp]: "c \<notin> set a \<Longrightarrow> split1 c (a @ c # b) = Some (a, b)"
  by (simp add: split1_Some_iff)

lemma hd_split_on: "split_on c s = (case split1 c s of None \<Rightarrow> [s] | Some (a, b) \<Rightarrow> a # split_on c b)"
  by (cases "split1 c s")
    (auto simp: split1_None_iff [THEN iffD1] split_on_no_sep split1_Some_iff split_on_append_sep)

subsection \<open>White space, case, length\<close>

definition is_space :: "char \<Rightarrow> bool" where
  "is_space c \<longleftrightarrow> (let n = of_char c :: nat in (9 \<le> n \<and> n \<le> 13) \<or> (28 \<le> n \<and> n \<le> 32))"

definition lstrip :: "string \<Rightarrow> string" where
  "lstrip s = dropWhile is_space s"

definition rstrip :: "string \<Rightarrow> string" where
  "rstrip s = rev (dropWhile is_space (rev s))"

definition strip :: "string \<Rightarrow> string" where
  "strip s = rstrip (lstrip s)"

definition lower_char :: "char \<Rightarrow> char" where
  "lower_char c = (let n = of_char c :: nat in if 65 \<le> n \<and> n \<le> 90 then char_of (n + 32) else c)"

definition lower :: "string \<Rightarrow> string" where
  "lower s = map lower_char s"

definition is_cont :: "char \<Rightarrow> bool" where
  "is_cont c \<longleftrightarrow> (let n = of_char c :: nat in 128 \<le> n \<and> n < 192)"

definition str_len :: "string \<Rightarrow> nat" where
  "str_len s = length (filter (\<lambda>c. \<not> is_cont c) s)"

lemma strip_no_space: "\<forall>c \<in> set s. \<not> is_space c \<Longrightarrow> strip s = s"
proof -
  assume h: "\<forall>c \<in> set s. \<not> is_space c"
  have "dropWhile is_space t = t" if "\<forall>c \<in> set t. \<not> is_space c" for t
    using that by (cases t) auto
  from this [OF h] this [of "rev s"] h show ?thesis
    by (simp add: strip_def rstrip_def lstrip_def)
qed

subsection \<open>UTF-8 validity, for \<open>bytes.decode("utf-8")\<close>\<close>

definition in_range :: "nat \<Rightarrow> nat \<Rightarrow> char \<Rightarrow> bool" where
  "in_range lo hi c \<longleftrightarrow> (let n = of_char c in lo \<le> n \<and> n \<le> hi)"

text \<open>The ranges of the continuation bytes that a first byte asks for.\<close>

definition utf8_conts :: "char \<Rightarrow> (nat \<times> nat) list option" where
  "utf8_conts b =
     (if in_range 0 0x7F b then Some []
      else if in_range 0xC2 0xDF b then Some [(0x80, 0xBF)]
      else if in_range 0xE0 0xEF b then
        Some [(if b = CHR 0xE0 then 0xA0 else 0x80, if b = CHR 0xED then 0x9F else 0xBF), (0x80, 0xBF)]
      else if in_range 0xF0 0xF4 b then
        Some [(if b = CHR 0xF0 then 0x90 else 0x80, if b = CHR 0xF4 then 0x8F else 0xBF), (0x80, 0xBF), (0x80, 0xBF)]
      else None)"

function utf8_valid :: "string \<Rightarrow> bool" where
  "utf8_valid [] = True"
| "utf8_valid (b # bs) =
     (case utf8_conts b of
        None \<Rightarrow> False
      | Some rs \<Rightarrow> length rs \<le> length bs \<and> list_all (\<lambda>((lo, hi), c). in_range lo hi c) (zip rs bs)
          \<and> utf8_valid (drop (length rs) bs))"
  by pat_completeness auto
termination by (relation "measure length") auto

lemma utf8_valid_append: "utf8_valid x \<Longrightarrow> utf8_valid (x @ y) = utf8_valid y"
proof (induction x rule: utf8_valid.induct)
  case (2 b bs)
  then obtain rs where "utf8_conts b = Some rs" "length rs \<le> length bs" by (auto split: option.splits)
  moreover from this have "zip rs (bs @ y) = zip rs bs" by (simp add: zip_append2)
  ultimately show ?case using 2 by simp
qed simp

text \<open>\<open>b.decode("utf-8")\<close>\<close>

definition decode_utf8 :: "string \<Rightarrow> string res" where
  "decode_utf8 b = (if utf8_valid b then Inr b else Inl (PyExn ''UnicodeDecodeError''))"

lemma utf8_valid_ascii: "\<forall>c \<in> set s. of_char c < (128::nat) \<Longrightarrow> utf8_valid s"
  by (induction s) (auto simp: utf8_conts_def in_range_def)

subsection \<open>Decimal numerals: \<open>str(n)\<close> and \<open>int(s)\<close>\<close>

definition digit_char :: "nat \<Rightarrow> char" where
  "digit_char n = ''0123456789'' ! n"

definition is_digit :: "char \<Rightarrow> bool" where
  "is_digit c \<longleftrightarrow> 48 \<le> (of_char c :: nat) \<and> (of_char c :: nat) \<le> 57"

definition digit_val :: "char \<Rightarrow> nat" where
  "digit_val c = of_char c - 48"

fun dec_nat :: "nat \<Rightarrow> string" where
  "dec_nat n = (if n < 10 then [digit_char n] else dec_nat (n div 10) @ [digit_char (n mod 10)])"

declare dec_nat.simps [simp del]

definition dec_int :: "int \<Rightarrow> string" where
  "dec_int i = (if i < 0 then CHR ''-'' # dec_nat (nat (- i)) else dec_nat (nat i))"

text \<open>Digits of \<open>int(s)\<close>: single underscores are allowed between two digits.\<close>

fun parse_digits :: "nat \<Rightarrow> string \<Rightarrow> nat option" where
  "parse_digits acc [] = Some acc"
| "parse_digits acc (c # cs) =
     (if c = CHR ''_'' then
        (case cs of [] \<Rightarrow> None
         | d # ds \<Rightarrow> if is_digit d then parse_digits (acc * 10 + digit_val d) ds else None)
      else if is_digit c then parse_digits (acc * 10 + digit_val c) cs
      else None)"

definition parse_nat :: "string \<Rightarrow> nat option" where
  "parse_nat s = (case s of [] \<Rightarrow> None
     | c # cs \<Rightarrow> if is_digit c then parse_digits (digit_val c) cs else None)"

definition py_int :: "string \<Rightarrow> int option" where
  "py_int s =
     (case strip s of [] \<Rightarrow> None
      | c # cs \<Rightarrow> if c = CHR ''-'' then map_option (\<lambda>n. - int n) (parse_nat cs)
                 else if c = CHR ''+'' then map_option int (parse_nat cs)
                 else map_option int (parse_nat (c # cs)))"

lemma less_10_cases: "(n::nat) < 10 \<Longrightarrow> n \<in> {0, 1, 2, 3, 4, 5, 6, 7, 8, 9}"
  by (simp, presburger)

lemma digit_char_simps [simp]:
  "n < 10 \<Longrightarrow> is_digit (digit_char n)"
  "n < 10 \<Longrightarrow> digit_val (digit_char n) = n"
  by (drule less_10_cases; auto simp: digit_char_def is_digit_def digit_val_def)+

lemma dec_nat_digits: "c \<in> set (dec_nat n) \<Longrightarrow> is_digit c"
proof (induction n rule: dec_nat.induct)
  case (1 n)
  show ?case
  proof (cases "n < 10")
    case True
    then show ?thesis using 1 by (simp add: dec_nat.simps [of n])
  next
    case False
    then show ?thesis using 1 by (auto simp: dec_nat.simps [of n])
  qed
qed

lemma dec_nat_nonempty [simp]: "dec_nat n \<noteq> []"
  by (subst dec_nat.simps) simp

lemma is_digit_facts:
  assumes "is_digit c"
  shows "c \<noteq> CHR ''_''" "c \<noteq> CHR ''-''" "c \<noteq> CHR ''+''" "c \<noteq> CHR '':''" "\<not> is_space c"
  using assms by (auto simp: is_digit_def is_space_def)

lemma parse_digits_append:
  assumes "\<forall>c \<in> set xs. is_digit c"
  shows "parse_digits acc (xs @ ys) = parse_digits (foldl (\<lambda>a c. a * 10 + digit_val c) acc xs) ys"
  using assms by (induction xs arbitrary: acc) (auto simp: is_digit_facts)

lemma foldl_dec_nat:
  "foldl (\<lambda>a c. a * 10 + digit_val c) 0 (dec_nat n) = n"
proof (induction n rule: dec_nat.induct)
  case (1 n)
  show ?case
  proof (cases "n < 10")
    case True
    then show ?thesis by (simp add: dec_nat.simps [of n])
  next
    case False
    then show ?thesis using 1 by (simp add: dec_nat.simps [of n])
  qed
qed

lemma parse_nat_dec_nat [simp]: "parse_nat (dec_nat n) = Some n"
proof -
  obtain c cs where c: "dec_nat n = c # cs"
    by (cases "dec_nat n") simp_all
  have d: "\<forall>x \<in> set (c # cs). is_digit x"
    using dec_nat_digits [of _ n] c by auto
  have "foldl (\<lambda>a c. a * 10 + digit_val c) (digit_val c) cs = n"
    using foldl_dec_nat [of n] c by simp
  with d parse_digits_append [of cs "digit_val c" "[]"] show ?thesis
    by (simp add: c parse_nat_def)
qed

lemma dec_int_no_space: "c \<in> set (dec_int i) \<Longrightarrow> \<not> is_space c"
  using is_digit_facts(5) [OF dec_nat_digits]
  by (auto simp: dec_int_def split: if_splits) (auto simp: is_space_def)

lemma dec_int_chars: "c \<in> set (dec_int i) \<Longrightarrow> is_digit c \<or> c = CHR ''-''"
  by (auto simp: dec_int_def dec_nat_digits split: if_splits)

lemma strip_dec_int [simp]: "strip (dec_int i) = dec_int i"
  by (rule strip_no_space) (auto dest: dec_int_no_space)

lemma py_int_dec_int [simp]: "py_int (dec_int i) = Some i"
proof (cases "i < 0")
  case True
  with strip_dec_int [of i] have "strip (CHR ''-'' # dec_nat (nat (- i))) = CHR ''-'' # dec_nat (nat (- i))"
    by (simp add: dec_int_def)
  with True show ?thesis by (simp add: py_int_def dec_int_def)
next
  case False
  obtain c cs where c: "dec_nat (nat i) = c # cs"
    by (cases "dec_nat (nat i)") simp_all
  then have "is_digit c" using dec_nat_digits [of c "nat i"] by simp
  then have "c \<noteq> CHR ''-''" "c \<noteq> CHR ''+''" by (simp_all add: is_digit_facts)
  moreover have "strip (c # cs) = c # cs"
    using strip_dec_int [of i] False c by (simp add: dec_int_def)
  moreover have "parse_nat (c # cs) = Some (nat i)"
    using parse_nat_dec_nat [of "nat i"] c by simp
  ultimately show ?thesis using False c by (simp add: py_int_def dec_int_def)
qed

lemma dec_nat_inj: "dec_nat a = dec_nat b \<Longrightarrow> a = b"
  by (metis option.inject parse_nat_dec_nat)

subsection \<open>Hexadecimal: \<open>b.hex()\<close> and \<open>bytes.fromhex(s)\<close>\<close>

definition hex_digit :: "nat \<Rightarrow> char" where
  "hex_digit n = ''0123456789abcdef'' ! n"

definition hex_val :: "char \<Rightarrow> nat option" where
  "hex_val c = (let n = of_char c in
     if 48 \<le> n \<and> n \<le> 57 then Some (n - 48)
     else if 97 \<le> n \<and> n \<le> 102 then Some (n - 87)
     else if 65 \<le> n \<and> n \<le> 70 then Some (n - 55)
     else None)"

definition to_hex :: "string \<Rightarrow> string" where
  "to_hex b = concat (map (\<lambda>c. [hex_digit (of_char c div 16), hex_digit (of_char c mod 16)]) b)"

text \<open>White space is skipped between bytes, not inside one.\<close>

fun from_hex :: "string \<Rightarrow> string option" where
  "from_hex [] = Some []"
| "from_hex (c # cs) =
     (if is_space c then from_hex cs
      else (case cs of [] \<Rightarrow> None
            | d # ds \<Rightarrow>
               (case (hex_val c, hex_val d) of
                  (Some h, Some l) \<Rightarrow> map_option (\<lambda>r. char_of (16 * h + l) # r) (from_hex ds)
                | _ \<Rightarrow> None)))"

lemma less_16_cases: "(n::nat) < 16 \<Longrightarrow> n \<in> {0, 1, 2, 3, 4, 5, 6, 7, 8, 9, 10, 11, 12, 13, 14, 15}"
  by (simp, presburger)

lemma hex_val_hex_digit [simp]: "n < 16 \<Longrightarrow> hex_val (hex_digit n) = Some n"
  by (drule less_16_cases; auto simp: hex_val_def hex_digit_def)

lemma hex_digit_not_space [simp]: "n < 16 \<Longrightarrow> \<not> is_space (hex_digit n)"
  by (drule less_16_cases; auto simp: is_space_def hex_digit_def)

lemma of_char_less [simp]: "(of_char c :: nat) < 256"
  by (metis char_of_char of_char_of mod_less_divisor zero_less_numeral)

lemma from_hex_to_hex [simp]: "from_hex (to_hex b) = Some b"
proof (induction b)
  case Nil
  then show ?case by (simp add: to_hex_def)
next
  case (Cons c b)
  have "(of_char c :: nat) div 16 < 16"
    using of_char_less [of c] by linarith
  then show ?case using Cons by (simp add: to_hex_def)
qed

subsection \<open>Octets of an integer: \<open>n.to_bytes(4, "big")\<close>\<close>

definition to_bytes4 :: "int \<Rightarrow> string res" where
  "to_bytes4 n =
     (if n < 0 \<or> 2 ^ 32 \<le> n then Inl (PyExn ''OverflowError'')
      else Inr (map char_of [nat n div 2 ^ 24, nat n div 2 ^ 16 mod 256, nat n div 2 ^ 8 mod 256, nat n mod 256]))"

lemma be4_unique:
  fixes m n :: nat
  assumes "m div 16777216 = n div 16777216" "m div 65536 mod 256 = n div 65536 mod 256"
    "m div 256 mod 256 = n div 256 mod 256" "m mod 256 = n mod 256"
  shows "m = n"
proof -
  have step: "k = 256 * (k div 256) + k mod 256" for k :: nat by simp
  have dd: "k div 256 div 256 = k div 65536" "k div 65536 div 256 = k div 16777216" for k :: nat
    by (simp_all add: div_mult2_eq [symmetric])
  have "m div 65536 = n div 65536"
    using step [of "m div 65536"] step [of "n div 65536"] assms(1,2) by (simp add: dd)
  then have "m div 256 = n div 256"
    using step [of "m div 256"] step [of "n div 256"] assms(3) by (simp add: dd)
  then show ?thesis using step [of m] step [of n] assms(4) by simp
qed

lemma char_of_inj: "m < 256 \<Longrightarrow> n < 256 \<Longrightarrow> (char_of (m::nat) :: char) = char_of (n::nat) \<Longrightarrow> m = n"
  by (metis mod_less of_char_of)

lemma to_bytes4_inj:
  assumes "to_bytes4 a = Inr x" and "to_bytes4 b = Inr x"
  shows "a = b"
proof -
  from assms have r: "0 \<le> a" "a < 4294967296" "0 \<le> b" "b < 4294967296"
    and eq: "x = map char_of [nat a div 16777216, nat a div 65536 mod 256, nat a div 256 mod 256, nat a mod 256]"
      "x = map char_of [nat b div 16777216, nat b div 65536 mod 256, nat b div 256 mod 256, nat b mod 256]"
    by (auto simp: to_bytes4_def split: if_splits)
  have d: "nat a div 16777216 < 256" "nat b div 16777216 < 256"
    using r by (simp_all add: less_mult_imp_div_less)
  have "nat a div 16777216 = nat b div 16777216"
    using eq by (intro char_of_inj d) simp
  moreover have "nat a div 65536 mod 256 = nat b div 65536 mod 256"
    using eq by (intro char_of_inj) simp_all
  moreover have "nat a div 256 mod 256 = nat b div 256 mod 256"
    using eq by (intro char_of_inj) simp_all
  moreover have "nat a mod 256 = nat b mod 256"
    using eq by (intro char_of_inj) simp_all
  ultimately have "nat a = nat b" by (rule be4_unique)
  with r show ?thesis by simp
qed

text \<open>To evaluate the character classes on literals.\<close>

lemmas char_eval = in_range_def utf8_conts_def is_cont_def is_space_def is_digit_def digit_val_def hex_val_def lower_char_def

lemmas string_eval = char_eval strip_def lstrip_def rstrip_def py_int_def parse_nat_def

lemma py_int_0 [simp]: "py_int ''0'' = Some 0"
  by (simp add: string_eval)

subsection \<open>Text files\<close>

text \<open>
  Universal newlines of a file opened in text mode, and its lines with their ends, as
  \<open>readlines\<close> and iteration give them.
\<close>

definition NL :: char where "NL = CHR 0x0A"
definition CR :: char where "CR = CHR 0x0D"

fun univ_nl :: "string \<Rightarrow> string" where
  "univ_nl [] = []"
| "univ_nl (c # cs) =
     (if c = CR then NL # (case cs of [] \<Rightarrow> [] | d # ds \<Rightarrow> if d = NL then univ_nl ds else univ_nl cs)
      else c # univ_nl cs)"

fun lines_keep :: "string \<Rightarrow> string list" where
  "lines_keep [] = []"
| "lines_keep (c # cs) =
     (if c = NL then [c] # lines_keep cs
      else (case lines_keep cs of [] \<Rightarrow> [[c]] | l # ls \<Rightarrow> (c # l) # ls))"

definition file_lines :: "string \<Rightarrow> string list" where
  "file_lines s = lines_keep (univ_nl s)"

lemma concat_lines_keep [simp]: "concat (lines_keep s) = s"
proof (induction s)
  case (Cons c cs)
  then show ?case by (cases "lines_keep cs") auto
qed simp

lemma lines_keep_append: "NL \<notin> set l \<Longrightarrow> lines_keep (l @ NL # s) = (l @ [NL]) # lines_keep s"
  by (induction l) auto

lemma lines_keep_no_nl: "NL \<notin> set l \<Longrightarrow> l \<noteq> [] \<Longrightarrow> lines_keep l = [l]"
proof (induction l)
  case (Cons c l)
  then show ?case by (cases l) auto
qed simp

text \<open>A list of complete lines is read back as written.\<close>

definition full_line :: "string \<Rightarrow> bool" where
  "full_line l \<longleftrightarrow> (\<exists>b. l = b @ [NL] \<and> NL \<notin> set b \<and> CR \<notin> set b)"

lemma lines_keep_concat: "\<forall>l \<in> set ls. full_line l \<Longrightarrow> lines_keep (concat ls) = ls"
proof (induction ls)
  case (Cons l ls)
  then obtain b where "l = b @ [NL]" "NL \<notin> set b" by (auto simp: full_line_def)
  with Cons show ?case by (simp add: lines_keep_append)
qed simp

lemma univ_nl_no_cr: "CR \<notin> set s \<Longrightarrow> univ_nl s = s"
  by (induction s rule: univ_nl.induct) auto

lemma file_lines_concat: "\<forall>l \<in> set ls. full_line l \<Longrightarrow> file_lines (concat ls) = ls"
proof -
  assume h: "\<forall>l \<in> set ls. full_line l"
  have "CR \<noteq> NL" by (simp add: CR_def NL_def)
  with h have "CR \<notin> set (concat ls)" by (fastforce simp: full_line_def)
  then show ?thesis using h by (simp add: file_lines_def univ_nl_no_cr lines_keep_concat)
qed

end
