(* ===== verification/PyValue.thy ===== *)
theory PyValue
  imports Prelude Complex_Main "HOL-Library.Countable"
begin

text \<open>
  Dynamic Python values (what \<open>json.loads\<close>, \<open>msgpack.unpackb\<close> and \<open>yaml.safe_load\<close>
  return and what handlers hand back), the operations the code applies to them, and the
  record \<open>ext\<close> of the functions that are not part of the repository (msgpack, PyYAML, and the
  digests and JSON codec of the standard library). The locale \<open>codec\<close> states what the code
  relies on: decoding inverts encoding, an encoding is never empty, a digest has 32 bytes.

  Dict keys are strings; finite floats are rationals (infinities and NaN are not represented).
\<close>

subsection \<open>Values\<close>

datatype pyval =
    PNone
  | PBool bool
  | PInt int
  | PFloat rat
  | PStr string
  | PBytes string
  | PList "pyval list"
  | PDict "(string \<times> pyval) list"
  | PExt int string

instance pyval :: countable
  by countable_datatype

definition truthy :: "pyval \<Rightarrow> bool" where
  "truthy v = (case v of
     PNone \<Rightarrow> False | PBool b \<Rightarrow> b | PInt i \<Rightarrow> i \<noteq> 0 | PFloat r \<Rightarrow> r \<noteq> 0
   | PStr s \<Rightarrow> s \<noteq> [] | PBytes s \<Rightarrow> s \<noteq> [] | PList xs \<Rightarrow> xs \<noteq> [] | PDict d \<Rightarrow> d \<noteq> []
   | PExt _ _ \<Rightarrow> True)"

lemma truthy_simps [simp]:
  "\<not> truthy PNone" "truthy (PBool b) = b" "truthy (PInt i) = (i \<noteq> 0)"
  "truthy (PFloat r) = (r \<noteq> 0)" "truthy (PStr s) = (s \<noteq> [])" "truthy (PBytes s) = (s \<noteq> [])"
  "truthy (PList xs) = (xs \<noteq> [])" "truthy (PDict d) = (d \<noteq> [])" "truthy (PExt t s)"
  by (simp_all add: truthy_def)

text \<open>\<open>isinstance\<close> tests; a Python \<open>bool\<close> is also an \<open>int\<close>.\<close>

definition is_dict :: "pyval \<Rightarrow> bool" where
  "is_dict v = (case v of PDict _ \<Rightarrow> True | _ \<Rightarrow> False)"

definition is_str :: "pyval \<Rightarrow> bool" where
  "is_str v = (case v of PStr _ \<Rightarrow> True | _ \<Rightarrow> False)"

definition is_list :: "pyval \<Rightarrow> bool" where
  "is_list v = (case v of PList _ \<Rightarrow> True | _ \<Rightarrow> False)"

lemma is_type_simps [simp]:
  "is_dict (PDict d)" "is_str (PStr s)" "is_list (PList xs)"
  "\<not> is_dict PNone" "\<not> is_dict (PBool b)" "\<not> is_dict (PInt i)" "\<not> is_dict (PFloat r)"
  "\<not> is_dict (PStr s)" "\<not> is_dict (PBytes s)" "\<not> is_dict (PList xs)" "\<not> is_dict (PExt t s)"
  "\<not> is_str PNone" "\<not> is_str (PBool b)" "\<not> is_str (PInt i)" "\<not> is_str (PFloat r)"
  "\<not> is_str (PDict d)" "\<not> is_str (PBytes s)" "\<not> is_str (PList xs)" "\<not> is_str (PExt t s)"
  "\<not> is_list PNone" "\<not> is_list (PBool b)" "\<not> is_list (PInt i)" "\<not> is_list (PFloat r)"
  "\<not> is_list (PDict d)" "\<not> is_list (PBytes s)" "\<not> is_list (PStr s)" "\<not> is_list (PExt t s)"
  by (simp_all add: is_dict_def is_str_def is_list_def)

lemma is_dict_iff: "is_dict v \<longleftrightarrow> (\<exists>d. v = PDict d)"
  by (cases v) simp_all

text \<open>\<open>v.get(k, default)\<close>: any value that is not a dict has no \<open>get\<close>.\<close>

definition dget_or :: "pyval \<Rightarrow> string \<Rightarrow> pyval \<Rightarrow> pyval res" where
  "dget_or v k dflt = (case v of
     PDict d \<Rightarrow> Inr (case map_of d k of None \<Rightarrow> dflt | Some x \<Rightarrow> x)
   | _ \<Rightarrow> Inl (PyExn ''AttributeError''))"

lemma dget_or_simps [simp]:
  "dget_or (PDict d) k dflt = Inr (case map_of d k of None \<Rightarrow> dflt | Some x \<Rightarrow> x)"
  by (simp add: dget_or_def)

text \<open>\<open>d.get(k)\<close> where \<open>d\<close> is already known to be a dict: \<open>PNone\<close> when the key is absent.\<close>

definition dval :: "(string \<times> pyval) list \<Rightarrow> string \<Rightarrow> pyval" where
  "dval d k = (case map_of d k of None \<Rightarrow> PNone | Some x \<Rightarrow> x)"

lemma dval_simps [simp]:
  "dval [] k = PNone"
  "dval ((k', v) # d) k = (if k = k' then v else dval d k)"
  by (auto simp: dval_def)

text \<open>\<open>for x in v\<close>: lists are iterated; a dict gives its keys, a string its characters.\<close>

definition py_iter :: "pyval \<Rightarrow> pyval list res" where
  "py_iter v = (case v of
     PList xs \<Rightarrow> Inr xs
   | PDict d \<Rightarrow> Inr (map (\<lambda>(k, _). PStr k) d)
   | PStr s \<Rightarrow> Inr (map (\<lambda>c. PStr [c]) s)
   | PBytes s \<Rightarrow> Inr (map (\<lambda>c. PInt (of_char c)) s)
   | _ \<Rightarrow> Inl (PyExn ''TypeError''))"

lemma py_iter_list [simp]: "py_iter (PList xs) = Inr xs"
  by (simp add: py_iter_def)

subsection \<open>What the codecs can carry\<close>

text \<open>Values JSON represents exactly: no bytes, no ext types, distinct keys.\<close>

fun json_ok :: "pyval \<Rightarrow> bool" where
  "json_ok (PBytes _) = False"
| "json_ok (PExt _ _) = False"
| "json_ok (PStr s) = utf8_valid s"
| "json_ok (PList xs) = (\<forall>x \<in> set xs. json_ok x)"
| "json_ok (PDict d) = (distinct (map fst d) \<and> (\<forall>(k, x) \<in> set d. utf8_valid k \<and> json_ok x))"
| "json_ok _ = True"

text \<open>Values msgpack represents exactly: 64-bit integers, valid text, distinct keys.\<close>

fun mp_ok :: "pyval \<Rightarrow> bool" where
  "mp_ok (PInt i) = (- (2 ^ 63) \<le> i \<and> i < 2 ^ 64)"
| "mp_ok (PStr s) = utf8_valid s"
| "mp_ok (PExt t b) = (0 \<le> t \<and> t < 128)"
| "mp_ok (PList xs) = (\<forall>x \<in> set xs. mp_ok x)"
| "mp_ok (PDict d) = (distinct (map fst d) \<and> (\<forall>(k, x) \<in> set d. utf8_valid k \<and> mp_ok x))"
| "mp_ok _ = True"

subsection \<open>Functions outside the repository\<close>

record ext =
  e_packb :: "pyval \<Rightarrow> string option"        \<comment> \<open>\<open>msgpack.packb(v)\<close>; \<open>None\<close>: it raises\<close>
  e_unpackb :: "string \<Rightarrow> pyval option"      \<comment> \<open>\<open>msgpack.unpackb(b, raw=False)\<close>\<close>
  e_unpackb_raw :: "string \<Rightarrow> pyval option"  \<comment> \<open>\<open>msgpack.unpackb(b, raw=True)\<close>\<close>
  e_yaml :: "string \<Rightarrow> pyval option"         \<comment> \<open>\<open>yaml.safe_load(s)\<close>; \<open>None\<close>: \<open>YAMLError\<close>\<close>
  e_dumps :: "pyval \<Rightarrow> string"               \<comment> \<open>\<open>json.dumps(v)\<close>\<close>
  e_dumps_compact :: "pyval \<Rightarrow> string"       \<comment> \<open>\<open>json.dumps(v, separators=(",", ":"))\<close>\<close>
  e_dumps_sorted :: "pyval \<Rightarrow> string"        \<comment> \<open>\<open>json.dumps(v, sort_keys=True)\<close>\<close>
  e_dumps_str :: "pyval \<Rightarrow> string"           \<comment> \<open>\<open>json.dumps(v, default=str)\<close>\<close>
  e_loads :: "string \<Rightarrow> pyval option"        \<comment> \<open>\<open>json.loads(s)\<close>; \<open>None\<close>: \<open>ValueError\<close>\<close>
  e_hmac :: "string \<Rightarrow> string \<Rightarrow> string"     \<comment> \<open>HMAC-SHA256 digest of key and message\<close>
  e_sha256 :: "string \<Rightarrow> string"             \<comment> \<open>SHA-256 digest\<close>
  e_repr :: "pyval \<Rightarrow> string"                \<comment> \<open>\<open>str(v)\<close> of floats, bytes, containers\<close>

subsubsection \<open>\<open>str(v)\<close> and \<open>int(v)\<close>\<close>

definition py_str :: "ext \<Rightarrow> pyval \<Rightarrow> string" where
  "py_str E v = (case v of
     PNone \<Rightarrow> ''None'' | PBool b \<Rightarrow> (if b then ''True'' else ''False'')
   | PInt i \<Rightarrow> dec_int i | PStr s \<Rightarrow> s | _ \<Rightarrow> e_repr E v)"

lemma py_str_simps [simp]: "py_str E (PInt i) = dec_int i" "py_str E (PStr s) = s"
  by (simp_all add: py_str_def)

text \<open>\<open>int(v)\<close>; \<open>None\<close> when it raises.\<close>

definition trunc :: "rat \<Rightarrow> int" where
  "trunc r = (if r < 0 then - \<lfloor>- r\<rfloor> else \<lfloor>r\<rfloor>)"

definition py_to_int :: "pyval \<Rightarrow> int option" where
  "py_to_int v = (case v of
     PInt i \<Rightarrow> Some i | PBool b \<Rightarrow> Some (if b then 1 else 0) | PFloat r \<Rightarrow> Some (trunc r)
   | PStr s \<Rightarrow> py_int s | PBytes s \<Rightarrow> py_int s | _ \<Rightarrow> None)"

lemma py_to_int_simps [simp]: "py_to_int (PInt i) = Some i" "py_to_int (PStr s) = py_int s"
  by (simp_all add: py_to_int_def)

subsubsection \<open>What the code relies on\<close>

locale codec =
  fixes E :: ext
  assumes packb_ok: "mp_ok v \<Longrightarrow> \<exists>b. e_packb E v = Some b"
    and unpackb_packb: "e_packb E v = Some b \<Longrightarrow> e_unpackb E b = Some v"
    and raw_packb_str: "e_packb E (PStr s) = Some b \<Longrightarrow> e_unpackb_raw E b = Some (PBytes s)"
    and raw_packb_bytes: "e_packb E (PBytes s) = Some b \<Longrightarrow> e_unpackb_raw E b = Some (PBytes s)"
    and packb_nonempty: "e_packb E v = Some b \<Longrightarrow> b \<noteq> []"
    and loads_dumps: "json_ok v \<Longrightarrow> e_loads E (e_dumps E v) = Some v"
    and dumps_nonempty: "e_dumps E v \<noteq> []"
    and dumps_ascii: "c \<in> set (e_dumps E v) \<Longrightarrow> (of_char c :: nat) < 128"
    and repr_num: "py_to_int v \<noteq> None \<Longrightarrow> CHR '':'' \<notin> set (e_repr E v) \<and> e_repr E v \<noteq> dec_int i"
    and hmac_len: "length (e_hmac E k m) = 32"
    and sha256_len: "length (e_sha256 E m) = 32"
begin

lemma packb_cases:
  obtains (fail) "e_packb E v = None"
  | (packed) b where "e_packb E v = Some b" "e_unpackb E b = Some v" "b \<noteq> []"
  using unpackb_packb packb_nonempty by (cases "e_packb E v") auto

lemma packb_inj: "e_packb E v = Some b \<Longrightarrow> e_packb E w = Some b \<Longrightarrow> v = w"
  by (metis option.inject unpackb_packb)

end

subsection \<open>A concrete instance, to show that the laws can hold\<close>

text \<open>
  Values are numbered (the type is countable) and written in unary. The instance serves the
  witnesses only; every theorem holds for any functions that satisfy the laws.
\<close>

definition unary :: "pyval \<Rightarrow> string" where
  "unary v = replicate (Suc (to_nat v)) CHR ''x''"

definition of_unary :: "string \<Rightarrow> pyval" where
  "of_unary b = from_nat (length b - 1)"

definition raw_of :: "pyval \<Rightarrow> pyval" where
  "raw_of v = (case v of PStr s \<Rightarrow> PBytes s | _ \<Rightarrow> v)"

definition ref_ext :: ext where
  "ref_ext = \<lparr>
     e_packb = (\<lambda>v. if mp_ok v then Some (unary v) else None),
     e_unpackb = (\<lambda>b. if b = [] then None else Some (of_unary b)),
     e_unpackb_raw = (\<lambda>b. if b = [] then None else Some (raw_of (of_unary b))),
     e_yaml = (\<lambda>s. if s = [] then None else Some (PDict [])),
     e_dumps = unary,
     e_dumps_compact = unary,
     e_dumps_sorted = unary,
     e_dumps_str = unary,
     e_loads = (\<lambda>s. if s = [] then None else Some (of_unary s)),
     e_hmac = (\<lambda>k m. take 32 (m @ k @ replicate 32 CHR ''#'')),
     e_sha256 = (\<lambda>m. take 32 (m @ replicate 32 CHR ''#'')),
     e_repr = unary \<rparr>"

lemma of_unary_unary [simp]: "of_unary (unary v) = v"
  by (simp add: of_unary_def unary_def)

lemma unary_nonempty [simp]: "unary v \<noteq> []"
  by (simp add: unary_def)

lemma unary_not_dec_int: "unary v \<noteq> dec_int i"
proof
  assume "unary v = dec_int i"
  then have "hd (dec_int i) = CHR ''x''" by (metis unary_def replicate_Suc list.sel(1))
  moreover have "hd (dec_int i) \<in> set (dec_int i)"
    using unary_nonempty [of v] \<open>unary v = dec_int i\<close> by (metis hd_in_set)
  ultimately show False
    using dec_nat_digits [of "CHR ''x''"] by (auto simp: dec_int_def is_digit_def split: if_splits)
qed

interpretation ref_codec: codec ref_ext
proof
  show "py_to_int v \<noteq> None \<Longrightarrow> CHR '':'' \<notin> set (e_repr ref_ext v) \<and> e_repr ref_ext v \<noteq> dec_int i" for v i
    using unary_not_dec_int [of v i] by (simp add: ref_ext_def) (simp add: unary_def)
  show "c \<in> set (e_dumps ref_ext v) \<Longrightarrow> (of_char c :: nat) < 128" for c v
    by (simp add: ref_ext_def unary_def del: replicate_Suc)
qed (auto simp: ref_ext_def raw_of_def split: if_splits)

end
