(* ===== verification/Security.thy ===== *)
theory Security
  imports PyValue "HOL-Library.Word"
begin

unbundle bit_operations_syntax

text \<open>
  \<open>backend/src/core/security.py\<close>: request signatures, the replay window and the HMAC
  keystream cipher of encrypted values; and the client's copy of the cipher,
  \<open>_kvenc_xor\<close> of \<open>tools/stra2us_cli/client.py\<close>.

  HMAC-SHA256 is the function \<open>e_hmac\<close> of the parameter record; the only law used of it is
  that a digest has 32 bytes. The lemmas give the closed form of both keystream loops, the
  exact length bound of the server's loop and that the two loops agree.
\<close>

subsection \<open>Signatures\<close>

text \<open>\<open>secrets.token_hex(32)\<close>: the 32 random bytes are the argument.\<close>

definition generate_secret :: "string \<Rightarrow> string" where
  "generate_secret token_bytes = to_hex token_bytes"

definition from_hex_res :: "string \<Rightarrow> string res" where
  "from_hex_res s = (case from_hex s of None \<Rightarrow> Inl (PyExn ''ValueError'') | Some b \<Rightarrow> Inr b)"

lemma generate_secret_usable:
  "from_hex_res (generate_secret b) = Inr b" "length (generate_secret b) = 2 * length b"
proof -
  show "from_hex_res (generate_secret b) = Inr b" by (simp add: from_hex_res_def generate_secret_def)
  show "length (generate_secret b) = 2 * length b"
    unfolding generate_secret_def to_hex_def by (induction b) simp_all
qed

definition calculate_signature :: "ext \<Rightarrow> string \<Rightarrow> string \<Rightarrow> string res" where
  "calculate_signature E secret_hex payload =
     bind_res (from_hex_res secret_hex) (\<lambda>secret. Inr (to_hex (e_hmac E secret payload)))"

definition sign_payload :: "ext \<Rightarrow> string \<Rightarrow> string \<Rightarrow> string \<Rightarrow> int \<Rightarrow> string res" where
  "sign_payload E secret_hex uri body timestamp =
     calculate_signature E secret_hex (uri @ body @ dec_int timestamp)"

text \<open>
  \<open>hmac.compare_digest\<close> on two \<open>str\<close> arguments: equality in constant time, but a
  \<open>TypeError\<close> when one of them is not ASCII.
\<close>

definition ascii :: "string \<Rightarrow> bool" where
  "ascii s \<longleftrightarrow> (\<forall>c \<in> set s. (of_char c :: nat) < 128)"

definition compare_digest :: "string \<Rightarrow> string \<Rightarrow> bool res" where
  "compare_digest a b = (if ascii a \<and> ascii b then Inr (a = b) else Inl (PyExn ''TypeError''))"

definition verify_signature :: "ext \<Rightarrow> string \<Rightarrow> string \<Rightarrow> string \<Rightarrow> int \<Rightarrow> string \<Rightarrow> bool res" where
  "verify_signature E secret_hex uri body timestamp signature =
     bind_res (sign_payload E secret_hex uri body timestamp)
       (\<lambda>expected_mac. compare_digest expected_mac signature)"

definition verify_timestamp :: "int \<Rightarrow> int \<Rightarrow> bool" where
  "verify_timestamp now timestamp \<longleftrightarrow> \<bar>now - timestamp\<bar> \<le> 300"

lemma ascii_to_hex [simp]: "ascii (to_hex b)"
proof -
  have h: "(of_char (hex_digit n) :: nat) < 128" if "n < 16" for n
    using that by (drule_tac less_16_cases) (auto simp: hex_digit_def)
  have "(of_char c :: nat) div 16 < 16" for c
    using of_char_less [of c] by linarith
  with h show ?thesis by (auto simp: ascii_def to_hex_def)
qed

lemma from_hex_res_Inr [simp]: "from_hex_res s = Inr b \<longleftrightarrow> from_hex s = Some b"
  by (simp add: from_hex_res_def split: option.splits)

lemma sign_payload_Inr:
  "sign_payload E sk uri body ts = Inr sig \<longleftrightarrow>
   (\<exists>b. from_hex sk = Some b \<and> sig = to_hex (e_hmac E b (uri @ body @ dec_int ts)))"
  by (auto simp: sign_payload_def calculate_signature_def bind_res_Inr_iff)

lemma verify_signature_Inr_True:
  "verify_signature E sk uri body ts sig = Inr True \<longleftrightarrow> sign_payload E sk uri body ts = Inr sig"
  by (auto simp: verify_signature_def bind_res_Inr_iff compare_digest_def sign_payload_Inr
      split: if_splits)

subsection \<open>The keystream cipher\<close>

definition KVENC_LABEL :: string where
  "KVENC_LABEL = ''stra2us-kvenc-v1''"

definition KVENC_EXT_TYPE :: int where
  "KVENC_EXT_TYPE = 0x21"

text \<open>The loop of \<open>kvenc_keystream\<close>; the counter is tested after each block.\<close>

function ks_loop :: "ext \<Rightarrow> string \<Rightarrow> string \<Rightarrow> nat \<Rightarrow> nat \<Rightarrow> string \<Rightarrow> string res" where
  "ks_loop E secret nonce_bytes len counter out =
     (if length out < len then
        let block = e_hmac E secret (KVENC_LABEL @ nonce_bytes @ [char_of counter]);
            out' = out @ block;
            counter' = counter + 1
        in if 255 < counter' then Inl (PyExn ''ValueError'')
           else ks_loop E secret nonce_bytes len counter' out'
      else Inr (take len out))"
  by pat_completeness auto
termination by (relation "measure (\<lambda>(E, s, nb, len, c, out). 256 - c)") auto

declare ks_loop.simps [simp del]

definition kvenc_keystream :: "ext \<Rightarrow> string \<Rightarrow> int \<Rightarrow> nat \<Rightarrow> string res" where
  "kvenc_keystream E secret_hex nonce len =
     bind_res (from_hex_res secret_hex) (\<lambda>secret.
     bind_res (to_bytes4 nonce) (\<lambda>nonce_bytes.
     ks_loop E secret nonce_bytes len 0 []))"

definition xor_char :: "char \<Rightarrow> char \<Rightarrow> char" where
  "xor_char a b = char_of ((of_char a :: nat) XOR of_char b)"

definition xor_bytes :: "string \<Rightarrow> string \<Rightarrow> string" where
  "xor_bytes xs ys = map (\<lambda>(a, b). xor_char a b) (zip xs ys)"

definition kvenc_xor :: "ext \<Rightarrow> string \<Rightarrow> int \<Rightarrow> string \<Rightarrow> string res" where
  "kvenc_xor E secret_hex nonce data =
     bind_res (kvenc_keystream E secret_hex nonce (length data)) (\<lambda>ks. Inr (xor_bytes data ks))"

text \<open>
  The client's copy takes the secret as bytes and has no counter test of its own:
  \<open>bytes([counter])\<close> raises once the counter leaves the range of a byte.
\<close>

function client_ks_loop :: "ext \<Rightarrow> string \<Rightarrow> string \<Rightarrow> nat \<Rightarrow> nat \<Rightarrow> string \<Rightarrow> string res" where
  "client_ks_loop E secret nonce_bytes len counter out =
     (if length out < len then
        if 255 < counter then Inl (PyExn ''ValueError'')
        else client_ks_loop E secret nonce_bytes len (counter + 1)
               (out @ e_hmac E secret (KVENC_LABEL @ nonce_bytes @ [char_of counter]))
      else Inr (take len out))"
  by pat_completeness auto
termination by (relation "measure (\<lambda>(E, s, nb, len, c, out). 256 - c)") auto

declare client_ks_loop.simps [simp del]

definition client_kvenc_xor :: "ext \<Rightarrow> string \<Rightarrow> int \<Rightarrow> string \<Rightarrow> string res" where
  "client_kvenc_xor E secret nonce data =
     bind_res (to_bytes4 nonce) (\<lambda>nonce_bytes.
     bind_res (client_ks_loop E secret nonce_bytes (length data) 0 []) (\<lambda>out.
     Inr (xor_bytes data out)))"

subsection \<open>The XOR of byte strings is an involution\<close>

lemma of_char_xor_char: "(of_char (xor_char a b) :: nat) = of_char a XOR of_char b"
proof -
  have "take_bit 8 (of_char a XOR of_char b :: nat) = of_char a XOR of_char b"
    by (simp add: take_bit_xor take_bit_nat_eq_self)
  then show ?thesis
    by (simp add: xor_char_def take_bit_eq_mod)
qed

lemma xor_char_cancel [simp]: "xor_char (xor_char a b) b = a"
proof -
  have "(of_char (xor_char (xor_char a b) b) :: nat) = of_char a"
    by (simp add: of_char_xor_char xor.assoc)
  then show ?thesis by (metis char_of_char)
qed

lemma length_xor_bytes [simp]: "length (xor_bytes xs ys) = min (length xs) (length ys)"
  by (simp add: xor_bytes_def)

lemma xor_bytes_cancel: "length xs \<le> length ys \<Longrightarrow> xor_bytes (xor_bytes xs ys) ys = xs"
proof (induction xs arbitrary: ys)
  case Nil
  then show ?case by (simp add: xor_bytes_def)
next
  case (Cons x xs)
  then show ?case by (cases ys) (auto simp: xor_bytes_def)
qed

subsection \<open>Closed form of the keystream\<close>

definition ks_blocks :: "ext \<Rightarrow> string \<Rightarrow> string \<Rightarrow> nat \<Rightarrow> string" where
  "ks_blocks E secret nb n =
     concat (map (\<lambda>c. e_hmac E secret (KVENC_LABEL @ nb @ [char_of c])) [0..<n])"

lemma ks_blocks_simps [simp]:
  "ks_blocks E s nb 0 = []"
  "ks_blocks E s nb (Suc n) = ks_blocks E s nb n @ e_hmac E s (KVENC_LABEL @ nb @ [char_of n])"
  by (simp_all add: ks_blocks_def)

context codec
begin

lemma length_ks_blocks [simp]: "length (ks_blocks E s nb n) = 32 * n"
  by (induction n) (simp_all add: hmac_len)

lemma take_ks_blocks:
  assumes "len \<le> 32 * m" and "len \<le> 32 * n"
  shows "take len (ks_blocks E s nb m) = take len (ks_blocks E s nb n)"
proof -
  have "take len (ks_blocks E s nb m) = take len (ks_blocks E s nb (m + k))" if "len \<le> 32 * m" for m k
    using that by (induction k) auto
  from this [OF assms(1), of n] this [OF assms(2), of m] show ?thesis
    by (simp add: add.commute)
qed

lemma ks_loop_ok:
  assumes "len \<le> 8160" and "c \<le> 255"
  shows "ks_loop E s nb len c (ks_blocks E s nb c) = Inr (take len (ks_blocks E s nb len))"
  using assms(2)
proof (induction "255 - c" arbitrary: c)
  case 0
  then have "c = 255" by simp
  with assms(1) show ?case
    by (simp add: ks_loop.simps [of E s nb len 255] take_ks_blocks)
next
  case (Suc k)
  show ?case
  proof (cases "32 * c < len")
    case True
    from Suc.hyps(1) [of "Suc c"] Suc.hyps(2) Suc.prems
    have "ks_loop E s nb len (Suc c) (ks_blocks E s nb (Suc c)) = Inr (take len (ks_blocks E s nb len))"
      by simp
    with True Suc.hyps(2) show ?thesis
      by (simp add: ks_loop.simps [of E s nb len c])
  next
    case False
    then show ?thesis
      by (simp add: ks_loop.simps [of E s nb len c] take_ks_blocks)
  qed
qed

lemma ks_loop_too_long:
  assumes "8160 < len" and "c \<le> 255"
  shows "ks_loop E s nb len c (ks_blocks E s nb c) = Inl (PyExn ''ValueError'')"
  using assms(2)
proof (induction "255 - c" arbitrary: c)
  case 0
  then have "c = 255" by simp
  with assms(1) show ?case by (simp add: ks_loop.simps [of E s nb len 255])
next
  case (Suc k)
  from Suc.hyps(1) [of "Suc c"] Suc.hyps(2) Suc.prems
  have "ks_loop E s nb len (Suc c) (ks_blocks E s nb (Suc c)) = Inl (PyExn ''ValueError'')"
    by simp
  moreover have "c < 255" using Suc.hyps(2) by linarith
  ultimately show ?case using assms(1) by (simp add: ks_loop.simps [of E s nb len c])
qed

lemma client_ks_loop_ok:
  assumes "len \<le> 8192" and "c \<le> 256"
  shows "client_ks_loop E s nb len c (ks_blocks E s nb c) = Inr (take len (ks_blocks E s nb len))"
  using assms(2)
proof (induction "256 - c" arbitrary: c)
  case 0
  then have "c = 256" by simp
  with assms(1) show ?case
    by (simp add: client_ks_loop.simps [of E s nb len 256] take_ks_blocks)
next
  case (Suc k)
  show ?case
  proof (cases "32 * c < len")
    case True
    from Suc.hyps(1) [of "Suc c"] Suc.hyps(2) Suc.prems
    have "client_ks_loop E s nb len (Suc c) (ks_blocks E s nb (Suc c)) = Inr (take len (ks_blocks E s nb len))"
      by simp
    with True Suc.hyps(2) show ?thesis
      by (simp add: client_ks_loop.simps [of E s nb len c])
  next
    case False
    then show ?thesis
      by (simp add: client_ks_loop.simps [of E s nb len c] take_ks_blocks)
  qed
qed

lemma client_ks_loop_too_long:
  assumes "8192 < len" and "c \<le> 256"
  shows "client_ks_loop E s nb len c (ks_blocks E s nb c) = Inl (PyExn ''ValueError'')"
  using assms(2)
proof (induction "256 - c" arbitrary: c)
  case 0
  then have "c = 256" by simp
  with assms(1) show ?case by (simp add: client_ks_loop.simps [of E s nb len 256])
next
  case (Suc k)
  from Suc.hyps(1) [of "Suc c"] Suc.hyps(2) Suc.prems
  have "client_ks_loop E s nb len (Suc c) (ks_blocks E s nb (Suc c)) = Inl (PyExn ''ValueError'')"
    by simp
  moreover have "c < 256" using Suc.hyps(2) by linarith
  ultimately show ?case using assms(1) by (simp add: client_ks_loop.simps [of E s nb len c])
qed

lemma kvenc_keystream_eq:
  assumes "from_hex sk = Some s" and "to_bytes4 nonce = Inr nb"
  shows "kvenc_keystream E sk nonce len =
    (if len \<le> 8160 then Inr (take len (ks_blocks E s nb len)) else Inl (PyExn ''ValueError''))"
  using assms ks_loop_ok [of len 0 s nb] ks_loop_too_long [of len 0 s nb]
  by (simp add: kvenc_keystream_def from_hex_res_def)

lemma kvenc_xor_Inr:
  "kvenc_xor E sk nonce data = Inr c \<longleftrightarrow>
   (\<exists>s nb. from_hex sk = Some s \<and> to_bytes4 nonce = Inr nb \<and> length data \<le> 8160 \<and>
     c = xor_bytes data (take (length data) (ks_blocks E s nb (length data))))"
proof (cases "from_hex sk")
  case None
  then show ?thesis by (simp add: kvenc_xor_def kvenc_keystream_def from_hex_res_def)
next
  case (Some s)
  show ?thesis
  proof (cases "to_bytes4 nonce")
    case (Inl e)
    with Some show ?thesis by (simp add: kvenc_xor_def kvenc_keystream_def from_hex_res_def)
  next
    case (Inr nb)
    with Some show ?thesis by (auto simp: kvenc_xor_def kvenc_keystream_eq)
  qed
qed

lemma length_kvenc_xor: "kvenc_xor E sk nonce data = Inr c \<Longrightarrow> length c = length data"
  by (auto simp: kvenc_xor_Inr)

lemma client_decrypts:
  assumes "kvenc_xor E sk nonce data = Inr c" and "from_hex sk = Some s"
  shows "client_kvenc_xor E s nonce c = Inr data"
proof -
  from assms obtain nb where nb: "to_bytes4 nonce = Inr nb" and len: "length data \<le> 8160"
    and c: "c = xor_bytes data (take (length data) (ks_blocks E s nb (length data)))"
    by (auto simp: kvenc_xor_Inr)
  then have "length c = length data" by simp
  with nb len c client_ks_loop_ok [of "length data" 0 s nb] show ?thesis
    by (simp add: client_kvenc_xor_def xor_bytes_cancel)
qed

end

subsection \<open>Properties\<close>

text \<open>
  C11. A value encrypted by the server is decrypted by the client: for every secret, every nonce
  of 32 bits and every value of at most 8160 bytes, \<open>kvenc_xor\<close> succeeds, its ciphertext has the
  length of the value, and the client's own copy of the cipher recovers the value from it.
\<close>

theorem kvenc_roundtrip:
  assumes "codec E" and "from_hex secret_hex = Some secret"
    and "0 \<le> nonce" and "nonce < 2 ^ 32" and "length data \<le> 8160"
  shows "\<exists>c. kvenc_xor E secret_hex nonce data = Inr c \<and> length c = length data \<and>
    client_kvenc_xor E secret nonce c = Inr data"
proof -
  obtain nb where "to_bytes4 nonce = Inr nb" using assms by (simp add: to_bytes4_def)
  with assms obtain c where "kvenc_xor E secret_hex nonce data = Inr c"
    by (simp add: codec.kvenc_xor_Inr)
  then show ?thesis
    using codec.client_decrypts codec.length_kvenc_xor assms(1,2) by blast
qed

theorem kvenc_roundtrip_witness:
  "\<exists>c. kvenc_xor ref_ext ''0aff'' 7 ''hello'' = Inr c \<and> length c = length ''hello'' \<and>
    client_kvenc_xor ref_ext [char_of (10::nat), char_of (255::nat)] 7 c = Inr ''hello''"
  by (rule kvenc_roundtrip [OF ref_codec.codec_axioms]) (simp_all add: hex_val_def is_space_def)

text \<open>
  C12. The exact capacity of both ciphers: with a good secret and nonce, the server's encryption
  raises \<open>ValueError\<close> precisely when the value has more than 8160 bytes (255 digests, one block
  short of the 8 KiB the comment in the source gives), whereas the client's loop reaches 8192.
\<close>

theorem kvenc_capacity:
  assumes "codec E" and "from_hex secret_hex = Some secret"
    and "0 \<le> nonce" and "nonce < 2 ^ 32"
  shows "(kvenc_xor E secret_hex nonce data = Inl (PyExn ''ValueError'') \<longleftrightarrow> 8160 < length data) \<and>
    (client_kvenc_xor E secret nonce data = Inl (PyExn ''ValueError'') \<longleftrightarrow> 8192 < length data)"
proof -
  obtain nb where nb: "to_bytes4 nonce = Inr nb" using assms by (simp add: to_bytes4_def)
  with assms have "kvenc_xor E secret_hex nonce data = Inl (PyExn ''ValueError'') \<longleftrightarrow> 8160 < length data"
    by (simp add: kvenc_xor_def codec.kvenc_keystream_eq)
  moreover have "client_kvenc_xor E secret nonce data = Inl (PyExn ''ValueError'') \<longleftrightarrow> 8192 < length data"
    using nb codec.client_ks_loop_ok [OF assms(1), of "length data" 0 secret nb]
      codec.client_ks_loop_too_long [OF assms(1), of "length data" 0 secret nb]
    by (cases "length data \<le> 8192") (simp_all add: client_kvenc_xor_def)
  ultimately show ?thesis ..
qed

theorem kvenc_capacity_witness:
  "kvenc_xor ref_ext ''0a'' 7 (replicate 8161 CHR ''x'') = Inl (PyExn ''ValueError'') \<and>
   client_kvenc_xor ref_ext [char_of (10::nat)] 7 (replicate 8161 CHR ''x'') \<noteq> Inl (PyExn ''ValueError'')"
  using kvenc_capacity [OF ref_codec.codec_axioms, of "''0a''" "[char_of (10::nat)]" 7 "replicate 8161 CHR ''x''"]
  by (simp add: hex_val_def is_space_def)

end
