(* ===== verification/RedisStore.thy ===== *)
theory RedisStore
  imports Prelude "HOL-Library.AList"
begin

text \<open>
  The Redis service. Redis is not part of the repository, so its commands are a parameter:
  the record \<open>redis\<close> holds the commands the code issues, and the locale \<open>redis_store\<close> the
  documented behaviour the components rely on, stated through \<open>entries\<close>, the content of a
  stream. A concrete store interprets the locale, so the laws can hold together.

  A command acts at once: connection failures, key expiry and the wrong-type errors of a
  command on a key of another type are outside the model (the key prefixes of the code keep
  strings and streams apart).
\<close>

subsection \<open>Stream identifiers\<close>

text \<open>A stream entry has an identifier \<open><milliseconds>-<sequence>\<close>, ordered lexicographically.\<close>

datatype stream_id = SID (sid_ms: nat) (sid_seq: nat)

instantiation stream_id :: linorder
begin

definition less_eq_stream_id :: "stream_id \<Rightarrow> stream_id \<Rightarrow> bool" where
  "less_eq_stream_id a b \<longleftrightarrow> sid_ms a < sid_ms b \<or> (sid_ms a = sid_ms b \<and> sid_seq a \<le> sid_seq b)"

definition less_stream_id :: "stream_id \<Rightarrow> stream_id \<Rightarrow> bool" where
  "less_stream_id a b \<longleftrightarrow> sid_ms a < sid_ms b \<or> (sid_ms a = sid_ms b \<and> sid_seq a < sid_seq b)"

instance
proof
  fix a b :: stream_id
  show "a \<le> b \<or> b \<le> a" by (auto simp: less_eq_stream_id_def)
  show "a \<le> b \<Longrightarrow> b \<le> a \<Longrightarrow> a = b"
    by (cases a; cases b) (auto simp: less_eq_stream_id_def)
qed (auto simp: less_eq_stream_id_def less_stream_id_def)

end

definition show_sid :: "stream_id \<Rightarrow> string" where
  "show_sid i = dec_nat (sid_ms i) @ CHR ''-'' # dec_nat (sid_seq i)"

lemma dash_notin_dec_nat [simp]: "CHR ''-'' \<notin> set (dec_nat n)"
  using dec_nat_digits [of "CHR ''-''" n] by (auto simp: is_digit_def)

lemma split_show_sid [simp]: "split_on CHR ''-'' (show_sid i) = [dec_nat (sid_ms i), dec_nat (sid_seq i)]"
  by (simp add: show_sid_def split_on_append_sep split_on_no_sep)

lemma show_sid_inj [simp]: "show_sid i = show_sid j \<longleftrightarrow> i = j"
proof
  assume h: "show_sid i = show_sid j"
  then have "split_on CHR ''-'' (show_sid i) = split_on CHR ''-'' (show_sid j)" by simp
  then have "sid_ms i = sid_ms j" "sid_seq i = sid_seq j"
    by (simp_all add: dec_nat_inj)
  then show "i = j" by (cases i; cases j) simp
qed simp

lemma dec_nat_0: "dec_nat 0 = ''0''"
  by (simp add: dec_nat.simps [of 0] digit_char_def)

lemma show_sid_zero: "show_sid (SID 0 0) = ''0-0''"
  by (simp add: show_sid_def dec_nat_0)

lemma zero_le_sid [simp]: "SID 0 0 \<le> i"
  by (auto simp: less_eq_stream_id_def)

subsection \<open>Key patterns\<close>

text \<open>
  The glob pattern of \<open>KEYS\<close> and \<open>SCAN\<close>, for patterns whose only wildcard is the star
  (\<open>star_plain\<close>); the other metacharacters of a glob are not given a meaning here.
\<close>

fun star_match :: "string \<Rightarrow> string \<Rightarrow> bool" where
  "star_match [] s = (s = [])"
| "star_match (p # ps) [] = (p = CHR ''*'' \<and> star_match ps [])"
| "star_match (p # ps) (c # cs) =
     (if p = CHR ''*'' then star_match ps (c # cs) \<or> star_match (p # ps) cs
      else p = c \<and> star_match ps cs)"

definition star_plain :: "string \<Rightarrow> bool" where
  "star_plain p \<longleftrightarrow> set p \<inter> {CHR ''?'', CHR ''['', CHR '']'', CHR 0x5C} = {}"

lemma star_match_plain: "CHR ''*'' \<notin> set p \<Longrightarrow> star_match p s \<longleftrightarrow> s = p"
  by (induction p s rule: star_match.induct) auto

lemma star_match_star: "star_match (CHR ''*'' # ps) s \<longleftrightarrow> (\<exists>a b. s = a @ b \<and> star_match ps b)"
proof (induction s)
  case Nil
  then show ?case by simp
next
  case (Cons c cs)
  have "star_match (CHR ''*'' # ps) (c # cs) \<longleftrightarrow>
      star_match ps (c # cs) \<or> (\<exists>a b. cs = a @ b \<and> star_match ps b)"
    using Cons by simp
  also have "\<dots> \<longleftrightarrow> (\<exists>a b. c # cs = a @ b \<and> star_match ps b)"
    by (auto simp: Cons_eq_append_conv)
  finally show ?case .
qed

lemma star_match_prefix:
  "CHR ''*'' \<notin> set pre \<Longrightarrow> star_match (pre @ ps) s \<longleftrightarrow> (\<exists>r. s = pre @ r \<and> star_match ps r)"
proof (induction pre arbitrary: s)
  case Nil
  then show ?case by simp
next
  case (Cons p pre)
  then show ?case by (cases s) auto
qed

lemma star_match_pre_any:
  "CHR ''*'' \<notin> set pre \<Longrightarrow> star_match (pre @ ''*'') s \<longleftrightarrow> prefix pre s"
  by (auto simp: star_match_prefix star_match_star prefix_def)

lemma star_match_pre_suf:
  "CHR ''*'' \<notin> set pre \<Longrightarrow> CHR ''*'' \<notin> set suf \<Longrightarrow>
   star_match (pre @ CHR ''*'' # suf) s \<longleftrightarrow> (\<exists>m. s = pre @ m @ suf)"
  by (auto simp: star_match_prefix star_match_star star_match_plain)

subsection \<open>The commands\<close>

type_synonym fields = "(string \<times> string) list"

text \<open>Entries as the client library returns them: the identifier as text.\<close>

type_synonym entry = "string \<times> fields"

record 'db redis =
  r_get :: "string \<Rightarrow> 'db \<Rightarrow> string option"
  r_set :: "string \<Rightarrow> string \<Rightarrow> 'db \<Rightarrow> 'db"
  r_del :: "string \<Rightarrow> 'db \<Rightarrow> 'db"
  r_exists :: "string \<Rightarrow> 'db \<Rightarrow> bool"
  r_keys :: "string \<Rightarrow> 'db \<Rightarrow> string list"
  r_xadd :: "string \<Rightarrow> string option \<Rightarrow> fields \<Rightarrow> 'db \<Rightarrow> 'db res"
  r_xrange :: "string \<Rightarrow> string \<Rightarrow> nat option \<Rightarrow> 'db \<Rightarrow> entry list"      \<comment> \<open>from \<open>min\<close> up to \<open>+\<close>\<close>
  r_xrevrange :: "string \<Rightarrow> string \<Rightarrow> nat \<Rightarrow> 'db \<Rightarrow> entry list"          \<comment> \<open>from \<open>max\<close> down to \<open>-\<close>\<close>
  r_xread :: "string \<Rightarrow> string \<Rightarrow> nat \<Rightarrow> 'db \<Rightarrow> entry list"
  r_expire :: "string \<Rightarrow> nat \<Rightarrow> 'db \<Rightarrow> 'db"
  r_xtrim :: "string \<Rightarrow> string \<Rightarrow> 'db \<Rightarrow> 'db"                          \<comment> \<open>by \<open>minid\<close>\<close>
  r_xlen :: "string \<Rightarrow> 'db \<Rightarrow> nat"
  r_strlen :: "string \<Rightarrow> 'db \<Rightarrow> nat"
  r_scan :: "nat \<Rightarrow> string \<Rightarrow> nat \<Rightarrow> 'db \<Rightarrow> nat \<times> string list"     \<comment> \<open>cursor, pattern, count\<close>

text \<open>A complete \<open>SCAN\<close> from a cursor: the keys of all its pages.\<close>

inductive scan_run :: "'db redis \<Rightarrow> string \<Rightarrow> nat \<Rightarrow> 'db \<Rightarrow> nat \<Rightarrow> string list \<Rightarrow> bool"
  for R p n d where
  scan_last: "r_scan R c p n d = (0, ks) \<Longrightarrow> scan_run R p n d c ks"
| scan_more: "r_scan R c p n d = (c', ks) \<Longrightarrow> c' \<noteq> 0 \<Longrightarrow> scan_run R p n d c' ks' \<Longrightarrow>
    scan_run R p n d c (ks @ ks')"

definition show_entry :: "stream_id \<times> fields \<Rightarrow> entry" where
  "show_entry e = (show_sid (fst e), snd e)"

locale redis_store =
  fixes R :: "'db redis"
    and entries :: "string \<Rightarrow> 'db \<Rightarrow> (stream_id \<times> fields) list"
  assumes get_set: "r_get R k (r_set R k' v d) = (if k = k' then Some v else r_get R k d)"
    and get_del: "r_get R k (r_del R k' d) = (if k = k' then None else r_get R k d)"
    and get_xadd: "r_xadd R k' t f d = Inr d' \<Longrightarrow> k \<noteq> k' \<Longrightarrow> r_get R k d' = r_get R k d"
    and get_expire: "r_get R k (r_expire R k' secs d) = r_get R k d"
    and entries_set: "k \<noteq> k' \<Longrightarrow> entries k (r_set R k' v d) = entries k d"
    and entries_del: "entries k (r_del R k' d) = (if k = k' then [] else entries k d)"
    and entries_xadd_other: "r_xadd R k' t f d = Inr d' \<Longrightarrow> k \<noteq> k' \<Longrightarrow> entries k d' = entries k d"
    and entries_expire: "entries k (r_expire R k' secs d) = entries k d"
    and xadd_auto: "f \<noteq> [] \<Longrightarrow> \<exists>d' i. r_xadd R k None f d = Inr d' \<and> entries k d' = entries k d @ [(i, f)]"
    and xadd_id: "(\<forall>e \<in> set (entries k d). fst e < i) \<Longrightarrow> SID 0 0 < i \<Longrightarrow> f \<noteq> [] \<Longrightarrow>
      \<exists>d'. r_xadd R k (Some (show_sid i)) f d = Inr d' \<and> entries k d' = entries k d @ [(i, f)]"
    and entries_sorted: "sorted_wrt (<) (map fst (entries k d))"
    and entries_fields: "e \<in> set (entries k d) \<Longrightarrow> snd e \<noteq> []"
    and entries_pos: "e \<in> set (entries k d) \<Longrightarrow> SID 0 0 < fst e"
    and exists_get: "r_get R k d \<noteq> None \<Longrightarrow> r_exists R k d"
    and exists_entries: "entries k d \<noteq> [] \<Longrightarrow> r_exists R k d"
    and exists_set: "r_exists R k (r_set R k' v d) \<longleftrightarrow> k = k' \<or> r_exists R k d"
    and exists_del: "r_exists R k (r_del R k' d) \<longleftrightarrow> k \<noteq> k' \<and> r_exists R k d"
    and exists_xadd: "r_xadd R k' t f d = Inr d' \<Longrightarrow> r_exists R k d' \<longleftrightarrow> k = k' \<or> r_exists R k d"
    and keys_iff: "star_plain p \<Longrightarrow> k \<in> set (r_keys R p d) \<longleftrightarrow> star_match p k \<and> r_exists R k d"
    and keys_distinct: "distinct (r_keys R p d)"
    and xrange_all: "r_xrange R k ''-'' None d = map show_entry (entries k d)"
    and xrange_first: "r_xrange R k ''-'' (Some n) d = map show_entry (take n (entries k d))"
    and xrange_after: "r_xrange R k (CHR ''('' # show_sid i) (Some n) d =
      map show_entry (take n (filter (\<lambda>e. i < fst e) (entries k d)))"
    and xrevrange_all: "r_xrevrange R k ''+'' n d = map show_entry (take n (rev (entries k d)))"
    and xrevrange_before: "r_xrevrange R k (CHR ''('' # show_sid i) n d =
      map show_entry (take n (rev (filter (\<lambda>e. fst e < i) (entries k d))))"
    and get_xtrim: "r_get R k (r_xtrim R k' m d) = r_get R k d"
    and entries_xtrim: "entries k (r_xtrim R k' (dec_nat ms) d) =
      (if k = k' then filter (\<lambda>e. SID ms 0 \<le> fst e) (entries k d) else entries k d)"
    and xlen_entries: "r_xlen R k d = length (entries k d)"
    and strlen_get: "r_get R k d = Some v \<Longrightarrow> r_strlen R k d = length v"
    and scan_ends: "\<exists>ks. scan_run R p n d 0 ks"
    and scan_keys: "star_plain p \<Longrightarrow> scan_run R p n d 0 ks \<Longrightarrow>
      k \<in> set ks \<longleftrightarrow> star_match p k \<and> r_exists R k d"
    and xread_after: "r_xread R k (show_sid i) n d =
      map show_entry (take n (filter (\<lambda>e. i < fst e) (entries k d)))"
begin

lemmas get_simps = get_set get_del get_expire

lemmas entries_simps = entries_set entries_del entries_expire

lemma set_same [simp]: "r_get R k (r_set R k v d) = Some v"
  by (simp add: get_set)

lemma set_other [simp]: "k \<noteq> k' \<Longrightarrow> r_get R k (r_set R k' v d) = r_get R k d"
  by (simp add: get_set)

lemma del_same [simp]: "r_get R k (r_del R k d) = None"
  by (simp add: get_del)

lemma del_other [simp]: "k \<noteq> k' \<Longrightarrow> r_get R k (r_del R k' d) = r_get R k d"
  by (simp add: get_del)

lemma keys_get: "star_plain p \<Longrightarrow> star_match p k \<Longrightarrow> r_get R k d \<noteq> None \<Longrightarrow> k \<in> set (r_keys R p d)"
  by (simp add: keys_iff exists_get)

end

subsection \<open>A concrete store\<close>

datatype rvalue = RString string | RStream "(stream_id \<times> fields) list"

type_synonym mem = "(string \<times> rvalue) list"

text \<open>Only keys present with a value count; a stream key holds its entries in order.\<close>

definition mem_get :: "string \<Rightarrow> mem \<Rightarrow> string option" where
  "mem_get k d = (case map_of d k of Some (RString v) \<Rightarrow> Some v | _ \<Rightarrow> None)"

fun mem_last_id :: "stream_id \<Rightarrow> (stream_id \<times> fields) list \<Rightarrow> stream_id" where
  "mem_last_id b [] = b"
| "mem_last_id b ((i, f) # es) = mem_last_id (max b i) es"

text \<open>The increasing entries with fields of a raw list: what the store keeps of it.\<close>

fun increasing :: "stream_id \<Rightarrow> (stream_id \<times> fields) list \<Rightarrow> (stream_id \<times> fields) list" where
  "increasing b [] = []"
| "increasing b ((i, f) # es) = (if b < i \<and> f \<noteq> [] then (i, f) # increasing i es else increasing b es)"

definition mem_entries :: "string \<Rightarrow> mem \<Rightarrow> (stream_id \<times> fields) list" where
  "mem_entries k d = (case map_of d k of Some (RStream es) \<Rightarrow> increasing (SID 0 0) es | _ \<Rightarrow> [])"

definition mem_next_id :: "(stream_id \<times> fields) list \<Rightarrow> stream_id" where
  "mem_next_id es = (let l = mem_last_id (SID 0 0) es in SID (Suc (sid_ms l)) 0)"

definition parse_sid :: "string \<Rightarrow> stream_id option" where
  "parse_sid s = (case split_on CHR ''-'' s of
     [a, b] \<Rightarrow> (case (parse_nat a, parse_nat b) of (Some m, Some n) \<Rightarrow> Some (SID m n) | _ \<Rightarrow> None)
   | _ \<Rightarrow> None)"

definition mem_xadd :: "string \<Rightarrow> string option \<Rightarrow> fields \<Rightarrow> mem \<Rightarrow> mem res" where
  "mem_xadd k i f d =
     (let es = mem_entries k d in
      case i of
        None \<Rightarrow> Inr (AList.update k (RStream (es @ [(mem_next_id es, f)])) d)
      | Some t \<Rightarrow>
         (case parse_sid t of
            None \<Rightarrow> Inl (PyExn ''ResponseError'')
          | Some j \<Rightarrow> if mem_last_id (SID 0 0) es < j then Inr (AList.update k (RStream (es @ [(j, f)])) d)
                     else Inl (PyExn ''ResponseError'')))"

definition mem_after :: "string \<Rightarrow> (stream_id \<times> fields) list \<Rightarrow> (stream_id \<times> fields) list" where
  "mem_after t es = (case parse_sid t of None \<Rightarrow> [] | Some i \<Rightarrow> filter (\<lambda>e. i < fst e) es)"

definition mem_before :: "string \<Rightarrow> (stream_id \<times> fields) list \<Rightarrow> (stream_id \<times> fields) list" where
  "mem_before t es = (case parse_sid t of None \<Rightarrow> [] | Some i \<Rightarrow> filter (\<lambda>e. fst e < i) es)"

definition mem_redis :: "mem redis" where
  "mem_redis = \<lparr>
     r_get = mem_get,
     r_set = (\<lambda>k v. AList.update k (RString v)),
     r_del = AList.delete,
     r_exists = (\<lambda>k d. map_of d k \<noteq> None),
     r_keys = (\<lambda>p d. filter (star_match p) (remdups (map fst d))),
     r_xadd = mem_xadd,
     r_xrange = (\<lambda>k m n d. map show_entry
        ((case n of None \<Rightarrow> id | Some c \<Rightarrow> take c)
          (if m = ''-'' then mem_entries k d else mem_after (tl m) (mem_entries k d)))),
     r_xrevrange = (\<lambda>k m n d. map show_entry (take n
        (rev (if m = ''+'' then mem_entries k d else mem_before (tl m) (mem_entries k d))))),
     r_xread = (\<lambda>k t n d. map show_entry (take n (mem_after t (mem_entries k d)))),
     r_expire = (\<lambda>k t d. d),
     r_xtrim = (\<lambda>k m d. case parse_nat m of None \<Rightarrow> d
        | Some ms \<Rightarrow> (case map_of d k of Some (RStream _) \<Rightarrow>
            AList.update k (RStream (filter (\<lambda>e. SID ms 0 \<le> fst e) (mem_entries k d))) d | _ \<Rightarrow> d)),
     r_xlen = (\<lambda>k d. length (mem_entries k d)),
     r_strlen = (\<lambda>k d. case mem_get k d of None \<Rightarrow> 0 | Some v \<Rightarrow> length v),
     r_scan = (\<lambda>c p n d. (0, filter (star_match p) (remdups (map fst d)))) \<rparr>"

lemma parse_show_sid [simp]: "parse_sid (show_sid i) = Some i"
  by (cases i) (simp add: parse_sid_def)

lemma increasing_bound: "e \<in> set (increasing b es) \<Longrightarrow> b < fst e"
  by (induction b es rule: increasing.induct) (auto split: if_splits intro: less_trans)

lemma increasing_sorted: "sorted_wrt (<) (map fst (increasing b es))"
  by (induction b es rule: increasing.induct) (auto dest: increasing_bound)

lemma increasing_fields: "e \<in> set (increasing b es) \<Longrightarrow> snd e \<noteq> []"
  by (induction b es rule: increasing.induct) (auto split: if_splits)

lemma increasing_id:
  "sorted_wrt (<) (map fst es) \<Longrightarrow> (\<forall>e \<in> set es. b < fst e \<and> snd e \<noteq> []) \<Longrightarrow> increasing b es = es"
  by (induction b es rule: increasing.induct) auto

lemma mem_last_id_ge: "b \<le> mem_last_id b es" "e \<in> set es \<Longrightarrow> fst e \<le> mem_last_id b es"
  by (induction b es rule: mem_last_id.induct) (auto intro: order_trans)

lemma mem_last_id_less: "b < i \<Longrightarrow> (\<forall>e \<in> set es. fst e < i) \<Longrightarrow> mem_last_id b es < i"
  by (induction b es rule: mem_last_id.induct) auto

lemma mem_next_id_greater: "SID 0 0 < mem_next_id es" "e \<in> set es \<Longrightarrow> fst e < mem_next_id es"
  using mem_last_id_ge(2) [of e es "SID 0 0"]
  by (auto simp: mem_next_id_def Let_def less_stream_id_def less_eq_stream_id_def)

lemma mem_entries_append:
  assumes "\<forall>e \<in> set (mem_entries k d). fst e < i" and "SID 0 0 < i" and "f \<noteq> []"
  shows "increasing (SID 0 0) (mem_entries k d @ [(i, f)]) = mem_entries k d @ [(i, f)]"
proof (rule increasing_id)
  have "sorted_wrt (<) (map fst (mem_entries k d))"
    by (auto simp: mem_entries_def increasing_sorted split: option.splits rvalue.splits)
  with assms(1) show "sorted_wrt (<) (map fst (mem_entries k d @ [(i, f)]))"
    by (auto simp: sorted_wrt_append)
  show "\<forall>e \<in> set (mem_entries k d @ [(i, f)]). SID 0 0 < fst e \<and> snd e \<noteq> []"
    using assms(2,3) by (auto simp: mem_entries_def dest: increasing_bound increasing_fields split: option.splits rvalue.splits)
qed

lemma mem_xadd_shape:
  "mem_xadd k i f d = Inr d' \<Longrightarrow> \<exists>es. d' = AList.update k (RStream es) d"
  by (auto simp: mem_xadd_def Let_def split: option.splits if_splits)

lemma map_of_update' [simp]: "map_of (AList.update k v d) k' = (if k' = k then Some v else map_of d k')"
  by (simp add: update_conv')

lemma in_keys_iff: "k \<in> set (map fst d) \<longleftrightarrow> map_of d k \<noteq> None"
  by (simp add: map_of_eq_None_iff [of d k])

lemma map_of_delete' [simp]: "map_of (AList.delete k d) k' = (if k' = k then None else map_of d k')"
  by (simp add: delete_conv')

lemma mem_scan_run: "scan_run mem_redis p n d c ks \<longleftrightarrow> ks = filter (star_match p) (remdups (map fst d))"
proof
  show "scan_run mem_redis p n d c ks \<Longrightarrow> ks = filter (star_match p) (remdups (map fst d))"
    by (erule scan_run.cases) (auto simp: mem_redis_def)
  show "ks = filter (star_match p) (remdups (map fst d)) \<Longrightarrow> scan_run mem_redis p n d c ks"
    by (rule scan_last) (simp add: mem_redis_def)
qed

lemma increasing_filter_id:
  "increasing (SID 0 0) (filter P (increasing (SID 0 0) es)) = filter P (increasing (SID 0 0) es)"
  by (rule increasing_id)
    (auto simp: sorted_wrt_map sorted_wrt_filter increasing_sorted [unfolded sorted_wrt_map] dest: increasing_bound increasing_fields)

interpretation mem_store: redis_store mem_redis mem_entries
proof
  fix k k' :: string and m p :: string and ms n :: nat and d :: mem and ks :: "string list"
  show "r_get mem_redis k (r_xtrim mem_redis k' m d) = r_get mem_redis k d"
    by (auto simp: mem_redis_def mem_get_def split: option.splits rvalue.splits)
  show "mem_entries k (r_xtrim mem_redis k' (dec_nat ms) d) =
      (if k = k' then filter (\<lambda>e. SID ms 0 \<le> fst e) (mem_entries k d) else mem_entries k d)"
    by (auto simp: mem_redis_def mem_entries_def increasing_filter_id split: option.splits rvalue.splits)
  show "\<exists>ks. scan_run mem_redis p n d 0 ks" by (simp add: mem_scan_run)
  show "scan_run mem_redis p n d 0 ks \<Longrightarrow> k \<in> set ks \<longleftrightarrow> star_match p k \<and> r_exists mem_redis k d"
    unfolding mem_scan_run by (auto simp: mem_redis_def in_keys_iff simp del: set_map)
next
  fix k k' :: string and d d' :: mem and i and f :: fields
  show "r_xadd mem_redis k' i f d = Inr d' \<Longrightarrow> k \<noteq> k' \<Longrightarrow> r_get mem_redis k d' = r_get mem_redis k d"
    by (auto simp: mem_redis_def mem_get_def dest!: mem_xadd_shape)
  show "r_xadd mem_redis k' i f d = Inr d' \<Longrightarrow> k \<noteq> k' \<Longrightarrow> mem_entries k d' = mem_entries k d"
    by (auto simp: mem_redis_def mem_entries_def dest!: mem_xadd_shape)
  show "r_xadd mem_redis k' i f d = Inr d' \<Longrightarrow> r_exists mem_redis k d' \<longleftrightarrow> k = k' \<or> r_exists mem_redis k d"
  proof -
    assume "r_xadd mem_redis k' i f d = Inr d'"
    then obtain es where "d' = AList.update k' (RStream es) d"
      by (auto simp: mem_redis_def dest: mem_xadd_shape)
    then show ?thesis by (simp add: mem_redis_def)
  qed
next
  fix k :: string and d :: mem and f :: fields
  assume f: "f \<noteq> []"
  have "mem_xadd k None f d = Inr (AList.update k (RStream (mem_entries k d @ [(mem_next_id (mem_entries k d), f)])) d)"
    by (simp add: mem_xadd_def Let_def)
  moreover have "mem_entries k (AList.update k (RStream (mem_entries k d @ [(mem_next_id (mem_entries k d), f)])) d)
      = mem_entries k d @ [(mem_next_id (mem_entries k d), f)]"
    using mem_entries_append [of k d "mem_next_id (mem_entries k d)" f] mem_next_id_greater f
    by (simp add: mem_entries_def [of k "AList.update _ _ _"])
  ultimately show "\<exists>d' i. r_xadd mem_redis k None f d = Inr d' \<and> mem_entries k d' = mem_entries k d @ [(i, f)]"
    by (auto simp: mem_redis_def)
next
  fix k :: string and d :: mem and i and f :: fields
  assume h: "\<forall>e \<in> set (mem_entries k d). fst e < i" "SID 0 0 < i" "f \<noteq> []"
  then have "mem_last_id (SID 0 0) (mem_entries k d) < i" by (intro mem_last_id_less) auto
  then have "mem_xadd k (Some (show_sid i)) f d = Inr (AList.update k (RStream (mem_entries k d @ [(i, f)])) d)"
    by (simp add: mem_xadd_def Let_def)
  moreover have "mem_entries k (AList.update k (RStream (mem_entries k d @ [(i, f)])) d) = mem_entries k d @ [(i, f)]"
    using mem_entries_append [OF h] by (simp add: mem_entries_def [of k "AList.update _ _ _"])
  ultimately show "\<exists>d'. r_xadd mem_redis k (Some (show_sid i)) f d = Inr d' \<and> mem_entries k d' = mem_entries k d @ [(i, f)]"
    by (auto simp: mem_redis_def)
qed (auto simp del: set_map simp: mem_redis_def mem_get_def mem_entries_def increasing_sorted mem_after_def mem_before_def
      in_keys_iff
      dest: increasing_bound increasing_fields split: option.splits rvalue.splits)

lemma mem_get_nil [simp]: "r_get mem_redis k [] = None"
  by (simp add: mem_redis_def mem_get_def)

end
