(* ===== verification/Dependencies.thy ===== *)
theory Dependencies
  imports Security RedisStore
begin

text \<open>
  \<open>backend/src/api/dependencies.py\<close>: authentication of device requests and the access
  control lists of devices and admins.

  An ACL is a JSON document \<open>{"permissions": [{"prefix": .., "access": ..}, ..]}\<close>; the code
  reads it with \<open>.get\<close> and defaults, so the model works on dynamic values and keeps the errors
  of a mis-shaped document. \<open>acl_doc\<close> embeds typed permissions, and \<open>acl_decide\<close> is the
  abstract specification: the first permission whose prefix covers the resource, segment by
  segment, decides.
\<close>

subsection \<open>Requests and contexts\<close>

record request =
  rq_method :: string
  rq_path :: string
  rq_query :: string
  rq_headers :: "string \<rightharpoonup> string"      \<comment> \<open>by lower-case name\<close>
  rq_cookies :: "string \<rightharpoonup> string"
  rq_body :: string
  rq_hostname :: "string option"       \<comment> \<open>\<open>request.url.hostname\<close>\<close>

record client_ctx =
  ctx_client_id :: string
  ctx_secret_hex :: string
  ctx_acl :: pyval

datatype acl_mode = ReadMode | WriteMode

subsection \<open>Keys of the credential records\<close>

definition client_secret_key :: "string \<Rightarrow> string" where
  "client_secret_key cid = ''client:'' @ cid @ '':secret''"

definition client_acl_key :: "string \<Rightarrow> string" where
  "client_acl_key cid = ''client:'' @ cid @ '':acl''"

definition admin_acl_key :: "string \<Rightarrow> string" where
  "admin_acl_key user = ''admin_acls:'' @ user"

lemma client_key_neq [simp]: "client_secret_key a \<noteq> client_acl_key b" "client_acl_key b \<noteq> client_secret_key a"
proof -
  have "rev (client_secret_key a) \<noteq> rev (client_acl_key b)"
    by (simp add: client_secret_key_def client_acl_key_def)
  then show "client_secret_key a \<noteq> client_acl_key b" "client_acl_key b \<noteq> client_secret_key a"
    by metis+
qed

lemma client_key_inj [simp]:
  "client_secret_key a = client_secret_key b \<longleftrightarrow> a = b"
  "client_acl_key a = client_acl_key b \<longleftrightarrow> a = b"
  by (simp_all add: client_secret_key_def client_acl_key_def)

lemma admin_key_simps [simp]:
  "admin_acl_key a = admin_acl_key b \<longleftrightarrow> a = b"
  "admin_acl_key a \<noteq> client_secret_key c" "client_secret_key c \<noteq> admin_acl_key a"
  "admin_acl_key a \<noteq> client_acl_key c" "client_acl_key c \<noteq> admin_acl_key a"
  by (simp_all add: client_secret_key_def client_acl_key_def admin_acl_key_def)

subsection \<open>Authenticating a device request\<close>

text \<open>\<open>json.loads\<close>: a malformed document is a \<open>ValueError\<close>.\<close>

definition loads_res :: "ext \<Rightarrow> string \<Rightarrow> pyval res" where
  "loads_res E s = (case e_loads E s of None \<Rightarrow> Inl (PyExn ''ValueError'') | Some v \<Rightarrow> Inr v)"

text \<open>A stored value that is absent or empty is falsy.\<close>

definition get_truthy :: "'db redis \<Rightarrow> string \<Rightarrow> 'db \<Rightarrow> string option" where
  "get_truthy R k d = (case r_get R k d of None \<Rightarrow> None | Some v \<Rightarrow> if v = [] then None else Some v)"

definition verify_device_request ::
    "'db redis \<Rightarrow> ext \<Rightarrow> int \<Rightarrow> request \<Rightarrow> string \<Rightarrow> string \<Rightarrow> string \<Rightarrow> 'db \<Rightarrow> client_ctx res" where
  "verify_device_request R E now req client_id timestamp_str signature d =
     (case py_int timestamp_str of
        None \<Rightarrow> Inl (HTTPException 400 ''Invalid X-Timestamp format'')
      | Some timestamp \<Rightarrow>
     if \<not> verify_timestamp now timestamp
     then Inl (HTTPException 401 ''Request expired or replay detected'')
     else
     (case get_truthy R (client_secret_key client_id) d of
        None \<Rightarrow> Inl (HTTPException 401 ''Invalid Client ID'')
      | Some secret_hex_bytes \<Rightarrow>
     bind_res (decode_utf8 secret_hex_bytes) (\<lambda>secret_hex.
     bind_res (verify_signature E secret_hex (rq_path req) (rq_body req) timestamp signature) (\<lambda>ok.
     if \<not> ok then Inl (HTTPException 401 ''Invalid Signature'')
     else
     bind_res (case get_truthy R (client_acl_key client_id) d of
                 None \<Rightarrow> Inr (PDict [(''read_write'', PStr ''*'')])
               | Some acl_json \<Rightarrow> loads_res E acl_json) (\<lambda>acl.
     Inr \<lparr>ctx_client_id = client_id, ctx_secret_hex = secret_hex, ctx_acl = acl\<rparr>)))))"

subsection \<open>Matching a resource against permissions\<close>

definition CATALOG_STASH_PREFIX :: string where
  "CATALOG_STASH_PREFIX = ''_catalog/''"

definition acl_candidate_paths :: "string \<Rightarrow> string list" where
  "acl_candidate_paths resource_path =
     (if prefix CATALOG_STASH_PREFIX resource_path
      then (let aliased = drop (length CATALOG_STASH_PREFIX) resource_path
            in if aliased \<noteq> [] then [resource_path, aliased] else [resource_path])
      else [resource_path])"

text \<open>
  \<open>prefix == "*" or path == prefix or path.startswith(prefix + "/")\<close>; the concatenation raises
  unless the prefix is a string.
\<close>

definition prefix_matches :: "pyval \<Rightarrow> string \<Rightarrow> bool res" where
  "prefix_matches pre path =
     (case pre of
        PStr p \<Rightarrow> Inr (p = ''*'' \<or> path = p \<or> prefix (p @ ''/'') path)
      | _ \<Rightarrow> Inl (PyExn ''TypeError''))"

fun any_match :: "pyval \<Rightarrow> string list \<Rightarrow> bool res" where
  "any_match pre [] = Inr False"
| "any_match pre (p # ps) =
     bind_res (prefix_matches pre p) (\<lambda>m. if m then Inr True else any_match pre ps)"

definition strip_type :: "string \<Rightarrow> string" where
  "strip_type resource =
     (if prefix ''q/'' resource then drop 2 resource
      else if prefix ''kv/'' resource then drop 3 resource
      else resource)"

fun check_perms :: "string list \<Rightarrow> acl_mode \<Rightarrow> pyval list \<Rightarrow> unit res" where
  "check_perms candidates mode [] = Inl (HTTPException 403 ''Forbidden: No permission for'')"
| "check_perms candidates mode (perm # perms) =
     bind_res (dget_or perm ''prefix'' (PStr [])) (\<lambda>pre.
     bind_res (dget_or perm ''access'' (PStr ''r'')) (\<lambda>access.
     bind_res (any_match pre candidates) (\<lambda>m.
       if m then
         (if mode = WriteMode \<and> access \<noteq> PStr ''rw''
          then Inl (HTTPException 403 ''Forbidden: Write access denied'')
          else Inr ())
       else check_perms candidates mode perms)))"

definition check_acl :: "client_ctx \<Rightarrow> string \<Rightarrow> acl_mode \<Rightarrow> unit res" where
  "check_acl ctx requested_resource mode =
     (let candidates = acl_candidate_paths (strip_type requested_resource) in
      bind_res (dget_or (ctx_acl ctx) ''permissions'' (PList [])) (\<lambda>permissions.
      bind_res (py_iter permissions) (\<lambda>perms.
      check_perms candidates mode perms)))"

subsection \<open>Admin identities\<close>

text \<open>\<open>RESCUE_USERS\<close>: the comma-separated \<open>STRA2US_RESCUE_USERS\<close>, blanks dropped.\<close>

definition rescue_users :: "string \<Rightarrow> string list" where
  "rescue_users env = filter (\<lambda>u. u \<noteq> []) (map strip (split_on CHR '','' env))"

definition RESCUE_ACL :: pyval where
  "RESCUE_ACL = PDict [(''permissions'', PList [PDict [(''prefix'', PStr ''*''), (''access'', PStr ''rw'')]])]"

definition deny_all :: pyval where
  "deny_all = PDict [(''permissions'', PList [])]"

definition load_admin_acl :: "'db redis \<Rightarrow> ext \<Rightarrow> string list \<Rightarrow> string \<Rightarrow> 'db \<Rightarrow> pyval" where
  "load_admin_acl R E rescue username d =
     (case get_truthy R (admin_acl_key username) d of
        Some raw \<Rightarrow> (case e_loads E raw of Some acl \<Rightarrow> acl | None \<Rightarrow> deny_all)
      | None \<Rightarrow> if username \<in> set rescue then RESCUE_ACL else deny_all)"

text \<open>\<open>admin_user\<close> is what the auth middleware left on the request.\<close>

definition get_admin_context ::
    "'db redis \<Rightarrow> ext \<Rightarrow> string list \<Rightarrow> string option \<Rightarrow> 'db \<Rightarrow> client_ctx res" where
  "get_admin_context R E rescue admin_user d =
     (case admin_user of
        None \<Rightarrow> Inl (HTTPException 401 ''Admin session required'')
      | Some username \<Rightarrow>
         if username = [] then Inl (HTTPException 401 ''Admin session required'')
         else Inr \<lparr>ctx_client_id = username, ctx_secret_hex = [],
                   ctx_acl = load_admin_acl R E rescue username d\<rparr>)"

definition require_admin_kv ::
    "'db redis \<Rightarrow> ext \<Rightarrow> string list \<Rightarrow> acl_mode \<Rightarrow> string option \<Rightarrow> string \<Rightarrow> 'db \<Rightarrow> client_ctx res" where
  "require_admin_kv R E rescue mode admin_user key d =
     bind_res (get_admin_context R E rescue admin_user d) (\<lambda>ctx.
     bind_res (check_acl ctx (''kv/'' @ key) mode) (\<lambda>_. Inr ctx))"

definition require_admin_queue ::
    "'db redis \<Rightarrow> ext \<Rightarrow> string list \<Rightarrow> acl_mode \<Rightarrow> string option \<Rightarrow> string \<Rightarrow> 'db \<Rightarrow> client_ctx res" where
  "require_admin_queue R E rescue mode admin_user topic d =
     bind_res (get_admin_context R E rescue admin_user d) (\<lambda>ctx.
     bind_res (check_acl ctx (''q/'' @ topic) mode) (\<lambda>_. Inr ctx))"

fun has_superuser_perm :: "pyval list \<Rightarrow> bool res" where
  "has_superuser_perm [] = Inr False"
| "has_superuser_perm (perm # perms) =
     bind_res (dget_or perm ''prefix'' PNone) (\<lambda>pre.
     if pre = PStr ''*'' then
       bind_res (dget_or perm ''access'' PNone) (\<lambda>access.
       if access = PStr ''rw'' then Inr True else has_superuser_perm perms)
     else has_superuser_perm perms)"

definition require_admin_superuser ::
    "'db redis \<Rightarrow> ext \<Rightarrow> string list \<Rightarrow> string option \<Rightarrow> 'db \<Rightarrow> client_ctx res" where
  "require_admin_superuser R E rescue admin_user d =
     bind_res (get_admin_context R E rescue admin_user d) (\<lambda>ctx.
     bind_res (dget_or (ctx_acl ctx) ''permissions'' (PList [])) (\<lambda>permissions.
     bind_res (py_iter permissions) (\<lambda>perms.
     bind_res (has_superuser_perm perms) (\<lambda>ok.
     if ok then Inr ctx
     else Inl (HTTPException 403 ''Forbidden: requires superuser ACL (*:rw)'')))))"

subsection \<open>The abstract specification of access control\<close>

datatype perm = Perm (perm_prefix: string) (perm_access: string)

definition perm_doc :: "perm \<Rightarrow> pyval" where
  "perm_doc p = PDict [(''prefix'', PStr (perm_prefix p)), (''access'', PStr (perm_access p))]"

definition acl_doc :: "perm list \<Rightarrow> pyval" where
  "acl_doc ps = PDict [(''permissions'', PList (map perm_doc ps))]"

text \<open>A prefix covers a path when it is the wildcard or its segments begin the path's segments.\<close>

definition covers :: "string \<Rightarrow> string \<Rightarrow> bool" where
  "covers p path \<longleftrightarrow> p = ''*'' \<or> prefix (split_on CHR ''/'' p) (split_on CHR ''/'' path)"

datatype decision = Allow | DenyWrite | DenyAll

definition acl_decide :: "perm list \<Rightarrow> string list \<Rightarrow> acl_mode \<Rightarrow> decision" where
  "acl_decide ps paths mode =
     (case find (\<lambda>p. \<exists>c \<in> set paths. covers (perm_prefix p) c) ps of
        None \<Rightarrow> DenyAll
      | Some p \<Rightarrow> if mode = WriteMode \<and> perm_access p \<noteq> ''rw'' then DenyWrite else Allow)"

fun decision_res :: "decision \<Rightarrow> unit res" where
  "decision_res Allow = Inr ()"
| "decision_res DenyWrite = Inl (HTTPException 403 ''Forbidden: Write access denied'')"
| "decision_res DenyAll = Inl (HTTPException 403 ''Forbidden: No permission for'')"

subsection \<open>The code implements the specification\<close>

lemma covers_iff: "covers p path \<longleftrightarrow> p = ''*'' \<or> path = p \<or> prefix (p @ ''/'') path"
proof -
  have "prefix (split_on CHR ''/'' p) (split_on CHR ''/'' path) \<longleftrightarrow> path = p \<or> prefix (p @ ''/'') path"
  proof
    assume "path = p \<or> prefix (p @ ''/'') path"
    moreover have "split_on c (a @ c # b) = split_on c a @ split_on c b" for c a and b :: string
      by (induction a) (auto split: list.splits)
    ultimately show "prefix (split_on CHR ''/'' p) (split_on CHR ''/'' path)"
      by (auto simp: prefix_def)
  next
    assume "prefix (split_on CHR ''/'' p) (split_on CHR ''/'' path)"
    then obtain zs where z: "split_on CHR ''/'' path = split_on CHR ''/'' p @ zs"
      by (auto simp: prefix_def)
    have j: "join s (xs @ zs) = join s xs @ s @ join s zs" if "xs \<noteq> []" "zs \<noteq> []" for s xs zs
      using that
    proof (induction xs)
      case (Cons x xs)
      then show ?case by (cases xs; cases zs) auto
    qed simp
    have "path = join ''/'' (split_on CHR ''/'' p @ zs)"
      using z join_split_on [of "CHR ''/''" path] by simp
    also have "\<dots> = (if zs = [] then p else p @ ''/'' @ join ''/'' zs)"
      by (simp add: j join_split_on)
    finally show "path = p \<or> prefix (p @ ''/'') path"
      by (auto split: if_splits)
  qed
  then show ?thesis by (simp add: covers_def)
qed

lemma prefix_matches_str [simp]: "prefix_matches (PStr p) path = Inr (covers p path)"
  by (simp add: prefix_matches_def covers_iff)

lemma any_match_str [simp]: "any_match (PStr p) paths = Inr (\<exists>c \<in> set paths. covers p c)"
  by (induction paths) auto

lemma perm_doc_get [simp]:
  "dget_or (perm_doc p) ''prefix'' dflt = Inr (PStr (perm_prefix p))"
  "dget_or (perm_doc p) ''access'' dflt = Inr (PStr (perm_access p))"
  by (simp_all add: perm_doc_def)

lemma acl_doc_get [simp]: "dget_or (acl_doc ps) ''permissions'' dflt = Inr (PList (map perm_doc ps))"
  by (simp add: acl_doc_def)

lemma check_perms_doc: "check_perms paths mode (map perm_doc ps) = decision_res (acl_decide ps paths mode)"
  by (induction ps) (auto simp: acl_decide_def)

lemma check_acl_doc:
  assumes "ctx_acl ctx = acl_doc ps"
  shows "check_acl ctx res mode = decision_res (acl_decide ps (acl_candidate_paths (strip_type res)) mode)"
  using assms by (simp add: check_acl_def check_perms_doc)

lemma decision_res_Inr [simp]: "decision_res x = Inr u \<longleftrightarrow> x = Allow"
  by (cases x) simp_all

lemma acl_decide_Allow:
  "acl_decide ps paths mode = Allow \<longleftrightarrow>
   (\<exists>p. find (\<lambda>p. \<exists>c \<in> set paths. covers (perm_prefix p) c) ps = Some p \<and>
        (mode = WriteMode \<longrightarrow> perm_access p = ''rw''))"
  by (auto simp: acl_decide_def split: option.splits)

lemma find_SomeD: "find P xs = Some x \<Longrightarrow> x \<in> set xs \<and> P x"
  by (induction xs) (auto split: if_splits)

lemma has_superuser_perm_doc:
  "has_superuser_perm (map perm_doc ps) = Inr (\<exists>p \<in> set ps. perm_prefix p = ''*'' \<and> perm_access p = ''rw'')"
  by (induction ps) auto

text \<open>
  Any document at all: a grant can only come from a permission of the document whose prefix is
  a string that covers one of the candidate paths.
\<close>

lemma check_perms_grant:
  assumes "check_perms paths mode perms = Inr u"
  shows "\<exists>perm \<in> set perms. \<exists>d p. perm = PDict d \<and>
    (case map_of d ''prefix'' of None \<Rightarrow> PStr [] | Some x \<Rightarrow> x) = PStr p \<and>
    (\<exists>c \<in> set paths. covers p c) \<and>
    (mode = WriteMode \<longrightarrow> map_of d ''access'' = Some (PStr ''rw''))"
  using assms
proof (induction perms)
  case Nil
  then show ?case by simp
next
  case (Cons perm perms)
  obtain pre access m where pre: "dget_or perm ''prefix'' (PStr []) = Inr pre"
    and access: "dget_or perm ''access'' (PStr ''r'') = Inr access"
    and m: "any_match pre paths = Inr m"
    and rest: "(if m then if mode = WriteMode \<and> access \<noteq> PStr ''rw''
        then Inl (HTTPException 403 ''Forbidden: Write access denied'') else Inr ()
        else check_perms paths mode perms) = Inr u"
    using Cons.prems by (auto simp: bind_res_Inr_iff)
  show ?case
  proof (cases m)
    case False
    with rest Cons.IH show ?thesis by auto
  next
    case True
    with m have ne: "paths \<noteq> []" by auto
    from pre obtain d where d: "perm = PDict d" by (cases perm) (auto simp: dget_or_def)
    obtain p where p: "pre = PStr p"
      using m ne by (cases paths; cases pre) (auto simp: prefix_matches_def)
    with m True have "\<exists>c \<in> set paths. covers p c" by simp
    moreover have "mode = WriteMode \<longrightarrow> map_of d ''access'' = Some (PStr ''rw'')"
      using rest True access d by (auto split: if_splits option.splits)
    ultimately show ?thesis using d pre p by auto
  qed
qed

lemma load_admin_acl_rescue:
  "r_get R (admin_acl_key u) d = None \<Longrightarrow> u \<in> set rescue \<Longrightarrow> load_admin_acl R E rescue u d = acl_doc [Perm ''*'' ''rw'']"
  by (simp add: load_admin_acl_def get_truthy_def RESCUE_ACL_def acl_doc_def perm_doc_def)

lemma load_admin_acl_other:
  "r_get R (admin_acl_key u) d = None \<Longrightarrow> u \<notin> set rescue \<Longrightarrow> load_admin_acl R E rescue u d = acl_doc []"
  by (simp add: load_admin_acl_def get_truthy_def deny_all_def acl_doc_def)

lemma get_truthy_Some: "get_truthy R k d = Some v \<longleftrightarrow> r_get R k d = Some v \<and> v \<noteq> []"
  by (auto simp: get_truthy_def split: option.splits)

lemma get_truthy_None: "get_truthy R k d = None \<longleftrightarrow> r_get R k d = None \<or> r_get R k d = Some []"
  by (auto simp: get_truthy_def split: option.splits)

text \<open>What an accepted device request must have carried.\<close>

lemma verify_device_request_Inr:
  "verify_device_request R E now req cid ts_str sig d = Inr ctx \<longleftrightarrow>
   (\<exists>ts sk. py_int ts_str = Some ts \<and> verify_timestamp now ts \<and>
     get_truthy R (client_secret_key cid) d = Some sk \<and> utf8_valid sk \<and>
     sign_payload E sk (rq_path req) (rq_body req) ts = Inr sig \<and>
     (\<exists>acl. (case get_truthy R (client_acl_key cid) d of
         None \<Rightarrow> Inr (PDict [(''read_write'', PStr ''*'')]) | Some a \<Rightarrow> loads_res E a) = Inr acl \<and>
       ctx = \<lparr>ctx_client_id = cid, ctx_secret_hex = sk, ctx_acl = acl\<rparr>))"
  by (auto simp: verify_device_request_def bind_res_Inr_iff decode_utf8_def
      verify_signature_Inr_True [symmetric] split: option.splits if_splits)

subsection \<open>Properties\<close>

text \<open>
  C13. Access control refines its specification: on an ACL document that lists the permissions
  \<open>ps\<close>, \<open>check_acl\<close> grants, denies the write or denies outright exactly as \<open>acl_decide\<close> does, which
  takes the first permission whose path segments begin the path segments of the resource (or,
  below \<open>_catalog/\<close>, of the resource without that prefix).
\<close>

theorem acl_check_refines:
  "check_acl \<lparr>ctx_client_id = c, ctx_secret_hex = s, ctx_acl = acl_doc ps\<rparr> resource mode =
   decision_res (acl_decide ps (acl_candidate_paths (strip_type resource)) mode)"
  by (rule check_acl_doc) simp

text \<open>
  No document, however mis-shaped, grants more than it says: when \<open>check_acl\<close> grants a key, the
  document is a dict whose \<open>permissions\<close> contain a dict with a string prefix that covers the key
  or, for a key \<open>_catalog/k\<close>, covers \<open>k\<close>; and when the mode is write its access is \<open>rw\<close>. A dict
  without a \<open>prefix\<close> counts as the empty prefix.
\<close>

lemma acl_grant_sound:
  assumes "check_acl ctx (''kv/'' @ key) mode = Inr ()"
  shows "\<exists>doc perms perm p. ctx_acl ctx = PDict doc \<and> py_iter (dval doc ''permissions'') = Inr perms \<and>
    PDict perm \<in> set perms \<and> map_of perm ''prefix'' \<in> {Some (PStr p), None} \<and>
    (map_of perm ''prefix'' = None \<longrightarrow> p = []) \<and>
    (covers p key \<or> (\<exists>k. key = ''_catalog/'' @ k \<and> k \<noteq> [] \<and> covers p k)) \<and>
    (mode = WriteMode \<longrightarrow> map_of perm ''access'' = Some (PStr ''rw''))"
proof -
  let ?cands = "acl_candidate_paths key"
  from assms obtain v perms where v: "dget_or (ctx_acl ctx) ''permissions'' (PList []) = Inr v"
    and perms: "py_iter v = Inr perms" and ok: "check_perms ?cands mode perms = Inr ()"
    by (auto simp: check_acl_def Let_def bind_res_Inr_iff strip_type_def)
  from check_perms_grant [OF ok] obtain perm p where perm: "PDict perm \<in> set perms"
    and pre: "(case map_of perm ''prefix'' of None \<Rightarrow> PStr [] | Some x \<Rightarrow> x) = PStr p"
    and cov: "\<exists>c \<in> set ?cands. covers p c"
    and acc: "mode = WriteMode \<longrightarrow> map_of perm ''access'' = Some (PStr ''rw'')" by blast
  from v obtain doc where doc: "ctx_acl ctx = PDict doc"
    by (cases "ctx_acl ctx") (auto simp: dget_or_def)
  have "perms \<noteq> []" using perm by auto
  with v doc perms have it: "py_iter (dval doc ''permissions'') = Inr perms"
    by (auto simp: dval_def split: option.splits)
  from cov have "covers p key \<or> (\<exists>k. key = ''_catalog/'' @ k \<and> k \<noteq> [] \<and> covers p k)"
    by (auto simp: acl_candidate_paths_def CATALOG_STASH_PREFIX_def Let_def prefix_def split: if_splits)
  with doc it perm pre acc show ?thesis
    by (intro exI [of _ doc] exI [of _ perms] exI [of _ perm] exI [of _ p])
      (auto split: option.splits)
qed

text \<open>
  The superuser gate: with the admin's ACL row absent, only a configured rescue user passes;
  with a row that lists the permissions \<open>ps\<close>, the gate passes exactly when \<open>*:rw\<close> is among them,
  and then being a rescue user changes nothing.
\<close>

lemma superuser_gate:
  assumes "map_option (e_loads E) (get_truthy R (admin_acl_key u) d) = map_option (\<lambda>ps. Some (acl_doc ps)) row"
  shows "is_ok (require_admin_superuser R E (rescue_users env) (Some u) d) \<longleftrightarrow>
    u \<noteq> [] \<and> (case row of None \<Rightarrow> u \<in> set (rescue_users env) | Some ps \<Rightarrow> Perm ''*'' ''rw'' \<in> set ps)"
proof (cases "u = []")
  case True
  then show ?thesis by (simp add: require_admin_superuser_def get_admin_context_def)
next
  case False
  have acl: "load_admin_acl R E (rescue_users env) u d = acl_doc (case row of
      None \<Rightarrow> if u \<in> set (rescue_users env) then [Perm ''*'' ''rw''] else [] | Some ps \<Rightarrow> ps)"
    using assms by (auto simp: load_admin_acl_def RESCUE_ACL_def deny_all_def acl_doc_def perm_doc_def
        split: option.splits)
  have "is_ok (require_admin_superuser R E (rescue_users env) (Some u) d) \<longleftrightarrow> Perm ''*'' ''rw'' \<in> set qs"
    if "load_admin_acl R E (rescue_users env) u d = acl_doc qs" for qs
    using that False
    by (auto simp: require_admin_superuser_def get_admin_context_def has_superuser_perm_doc)
      (metis perm.collapse)
  from this [OF acl] False show ?thesis by (cases row) simp_all
qed

end
