(* ===== verification/DeviceRoutes.thy ===== *)
theory DeviceRoutes
  imports Dependencies
begin

text \<open>
  \<open>backend/src/api/routes_device.py\<close>: the device API. Publishing to and consuming from a
  queue (a Redis stream with one cursor per consumer), and the key-value store with its
  encrypted-flag sidecar, the catalog gate and the nonces of encrypted responses.

  A handler takes the request, the authenticated context and the store and returns the
  response (or the exception) and the next store. One clock reading \<open>now\<close> serves a request.
  The schema validation of \<open>Catalog.model_validate\<close> (pydantic) and the lint are arguments of
  the catalog gate. The poll loop of \<open>consume_message\<close> is a \<open>partial_function\<close>; that it
  returns is a theorem.
\<close>

subsection \<open>Responses\<close>

record response =
  rs_status :: nat
  rs_media :: string
  rs_headers :: "(string \<times> string) list"
  rs_body :: string

definition MSGPACK_MT :: string where
  "MSGPACK_MT = ''application/x-msgpack''"

definition signed_response ::
    "ext \<Rightarrow> int \<Rightarrow> client_ctx \<Rightarrow> request \<Rightarrow> string \<Rightarrow> nat \<Rightarrow> response res" where
  "signed_response E ts ctx req body status_code =
     bind_res (sign_payload E (ctx_secret_hex ctx) (rq_path req) body ts) (\<lambda>sig.
     Inr \<lparr>rs_status = status_code, rs_media = MSGPACK_MT,
          rs_headers = [(''X-Response-Timestamp'', dec_int ts), (''X-Response-Signature'', sig)],
          rs_body = body\<rparr>)"

definition packb_res :: "ext \<Rightarrow> pyval \<Rightarrow> string res" where
  "packb_res E v = (case e_packb E v of None \<Rightarrow> Inl (PyExn ''ValueError'') | Some b \<Rightarrow> Inr b)"

definition signed_msgpack :: "ext \<Rightarrow> int \<Rightarrow> client_ctx \<Rightarrow> request \<Rightarrow> pyval \<Rightarrow> response res" where
  "signed_msgpack E ts ctx req obj =
     bind_res (packb_res E obj) (\<lambda>b. signed_response E ts ctx req b 200)"

definition status_doc :: "string \<Rightarrow> pyval" where
  "status_doc s = PDict [(''status'', PStr s)]"

subsection \<open>Nonces of encrypted responses\<close>

definition nonce_key :: "string \<Rightarrow> string" where
  "nonce_key cid = ''kvenc:nonce:'' @ cid"

text \<open>The Lua script, run atomically by Redis: read, take the maximum, write.\<close>

definition kvenc_nonce_lua :: "'db redis \<Rightarrow> string \<Rightarrow> int \<Rightarrow> 'db \<Rightarrow> int res \<times> 'db" where
  "kvenc_nonce_lua R key arg d =
     (case py_int (case r_get R key d of None \<Rightarrow> ''0'' | Some v \<Rightarrow> v) of
        None \<Rightarrow> (Inl (PyExn ''ResponseError''), d)
      | Some prev \<Rightarrow>
         let n = (if arg \<le> prev then prev + 1 else arg)
         in (Inr n, r_set R key (dec_int n) d))"

definition next_kvenc_nonce :: "'db redis \<Rightarrow> int \<Rightarrow> string \<Rightarrow> 'db \<Rightarrow> int res \<times> 'db" where
  "next_kvenc_nonce R now client_id d = kvenc_nonce_lua R (nonce_key client_id) now d"

definition signed_encrypted_response ::
    "ext \<Rightarrow> client_ctx \<Rightarrow> request \<Rightarrow> string \<Rightarrow> int \<Rightarrow> response res" where
  "signed_encrypted_response E ctx req plaintext nonce =
     bind_res (kvenc_xor E (ctx_secret_hex ctx) nonce plaintext) (\<lambda>ciphertext.
     bind_res (packb_res E (PExt KVENC_EXT_TYPE ciphertext)) (\<lambda>body.
     bind_res (sign_payload E (ctx_secret_hex ctx) (rq_path req) body nonce) (\<lambda>sig.
     Inr \<lparr>rs_status = 200, rs_media = MSGPACK_MT,
          rs_headers = [(''X-Response-Timestamp'', dec_int nonce), (''X-Response-Signature'', sig)],
          rs_body = body\<rparr>)))"

subsection \<open>Bodies\<close>

definition content_type :: "request \<Rightarrow> string" where
  "content_type req = (case rq_headers req ''content-type'' of None \<Rightarrow> [] | Some s \<Rightarrow> s)"

text \<open>Text is wrapped in msgpack; anything else must already be msgpack, or empty.\<close>

definition prepare_body :: "ext \<Rightarrow> request \<Rightarrow> string res" where
  "prepare_body E req =
     (let body = rq_body req in
      if sublist ''text/plain'' (content_type req)
      then (if utf8_valid body
            then (case e_packb E (PStr body) of
                    Some b \<Rightarrow> Inr b | None \<Rightarrow> Inl (HTTPException 400 ''Invalid UTF-8 payload''))
            else Inl (HTTPException 400 ''Invalid UTF-8 payload''))
      else (if body \<noteq> [] \<and> e_unpackb E body = None
            then Inl (HTTPException 400 ''Invalid MessagePack payload'')
            else Inr body))"

subsection \<open>Queues\<close>

definition q_key :: "string \<Rightarrow> string" where
  "q_key topic = ''q:'' @ topic"

definition cursor_key :: "string \<Rightarrow> string \<Rightarrow> string" where
  "cursor_key cid topic = ''cursor:'' @ cid @ '':q:'' @ topic"

definition publish_message ::
    "'db redis \<Rightarrow> ext \<Rightarrow> int \<Rightarrow> string \<Rightarrow> request \<Rightarrow> int \<Rightarrow> client_ctx \<Rightarrow> 'db \<Rightarrow> response res \<times> 'db" where
  "publish_message R E now topic req ttl0 ctx d =
     (let ttl = (if 604800 < ttl0 then 604800 else ttl0) in
      lift_res (check_acl ctx (''q/'' @ topic) WriteMode) d (\<lambda>_.
      lift_res (prepare_body E req) d (\<lambda>body.
      let exp_time = now + ttl in
      lift_res (r_xadd R (q_key topic) None
          [(''payload'', body), (''exp'', dec_int exp_time), (''client_id'', ctx_client_id ctx)] d) d (\<lambda>d1.
      let d2 = r_expire R (q_key topic) 604800 d1
      in (signed_msgpack E now ctx req (status_doc ''ok''), d2)))))"

text \<open>One batch: the first entry that has not expired, and the last identifier looked at.\<close>

fun scan_batch :: "int \<Rightarrow> entry list \<Rightarrow> string \<Rightarrow> (fields option \<times> string) res" where
  "scan_batch now [] last_id = Inr (None, last_id)"
| "scan_batch now ((msg_id, f) # rs) last_id =
     (case map_of f ''exp'' of
        None \<Rightarrow> Inl (PyExn ''KeyError'')
      | Some x \<Rightarrow>
         (case py_int x of
            None \<Rightarrow> Inl (PyExn ''ValueError'')
          | Some x_exp \<Rightarrow> if now \<le> x_exp then Inr (Some f, msg_id) else scan_batch now rs msg_id))"

definition deliver ::
    "ext \<Rightarrow> int \<Rightarrow> client_ctx \<Rightarrow> request \<Rightarrow> bool \<Rightarrow> string \<Rightarrow> fields \<Rightarrow> response res" where
  "deliver E now ctx req envelope msg_id f =
     (case map_of f ''payload'' of
        None \<Rightarrow> Inl (PyExn ''KeyError'')
      | Some raw_payload \<Rightarrow>
         if \<not> envelope then signed_response E now ctx req raw_payload 200
         else
           let decoded_data = (case e_unpackb E raw_payload of None \<Rightarrow> PBytes raw_payload | Some v \<Rightarrow> v) in
           (case py_int (hd (split_on CHR ''-'' msg_id)) of
              None \<Rightarrow> Inl (PyExn ''ValueError'')
            | Some ms \<Rightarrow>
               bind_res (decode_utf8 (case map_of f ''client_id'' of None \<Rightarrow> ''unknown'' | Some c \<Rightarrow> c)) (\<lambda>publisher_id.
               bind_res (packb_res E (PDict [(''data'', decoded_data), (''client_id'', PStr publisher_id),
                                             (''received_at'', PInt (ms div 1000))])) (\<lambda>wrapped.
               signed_response E now ctx req wrapped 200))))"

partial_function (option) consume_loop ::
    "'db redis \<Rightarrow> ext \<Rightarrow> int \<Rightarrow> string \<Rightarrow> request \<Rightarrow> bool \<Rightarrow> client_ctx \<Rightarrow> string \<Rightarrow> 'db
      \<Rightarrow> (response res \<times> 'db) option" where
  "consume_loop R E now topic req envelope ctx last_id d =
     (let messages = r_xread R (q_key topic) last_id 50 d;
          ckey = cursor_key (ctx_client_id ctx) topic in
      if messages = [] then Some (signed_response E now ctx req [] 204, d)
      else
        (case scan_batch now messages last_id of
           Inl e \<Rightarrow> Some (Inl e, d)
         | Inr r \<Rightarrow>
            (case fst r of
               Some f \<Rightarrow> Some (deliver E now ctx req envelope (snd r) f, r_set R ckey (snd r) d)
             | None \<Rightarrow> consume_loop R E now topic req envelope ctx (snd r) (r_set R ckey (snd r) d))))"

definition consume_message ::
    "'db redis \<Rightarrow> ext \<Rightarrow> int \<Rightarrow> string \<Rightarrow> request \<Rightarrow> bool \<Rightarrow> client_ctx \<Rightarrow> 'db
      \<Rightarrow> (response res \<times> 'db) option" where
  "consume_message R E now topic req envelope ctx d =
     (case check_acl ctx (''q/'' @ topic) ReadMode of
        Inl e \<Rightarrow> Some (Inl e, d)
      | Inr _ \<Rightarrow>
         (case decode_utf8 (case r_get R (cursor_key (ctx_client_id ctx) topic) d of
                              None \<Rightarrow> ''0-0'' | Some v \<Rightarrow> v) of
            Inl e \<Rightarrow> Some (Inl e, d)
          | Inr last_id \<Rightarrow> consume_loop R E now topic req envelope ctx last_id d))"

subsection \<open>The catalog gate\<close>

definition is_catalog_yaml_key :: "string \<Rightarrow> bool" where
  "is_catalog_yaml_key key =
     (case split_on CHR ''/'' key of [a, b] \<Rightarrow> a = ''_catalog'' \<and> b \<noteq> [] | _ \<Rightarrow> False)"

definition validate_catalog_yaml_upload ::
    "ext \<Rightarrow> (pyval \<Rightarrow> 'cat option) \<Rightarrow> ('cat \<Rightarrow> 'issue list) \<Rightarrow> string \<Rightarrow> unit res" where
  "validate_catalog_yaml_upload E model_validate lint_errors packed_body =
     (case e_unpackb E packed_body of
        None \<Rightarrow> Inl (HTTPException 400 ''catalog upload: payload is not valid msgpack'')
      | Some (PStr text) \<Rightarrow>
         (case e_yaml E text of
            None \<Rightarrow> Inl (HTTPException 400 ''catalog upload: malformed YAML'')
          | Some doc \<Rightarrow>
             if \<not> is_dict doc then Inl (HTTPException 400 ''catalog upload: top-level must be a mapping'')
             else
               (case model_validate doc of
                  None \<Rightarrow> Inl (HTTPException 400 ''catalog upload: schema validation failed'')
                | Some cat \<Rightarrow>
                   if lint_errors cat \<noteq> [] then Inl (HTTPException 400 ''catalog upload: lint failed'')
                   else Inr ()))
      | Some _ \<Rightarrow> Inl (HTTPException 400 ''catalog upload: payload must be a YAML string''))"

subsection \<open>The key-value store\<close>

definition kv_key :: "string \<Rightarrow> string" where
  "kv_key key = ''kv:'' @ key"

definition enc_key :: "string \<Rightarrow> string" where
  "enc_key key = ''kv:'' @ key @ '':enc''"

definition set_enc_flag :: "'db redis \<Rightarrow> string \<Rightarrow> bool \<Rightarrow> 'db \<Rightarrow> 'db" where
  "set_enc_flag R key encrypted d =
     (if encrypted then r_set R (enc_key key) ''1'' d else r_del R (enc_key key) d)"

definition write_kv ::
    "'db redis \<Rightarrow> ext \<Rightarrow> (pyval \<Rightarrow> 'cat option) \<Rightarrow> ('cat \<Rightarrow> 'issue list) \<Rightarrow> int \<Rightarrow> string
      \<Rightarrow> request \<Rightarrow> client_ctx \<Rightarrow> 'db \<Rightarrow> response res \<times> 'db" where
  "write_kv R E model_validate lint_errors now key req ctx d =
     lift_res (check_acl ctx (''kv/'' @ key) WriteMode) d (\<lambda>_.
     lift_res (prepare_body E req) d (\<lambda>body.
     lift_res (if is_catalog_yaml_key key \<and> body \<noteq> []
               then validate_catalog_yaml_upload E model_validate lint_errors body else Inr ()) d (\<lambda>_.
     let d1 = r_set R (kv_key key) body d;
         d2 = set_enc_flag R key (rq_headers req ''x-encrypted'' = Some ''1'') d1
     in (signed_msgpack E now ctx req (status_doc ''ok''), d2))))"

text \<open>\<open>read_kv\<close> also stashes \<open>kv_hit\<close> on the request, once the value has been looked up.\<close>

definition read_kv ::
    "'db redis \<Rightarrow> ext \<Rightarrow> int \<Rightarrow> string \<Rightarrow> request \<Rightarrow> client_ctx \<Rightarrow> 'db
      \<Rightarrow> bool option \<times> response res \<times> 'db" where
  "read_kv R E now key req ctx d =
     (case check_acl ctx (''kv/'' @ key) ReadMode of
        Inl e \<Rightarrow> (None, Inl e, d)
      | Inr _ \<Rightarrow>
         (case r_get R (kv_key key) d of
            None \<Rightarrow> (Some False, signed_msgpack E now ctx req (status_doc ''not_found''), d)
          | Some val \<Rightarrow>
             (Some True,
              if get_truthy R (enc_key key) d \<noteq> None then
                lift_res
                  (case e_unpackb_raw E val of
                     None \<Rightarrow> Inl (HTTPException 500 ''Encrypted record: stored value is not msgpack'')
                   | Some (PBytes b) \<Rightarrow> Inr b
                   | Some (PStr s) \<Rightarrow> Inr s
                   | Some _ \<Rightarrow> Inl (HTTPException 500 ''Encrypted record: stored value is not str/bin''))
                  d
                  (\<lambda>plaintext.
                     (case next_kvenc_nonce R now (ctx_client_id ctx) d of
                        (Inl e, d1) \<Rightarrow> (Inl e, d1)
                      | (Inr nonce, d1) \<Rightarrow> (signed_encrypted_response E ctx req plaintext nonce, d1)))
              else (signed_response E now ctx req val 200, d))))"

definition delete_kv ::
    "'db redis \<Rightarrow> ext \<Rightarrow> int \<Rightarrow> string \<Rightarrow> request \<Rightarrow> client_ctx \<Rightarrow> 'db \<Rightarrow> response res \<times> 'db" where
  "delete_kv R E now key req ctx d =
     lift_res (check_acl ctx (''kv/'' @ key) WriteMode) d (\<lambda>_.
     (signed_msgpack E now ctx req (status_doc ''ok''),
      r_del R (enc_key key) (r_del R (kv_key key) d)))"

subsection \<open>Keys are kept apart\<close>

lemma key_simps [simp]:
  "kv_key a = kv_key b \<longleftrightarrow> a = b"
  "enc_key a = enc_key b \<longleftrightarrow> a = b"
  "q_key a = q_key b \<longleftrightarrow> a = b"
  "nonce_key a = nonce_key b \<longleftrightarrow> a = b"
  "kv_key a \<noteq> q_key b" "q_key b \<noteq> kv_key a"
  "enc_key a \<noteq> q_key b" "q_key b \<noteq> enc_key a"
  "kv_key a \<noteq> nonce_key c" "nonce_key c \<noteq> kv_key a"
  "enc_key a \<noteq> nonce_key c" "nonce_key c \<noteq> enc_key a"
  "cursor_key c t \<noteq> q_key b" "q_key b \<noteq> cursor_key c t"
  "q_key a \<noteq> nonce_key c" "nonce_key c \<noteq> q_key a"
  "cursor_key c t \<noteq> nonce_key b" "nonce_key b \<noteq> cursor_key c t"
  "cursor_key c t \<noteq> kv_key k" "kv_key k \<noteq> cursor_key c t"
  "cursor_key c t \<noteq> enc_key k" "enc_key k \<noteq> cursor_key c t"
  "kv_key k \<noteq> client_secret_key c" "client_secret_key c \<noteq> kv_key k"
  "kv_key k \<noteq> client_acl_key c" "client_acl_key c \<noteq> kv_key k"
  "enc_key k \<noteq> client_secret_key c" "client_secret_key c \<noteq> enc_key k"
  "enc_key k \<noteq> client_acl_key c" "client_acl_key c \<noteq> enc_key k"
  by (simp_all add: kv_key_def enc_key_def q_key_def nonce_key_def cursor_key_def
      client_secret_key_def client_acl_key_def)

lemma kv_key_enc_key: "kv_key a = enc_key b \<longleftrightarrow> a = b @ '':enc''"
  by (auto simp: kv_key_def enc_key_def)

lemma kv_key_neq_own_enc [simp]: "kv_key a \<noteq> enc_key a" "enc_key a \<noteq> kv_key a"
  by (auto simp: kv_key_def enc_key_def)

subsection \<open>The interface of the back end\<close>

locale backend = redis_store R entries + codec E
  for R :: "'db redis" and entries and E :: ext

interpretation ref_backend: backend mem_redis mem_entries ref_ext
  by unfold_locales

context backend
begin

lemma signed_response_Inr:
  "signed_response E ts ctx req body st = Inr r \<longleftrightarrow>
   (\<exists>sig. sign_payload E (ctx_secret_hex ctx) (rq_path req) body ts = Inr sig \<and>
     r = \<lparr>rs_status = st, rs_media = MSGPACK_MT,
          rs_headers = [(''X-Response-Timestamp'', dec_int ts), (''X-Response-Signature'', sig)],
          rs_body = body\<rparr>)"
  by (auto simp: signed_response_def bind_res_Inr_iff)

lemma packb_res_Inr [simp]: "packb_res E v = Inr b \<longleftrightarrow> e_packb E v = Some b"
  by (simp add: packb_res_def split: option.splits)

lemma packb_res_no_http [simp]: "packb_res E v \<noteq> Inl (HTTPException c m)"
  by (simp add: packb_res_def split: option.splits)

lemma sign_no_http [simp]: "sign_payload E sk u b t \<noteq> Inl (HTTPException c m)"
  by (auto simp: sign_payload_def calculate_signature_def from_hex_res_def split: option.splits)

lemma signed_no_http [simp]:
  "signed_response E ts ctx req body st \<noteq> Inl (HTTPException c m)"
  "signed_msgpack E ts ctx req v \<noteq> Inl (HTTPException c m)"
proof -
  show a: "signed_response E ts ctx req body st \<noteq> Inl (HTTPException c m)" for body st
    by (cases "sign_payload E (ctx_secret_hex ctx) (rq_path req) body ts") (auto simp: signed_response_def)
  show "signed_msgpack E ts ctx req v \<noteq> Inl (HTTPException c m)"
    by (auto simp: signed_msgpack_def packb_res_def a split: option.splits)
qed

lemma get_set_enc_flag:
  "r_get R k (set_enc_flag R key b d) =
   (if k = enc_key key then (if b then Some ''1'' else None) else r_get R k d)"
  by (simp add: set_enc_flag_def get_set get_del)

lemma write_kv_Inr:
  assumes "write_kv R E mv lint now key req ctx d = (Inr resp, d')"
  obtains body where
    "check_acl ctx (''kv/'' @ key) WriteMode = Inr ()"
    "prepare_body E req = Inr body"
    "d' = set_enc_flag R key (rq_headers req ''x-encrypted'' = Some ''1'') (r_set R (kv_key key) body d)"
    "is_catalog_yaml_key key \<Longrightarrow> body \<noteq> [] \<Longrightarrow> validate_catalog_yaml_upload E mv lint body = Inr ()"
  using assms by (auto simp: write_kv_def lift_res_cases Let_def split: if_splits)

lemma write_kv_get:
  assumes "write_kv R E mv lint now key req ctx d = (Inr resp, d')"
  obtains body where "prepare_body E req = Inr body"
    "r_get R (kv_key key) d' = Some body"
    "r_get R (enc_key key) d' = (if rq_headers req ''x-encrypted'' = Some ''1'' then Some ''1'' else None)"
  using assms by (elim write_kv_Inr) (auto simp: get_set_enc_flag)

lemma write_kv_frame:
  assumes "write_kv R E mv lint now key req ctx d = (res, d')"
    and "k \<noteq> kv_key key" and "k \<noteq> enc_key key"
  shows "r_get R k d' = r_get R k d"
  using assms by (auto simp: write_kv_def lift_res_cases Let_def get_set_enc_flag get_set)

lemma write_kv_http_error:
  "write_kv R E mv lint now key req ctx d = (Inl (HTTPException c m), d') \<Longrightarrow> d' = d"
  by (auto simp: write_kv_def lift_res_cases Let_def)

lemma delete_kv_frame:
  assumes "delete_kv R E now key req ctx d = (res, d')" and "k \<noteq> kv_key key" and "k \<noteq> enc_key key"
  shows "r_get R k d' = r_get R k d"
  using assms by (auto simp: delete_kv_def lift_res_cases get_del)

lemma delete_kv_get:
  assumes "delete_kv R E now key req ctx d = (Inr resp, d')"
  shows "r_get R (kv_key key) d' = None" and "r_get R (enc_key key) d' = None"
  using assms by (auto simp: delete_kv_def lift_res_cases get_del)

lemma read_kv_plain:
  assumes "check_acl ctx (''kv/'' @ key) ReadMode = Inr ()"
    and "r_get R (kv_key key) d = Some val" and "r_get R (enc_key key) d = None"
  shows "read_kv R E now key req ctx d = (Some True, signed_response E now ctx req val 200, d)"
  using assms by (simp add: read_kv_def get_truthy_def)

lemma read_kv_missing:
  assumes "check_acl ctx (''kv/'' @ key) ReadMode = Inr ()" and "r_get R (kv_key key) d = None"
  shows "read_kv R E now key req ctx d = (Some False, signed_msgpack E now ctx req (status_doc ''not_found''), d)"
  using assms by (simp add: read_kv_def)

lemma next_kvenc_nonce_Inr:
  assumes "next_kvenc_nonce R now cid d = (Inr n, d')"
  obtains prev where "py_int (case r_get R (nonce_key cid) d of None \<Rightarrow> ''0'' | Some v \<Rightarrow> v) = Some prev"
    "n = max now (prev + 1)" "d' = r_set R (nonce_key cid) (dec_int n) d"
  using assms by (auto simp: next_kvenc_nonce_def kvenc_nonce_lua_def Let_def max_def split: option.splits if_splits)

text \<open>Reading touches the store only to allocate a nonce, and only the caller's own.\<close>

lemma read_kv_state:
  assumes "read_kv R E now key req ctx d = (hit, res, d')"
  shows "d' = d \<or> (\<exists>n. next_kvenc_nonce R now (ctx_client_id ctx) d = (Inr n, d'))"
  using assms
  by (auto simp: read_kv_def lift_res_cases next_kvenc_nonce_def kvenc_nonce_lua_def Let_def
      split: sum.splits option.splits if_splits prod.splits pyval.splits)

lemma read_kv_encrypted:
  assumes "check_acl ctx (''kv/'' @ key) ReadMode = Inr ()"
    and "r_get R (kv_key key) d = Some val" and "r_get R (enc_key key) d = Some ''1''"
    and "e_unpackb_raw E val = Some (PBytes b)"
    and "next_kvenc_nonce R now (ctx_client_id ctx) d = (Inr n, d1)"
  shows "read_kv R E now key req ctx d = (Some True, signed_encrypted_response E ctx req b n, d1)"
  using assms by (simp add: read_kv_def get_truthy_def)

lemma signed_encrypted_response_Inr:
  assumes "signed_encrypted_response E ctx req plaintext nonce = Inr r"
  obtains ct where "kvenc_xor E (ctx_secret_hex ctx) nonce plaintext = Inr ct"
    "e_unpackb E (rs_body r) = Some (PExt KVENC_EXT_TYPE ct)"
    "map_of (rs_headers r) ''X-Response-Timestamp'' = Some (dec_int nonce)"
    "rs_status r = 200"
  using assms by (auto simp: signed_encrypted_response_def bind_res_Inr_iff unpackb_packb)

end

subsection \<open>Consuming a queue\<close>

text \<open>\<open>pending\<close>: the entries after the cursor; \<open>expired\<close>: skipped by the scan.\<close>

definition pending ::
    "(string \<Rightarrow> 'db \<Rightarrow> (stream_id \<times> fields) list) \<Rightarrow> string \<Rightarrow> stream_id \<Rightarrow> 'db \<Rightarrow> (stream_id \<times> fields) list" where
  "pending entries topic i d = filter (\<lambda>e. i < fst e) (entries (q_key topic) d)"

definition entry_exp :: "fields \<Rightarrow> int option" where
  "entry_exp f = Option.bind (map_of f ''exp'') py_int"

definition expired :: "int \<Rightarrow> stream_id \<times> fields \<Rightarrow> bool" where
  "expired now e \<longleftrightarrow> (case entry_exp (snd e) of Some x \<Rightarrow> x < now | None \<Rightarrow> False)"

definition well_formed_entry :: "stream_id \<times> fields \<Rightarrow> bool" where
  "well_formed_entry e \<longleftrightarrow> entry_exp (snd e) \<noteq> None \<and> map_of (snd e) ''payload'' \<noteq> None"

text \<open>What the loop should answer, and where it should leave the cursor, given the pending entries.\<close>

definition consumed ::
    "ext \<Rightarrow> int \<Rightarrow> request \<Rightarrow> bool \<Rightarrow> client_ctx \<Rightarrow> (stream_id \<times> fields) list \<Rightarrow> response res" where
  "consumed E now req envelope ctx p =
     (case dropWhile (expired now) p of
        [] \<Rightarrow> signed_response E now ctx req [] 204
      | e # _ \<Rightarrow> deliver E now ctx req envelope (show_sid (fst e)) (snd e))"

definition cursor_after :: "int \<Rightarrow> stream_id \<Rightarrow> (stream_id \<times> fields) list \<Rightarrow> stream_id" where
  "cursor_after now i p =
     (case dropWhile (expired now) p of
        [] \<Rightarrow> (if p = [] then i else fst (last p))
      | e # _ \<Rightarrow> fst e)"

lemma entry_exp_Some:
  "entry_exp f = Some x \<longleftrightarrow> (\<exists>s. map_of f ''exp'' = Some s \<and> py_int s = Some x)"
  by (cases "map_of f ''exp''") (simp_all add: entry_exp_def)

declare dropWhile_eq_Nil_conv [simp del]

lemma scan_batch_spec:
  assumes "\<forall>e \<in> set es. well_formed_entry e"
  shows "scan_batch now (map show_entry es) (show_sid i) =
    (case dropWhile (expired now) es of
       [] \<Rightarrow> Inr (None, show_sid (if es = [] then i else fst (last es)))
     | e # _ \<Rightarrow> Inr (Some (snd e), show_sid (fst e)))"
  using assms
proof (induction es arbitrary: i)
  case Nil
  then show ?case by simp
next
  case (Cons e es)
  obtain s x where s: "map_of (snd e) ''exp'' = Some s" "py_int s = Some x" and x: "entry_exp (snd e) = Some x"
    using Cons.prems by (auto simp: well_formed_entry_def entry_exp_Some)
  show ?case
  proof (cases "now \<le> x")
    case True
    with s x show ?thesis by (simp add: show_entry_def expired_def)
  next
    case False
    with x have "expired now e" by (simp add: expired_def)
    moreover have "scan_batch now (map show_entry (e # es)) (show_sid i) =
        scan_batch now (map show_entry es) (show_sid (fst e))"
      using False s by (simp add: show_entry_def)
    moreover have "\<forall>e \<in> set es. well_formed_entry e" using Cons.prems by simp
    ultimately show ?thesis
      using Cons.IH [of "fst e"] by (cases "es = []") (auto split: list.splits)
  qed
qed

lemma filter_after_last:
  assumes "sorted_wrt (<) (map fst (es :: (stream_id \<times> 'a) list))"
    and "take n (filter (\<lambda>e. i < fst e) es) \<noteq> []"
  shows "filter (\<lambda>e. fst (last (take n (filter (\<lambda>e. i < fst e) es))) < fst e) es
    = drop n (filter (\<lambda>e. i < fst e) es)"
proof -
  define p where "p = filter (\<lambda>e. i < fst e) es"
  define l where "l = last (take n p)"
  have ne: "take n p \<noteq> []" using assms(2) by (simp add: p_def)
  have lin: "l \<in> set (take n p)" using ne by (simp add: l_def)
  then have "l \<in> set p" by (rule in_set_takeD)
  then have li: "i < fst l" by (simp add: p_def)
  have "sorted_wrt (<) (map fst p)"
    using assms(1) by (simp add: p_def sorted_wrt_map sorted_wrt_filter)
  then have sp: "sorted_wrt (\<lambda>a b. fst a < fst b) (take n p @ drop n p)"
    by (simp add: sorted_wrt_map)
  then have hi: "\<forall>e \<in> set (drop n p). fst l < fst e"
    using lin by (simp only: sorted_wrt_append) blast
  have lo: "\<forall>e \<in> set (take n p). \<not> fst l < fst e"
  proof -
    have "take n p = butlast (take n p) @ [l]" using ne by (simp add: l_def)
    moreover have "sorted_wrt (\<lambda>a b. fst a < fst b) (take n p)" using sp by (simp add: sorted_wrt_append)
    ultimately have "sorted_wrt (\<lambda>a b. fst a < fst b) (butlast (take n p) @ [l])" by simp
    then have "\<forall>e \<in> set (butlast (take n p)). fst e < fst l" by (simp add: sorted_wrt_append)
    then have "\<forall>e \<in> set (butlast (take n p) @ [l]). \<not> fst l < fst e" by (auto dest: less_not_sym)
    with \<open>take n p = butlast (take n p) @ [l]\<close> show ?thesis by simp
  qed
  have "filter (\<lambda>e. fst l < fst e) es = filter (\<lambda>e. fst l < fst e) p"
    using li by (auto simp: p_def intro!: filter_cong dest: less_trans)
  also have "\<dots> = filter (\<lambda>e. fst l < fst e) (take n p @ drop n p)" by simp
  also have "\<dots> = drop n p"
    using hi lo by (simp only: filter_append) (simp add: filter_id_conv)
  finally show ?thesis by (simp add: p_def l_def)
qed

lemma dropWhile_take:
  "dropWhile P (take n xs) = [] \<Longrightarrow> dropWhile P xs = dropWhile P (drop n xs)"
proof (induction xs arbitrary: n)
  case (Cons x xs)
  then show ?case by (cases n) (auto split: if_splits)
qed simp

lemma dropWhile_take_Cons:
  "dropWhile P (take n xs) = y # ys \<Longrightarrow> \<exists>zs. dropWhile P xs = y # zs"
proof (induction xs arbitrary: n)
  case (Cons x xs)
  then show ?case by (cases n) (auto split: if_splits)
qed simp

context backend
begin

lemma pending_set [simp]: "pending entries topic i (r_set R (cursor_key c t) v d) = pending entries topic i d"
  by (simp add: pending_def entries_set)

text \<open>
  The loop delivers the first pending entry that has not expired and leaves the cursor on it;
  when there is none it answers 204 and leaves the cursor on the last pending entry. It returns,
  because each round moves the cursor past the batch it read.
\<close>
lemma consume_loop_spec:
  assumes "\<forall>e \<in> set (pending entries topic i d). well_formed_entry e"
  shows "\<exists>d'. consume_loop R E now topic req envelope ctx (show_sid i) d =
      Some (consumed E now req envelope ctx (pending entries topic i d), d') \<and>
    (pending entries topic i d = [] \<longrightarrow> d' = d) \<and>
    (pending entries topic i d \<noteq> [] \<longrightarrow>
       r_get R (cursor_key (ctx_client_id ctx) topic) d' = Some (show_sid (cursor_after now i (pending entries topic i d)))) \<and>
    (\<forall>k. k \<noteq> cursor_key (ctx_client_id ctx) topic \<longrightarrow> r_get R k d' = r_get R k d) \<and>
    (\<forall>t. entries (q_key t) d' = entries (q_key t) d)"
  using assms
proof (induction "length (pending entries topic i d)" arbitrary: i d rule: less_induct)
  case less
  let ?p = "pending entries topic i d" and ?ck = "cursor_key (ctx_client_id ctx) topic"
  have x: "r_xread R (q_key topic) (show_sid i) 50 d = map show_entry (take 50 ?p)"
    by (simp add: xread_after pending_def)
  show ?case
  proof (cases "?p = []")
    case True
    with x show ?thesis
      by (subst consume_loop.simps) (simp add: consumed_def)
  next
    case False
    then have ne: "take 50 ?p \<noteq> []" by simp
    have wf: "\<forall>e \<in> set (take 50 ?p). well_formed_entry e"
      using less.prems by (auto dest: in_set_takeD)
    show ?thesis
    proof (cases "dropWhile (expired now) (take 50 ?p)")
      case (Cons e es)
      then obtain zs where "dropWhile (expired now) ?p = e # zs"
        by (auto dest: dropWhile_take_Cons)
      with Cons x ne False show ?thesis
        by (subst consume_loop.simps)
          (simp add: scan_batch_spec [OF wf] consumed_def cursor_after_def get_set entries_set)
    next
      case Nil
      let ?j = "fst (last (take 50 ?p))" and ?d = "r_set R ?ck (show_sid (fst (last (take 50 ?p)))) d"
      have pj: "pending entries topic ?j ?d = drop 50 ?p"
        using filter_after_last [OF entries_sorted, of 50 i "q_key topic" d] ne
        by (simp add: pending_def entries_set)
      have step: "consume_loop R E now topic req envelope ctx (show_sid i) d =
          consume_loop R E now topic req envelope ctx (show_sid ?j) ?d"
        using x ne Nil
        by (subst consume_loop.simps) (simp add: scan_batch_spec [OF wf] Let_def del: dropWhile_eq_Nil_conv)
      have dw: "dropWhile (expired now) ?p = dropWhile (expired now) (drop 50 ?p)"
        using Nil by (rule dropWhile_take)
      have "length (pending entries topic ?j ?d) < length ?p"
        using False pj by simp
      moreover have "\<forall>e \<in> set (pending entries topic ?j ?d). well_formed_entry e"
        using less.prems pj by (auto dest: in_set_dropD)
      ultimately obtain d' where IH:
        "consume_loop R E now topic req envelope ctx (show_sid ?j) ?d =
           Some (consumed E now req envelope ctx (pending entries topic ?j ?d), d')"
        "pending entries topic ?j ?d = [] \<longrightarrow> d' = ?d"
        "pending entries topic ?j ?d \<noteq> [] \<longrightarrow> r_get R ?ck d' = Some (show_sid (cursor_after now ?j (pending entries topic ?j ?d)))"
        "\<forall>k. k \<noteq> ?ck \<longrightarrow> r_get R k d' = r_get R k ?d"
        "\<forall>t. entries (q_key t) d' = entries (q_key t) ?d"
        using less.hyps by blast
      have c: "consumed E now req envelope ctx (pending entries topic ?j ?d) = consumed E now req envelope ctx (pending entries topic i d)"
        by (simp add: consumed_def pj dw del: pending_set)
      have "last ?p = last (drop 50 ?p)" if "drop 50 ?p \<noteq> []"
        using that by (simp add: last_drop)
      moreover have "take 50 ?p = ?p" if "drop 50 ?p = []"
        using that by simp
      ultimately have "r_get R ?ck d' = Some (show_sid (cursor_after now i (pending entries topic i d)))"
        using IH(2,3) False by (auto simp: cursor_after_def pj dw split: list.splits simp del: pending_set)
      with IH(1,4,5) step c False show ?thesis
        by (auto simp: get_set entries_set)
    qed
  qed
qed

end

end
