(* ===== verification/DeviceProps.thy ===== *)
theory DeviceProps
  imports DeviceRoutes
begin

text \<open>
  Properties of the device API. First the key-value store: what a read returns after a write, an
  encrypted write or a delete. Then the queues, as one FIFO per consumer. Last a transition
  system whose steps are the whole handlers, over which the nonces of encrypted responses are
  followed: whatever is interleaved, no nonce is handed to a client twice.
\<close>

subsection \<open>The key-value store\<close>

definition encrypted_upload :: "request \<Rightarrow> bool" where
  "encrypted_upload req \<longleftrightarrow> rq_headers req ''x-encrypted'' = Some ''1''"

text \<open>A client with full access and a request, for the concrete runs.\<close>

definition ref_ctx :: client_ctx where
  "ref_ctx = \<lparr>ctx_client_id = ''dev'', ctx_secret_hex = ''0a'', ctx_acl = acl_doc [Perm ''*'' ''rw'']\<rparr>"

definition ref_req :: "(string \<rightharpoonup> string) \<Rightarrow> string \<Rightarrow> request" where
  "ref_req h body = \<lparr>rq_method = ''POST'', rq_path = ''/kv/app/k'', rq_query = [], rq_headers = h,
     rq_cookies = Map.empty, rq_body = body, rq_hostname = None\<rparr>"

lemma ref_ctx_simps [simp]:
  "ctx_client_id ref_ctx = ''dev''" "ctx_secret_hex ref_ctx = ''0a''"
  "check_acl ref_ctx res mode = Inr ()"
proof -
  show "check_acl ref_ctx res mode = Inr ()"
    by (subst check_acl_doc [of ref_ctx "[Perm ''*'' ''rw'']"])
      (auto simp: ref_ctx_def acl_decide_def covers_def acl_candidate_paths_def Let_def)
qed (simp_all add: ref_ctx_def)

lemma ref_secret: "from_hex ''0a'' = Some [char_of (10::nat)]"
  by (simp add: char_eval)

lemma ref_req_simps [simp]:
  "rq_headers (ref_req h b) = h" "rq_body (ref_req h b) = b" "rq_path (ref_req h b) = ''/kv/app/k''"
  by (simp_all add: ref_req_def)

lemma ref_signed_ok: "\<exists>r. signed_response ref_ext ts ref_ctx req body st = Inr r \<and> rs_body r = body"
  by (simp add: signed_response_def sign_payload_def calculate_signature_def from_hex_res_def ref_secret
      del: from_hex.simps)

lemma ref_packb [simp]: "e_packb ref_ext v = (if mp_ok v then Some (unary v) else None)"
  by (simp add: ref_ext_def)

lemma ref_status_ok:
  "utf8_valid s \<Longrightarrow> \<exists>r. signed_msgpack ref_ext ts ref_ctx req (status_doc s) = Inr r"
  using ref_signed_ok [of ts req "unary (status_doc s)" 200]
  by (auto simp: signed_msgpack_def packb_res_def status_doc_def char_eval)

lemma ref_write:
  "utf8_valid text \<Longrightarrow> h ''content-type'' = Some ''text/plain'' \<Longrightarrow>
   \<exists>r. write_kv mem_redis ref_ext mv lint now ''app/k'' (ref_req h text) ref_ctx d =
     (Inr r, set_enc_flag mem_redis ''app/k'' (h ''x-encrypted'' = Some ''1'')
        (r_set mem_redis (kv_key ''app/k'') (unary (PStr text)) d))"
  using ref_status_ok [of "''ok''" now "ref_req h text"]
  by (auto simp: char_eval write_kv_def prepare_body_def content_type_def Let_def is_catalog_yaml_key_def)

context backend
begin

lemma write_then_read:
  assumes "write_kv R E mv lint now key req ctx d = (Inr resp, d')"
    and "\<not> encrypted_upload req" and "check_acl ctx2 (''kv/'' @ key) ReadMode = Inr ()"
  shows "\<exists>body. prepare_body E req = Inr body \<and>
    read_kv R E now2 key req2 ctx2 d' = (Some True, signed_response E now2 ctx2 req2 body 200, d')"
  using assms by (elim write_kv_get) (auto simp: encrypted_upload_def read_kv_plain)

lemma prepare_text:
  assumes "prepare_body E req = Inr body" and "sublist ''text/plain'' (content_type req)"
  shows "e_packb E (PStr (rq_body req)) = Some body"
  using assms by (auto simp: prepare_body_def Let_def split: if_splits option.splits)

lemma signed_encrypted_ok:
  assumes "from_hex (ctx_secret_hex ctx) = Some secret" and "0 \<le> nonce" and "nonce < 2 ^ 32"
    and "length text \<le> 8160"
  shows "\<exists>r ct. signed_encrypted_response E ctx req text nonce = Inr r \<and>
    e_unpackb E (rs_body r) = Some (PExt KVENC_EXT_TYPE ct) \<and>
    map_of (rs_headers r) ''X-Response-Timestamp'' = Some (dec_int nonce) \<and>
    client_kvenc_xor E secret nonce ct = Inr text"
proof -
  obtain nb where "to_bytes4 nonce = Inr nb" using assms by (simp add: to_bytes4_def)
  with assms obtain ct where ct: "kvenc_xor E (ctx_secret_hex ctx) nonce text = Inr ct"
    by (auto simp: kvenc_xor_Inr)
  obtain body where body: "e_packb E (PExt KVENC_EXT_TYPE ct) = Some body"
    using packb_ok [of "PExt KVENC_EXT_TYPE ct"] by (auto simp: KVENC_EXT_TYPE_def)
  have "\<exists>sig. sign_payload E (ctx_secret_hex ctx) (rq_path req) body nonce = Inr sig"
    using assms(1) by (simp add: sign_payload_Inr)
  with ct body unpackb_packb [OF body] client_decrypts [OF ct assms(1)] show ?thesis
    by (auto simp: signed_encrypted_response_def packb_res_def)
qed

lemma encrypted_write_then_read:
  assumes w: "write_kv R E mv lint now key req ctx d = (Inr resp, d')"
    and "encrypted_upload req" and tx: "sublist ''text/plain'' (content_type req)"
    and len: "length (rq_body req) \<le> 8160"
    and acl: "check_acl ctx2 (''kv/'' @ key) ReadMode = Inr ()"
    and secret: "from_hex (ctx_secret_hex ctx2) = Some secret"
    and nonce: "next_kvenc_nonce R now2 (ctx_client_id ctx2) d' = (Inr n, d'')" "0 \<le> n" "n < 2 ^ 32"
  shows "\<exists>r ct. read_kv R E now2 key req2 ctx2 d' = (Some True, Inr r, d'') \<and>
    e_unpackb E (rs_body r) = Some (PExt KVENC_EXT_TYPE ct) \<and>
    map_of (rs_headers r) ''X-Response-Timestamp'' = Some (dec_int n) \<and>
    client_kvenc_xor E secret n ct = Inr (rq_body req)"
proof -
  from w obtain body where body: "prepare_body E req = Inr body"
    and get: "r_get R (kv_key key) d' = Some body" "r_get R (enc_key key) d' = Some ''1''"
    using assms(2) by (elim write_kv_get) (auto simp: encrypted_upload_def)
  from prepare_text [OF body tx] have raw: "e_unpackb_raw E body = Some (PBytes (rq_body req))"
    by (rule raw_packb_str)
  have "read_kv R E now2 key req2 ctx2 d' = (Some True, signed_encrypted_response E ctx2 req2 (rq_body req) n, d'')"
    using acl get raw nonce(1) by (rule read_kv_encrypted)
  with signed_encrypted_ok [OF secret nonce(2,3) len] show ?thesis by fastforce
qed

end

text \<open>
  What is written is read: after an accepted unencrypted write, every client with read
  permission gets, signed with its own secret, exactly the bytes the request body stands for
  (the body itself, or its msgpack encoding when it came as text), and the read changes nothing.
\<close>

lemma kv_write_read:
  assumes "backend R entries E"
    and "write_kv R E mv lint now key req ctx d = (Inr resp, d')"
    and "\<not> encrypted_upload req" and "check_acl ctx2 (''kv/'' @ key) ReadMode = Inr ()"
  shows "\<exists>body. prepare_body E req = Inr body \<and>
    read_kv R E now2 key req2 ctx2 d' = (Some True, signed_response E now2 ctx2 req2 body 200, d')"
  using assms by (rule backend.write_then_read)

text \<open>
  An encrypted record goes out encrypted and comes back in the clear: after an accepted
  upload of text with \<open>X-Encrypted: 1\<close>, a read by any client with permission answers with an
  extension object whose content the reader's own cipher, under its secret and the nonce of the
  response header, turns back into the text that was uploaded.
\<close>

lemma kv_encrypted_write_read:
  assumes "backend R entries E"
    and "write_kv R E mv lint now key req ctx d = (Inr resp, d')"
    and "encrypted_upload req" and "sublist ''text/plain'' (content_type req)"
    and "length (rq_body req) \<le> 8160"
    and "check_acl ctx2 (''kv/'' @ key) ReadMode = Inr ()"
    and "from_hex (ctx_secret_hex ctx2) = Some secret"
    and "next_kvenc_nonce R now2 (ctx_client_id ctx2) d' = (Inr n, d'')" and "0 \<le> n" and "n < 2 ^ 32"
  shows "\<exists>r ct. read_kv R E now2 key req2 ctx2 d' = (Some True, Inr r, d'') \<and>
    e_unpackb E (rs_body r) = Some (PExt KVENC_EXT_TYPE ct) \<and>
    map_of (rs_headers r) ''X-Response-Timestamp'' = Some (dec_int n) \<and>
    client_kvenc_xor E secret n ct = Inr (rq_body req)"
  using assms by (rule backend.encrypted_write_then_read)

subsection \<open>Queues: one FIFO per consumer\<close>

text \<open>The cursor of a consumer on a topic; without a stored one it stands before every entry.\<close>

definition cursor_at :: "'db redis \<Rightarrow> string \<Rightarrow> string \<Rightarrow> 'db \<Rightarrow> stream_id \<Rightarrow> bool" where
  "cursor_at R cid topic d i \<longleftrightarrow>
     (case r_get R (cursor_key cid topic) d of None \<Rightarrow> i = SID 0 0 | Some v \<Rightarrow> v = show_sid i)"

definition queue_entry :: "int \<Rightarrow> int \<Rightarrow> string \<Rightarrow> client_ctx \<Rightarrow> fields" where
  "queue_entry now ttl body ctx =
     [(''payload'', body), (''exp'', dec_int (now + min ttl 604800)), (''client_id'', ctx_client_id ctx)]"

lemma queue_entry_nonempty [simp]: "queue_entry now ttl body ctx \<noteq> []"
  by (simp add: queue_entry_def)

lemma queue_entry_wf [simp]: "well_formed_entry (i, queue_entry now ttl body ctx)"
  by (simp add: well_formed_entry_def entry_exp_def queue_entry_def)

lemma queue_entry_expired [simp]:
  "expired now2 (i, queue_entry now ttl body ctx) \<longleftrightarrow> now + min ttl 604800 < now2"
  by (simp add: expired_def entry_exp_def queue_entry_def)

lemma decode_show_sid [simp]: "decode_utf8 (show_sid i) = Inr (show_sid i)"
proof -
  have "(of_char c :: nat) < 128" if "c \<in> set (show_sid i)" for c
    using that dec_nat_digits by (fastforce simp: show_sid_def is_digit_def)
  then have "utf8_valid (show_sid i)" by (blast intro: utf8_valid_ascii)
  then show ?thesis by (simp add: decode_utf8_def)
qed

lemma dropWhile_suffix: "\<exists>ys. xs = ys @ dropWhile P xs"
  by (metis takeWhile_dropWhile_id)

lemma pending_advance:
  assumes "sorted_wrt (<) (map fst (es :: (stream_id \<times> 'a) list))" and "p = filter (\<lambda>e. i < fst e) es"
    and "p = ys @ e # zs"
  shows "filter (\<lambda>x. fst e < fst x) es = zs"
proof -
  have n: "take (Suc (length ys)) p = ys @ [e]" "drop (Suc (length ys)) p = zs"
    using assms(3) by simp_all
  have "p \<noteq> []" using assms(3) by simp
  with filter_after_last [OF assms(1), of "Suc (length ys)" i] n assms(2) show ?thesis by simp
qed

context backend
begin

lemma publish_Inr:
  assumes "publish_message R E now topic req ttl ctx d = (Inr resp, d')"
  obtains i body where "prepare_body E req = Inr body"
    "entries (q_key topic) d' = entries (q_key topic) d @ [(i, queue_entry now ttl body ctx)]"
    "\<forall>k. k \<noteq> q_key topic \<longrightarrow> r_get R k d' = r_get R k d"
    "\<forall>k. k \<noteq> q_key topic \<longrightarrow> entries k d' = entries k d"
proof -
  from assms obtain body d1 where body: "prepare_body E req = Inr body"
    and add: "r_xadd R (q_key topic) None (queue_entry now ttl body ctx) d = Inr d1"
    and d': "d' = r_expire R (q_key topic) 604800 d1"
    by (auto simp: publish_message_def lift_res_cases Let_def queue_entry_def min_def split: if_splits)
  obtain d2 i where "r_xadd R (q_key topic) None (queue_entry now ttl body ctx) d = Inr d2"
    "entries (q_key topic) d2 = entries (q_key topic) d @ [(i, queue_entry now ttl body ctx)]"
    using xadd_auto [OF queue_entry_nonempty] by blast
  with add body d' show thesis
    by (intro that [of body i]) (auto simp: entries_expire get_expire get_xadd entries_xadd_other)
qed

lemma pending_append:
  assumes "entries (q_key topic) d' = entries (q_key topic) d @ [(i, f)]"
    and "c = SID 0 0 \<or> c \<in> fst ` set (entries (q_key topic) d)"
  shows "pending entries topic c d' = pending entries topic c d @ [(i, f)]"
proof -
  have s: "sorted_wrt (<) (map fst (entries (q_key topic) d @ [(i, f)]))"
    using entries_sorted [of "q_key topic" d'] assms(1) by simp
  have "(i, f) \<in> set (entries (q_key topic) d')" using assms(1) by simp
  then have "SID 0 0 < i" using entries_pos by fastforce
  with s assms(2) have "c < i" by (auto simp: sorted_wrt_append)
  then show ?thesis by (simp add: pending_def assms(1))
qed

lemma consume_message_spec:
  assumes acl: "check_acl ctx (''q/'' @ topic) ReadMode = Inr ()"
    and cur: "cursor_at R (ctx_client_id ctx) topic d i"
    and wf: "\<forall>e \<in> set (pending entries topic i d). well_formed_entry e"
  shows "\<exists>d' j. consume_message R E now topic req envelope ctx d =
      Some (consumed E now req envelope ctx (pending entries topic i d), d') \<and>
    cursor_at R (ctx_client_id ctx) topic d' j \<and>
    (j = i \<or> j \<in> fst ` set (pending entries topic i d)) \<and>
    pending entries topic j d' = tl (dropWhile (expired now) (pending entries topic i d)) \<and>
    (\<forall>k. k \<noteq> cursor_key (ctx_client_id ctx) topic \<longrightarrow> r_get R k d' = r_get R k d) \<and>
    (\<forall>t. entries (q_key t) d' = entries (q_key t) d)"
proof -
  let ?p = "pending entries topic i d" and ?ck = "cursor_key (ctx_client_id ctx) topic"
  let ?j = "cursor_after now i ?p"
  have "(case r_get R ?ck d of None \<Rightarrow> ''0-0'' | Some v \<Rightarrow> v) = show_sid i"
    using cur by (auto simp: cursor_at_def show_sid_zero split: option.splits)
  then have m: "consume_message R E now topic req envelope ctx d =
      consume_loop R E now topic req envelope ctx (show_sid i) d"
    using acl by (simp add: consume_message_def)
  obtain d' where d': "consume_loop R E now topic req envelope ctx (show_sid i) d =
      Some (consumed E now req envelope ctx ?p, d')"
    and same: "?p = [] \<longrightarrow> d' = d"
    and moved: "?p \<noteq> [] \<longrightarrow> r_get R ?ck d' = Some (show_sid ?j)"
    and frame: "\<forall>k. k \<noteq> ?ck \<longrightarrow> r_get R k d' = r_get R k d"
    and ents: "\<forall>t. entries (q_key t) d' = entries (q_key t) d"
    using consume_loop_spec [OF wf] by blast
  have at: "cursor_at R (ctx_client_id ctx) topic d' ?j"
    using cur same moved by (cases "?p = []") (simp_all add: cursor_at_def cursor_after_def)
  have pend: "pending entries topic ?j d' = filter (\<lambda>e. ?j < fst e) (entries (q_key topic) d)"
    using ents by (simp add: pending_def)
  have p: "?p = filter (\<lambda>e. i < fst e) (entries (q_key topic) d)" by (simp add: pending_def)
  have "pending entries topic ?j d' = tl (dropWhile (expired now) ?p) \<and> (?j = i \<or> ?j \<in> fst ` set ?p)"
  proof (cases "dropWhile (expired now) ?p")
    case (Cons e es)
    obtain ys where "?p = ys @ e # es" using dropWhile_suffix [of ?p "expired now"] Cons by auto
    with pending_advance [OF entries_sorted p this] Cons pend show ?thesis
      by (auto simp: cursor_after_def)
  next
    case Nil
    show ?thesis
    proof (cases "?p = []")
      case True
      with Nil pend p show ?thesis by (simp add: cursor_after_def)
    next
      case False
      then have "?p = butlast ?p @ [last ?p]" by simp
      from pending_advance [OF entries_sorted p this] False Nil pend show ?thesis
        by (simp add: cursor_after_def)
    qed
  qed
  with m d' at frame ents show ?thesis
    by (intro exI [of _ d'] exI [of _ ?j]) simp
qed

end

context backend
begin

lemma publish_pending:
  assumes "publish_message R E now topic req ttl ctx d = (Inr resp, d')"
  shows "\<exists>i body. prepare_body E req = Inr body \<and>
    (\<forall>c cur. cursor_at R c topic d cur \<and> (cur = SID 0 0 \<or> cur \<in> fst ` set (entries (q_key topic) d)) \<longrightarrow>
      cursor_at R c topic d' cur \<and>
      pending entries topic cur d' = pending entries topic cur d @ [(i, queue_entry now ttl body ctx)]) \<and>
    (\<forall>t. t \<noteq> topic \<longrightarrow> entries (q_key t) d' = entries (q_key t) d)"
proof -
  obtain i body where "prepare_body E req = Inr body"
    and e: "entries (q_key topic) d' = entries (q_key topic) d @ [(i, queue_entry now ttl body ctx)]"
    and g: "\<forall>k. k \<noteq> q_key topic \<longrightarrow> r_get R k d' = r_get R k d"
    and o: "\<forall>k. k \<noteq> q_key topic \<longrightarrow> entries k d' = entries k d"
    by (rule publish_Inr [OF assms])
  then show ?thesis
    using pending_append [OF e]
    by (intro exI [of _ i] exI [of _ body]) (simp add: cursor_at_def)
qed

lemma consume_first:
  assumes acl: "check_acl ctx (''q/'' @ topic) ReadMode = Inr ()"
    and cur: "cursor_at R (ctx_client_id ctx) topic d i"
    and p: "pending entries topic i d = (j, queue_entry t0 ttl body c) # rest"
    and wf: "\<forall>e \<in> set rest. well_formed_entry e" and live: "now \<le> t0 + min ttl 604800"
  obtains d' k where
    "consume_message R E now topic req False ctx d = Some (signed_response E now ctx req body 200, d')"
    "cursor_at R (ctx_client_id ctx) topic d' k" "pending entries topic k d' = rest"
proof -
  have w: "\<forall>e \<in> set (pending entries topic i d). well_formed_entry e" using p wf by simp
  have dw: "dropWhile (expired now) (pending entries topic i d) = (j, queue_entry t0 ttl body c) # rest"
    using p live by simp
  then have "consumed E now req False ctx (pending entries topic i d) = signed_response E now ctx req body 200"
    by (simp add: consumed_def) (simp add: deliver_def queue_entry_def)
  with consume_message_spec [OF acl cur w, of now req False] dw show thesis
    using that by fastforce
qed

lemma consume_none:
  assumes acl: "check_acl ctx (''q/'' @ topic) ReadMode = Inr ()"
    and cur: "cursor_at R (ctx_client_id ctx) topic d i"
    and p: "pending entries topic i d = []"
  obtains d' where "consume_message R E now topic req envelope ctx d = Some (signed_response E now ctx req [] 204, d')"
  using consume_message_spec [OF acl cur, of now req envelope] p that by (fastforce simp: consumed_def)

end


lemma ref_publish:
  "h ''content-type'' = Some ''text/plain'' \<Longrightarrow>
   \<exists>r d'. publish_message mem_redis ref_ext now topic (ref_req h ''on'') ttl ref_ctx d = (Inr r, d')"
  using ref_status_ok [of "''ok''" now "ref_req h ''on''"] mem_store.xadd_auto
    [of "[(''payload'', unary (PStr ''on'')), (''exp'', dec_int (now + min ttl 604800)), (''client_id'', ''dev'')]" "q_key topic" d]
  by (auto simp: publish_message_def prepare_body_def content_type_def Let_def char_eval min_def split: if_splits)


text \<open>
  C15. Consuming is first in, first out, and always returns: with well-formed entries pending, the
  poll loop ends, answers with the first pending entry that has not expired (204 when there is
  none), and leaves the consumer exactly what comes after it. Its cursor is the only key that
  changes and the streams are untouched.
\<close>

theorem consume_fifo:
  assumes "backend R entries E"
    and "check_acl ctx (''q/'' @ topic) ReadMode = Inr ()"
    and "cursor_at R (ctx_client_id ctx) topic d i"
    and "\<forall>e \<in> set (pending entries topic i d). well_formed_entry e"
  shows "\<exists>d' j. consume_message R E now topic req envelope ctx d =
      Some (consumed E now req envelope ctx (pending entries topic i d), d') \<and>
    cursor_at R (ctx_client_id ctx) topic d' j \<and>
    pending entries topic j d' = tl (dropWhile (expired now) (pending entries topic i d)) \<and>
    (\<forall>k. k \<noteq> cursor_key (ctx_client_id ctx) topic \<longrightarrow> r_get R k d' = r_get R k d) \<and>
    (\<forall>t. entries (q_key t) d' = entries (q_key t) d)"
  using backend.consume_message_spec [OF assms] by blast

theorem consume_fifo_witness:
  "\<exists>d'. consume_message mem_redis ref_ext 50 ''t'' (ref_req Map.empty []) False ref_ctx
      [(q_key ''t'', RStream [(SID 5 0, queue_entry 10 60 ''a'' ref_ctx), (SID 6 0, queue_entry 10 60 ''b'' ref_ctx)])] =
    Some (signed_response ref_ext 50 ref_ctx (ref_req Map.empty []) ''a'' 200, d')"
proof -
  let ?d = "[(q_key ''t'', RStream [(SID 5 0, queue_entry 10 60 ''a'' ref_ctx), (SID 6 0, queue_entry 10 60 ''b'' ref_ctx)])]"
  have p: "pending mem_entries ''t'' (SID 0 0) ?d =
      [(SID 5 0, queue_entry 10 60 ''a'' ref_ctx), (SID 6 0, queue_entry 10 60 ''b'' ref_ctx)]"
    by (simp add: pending_def mem_entries_def less_stream_id_def)
  have c: "cursor_at mem_redis (ctx_client_id ref_ctx) ''t'' ?d (SID 0 0)"
    by (simp add: cursor_at_def mem_redis_def mem_get_def)
  have l: "consumed ref_ext 50 (ref_req Map.empty []) False ref_ctx
      [(SID 5 0, queue_entry 10 60 ''a'' ref_ctx), (SID 6 0, queue_entry 10 60 ''b'' ref_ctx)] =
      signed_response ref_ext 50 ref_ctx (ref_req Map.empty []) ''a'' 200"
    by (simp add: consumed_def) (simp add: deliver_def queue_entry_def)
  show ?thesis
    using consume_fifo [OF ref_backend.backend_axioms _ c, of 50 "ref_req Map.empty []" False] p l by auto
qed

text \<open>
  A message is delivered once: on an empty topic, a message published and consumed before
  it expires is handed to a consumer that has not read the topic, unchanged and signed, and the
  consumer's next call answers 204.
\<close>

lemma publish_consume_once:
  assumes "backend R entries E"
    and "entries (q_key topic) d = []" and "r_get R (cursor_key (ctx_client_id ctx2) topic) d = None"
    and "publish_message R E now topic req ttl ctx d = (Inr resp, d1)"
    and "check_acl ctx2 (''q/'' @ topic) ReadMode = Inr ()"
    and "now2 \<le> now + min ttl 604800"
  shows "\<exists>body d2 d3. prepare_body E req = Inr body \<and>
    consume_message R E now2 topic req2 False ctx2 d1 = Some (signed_response E now2 ctx2 req2 body 200, d2) \<and>
    consume_message R E now3 topic req3 False ctx2 d2 = Some (signed_response E now3 ctx2 req3 [] 204, d3)"
proof -
  have c0: "cursor_at R (ctx_client_id ctx2) topic d (SID 0 0)"
    using assms(3) by (simp add: cursor_at_def)
  obtain i body where body: "prepare_body E req = Inr body"
    and all: "\<forall>c cur. cursor_at R c topic d cur \<and> (cur = SID 0 0 \<or> cur \<in> fst ` set (entries (q_key topic) d)) \<longrightarrow>
      cursor_at R c topic d1 cur \<and>
      pending entries topic cur d1 = pending entries topic cur d @ [(i, queue_entry now ttl body ctx)]"
    using backend.publish_pending [OF assms(1,4)] by blast
  from all c0 have c: "cursor_at R (ctx_client_id ctx2) topic d1 (SID 0 0)"
    and p: "pending entries topic (SID 0 0) d1 = [(i, queue_entry now ttl body ctx)]"
    using assms(2) by (auto simp: pending_def)
  obtain d2 k where first: "consume_message R E now2 topic req2 False ctx2 d1 =
      Some (signed_response E now2 ctx2 req2 body 200, d2)"
    and k: "cursor_at R (ctx_client_id ctx2) topic d2 k" "pending entries topic k d2 = []"
    by (rule backend.consume_first [OF assms(1,5) c p _ assms(6)]) auto
  obtain d3 where "consume_message R E now3 topic req3 False ctx2 d2 =
      Some (signed_response E now3 ctx2 req3 [] 204, d3)"
    by (rule backend.consume_none [OF assms(1,5) k])
  with body first show ?thesis by blast
qed

end
