(* ===== verification/Base64.thy ===== *)
theory Base64
  imports Prelude
begin

text \<open>
  \<open>base64.b64encode\<close> and \<open>base64.b64decode\<close> as the standard library has them: the decoder
  discards characters outside the alphabet, stops at complete padding and fails when the input
  ends inside a group. Session tokens and backup envelopes are encoded with it.
\<close>

text \<open>The alphabet \<open>A-Z a-z 0-9 + /\<close>.\<close>

definition b64_char :: "nat \<Rightarrow> char" where
  "b64_char n = char_of (if n < 26 then n + 65 else if n < 52 then n + 71
     else if n < 62 then n - 4 else if n = 62 then 43 else 47)"

definition b64_val :: "char \<Rightarrow> nat option" where
  "b64_val c = (let n = of_char c in
     if 65 \<le> n \<and> n \<le> 90 then Some (n - 65)
     else if 97 \<le> n \<and> n \<le> 122 then Some (n - 71)
     else if 48 \<le> n \<and> n \<le> 57 then Some (n + 4)
     else if n = 43 then Some 62
     else if n = 47 then Some 63
     else None)"

fun b64encode :: "string \<Rightarrow> string" where
  "b64encode [] = []"
| "b64encode [a] =
     [b64_char (of_char a div 4), b64_char (of_char a mod 4 * 16), CHR ''='', CHR ''='']"
| "b64encode [a, b] =
     [b64_char (of_char a div 4), b64_char (of_char a mod 4 * 16 + of_char b div 16),
      b64_char (of_char b mod 16 * 4), CHR ''='']"
| "b64encode (a # b # c # r) =
     b64_char (of_char a div 4) # b64_char (of_char a mod 4 * 16 + of_char b div 16)
     # b64_char (of_char b mod 16 * 4 + of_char c div 64) # b64_char (of_char c mod 64)
     # b64encode r"

text \<open>\<open>q\<close>: position in the group of four, \<open>l\<close>: bits left over, \<open>pads\<close>: padding seen.\<close>

fun a2b :: "nat \<Rightarrow> nat \<Rightarrow> nat \<Rightarrow> string \<Rightarrow> string option" where
  "a2b pads q l [] = (if q = 0 then Some [] else None)"
| "a2b pads q l (c # cs) =
     (if c = CHR ''='' then
        (if 2 \<le> q then (if 4 \<le> q + pads + 1 then Some [] else a2b (pads + 1) q l cs)
         else a2b pads q l cs)
      else
        (case b64_val c of
           None \<Rightarrow> a2b pads q l cs
         | Some v \<Rightarrow>
             if q = 0 then a2b 0 1 v cs
             else if q = 1 then map_option ((#) (char_of (l * 4 + v div 16))) (a2b 0 2 (v mod 16) cs)
             else if q = 2 then map_option ((#) (char_of (l * 16 + v div 4))) (a2b 0 3 (v mod 4) cs)
             else map_option ((#) (char_of (l * 64 + v))) (a2b 0 0 0 cs)))"

text \<open>A \<open>str\<close> argument must be ASCII.\<close>

definition b64decode :: "string \<Rightarrow> string option" where
  "b64decode s = (if \<forall>c \<in> set s. (of_char c :: nat) < 128 then a2b 0 0 0 s else None)"

lemma b64_char_simps [simp]:
  assumes "n < 64"
  shows "b64_val (b64_char n) = Some n" "b64_char n \<noteq> CHR ''=''" "(of_char (b64_char n) :: nat) < 128"
proof -
  show v: "b64_val (b64_char n) = Some n"
    using assms by (auto simp: b64_val_def b64_char_def Let_def)
  have "b64_val (CHR ''='') = None" by (simp add: b64_val_def)
  with v show "b64_char n \<noteq> CHR ''=''" by auto
  show "(of_char (b64_char n) :: nat) < 128" using assms by (auto simp: b64_char_def)
qed

lemma b64_parts [simp]:
  fixes a b :: char
  shows "(of_char a :: nat) div 4 < 64" "(of_char a :: nat) mod 4 * 16 < 64"
    "(of_char a :: nat) mod 4 * 16 + of_char b div 16 < 64" "(of_char a :: nat) mod 16 * 4 < 64"
    "(of_char a :: nat) mod 16 * 4 + of_char b div 64 < 64" "(of_char a :: nat) mod 64 < 64"
  using of_char_less [of a] of_char_less [of b] by linarith+

lemma b64_join [simp]:
  fixes a :: char
  shows "(of_char a :: nat) div 16 div 16 = 0" "(of_char a :: nat) div 16 mod 16 = of_char a div 16"
    "(of_char a :: nat) div 64 div 4 = 0" "(of_char a :: nat) div 64 mod 4 = of_char a div 64"
    "(of_char a :: nat) div 256 = 0"
proof -
  have "(of_char a :: nat) div 16 < 16" "(of_char a :: nat) div 64 < 4" using of_char_less [of a] by linarith+
  then show "(of_char a :: nat) div 16 mod 16 = of_char a div 16" "(of_char a :: nat) div 64 mod 4 = of_char a div 64"
    by simp_all
qed (simp_all add: div_mult2_eq [symmetric])

lemma a2b_b64encode [simp]: "a2b 0 0 0 (b64encode s) = Some s"
  by (induction s rule: b64encode.induct) simp_all

lemma b64encode_ascii: "c \<in> set (b64encode s) \<Longrightarrow> (of_char c :: nat) < 128"
  by (induction s rule: b64encode.induct) auto

lemma b64decode_encode [simp]: "b64decode (b64encode s) = Some s"
  by (simp add: b64decode_def b64encode_ascii)

lemma b64encode_alphabet: "c \<in> set (b64encode s) \<Longrightarrow> c = CHR ''='' \<or> b64_val c \<noteq> None"
  by (induction s rule: b64encode.induct) auto

lemma b64encode_no_space: "CHR '' '' \<notin> set (b64encode s)"
  using b64encode_alphabet [of "CHR '' ''" s] by (auto simp: b64_val_def)

end
