(* ===== verification/AdminAuth.thy ===== *)
theory AdminAuth
  imports Security Base64
begin

text \<open>
  \<open>backend/src/core/admin_auth.py\<close> and \<open>backend/create_admin.py\<close>: the htpasswd file, password
  checks and the signed session token of an admin.

  The htpasswd file is its text (\<open>None\<close>: the file does not exist; it is taken to decode and to
  be readable). Random salts and secrets are arguments.
\<close>

subsection \<open>The htpasswd file\<close>

definition user_line :: "string \<Rightarrow> string \<Rightarrow> string" where
  "user_line user rest = user @ '':'' @ rest"

definition find_user_line :: "string option \<Rightarrow> string \<Rightarrow> string option" where
  "find_user_line file user =
     (case file of None \<Rightarrow> None
      | Some text \<Rightarrow> find (\<lambda>line. prefix (user @ '':'') line) (map strip (file_lines text)))"

definition is_rescue_on_default :: "string option \<Rightarrow> string option \<Rightarrow> bool" where
  "is_rescue_on_default live_file default_file =
     (let live = find_user_line live_file ''rescue''; deflt = find_user_line default_file ''rescue''
      in live \<noteq> None \<and> deflt \<noteq> None \<and> live = deflt)"

fun scan_htpasswd :: "ext \<Rightarrow> string \<Rightarrow> string \<Rightarrow> string list \<Rightarrow> bool res" where
  "scan_htpasswd E username password [] = Inr False"
| "scan_htpasswd E username password (l # ls) =
     (case split1 CHR '':'' (strip l) of
        None \<Rightarrow> scan_htpasswd E username password ls
      | Some (uname, stored_hash) \<Rightarrow>
         if uname = username then
           (case split1 CHR ''$'' stored_hash of
              None \<Rightarrow> Inr False
            | Some (salt, expected_hash) \<Rightarrow>
               compare_digest expected_hash (to_hex (e_sha256 E (salt @ password))))
         else scan_htpasswd E username password ls)"

definition verify_password :: "ext \<Rightarrow> string option \<Rightarrow> string \<Rightarrow> string \<Rightarrow> bool res" where
  "verify_password E file username password =
     (case file of None \<Rightarrow> Inr False
      | Some text \<Rightarrow> scan_htpasswd E username password (file_lines text))"

subsection \<open>Creating an admin\<close>

definition hash_password :: "ext \<Rightarrow> string \<Rightarrow> string \<Rightarrow> string" where
  "hash_password E salt_bytes password =
     (let salt = to_hex salt_bytes in salt @ ''$'' @ to_hex (e_sha256 E (salt @ password)))"

fun replace_line :: "string \<Rightarrow> string \<Rightarrow> string list \<Rightarrow> string list option" where
  "replace_line pre new [] = None"
| "replace_line pre new (l # ls) =
     (if prefix pre l then Some (new # ls) else map_option ((#) l) (replace_line pre new ls))"

definition create_admin :: "ext \<Rightarrow> string \<Rightarrow> string \<Rightarrow> string \<Rightarrow> string option \<Rightarrow> string" where
  "create_admin E salt_bytes username password file =
     (let new_line = user_line username (hash_password E salt_bytes password) @ [NL];
          ls = (case file of None \<Rightarrow> [] | Some text \<Rightarrow> file_lines text)
      in concat (case replace_line (username @ '':'') new_line ls of
                   Some ls' \<Rightarrow> ls' | None \<Rightarrow> ls @ [new_line]))"

subsection \<open>The session secret and the session token\<close>

definition load_session_secret :: "string option \<Rightarrow> string option \<Rightarrow> string \<Rightarrow> string" where
  "load_session_secret env_value file random32 =
     (case env_value of
        Some v \<Rightarrow> if v \<noteq> [] then v
                  else (case file of Some t \<Rightarrow> if strip t \<noteq> [] then strip t else to_hex random32
                        | None \<Rightarrow> to_hex random32)
      | None \<Rightarrow> (case file of Some t \<Rightarrow> if strip t \<noteq> [] then strip t else to_hex random32
                 | None \<Rightarrow> to_hex random32))"

definition session_sig :: "ext \<Rightarrow> string \<Rightarrow> string \<Rightarrow> string" where
  "session_sig E secret payload = to_hex (e_hmac E secret payload)"

definition generate_session_token :: "ext \<Rightarrow> string \<Rightarrow> int \<Rightarrow> string \<Rightarrow> string" where
  "generate_session_token E secret now username =
     (let exp_t = now + 24 * 3600;
          signature = session_sig E secret (username @ '':'' @ dec_int exp_t)
      in b64encode (e_dumps E (PDict [(''u'', PStr username), (''e'', PInt exp_t), (''s'', PStr signature)])))"

text \<open>Every exception inside the \<open>try\<close> (bad base64, bad JSON, not a dict, bad types) gives \<open>None\<close>.\<close>

definition verify_session_token :: "ext \<Rightarrow> string \<Rightarrow> int \<Rightarrow> string \<Rightarrow> pyval option" where
  "verify_session_token E secret now token =
     (case b64decode token of
        None \<Rightarrow> None
      | Some raw \<Rightarrow>
     if \<not> utf8_valid raw then None
     else
     (case e_loads E raw of
        Some (PDict token_dict) \<Rightarrow>
          let username = dval token_dict ''u''; exp_v = dval token_dict ''e'';
              signature = dval token_dict ''s'' in
          if \<not> truthy username \<or> \<not> truthy exp_v \<or> \<not> truthy signature then None
          else
          (case py_to_int exp_v of
             None \<Rightarrow> None
           | Some exp_t \<Rightarrow>
              if exp_t < now then None
              else
                let expected_sig = session_sig E secret (py_str E username @ '':'' @ py_str E exp_v) in
                (case signature of
                   PStr s \<Rightarrow> if compare_digest expected_sig s = Inr True then Some username else None
                 | _ \<Rightarrow> None))
      | _ \<Rightarrow> None))"

subsection \<open>Facts about the pieces\<close>

lemma compare_digest_True: "compare_digest (to_hex a) s = Inr True \<longleftrightarrow> s = to_hex a"
  by (auto simp: compare_digest_def)

lemma compare_digest_hex [simp]: "compare_digest (to_hex a) (to_hex b) = Inr (to_hex a = to_hex b)"
  by (simp add: compare_digest_def)

lemma to_hex_inj [simp]: "to_hex a = to_hex b \<longleftrightarrow> a = b"
  by (metis from_hex_to_hex option.inject)

lemma dec_int_inj: "dec_int a = dec_int b \<Longrightarrow> a = b"
  by (metis option.inject py_int_dec_int)

lemma nl_cr_space: "is_space NL" "is_space CR" "NL \<noteq> CHR ''$''" "CR \<noteq> CHR ''$''" "NL \<noteq> CHR '':''" "CR \<noteq> CHR '':''" "NL \<noteq> CR"
  by (simp_all add: is_space_def NL_def CR_def)

lemma dec_int_no_colon: "CHR '':'' \<notin> set (dec_int i)"
  using dec_nat_digits [of "CHR '':''"] by (auto simp: dec_int_def is_digit_def split: if_splits)

text \<open>What an accepted token carries.\<close>

lemma verify_session_token_Some:
  assumes "verify_session_token E secret now token = Some user"
  obtains raw d v t where "b64decode token = Some raw" "e_loads E raw = Some (PDict d)"
    "user = dval d ''u''" "v = dval d ''e''" "truthy user" "py_to_int v = Some t" "now \<le> t"
    "dval d ''s'' = PStr (session_sig E secret (py_str E user @ '':'' @ py_str E v))"
  using assms
  by (auto simp: verify_session_token_def Let_def session_sig_def compare_digest_True
      split: option.splits pyval.splits if_splits)

text \<open>The text of an accepted expiry has no colon, so the signed text determines the user.\<close>

lemma parse_digits_no_colon: "parse_digits acc s = Some n \<Longrightarrow> CHR '':'' \<notin> set s"
proof (induction acc s rule: parse_digits.induct)
  case (2 acc c cs)
  then show ?case by (auto simp: is_digit_def split: if_splits list.splits)
qed simp

lemma parse_nat_no_colon: "parse_nat s = Some n \<Longrightarrow> CHR '':'' \<notin> set s"
  by (auto simp: parse_nat_def is_digit_def dest: parse_digits_no_colon split: list.splits if_splits)

lemma strip_set: "c \<in> set s \<Longrightarrow> \<not> is_space c \<Longrightarrow> c \<in> set (strip s)"
proof -
  have d: "c \<in> set t \<Longrightarrow> \<not> is_space c \<Longrightarrow> c \<in> set (dropWhile is_space t)" for t
    by (induction t) auto
  assume "c \<in> set s" "\<not> is_space c"
  then show ?thesis by (simp add: strip_def rstrip_def lstrip_def d)
qed

lemma py_int_no_colon: "py_int s = Some n \<Longrightarrow> CHR '':'' \<notin> set s"
proof
  assume h: "py_int s = Some n" and "CHR '':'' \<in> set s"
  then have "CHR '':'' \<in> set (strip s)" by (rule_tac strip_set) (simp_all add: is_space_def)
  with h show False
    by (auto simp: py_int_def dest: parse_nat_no_colon split: list.splits if_splits)
qed

context codec
begin

lemma dumps_utf8 [simp]: "utf8_valid (e_dumps E v)"
  by (blast intro: utf8_valid_ascii dumps_ascii)

lemma py_str_no_colon: "py_to_int v = Some t \<Longrightarrow> CHR '':'' \<notin> set (py_str E v)"
  using repr_num [of v] dec_int_no_colon
  by (cases v) (auto simp: py_str_def dest: py_int_no_colon)

lemma py_str_dec_int: "py_to_int v = Some t \<Longrightarrow> py_str E v = dec_int i \<Longrightarrow> t = i"
proof (cases v)
  case (PBool b)
  assume "py_str E v = dec_int i"
  with PBool have "dec_int i \<in> {''True'', ''False''}" by (auto simp: py_str_def split: if_splits)
  then have "hd (dec_int i) \<in> {CHR ''T'', CHR ''F''}" by auto
  moreover have "hd (dec_int i) \<in> set (dec_int i)" by (simp add: dec_int_def)
  moreover have "\<forall>c \<in> set (dec_int i). c = CHR ''-'' \<or> is_digit c"
    using dec_nat_digits by (auto simp: dec_int_def)
  ultimately obtain c where "c \<in> {CHR ''T'', CHR ''F''}" "c = CHR ''-'' \<or> is_digit c" by blast
  then show ?thesis by (auto simp: is_digit_def)
qed (use repr_num [of v i] in \<open>auto simp: py_str_def py_to_int_def dest: dec_int_inj\<close>)

lemma verify_generated:
  assumes "utf8_valid u" and "u \<noteq> []" and "0 \<le> now"
  shows "verify_session_token E secret now2 (generate_session_token E secret now u) =
    (if now2 \<le> now + 86400 then Some (PStr u) else None)"
proof -
  have "\<forall>c \<in> set (session_sig E secret p). (of_char c :: nat) < 128" for p
    using ascii_to_hex by (simp add: session_sig_def ascii_def)
  then have v: "utf8_valid (session_sig E secret p)" for p by (blast intro: utf8_valid_ascii)
  have ne: "session_sig E secret p \<noteq> []" for p
    using hmac_len [of secret p] by (cases "e_hmac E secret p") (simp_all add: session_sig_def to_hex_def)
  have k: "utf8_valid ''u''" "utf8_valid ''e''" "utf8_valid ''s''" by (simp_all add: char_eval)
  have "json_ok (PDict [(''u'', PStr u), (''e'', PInt (now + 86400)), (''s'', PStr (session_sig E secret p))])" for p
    using assms v k by (simp del: utf8_valid.simps)
  note l = loads_dumps [OF this]
  show ?thesis
    using assms(2,3) ne
    by (simp add: verify_session_token_def generate_session_token_def Let_def l)
      (simp add: session_sig_def)
qed

end

text \<open>Passwords: one line decides, the first whose name is the user's.\<close>

definition line_user :: "string \<Rightarrow> string option" where
  "line_user l = map_option fst (split1 CHR '':'' (strip l))"

lemma scan_skip: "\<forall>l \<in> set ls. line_user l \<noteq> Some u \<Longrightarrow> scan_htpasswd E u p (ls @ rs) = scan_htpasswd E u p rs"
  by (induction ls) (auto simp: line_user_def split: option.splits)

lemma scan_drop:
  "line_user l \<noteq> Some u \<Longrightarrow> scan_htpasswd E u p (ls @ l # rs) = scan_htpasswd E u p (ls @ rs)"
  by (induction ls) (auto simp: line_user_def split: option.splits)

lemma scan_other:
  "line_user l \<noteq> Some u \<Longrightarrow> line_user l' \<noteq> Some u \<Longrightarrow>
   scan_htpasswd E u p (ls @ l # rs) = scan_htpasswd E u p (ls @ l' # rs)"
  by (induction ls) (auto simp: line_user_def split: option.splits)

definition tidy_line :: "string \<Rightarrow> bool" where
  "tidy_line l \<longleftrightarrow> full_line l \<and> lstrip l = l"

definition plain_name :: "string \<Rightarrow> bool" where
  "plain_name u \<longleftrightarrow> u \<noteq> [] \<and> (\<forall>c \<in> set u. \<not> is_space c \<and> c \<noteq> CHR '':'')"

lemma dropWhile_rev_id: "xs \<noteq> [] \<Longrightarrow> \<not> P (last xs) \<Longrightarrow> rev (dropWhile P (rev xs)) = xs"
  by (cases xs rule: rev_cases) simp_all

lemma line_user_prefix:
  assumes "lstrip l = l" and "prefix (u @ '':'') l" and "CHR '':'' \<notin> set u"
  shows "line_user l = Some u"
proof -
  from assms(2) obtain r where l: "l = u @ CHR '':'' # r" by (auto simp: prefix_def)
  have "strip l = rstrip l" by (simp add: strip_def assms(1))
  also have "\<dots> = u @ CHR '':'' # rstrip r"
    by (simp add: l rstrip_def dropWhile_append is_space_def)
  finally show ?thesis using assms(3) by (simp add: line_user_def)
qed

lemma line_user_other:
  assumes "lstrip l = l" and "\<not> prefix (u @ '':'') l"
  shows "line_user l \<noteq> Some u"
proof
  assume "line_user l = Some u"
  then obtain r where "strip l = u @ CHR '':'' # r"
    by (auto simp: line_user_def split1_Some_iff)
  moreover have "prefix (strip l) l"
    using assms(1) by (simp add: strip_def rstrip_def) (metis suffix_dropWhile suffix_to_prefix rev_rev_ident)
  ultimately show False using assms(2)
    by (auto simp: prefix_def)
qed

lemma replace_line_spec:
  "case replace_line pre new ls of
     None \<Rightarrow> \<forall>l \<in> set ls. \<not> prefix pre l
   | Some ls' \<Rightarrow> \<exists>xs l ys. ls = xs @ l # ys \<and> ls' = xs @ new # ys \<and> prefix pre l \<and> (\<forall>x \<in> set xs. \<not> prefix pre x)"
proof (induction ls)
  case (Cons a ls)
  show ?case
  proof (cases "prefix pre a")
    case True
    then show ?thesis by (simp, intro exI [of _ "[]"] exI [of _ a] exI [of _ ls]) simp
  next
    case False
    with Cons show ?thesis
      by (auto split: option.splits) (metis append_Cons set_ConsD)
  qed
qed simp

lemma tidy_new_line:
  assumes "plain_name u" and "NL \<notin> set h" and "CR \<notin> set h"
  shows "tidy_line (user_line u h @ [NL])" and "line_user (user_line u h @ [NL]) = Some u"
proof -
  obtain c cs where u: "u = c # cs" using assms(1) by (cases u) (auto simp: plain_name_def)
  have n: "\<not> is_space c" "CHR '':'' \<notin> set u" using assms(1) u by (auto simp: plain_name_def)
  have "NL \<notin> set u" "CR \<notin> set u"
    using assms(1) nl_cr_space unfolding plain_name_def by blast+
  then have "NL \<notin> set (user_line u h)" "CR \<notin> set (user_line u h)"
    using assms nl_cr_space by (simp_all add: user_line_def)
  then show t: "tidy_line (user_line u h @ [NL])"
    using n(1) u by (simp add: tidy_line_def full_line_def lstrip_def user_line_def)
  then show "line_user (user_line u h @ [NL]) = Some u"
    using n(2) by (intro line_user_prefix) (simp_all add: tidy_line_def user_line_def)
qed

lemma hash_password_no_nl: "NL \<notin> set (hash_password E salt p)" "CR \<notin> set (hash_password E salt p)"
proof -
  have "\<exists>n < 16. c = hex_digit n" if "c \<in> set (to_hex b)" for c b
  proof -
    have "(of_char a :: nat) div 16 < 16" for a using of_char_less [of a] by linarith
    moreover from that obtain a where "c = hex_digit (of_char a div 16) \<or> c = hex_digit (of_char a mod 16)"
      by (auto simp: to_hex_def)
    ultimately show ?thesis using mod_less_divisor [of 16 "of_char a :: nat"] by fastforce
  qed
  then have h: "c \<notin> set (to_hex b)" if "is_space c" for c b
    using that hex_digit_not_space by blast
  then show "NL \<notin> set (hash_password E salt p)" "CR \<notin> set (hash_password E salt p)"
    using nl_cr_space by (simp_all add: hash_password_def Let_def)
qed

lemma to_hex_no_space: "c \<in> set (to_hex b) \<Longrightarrow> \<not> is_space c \<and> c \<noteq> CHR ''$''"
proof -
  assume "c \<in> set (to_hex b)"
  then obtain n where n: "n < 16" "c = hex_digit n"
  proof -
    have "(of_char a :: nat) div 16 < 16" for a using of_char_less [of a] by linarith
    moreover from \<open>c \<in> set (to_hex b)\<close> obtain a where "c = hex_digit (of_char a div 16) \<or> c = hex_digit (of_char a mod 16)"
      by (auto simp: to_hex_def)
    ultimately show thesis using that mod_less_divisor [of 16 "of_char a :: nat"] by fastforce
  qed
  have "hex_val CHR ''$'' = None" by (simp add: hex_val_def)
  moreover have "hex_val c = Some n" using n by simp
  ultimately have "c \<noteq> CHR ''$''" by (metis option.distinct(1))
  with n show ?thesis by simp
qed

lemma strip_no_space_end:
  assumes "\<not> is_space (hd s)" and "\<not> is_space (last s)" and "s \<noteq> []" and "\<forall>c \<in> set w. is_space c"
  shows "strip (s @ w) = s"
proof -
  have "dropWhile is_space (rev w @ rev s) = rev s"
    using assms by (cases s rule: rev_cases) (auto simp: dropWhile_append)
  with assms show ?thesis by (cases s) (simp_all add: strip_def lstrip_def rstrip_def)
qed

context codec
begin

lemma scan_new_line:
  assumes "plain_name u"
  shows "scan_htpasswd E u p ((user_line u (hash_password E salt p) @ [NL]) # rs) = Inr True"
proof -
  let ?h = "to_hex (e_sha256 E (to_hex salt @ p))"
  have ne: "?h \<noteq> []" using sha256_len [of "to_hex salt @ p"] by (auto simp: to_hex_def)
  have u: "u \<noteq> []" "\<not> is_space (hd u)" "CHR '':'' \<notin> set u"
    using assms by (auto simp: plain_name_def)
  have "strip (user_line u (hash_password E salt p) @ [NL]) = user_line u (hash_password E salt p)"
    using u ne to_hex_no_space [OF last_in_set [OF ne]] nl_cr_space(1)
    by (intro strip_no_space_end) (auto simp: user_line_def hash_password_def Let_def)
  moreover have "CHR ''$'' \<notin> set (to_hex salt)" using to_hex_no_space by blast
  ultimately show ?thesis
    using u by (simp add: user_line_def hash_password_def Let_def)
qed

lemma create_admin_spec:
  assumes ls: "\<forall>l \<in> set ls. tidy_line l" and u: "plain_name u"
  shows "verify_password E (Some (create_admin E salt u p (Some (concat ls)))) u p = Inr True"
    and "v \<noteq> u \<Longrightarrow> verify_password E (Some (create_admin E salt u p (Some (concat ls)))) v q =
      verify_password E (Some (concat ls)) v q"
proof -
  let ?new = "user_line u (hash_password E salt p) @ [NL]"
  note new = tidy_new_line [OF u hash_password_no_nl]
  have rd: "file_lines (concat xs) = xs" if "\<forall>l \<in> set xs. tidy_line l" for xs
    using that by (intro file_lines_concat) (simp add: tidy_line_def)
  have other: "line_user l \<noteq> Some u" if "l \<in> set ls" "\<not> prefix (u @ '':'') l" for l
    using that ls by (intro line_user_other) (auto simp: tidy_line_def)
  obtain xs ys where c: "create_admin E salt u p (Some (concat ls)) = concat (xs @ ?new # ys)"
    and xs: "\<forall>x \<in> set xs. x \<in> set ls \<and> \<not> prefix (u @ '':'') x" and ys: "\<forall>y \<in> set ys. y \<in> set ls"
    and l: "ls = xs @ ys \<and> ys = [] \<or> (\<exists>l. ls = xs @ l # ys \<and> prefix (u @ '':'') l)"
    using replace_line_spec [where pre = "u @ '':''" and new = ?new and ls = ls]
    by (auto simp: create_admin_def Let_def rd [OF ls] split: option.splits intro: that [of ls "[]"] that)
  have f: "file_lines (create_admin E salt u p (Some (concat ls))) = xs @ ?new # ys"
    unfolding c by (rule rd) (use xs ys ls new(1) in auto)
  show "verify_password E (Some (create_admin E salt u p (Some (concat ls)))) u p = Inr True"
    using xs other scan_new_line [OF u, of p salt ys]
    by (simp add: verify_password_def f scan_skip del: scan_htpasswd.simps)
  assume v: "v \<noteq> u"
  have lu: "line_user l = Some u" if "l \<in> set ls" "prefix (u @ '':'') l" for l
    using that ls u by (intro line_user_prefix) (auto simp: tidy_line_def plain_name_def)
  have "scan_htpasswd E v q (xs @ ?new # ys) = scan_htpasswd E v q ls"
    using l
  proof
    assume l: "ls = xs @ ys \<and> ys = []"
    have "line_user ?new \<noteq> Some v" using new(2) v by simp
    from scan_drop [OF this] l show ?thesis by simp
  next
    assume "\<exists>l. ls = xs @ l # ys \<and> prefix (u @ '':'') l"
    then obtain l where "ls = xs @ l # ys" "prefix (u @ '':'') l" by blast
    with lu [of l] new(2) v show ?thesis
      using scan_other [where l = ?new and l' = l and u = v] by simp
  qed
  then show "verify_password E (Some (create_admin E salt u p (Some (concat ls)))) v q =
      verify_password E (Some (concat ls)) v q"
    by (simp add: verify_password_def f rd [OF ls])
qed

end

subsection \<open>Properties\<close>

text \<open>
  C16. A session token authenticates its user for exactly 24 hours: whenever it is presented,
  the token issued to a non-empty user name verifies to that name up to and including the second
  of its expiry, and to nothing afterwards.
\<close>

theorem session_roundtrip:
  assumes "codec E" and "utf8_valid user" and "user \<noteq> []" and "0 \<le> now"
  shows "verify_session_token E secret now2 (generate_session_token E secret now user) =
    (if now2 \<le> now + 86400 then Some (PStr user) else None)"
  using assms by (rule codec.verify_generated)

theorem session_roundtrip_witness:
  "verify_session_token ref_ext ''k'' 86400 (generate_session_token ref_ext ''k'' 0 ''ann'') = Some (PStr ''ann'') \<and>
   verify_session_token ref_ext ''k'' 86401 (generate_session_token ref_ext ''k'' 0 ''ann'') = None"
  using session_roundtrip [OF ref_codec.codec_axioms, of "''ann''" 0 "''k''" 86400]
    session_roundtrip [OF ref_codec.codec_axioms, of "''ann''" 0 "''k''" 86401]
  by (simp add: char_eval)

text \<open>
  Only signed and unexpired tokens are accepted, and a signature cannot be moved to another
  user by splitting its text differently: an accepted token carries the HMAC of a text that ends
  in an unexpired time, and if that text is the one signed for a user \<open>v\<close> with expiry \<open>e\<close>, then
  the token authenticates \<open>v\<close> and \<open>e\<close> has not passed.
\<close>

lemma session_token_sound:
  assumes "codec E" and "verify_session_token E secret now token = Some user"
  shows "\<exists>raw doc text. b64decode token = Some raw \<and> e_loads E raw = Some (PDict doc) \<and>
    dval doc ''s'' = PStr (session_sig E secret text) \<and> user = dval doc ''u'' \<and>
    (\<forall>v e. text = v @ '':'' @ dec_int e \<longrightarrow> py_str E user = v \<and> now \<le> e)"
proof -
  from assms(2) obtain raw d x t where t: "b64decode token = Some raw" "e_loads E raw = Some (PDict d)"
    "user = dval d ''u''" "py_to_int x = Some t" "now \<le> t"
    "dval d ''s'' = PStr (session_sig E secret (py_str E user @ '':'' @ py_str E x))"
    by (rule verify_session_token_Some)
  have "py_str E user = v \<and> now \<le> e" if eq: "py_str E user @ '':'' @ py_str E x = v @ '':'' @ dec_int e" for v e
  proof -
    have "rev (py_str E x) @ CHR '':'' # rev (py_str E user) = rev (dec_int e) @ CHR '':'' # rev v"
      using arg_cong [OF eq, of rev] by simp
    then have "split1 CHR '':'' (rev (py_str E x) @ CHR '':'' # rev (py_str E user)) =
        split1 CHR '':'' (rev (dec_int e) @ CHR '':'' # rev v)" by simp
    then have "py_str E x = dec_int e" "py_str E user = v"
      using codec.py_str_no_colon [OF assms(1) t(4)] dec_int_no_colon [of e] by simp_all
    with codec.py_str_dec_int [OF assms(1) t(4)] t(5) show ?thesis by simp
  qed
  with t show ?thesis by blast
qed

text \<open>
  Setting a password works and touches nobody else: after \<open>create_admin\<close> on a file of complete
  lines, the user's new password is accepted, and for every other user every password is
  accepted or rejected as before.
\<close>

lemma create_admin_password:
  assumes "codec E" and "\<forall>l \<in> set ls. tidy_line l" and "plain_name u"
  shows "verify_password E (Some (create_admin E salt u p (Some (concat ls)))) u p = Inr True \<and>
    (\<forall>v q. v \<noteq> u \<longrightarrow> verify_password E (Some (create_admin E salt u p (Some (concat ls)))) v q =
      verify_password E (Some (concat ls)) v q)"
  using codec.create_admin_spec [OF assms] by blast

end
