(* ===== verification/UrlParse.thy ===== *)
theory UrlParse
  imports Prelude
begin

text \<open>
  The functions of \<open>urllib.parse\<close> the program calls: \<open>urlparse(u).hostname\<close> for the Origin
  checks, \<open>quote\<close> of the client and \<open>urlencode\<close> of the login redirect. A bracketed host is only
  checked for balanced brackets, and no Unicode normalisation of a host is modelled.
\<close>

subsection \<open>Quoting\<close>

definition is_alpha :: "char \<Rightarrow> bool" where
  "is_alpha c \<longleftrightarrow> (let n = of_char c :: nat in (65 \<le> n \<and> n \<le> 90) \<or> (97 \<le> n \<and> n \<le> 122))"

definition is_alnum :: "char \<Rightarrow> bool" where
  "is_alnum c \<longleftrightarrow> is_alpha c \<or> is_digit c"

definition unreserved :: "char \<Rightarrow> bool" where
  "unreserved c \<longleftrightarrow> is_alnum c \<or> c \<in> {CHR ''_'', CHR ''.'', CHR ''-'', CHR ''~''}"

lemmas unreserved_eval = unreserved_def is_alnum_def is_alpha_def is_digit_def

definition upper_hex :: "nat \<Rightarrow> char" where
  "upper_hex n = ''0123456789ABCDEF'' ! n"

definition pct :: "char \<Rightarrow> string" where
  "pct c = [CHR ''%'', upper_hex (of_char c div 16), upper_hex (of_char c mod 16)]"

definition quote :: "string \<Rightarrow> string \<Rightarrow> string" where
  "quote safe s = concat (map (\<lambda>c. if unreserved c \<or> c \<in> set safe then [c] else pct c) s)"

definition quote_plus :: "string \<Rightarrow> string" where
  "quote_plus s = concat (map (\<lambda>c. if unreserved c then [c] else if c = CHR '' '' then ''+'' else pct c) s)"

definition urlencode :: "(string \<times> string) list \<Rightarrow> string" where
  "urlencode ps = join ''&'' (map (\<lambda>(k, v). quote_plus k @ ''='' @ quote_plus v) ps)"

text \<open>\<open>unquote_plus\<close> on bytes: a percent sign not followed by two hexadecimal digits stays.\<close>

fun unquote_plus :: "string \<Rightarrow> string" where
  "unquote_plus [] = []"
| "unquote_plus (c # cs) =
     (if c = CHR ''+'' then CHR '' '' # unquote_plus cs
      else if c = CHR ''%'' then
        (case cs of
           a # b # r \<Rightarrow> (case (hex_val a, hex_val b) of
              (Some h, Some l) \<Rightarrow> char_of (16 * h + l) # unquote_plus r
            | _ \<Rightarrow> c # unquote_plus cs)
         | _ \<Rightarrow> c # unquote_plus cs)
      else c # unquote_plus cs)"

lemma quote_id: "\<forall>c \<in> set s. unreserved c \<or> c \<in> set safe \<Longrightarrow> quote safe s = s"
  by (induction s) (auto simp: quote_def)

lemma hex_val_upper [simp]: "n < 16 \<Longrightarrow> hex_val (upper_hex n) = Some n"
  by (drule less_16_cases; auto simp: hex_val_def upper_hex_def)

lemma unreserved_facts: "unreserved c \<Longrightarrow> c \<noteq> CHR ''%'' \<and> c \<noteq> CHR ''+'' \<and> c \<noteq> CHR ''?'' \<and> c \<noteq> CHR ''/''"
  by (auto simp: unreserved_eval)

lemma pct_high: "(of_char (c :: char) :: nat) div 16 < 16"
  using of_char_less [of c] by linarith

lemma unquote_quote_plus [simp]: "unquote_plus (quote_plus s) = s"
proof (induction s)
  case Nil
  then show ?case by (simp add: quote_plus_def)
next
  case (Cons c s)
  note h = pct_high [of c]
  have q: "quote_plus (c # s) =
      (if unreserved c then [c] else if c = CHR '' '' then ''+'' else pct c) @ quote_plus s"
    by (simp add: quote_plus_def)
  have p: "unquote_plus (pct c @ r) = c # unquote_plus r" for r
    using h by (simp add: pct_def)
  show ?case
    unfolding q using Cons p unreserved_facts [of c] by simp
qed

subsection \<open>Hosts\<close>

definition scheme_char :: "char \<Rightarrow> bool" where
  "scheme_char c \<longleftrightarrow> is_alnum c \<or> c \<in> {CHR ''+'', CHR ''-'', CHR ''.''}"

definition strip_scheme :: "string \<Rightarrow> string" where
  "strip_scheme url =
     (case split1 CHR '':'' url of
        Some (a, b) \<Rightarrow> if a \<noteq> [] \<and> is_alpha (hd a) \<and> list_all scheme_char a then b else url
      | None \<Rightarrow> url)"

definition c0_or_space :: "char \<Rightarrow> bool" where
  "c0_or_space c \<longleftrightarrow> (of_char c :: nat) \<le> 32"

definition netloc :: "string \<Rightarrow> string" where
  "netloc url0 =
     (let url = strip_scheme (filter (\<lambda>c. c \<notin> {CHR 0x09, CHR 0x0A, CHR 0x0D}) (dropWhile c0_or_space url0)) in
      if prefix ''//'' url then takeWhile (\<lambda>c. c \<notin> {CHR ''/'', CHR ''?'', CHR ''#''}) (drop 2 url) else [])"

definition url_hostname :: "string \<Rightarrow> string option res" where
  "url_hostname url =
     (let nl = netloc url in
      if (CHR ''['' \<in> set nl) \<noteq> (CHR '']'' \<in> set nl) then Inl (PyExn ''ValueError'')
      else
        let hostinfo = (case rsplit1 CHR ''@'' nl of None \<Rightarrow> nl | Some (_, b) \<Rightarrow> b);
            hostname = (case split1 CHR ''['' hostinfo of
                Some (_, b) \<Rightarrow> (case split1 CHR '']'' b of Some (h, _) \<Rightarrow> h | None \<Rightarrow> b)
              | None \<Rightarrow> (case split1 CHR '':'' hostinfo of Some (h, _) \<Rightarrow> h | None \<Rightarrow> hostinfo))
        in Inr (if hostname = [] then None
                else Some (case split1 CHR ''%'' hostname of
                             None \<Rightarrow> lower hostname | Some (h, z) \<Rightarrow> lower h @ ''%'' @ z)))"

end
