(* ===== verification/MainApp.thy ===== *)
theory MainApp
  imports DeviceProps AdminAuth UrlParse "HOL-Library.List_Lexorder" "HOL-Library.Char_ord"
begin

text \<open>
  \<open>backend/src/main.py\<close>: the host and origin checks, the gate of the administrative and customer
  surface, the activity log, the cache and performance middlewares and logout; and the policy
  header of \<open>backend/src/middleware/csp.py\<close>.

  A middleware is a function of the request, of the rest of the application (\<open>call_next\<close>, a
  function of what the middleware leaves on the request) and of the store. An exception reaching a
  middleware is an unhandled one: HTTP errors are turned into responses further in.
\<close>

subsection \<open>Configuration\<close>

record app_config =
  cfg_browser_host :: string         \<comment> \<open>\<open>STRA2US_BROWSER_HOST\<close>\<close>
  cfg_allowed_origins :: string      \<comment> \<open>\<open>STRA2US_ALLOWED_ORIGINS\<close>\<close>
  cfg_oauth_enabled :: string        \<comment> \<open>\<open>STRA2US_GOOGLE_OAUTH_ENABLED\<close>\<close>
  cfg_cookie_insecure :: string      \<comment> \<open>\<open>STRA2US_COOKIE_INSECURE\<close>\<close>
  cfg_session_secret :: string
  cfg_htpasswd :: "string option"

record cookie =
  ck_key :: string
  ck_value :: string
  ck_max_age :: nat
  ck_httponly :: bool
  ck_secure :: bool
  ck_samesite :: string
  ck_path :: string

definition env_true :: "string \<Rightarrow> bool" where
  "env_true v \<longleftrightarrow> lower v \<in> {''1'', ''true'', ''yes''}"

text \<open>\<open>oauth.is_enabled\<close> and \<open>_cookie_secure\<close> of \<open>routes_oauth.py\<close>.\<close>

definition oauth_is_enabled :: "app_config \<Rightarrow> bool" where
  "oauth_is_enabled cfg = env_true (cfg_oauth_enabled cfg)"

definition cookie_secure :: "app_config \<Rightarrow> bool" where
  "cookie_secure cfg = (\<not> env_true (cfg_cookie_insecure cfg))"

subsection \<open>Hosts and origins\<close>

definition header :: "request \<Rightarrow> string \<Rightarrow> string \<Rightarrow> string" where
  "header req name dflt = (case rq_headers req name of None \<Rightarrow> dflt | Some v \<Rightarrow> v)"

definition browser_facing_host :: "request \<Rightarrow> string option" where
  "browser_facing_host req =
     (let fwd = header req ''x-forwarded-host'' [] in
      if fwd \<noteq> [] then Some (strip (hd (split_on CHR '','' fwd))) else rq_hostname req)"

definition is_browser_host :: "app_config \<Rightarrow> request \<Rightarrow> bool" where
  "is_browser_host cfg req = (browser_facing_host req = Some (cfg_browser_host cfg))"

definition state_changing_methods :: "string list" where
  "state_changing_methods = [''POST'', ''PUT'', ''PATCH'', ''DELETE'']"

definition configured_extra_origins :: "app_config \<Rightarrow> string list" where
  "configured_extra_origins cfg =
     filter (\<lambda>i. i \<noteq> []) (map strip (split_on CHR '','' (cfg_allowed_origins cfg)))"

fun origin_hosts :: "string list \<Rightarrow> string list res" where
  "origin_hosts [] = Inr []"
| "origin_hosts (item # items) =
     bind_res (if sublist ''://'' item then url_hostname item else Inr (Some item)) (\<lambda>host.
     bind_res (origin_hosts items) (\<lambda>hs.
     Inr (case host of None \<Rightarrow> hs | Some h \<Rightarrow> if h \<noteq> [] then h # hs else hs)))"

definition allowed_origin_hosts :: "app_config \<Rightarrow> request \<Rightarrow> string list res" where
  "allowed_origin_hosts cfg req =
     bind_res (origin_hosts (configured_extra_origins cfg)) (\<lambda>extra.
     Inr ((case browser_facing_host req of None \<Rightarrow> [] | Some h \<Rightarrow> [h]) @ cfg_browser_host cfg # extra))"

definition cors_allowed_origins :: "app_config \<Rightarrow> string list" where
  "cors_allowed_origins cfg =
     sort (remdups ((''https://'' @ cfg_browser_host cfg) #
       map (\<lambda>i. if sublist ''://'' i then i else ''https://'' @ i) (configured_extra_origins cfg)))"

definition csrf_origin_ok :: "app_config \<Rightarrow> request \<Rightarrow> bool res" where
  "csrf_origin_ok cfg req =
     (case rq_headers req ''origin'' of
        None \<Rightarrow> Inr True
      | Some origin \<Rightarrow>
         if origin = [] then Inr True
         else bind_res (url_hostname origin) (\<lambda>host.
              bind_res (allowed_origin_hosts cfg req) (\<lambda>hosts.
              Inr (case host of None \<Rightarrow> False | Some h \<Rightarrow> h \<in> set hosts))))"

subsection \<open>Which paths are gated\<close>

definition path_needs_admin_auth :: "string \<Rightarrow> bool" where
  "path_needs_admin_auth path =
     (if prefix ''/oauth/'' path then False
      else if path = ''/admin/logout'' then False
      else if prefix ''/admin'' path \<or> prefix ''/api/admin'' path then True
      else if prefix ''/app/_static/'' path then False
      else if sublist ''/_assets/'' path \<and> prefix ''/app/'' path then False
      else if prefix ''/app/'' path \<and> suffix ''/_theme.css'' path then False
      else if path = ''/app'' \<or> path = ''/app/'' then True
      else if path = ''/api/app/lookup_device'' then True
      else if prefix ''/api/app/'' path then False
      else if path = ''/api/_csp_report'' then False
      else if prefix ''/app/'' path then True
      else False)"

subsection \<open>The gate\<close>

datatype auth_decision =
    RejectOrigin
  | Forward pyval "cookie option"      \<comment> \<open>the user, and the session cookie to set\<close>
  | PassThrough
  | NotAuthenticated

definition cookie_user :: "app_config \<Rightarrow> ext \<Rightarrow> int \<Rightarrow> request \<Rightarrow> pyval option" where
  "cookie_user cfg E now req =
     (case rq_cookies req ''admin_session'' of
        None \<Rightarrow> None
      | Some c \<Rightarrow>
         if c = [] then None
         else (case verify_session_token E (cfg_session_secret cfg) now c of
                 None \<Rightarrow> None | Some u \<Rightarrow> if truthy u then Some u else None))"

text \<open>Basic credentials; whatever goes wrong inside the \<open>try\<close> falls through.\<close>

definition basic_user :: "app_config \<Rightarrow> ext \<Rightarrow> request \<Rightarrow> string option" where
  "basic_user cfg E req =
     (case rq_headers req ''authorization'' of
        None \<Rightarrow> None
      | Some h \<Rightarrow>
         if \<not> prefix ''Basic '' h then None
         else
         (case b64decode (split_on CHR '' '' h ! 1) of
            None \<Rightarrow> None
          | Some raw \<Rightarrow>
             if \<not> utf8_valid raw then None
             else (case split1 CHR '':'' raw of
                     None \<Rightarrow> None
                   | Some (username, password) \<Rightarrow>
                      if verify_password E (cfg_htpasswd cfg) username password = Inr True
                      then Some username else None)))"

definition session_cookie :: "app_config \<Rightarrow> ext \<Rightarrow> int \<Rightarrow> string \<Rightarrow> cookie" where
  "session_cookie cfg E now username =
     \<lparr>ck_key = ''admin_session'', ck_value = generate_session_token E (cfg_session_secret cfg) now username,
      ck_max_age = 24 * 60 * 60, ck_httponly = True, ck_secure = cookie_secure cfg,
      ck_samesite = ''lax'', ck_path = ''/''\<rparr>"

definition admin_auth_decide :: "app_config \<Rightarrow> ext \<Rightarrow> int \<Rightarrow> request \<Rightarrow> auth_decision res" where
  "admin_auth_decide cfg E now req =
     (let path = rq_path req in
      bind_res (if rq_method req \<in> set state_changing_methods \<and> path_needs_admin_auth path
                then csrf_origin_ok cfg req else Inr True) (\<lambda>ok.
      if \<not> ok then Inr RejectOrigin
      else if path_needs_admin_auth path then
        (case cookie_user cfg E now req of
           Some u \<Rightarrow> Inr (Forward u None)
         | None \<Rightarrow>
            (case basic_user cfg E req of
               Some u \<Rightarrow> Inr (Forward (PStr u) (Some (session_cookie cfg E now u)))
             | None \<Rightarrow> Inr NotAuthenticated))
      else Inr PassThrough))"

text \<open>What the browser gets instead of the handler's response.\<close>

definition login_target :: "request \<Rightarrow> string" where
  "login_target req =
     (if rq_query req \<noteq> [] then rq_path req @ ''?'' @ rq_query req else rq_path req)"

definition unauthenticated_response :: "app_config \<Rightarrow> request \<Rightarrow> response" where
  "unauthenticated_response cfg req =
     (if is_browser_host cfg req \<and> oauth_is_enabled cfg
      then \<lparr>rs_status = 302, rs_media = [],
            rs_headers = [(''location'', ''/oauth/google/login?'' @ urlencode [(''next'', login_target req)])],
            rs_body = []\<rparr>
      else \<lparr>rs_status = 401, rs_media = [],
            rs_headers = [(''WWW-Authenticate'', ''Basic realm=\"Admin Area\"'')], rs_body = []\<rparr>)"

definition cross_origin_response :: response where
  "cross_origin_response =
     \<lparr>rs_status = 403, rs_media = ''application/json'', rs_headers = [],
      rs_body = ''{\"detail\":\"cross-origin request rejected\"}''\<rparr>"

text \<open>
  \<open>call_next\<close> takes \<open>request.state.admin_user\<close>. Under Basic credentials it runs inside the
  \<open>try\<close>, so an exception of the handler ends in the unauthenticated answer.
\<close>

definition admin_auth_middleware ::
    "app_config \<Rightarrow> ext \<Rightarrow> int \<Rightarrow> request \<Rightarrow> (pyval option \<Rightarrow> 'db \<Rightarrow> response res \<times> 'db)
      \<Rightarrow> 'db \<Rightarrow> (response \<times> cookie option) res \<times> 'db" where
  "admin_auth_middleware cfg E now req call_next d =
     lift_res (admin_auth_decide cfg E now req) d (\<lambda>dec.
       case dec of
         RejectOrigin \<Rightarrow> (Inr (cross_origin_response, None), d)
       | PassThrough \<Rightarrow> (let (r, d') = call_next None d in (bind_res r (\<lambda>x. Inr (x, None)), d'))
       | NotAuthenticated \<Rightarrow> (Inr (unauthenticated_response cfg req, None), d)
       | Forward u None \<Rightarrow> (let (r, d') = call_next (Some u) d in (bind_res r (\<lambda>x. Inr (x, None)), d'))
       | Forward u (Some ck) \<Rightarrow>
           (let (r, d') = call_next (Some u) d in
            (case r of
               Inr x \<Rightarrow> (Inr (x, Some ck), d')
             | Inl _ \<Rightarrow> (Inr (unauthenticated_response cfg req, None), d'))))"

subsection \<open>The activity log\<close>

definition exn_class :: "exn \<Rightarrow> string" where
  "exn_class e = (case e of HTTPException _ _ \<Rightarrow> ''HTTPException'' | PyExn n \<Rightarrow> n)"

definition outcome_status :: "response res \<Rightarrow> nat" where
  "outcome_status r =
     (case r of Inr resp \<Rightarrow> rs_status resp | Inl e \<Rightarrow> if e = PyExn ''ClientDisconnect'' then 499 else 500)"

definition outcome_exc :: "response res \<Rightarrow> string option" where
  "outcome_exc r = (case r of Inr _ \<Rightarrow> None | Inl e \<Rightarrow> Some (exn_class e))"

definition log_status :: "string \<Rightarrow> string \<Rightarrow> nat \<Rightarrow> bool option \<Rightarrow> string option \<Rightarrow> string" where
  "log_status http_method path status kv_hit exc_name =
     (if http_method = ''GET'' \<and> prefix ''/kv/'' path \<and> 200 \<le> status \<and> status < 300 \<and> kv_hit \<noteq> None
      then (if kv_hit = Some True then ''Hit (200)'' else ''Miss (200)'')
      else if 200 \<le> status \<and> status < 300 then ''Success ('' @ dec_nat status @ '')''
      else if status = 499 then ''Client disconnect ('' @ dec_nat status @ '')''
      else (case exc_name of
              Some n \<Rightarrow> ''Error ('' @ dec_nat status @ '') ['' @ n @ '']''
            | None \<Rightarrow> ''Error ('' @ dec_nat status @ '')''))"

definition ACTIVITY_LOG :: string where
  "ACTIVITY_LOG = ''system:activity_log''"

definition activity_entry :: "int \<Rightarrow> request \<Rightarrow> bool option \<Rightarrow> response res \<Rightarrow> fields" where
  "activity_entry now req kv_hit r =
     [(''timestamp'', dec_int now), (''client_id'', header req ''x-client-id'' ''unknown''),
      (''action'', rq_method req @ '' '' @ rq_path req),
      (''status'', log_status (rq_method req) (rq_path req) (outcome_status r) kv_hit (outcome_exc r))]"

lemma activity_entry_nonempty [simp]: "activity_entry now req hit r \<noteq> []"
  by (simp add: activity_entry_def)

text \<open>
  \<open>call_next\<close> returns the \<open>kv_hit\<close> hint, the outcome and the store. The entry is written in the
  \<open>finally\<close>; the approximate \<open>MAXLEN\<close> of the stream is left to Redis.
\<close>

definition activity_log_middleware ::
    "'db redis \<Rightarrow> int \<Rightarrow> request \<Rightarrow> ('db \<Rightarrow> bool option \<times> response res \<times> 'db)
      \<Rightarrow> 'db \<Rightarrow> response res \<times> 'db" where
  "activity_log_middleware R now req call_next d =
     (let (kv_hit, r, d1) = call_next d in
      if prefix ''/q/'' (rq_path req) \<or> prefix ''/kv/'' (rq_path req)
      then (case r_xadd R ACTIVITY_LOG None (activity_entry now req kv_hit r) d1 of
              Inl e \<Rightarrow> (Inl e, d1)
            | Inr d2 \<Rightarrow> (r, d2))
      else (r, d1))"

subsection \<open>Response headers: caching and the content security policy\<close>

text \<open>\<open>headers[name] = value\<close>: the first header of that name is replaced, further ones dropped.\<close>

fun set_header :: "string \<Rightarrow> string \<Rightarrow> (string \<times> string) list \<Rightarrow> (string \<times> string) list" where
  "set_header n v [] = [(n, v)]"
| "set_header n v ((n', v') # hs) =
     (if lower n' = lower n then (n', v) # filter (\<lambda>(m, _). lower m \<noteq> lower n) hs
      else (n', v') # set_header n v hs)"

definition add_header :: "string \<Rightarrow> string \<Rightarrow> response \<Rightarrow> response" where
  "add_header n v r = r\<lparr>rs_headers := set_header n v (rs_headers r)\<rparr>"

definition admin_cache_control :: "request \<Rightarrow> response \<Rightarrow> response" where
  "admin_cache_control req r =
     (if prefix ''/admin/'' (rq_path req) then add_header ''Cache-Control'' ''no-cache'' r else r)"

definition CF_INSIGHTS_HOST :: string where
  "CF_INSIGHTS_HOST = ''https://static.cloudflareinsights.com''"

definition self_src :: string where
  "self_src = [CHR 0x27] @ ''self'' @ [CHR 0x27]"

definition none_src :: string where
  "none_src = [CHR 0x27] @ ''none'' @ [CHR 0x27]"

definition DEFAULT_DIRECTIVES :: "(string \<times> string) list" where
  "DEFAULT_DIRECTIVES =
     [(''default-src'', self_src),
      (''script-src'', self_src @ '' '' @ CF_INSIGHTS_HOST),
      (''style-src'', self_src), (''img-src'', self_src), (''font-src'', self_src),
      (''connect-src'', self_src @ '' '' @ CF_INSIGHTS_HOST),
      (''frame-ancestors'', none_src), (''base-uri'', self_src), (''form-action'', self_src),
      (''object-src'', none_src)]"

definition REPORT_PATH :: string where
  "REPORT_PATH = ''/api/_csp_report''"

definition build_policy :: "string \<Rightarrow> string" where
  "build_policy report_path =
     join ''; '' (map (\<lambda>(n, v). n @ '' '' @ v) DEFAULT_DIRECTIVES
       @ [''report-uri '' @ report_path, ''report-to csp-endpoint''])"

record csp_config =
  csp_enforce_prefixes :: "string list"
  csp_enforce_default :: bool
  csp_report_only_prefixes :: "string list"
  csp_report_path :: string

definition csp_header_name :: "csp_config \<Rightarrow> string \<Rightarrow> string" where
  "csp_header_name c path =
     (if list_ex (\<lambda>p. prefix p path) (csp_enforce_prefixes c) then ''Content-Security-Policy''
      else if csp_enforce_default c \<and> \<not> list_ex (\<lambda>p. prefix p path) (csp_report_only_prefixes c)
      then ''Content-Security-Policy''
      else ''Content-Security-Policy-Report-Only'')"

definition csp_dispatch :: "csp_config \<Rightarrow> request \<Rightarrow> response \<Rightarrow> response" where
  "csp_dispatch c req r =
     add_header ''Reporting-Endpoints'' (''csp-endpoint=\"'' @ REPORT_PATH @ ''\"'')
       (add_header (csp_header_name c (rq_path req)) (build_policy (csp_report_path c)) r)"

text \<open>The configuration of \<open>main.py\<close>: every path enforces.\<close>

definition main_csp :: csp_config where
  "main_csp = \<lparr>csp_enforce_prefixes = [], csp_enforce_default = True,
     csp_report_only_prefixes = [], csp_report_path = REPORT_PATH\<rparr>"

text \<open>
  The report sink: what is logged (the report and two headers) and the answer. \<open>json.loads\<close> of
  bytes and the decoding with \<open>errors="replace"\<close> are arguments; the handler catches one class
  of what \<open>json.loads\<close> raises.
\<close>

record csp_log =
  cl_report :: pyval
  cl_ua :: string
  cl_referer :: string

definition csp_report ::
    "(string \<Rightarrow> pyval res) \<Rightarrow> (string \<Rightarrow> string) \<Rightarrow> request \<Rightarrow> (csp_log \<times> response) res" where
  "csp_report json_loads decode_replace req =
     (let body_bytes = rq_body req in
      bind_res (case (if body_bytes \<noteq> [] then json_loads body_bytes else Inr PNone) of
                  Inl e \<Rightarrow> if e = PyExn ''JSONDecodeError''
                           then Inr (PDict [(''_unparsed'', PStr (decode_replace body_bytes))]) else Inl e
                | Inr body \<Rightarrow> Inr body) (\<lambda>body.
      Inr (\<lparr>cl_report = body, cl_ua = header req ''user-agent'' [], cl_referer = header req ''referer'' []\<rparr>,
           \<lparr>rs_status = 204, rs_media = [], rs_headers = [], rs_body = []\<rparr>)))"

text \<open>A report is refused only by an exception of another class, an undecodable body for one.\<close>

lemma csp_report_Inl:
  "csp_report json_loads decode_replace req = Inl e \<longleftrightarrow>
    rq_body req \<noteq> [] \<and> json_loads (rq_body req) = Inl e \<and> e \<noteq> PyExn ''JSONDecodeError''"
  by (auto simp: csp_report_def Let_def split: sum.splits)

subsection \<open>The performance log\<close>

definition PERF_LOG_STREAM :: string where
  "PERF_LOG_STREAM = ''system:perf_log''"

definition PERF_LOG_RETENTION_SEC :: int where
  "PERF_LOG_RETENTION_SEC = 24 * 60 * 60"

text \<open>\<open>f"{x:.2f}"\<close> of a non-negative number: rounded half to even at the second decimal.\<close>

definition round_half_even :: "rat \<Rightarrow> int" where
  "round_half_even x =
     (let f = \<lfloor>x\<rfloor>; r = x - of_int f in
      if r < 1 / 2 then f else if 1 / 2 < r then f + 1 else if even f then f else f + 1)"

definition format_2f :: "rat \<Rightarrow> string" where
  "format_2f x =
     (let n = round_half_even (x * 100) in
      dec_int (n div 100) @ ''.'' @ [digit_char (nat (n mod 100) div 10), digit_char (nat (n mod 100) mod 10)])"

text \<open>The end of a \<open>with phases.phase(name)\<close> block, however it is left; the time is an argument.\<close>

definition phase_done :: "string \<Rightarrow> rat \<Rightarrow> (string \<times> rat) list \<Rightarrow> (string \<times> rat) list" where
  "phase_done name elapsed_ms phases =
     (let total = (case map_of phases name of None \<Rightarrow> 0 | Some t \<Rightarrow> t) + elapsed_ms
      in dict_set name (of_int (round_half_even (total * 100)) / 100) phases)"

definition phase_breakdown :: "(string \<times> rat) list \<Rightarrow> pyval" where
  "phase_breakdown phases = PDict (map (\<lambda>(n, t). (n, PFloat t)) phases)"

lemma round_half_even_near: "\<bar>of_int (round_half_even x) - x\<bar> \<le> 1 / 2"
proof -
  define f where "f = \<lfloor>x\<rfloor>"
  have "of_int f \<le> x" "x < of_int f + 1" unfolding f_def by linarith+
  then show ?thesis unfolding round_half_even_def Let_def f_def [symmetric] by (auto simp: abs_if)
qed

text \<open>A phase adds its time to its own entry, up to half a hundredth of a millisecond.\<close>

lemma phase_done_entry:
  "\<exists>v. map_of (phase_done name t phases) = (map_of phases)(name \<mapsto> v) \<and>
    \<bar>v - ((case map_of phases name of None \<Rightarrow> 0 | Some s \<Rightarrow> s) + t)\<bar> \<le> 1 / 200"
proof -
  let ?s = "(case map_of phases name of None \<Rightarrow> 0 | Some s \<Rightarrow> s) + t"
  have "\<bar>of_int (round_half_even (?s * 100)) / 100 - ?s\<bar> = \<bar>of_int (round_half_even (?s * 100)) - ?s * 100\<bar> / 100"
    by (simp add: abs_if field_simps)
  also have "\<dots> \<le> 1 / 200" using round_half_even_near [of "?s * 100"] by simp
  finally show ?thesis unfolding phase_done_def Let_def by (intro exI conjI) (rule map_of_dict_set)
qed

definition perf_skip :: "string \<Rightarrow> bool" where
  "perf_skip path \<longleftrightarrow>
     prefix ''/admin/'' path \<or> path = ''/api/admin/perf_log'' \<or> path \<in> {''/'', ''/health''}"

definition write_perf_entry ::
    "'db redis \<Rightarrow> ext \<Rightarrow> int \<Rightarrow> string \<Rightarrow> string \<Rightarrow> rat \<Rightarrow> nat \<Rightarrow> string \<Rightarrow> pyval \<Rightarrow> 'db \<Rightarrow> unit res \<times> 'db" where
  "write_perf_entry R E now http_method path total_ms status_code client_id phases d =
     (let fs = [(''timestamp'', dec_int now), (''method'', http_method), (''path'', path),
                (''total_ms'', format_2f total_ms), (''status'', dec_nat status_code), (''client_id'', client_id)]
               @ (if truthy phases then [(''phase_breakdown'', e_dumps_compact E phases)] else [])
      in case r_xadd R PERF_LOG_STREAM None fs d of
           Inl e \<Rightarrow> (Inl e, d)
         | Inr d1 \<Rightarrow> (Inr (), r_xtrim R PERF_LOG_STREAM (dec_int ((now - PERF_LOG_RETENTION_SEC) * 1000)) d1))"

text \<open>A failure to write is printed and dropped; the outcome of the request is untouched.\<close>

definition perf_log_middleware ::
    "'db redis \<Rightarrow> ext \<Rightarrow> rat \<Rightarrow> int \<Rightarrow> rat \<Rightarrow> pyval \<Rightarrow> string \<Rightarrow> request
      \<Rightarrow> ('db \<Rightarrow> response res \<times> 'db) \<Rightarrow> 'db \<Rightarrow> response res \<times> 'db" where
  "perf_log_middleware R E threshold now total_ms phases who req call_next d =
     (let (r, d1) = call_next d in
      if perf_skip (rq_path req) then (r, d1)
      else if total_ms < threshold then (r, d1)
      else (r, snd (write_perf_entry R E now (rq_method req) (rq_path req) total_ms
                 (case r of Inr resp \<Rightarrow> rs_status resp | Inl _ \<Rightarrow> 500) who phases d1)))"

subsection \<open>Logging out\<close>

text \<open>The response and the cookies it deletes.\<close>

definition admin_logout :: "app_config \<Rightarrow> string \<Rightarrow> request \<Rightarrow> response \<times> string list" where
  "admin_logout cfg logout_html req =
     (if is_browser_host cfg req
      then \<lparr>rs_status = 200, rs_media = ''text/html'', rs_headers = [], rs_body = logout_html\<rparr>
      else \<lparr>rs_status = 401, rs_media = ''text/plain'',
            rs_headers = [(''WWW-Authenticate'', ''Basic realm=\"logged-out\"'')],
            rs_body = ''Signed out.'' @ [NL, NL] @ ''To sign in again, navigate to /admin/.'' @ [NL]\<rparr>,
      [''admin_session'', ''oauth_state'', ''oauth_redirect_to''])"

subsection \<open>The surface that is gated\<close>

lemma split_on_append: "split_on c (a @ c # b) = split_on c a @ split_on c b"
  by (induction a) (auto split: list.splits)

lemma segments_customer:
  assumes "CHR ''/'' \<notin> set a" and "CHR ''/'' \<notin> set b"
  shows "split_on CHR ''/'' (''/app/'' @ a @ ''/'' @ b) = [[], ''app'', a, b]"
proof -
  have "''/app/'' @ a @ ''/'' @ b = [] @ CHR ''/'' # (''app'' @ CHR ''/'' # (a @ CHR ''/'' # b))" by simp
  then show ?thesis using assms
    by (simp only: split_on_append) (simp add: split_on_no_sep)
qed

lemma sublist_segment:
  assumes "CHR ''/'' \<notin> set x"
  shows "sublist (CHR ''/'' # x @ ''/'') s \<longleftrightarrow>
    (\<exists>p q. p \<noteq> [] \<and> q \<noteq> [] \<and> split_on CHR ''/'' s = p @ x # q)"
proof
  assume "sublist (CHR ''/'' # x @ ''/'') s"
  then obtain ps ss where "s = ps @ CHR ''/'' # (x @ CHR ''/'' # ss)" by (auto simp: sublist_def)
  then have "split_on CHR ''/'' s = split_on CHR ''/'' ps @ x # split_on CHR ''/'' ss"
    using assms by (simp add: split_on_append split_on_no_sep)
  then show "\<exists>p q. p \<noteq> [] \<and> q \<noteq> [] \<and> split_on CHR ''/'' s = p @ x # q"
    using split_on_nonempty by blast
next
  assume "\<exists>p q. p \<noteq> [] \<and> q \<noteq> [] \<and> split_on CHR ''/'' s = p @ x # q"
  then obtain p q where pq: "p \<noteq> []" "q \<noteq> []" "split_on CHR ''/'' s = p @ x # q" by blast
  have j: "join t (xs @ ys) = join t xs @ t @ join t ys" if "xs \<noteq> []" "ys \<noteq> []" for t xs ys
    using that
  proof (induction xs)
    case (Cons x xs)
    then show ?case by (cases xs; cases ys) auto
  qed simp
  have "s = join ''/'' (p @ x # q)" using pq(3) join_split_on [of "CHR ''/''" s] by simp
  also have "\<dots> = join ''/'' p @ (''/'' @ x @ ''/'') @ join ''/'' q"
    using pq(1,2) j [of p "x # q" "''/''"] j [of "[x]" q "''/''"] by simp
  finally show "sublist (CHR ''/'' # x @ ''/'') s" by (auto simp: sublist_def)
qed

lemma suffix_segment:
  assumes "CHR ''/'' \<notin> set x" and "suffix (CHR ''/'' # x) s"
  shows "last (split_on CHR ''/'' s) = x"
proof -
  from assms(2) obtain z where "s = z @ CHR ''/'' # x" by (auto simp: suffix_def)
  then show ?thesis using assms(1) by (simp add: split_on_append split_on_no_sep)
qed

lemma customer_page_gated:
  assumes "CHR ''/'' \<notin> set a" and "CHR ''/'' \<notin> set b"
  shows "path_needs_admin_auth (''/app/'' @ a @ ''/'' @ b) \<longleftrightarrow>
    a \<noteq> ''_static'' \<and> a \<noteq> ''_assets'' \<and> b \<noteq> ''_theme.css''"
proof -
  let ?s = "''/app/'' @ a @ ''/'' @ b"
  note seg = segments_customer [OF assms]
  have static: "prefix ''/app/_static/'' ?s \<longleftrightarrow> a = ''_static''"
  proof
    assume "prefix ''/app/_static/'' ?s"
    then obtain z where "?s = ''/app'' @ CHR ''/'' # (''_static'' @ CHR ''/'' # z)" by (auto simp: prefix_def)
    then have "split_on CHR ''/'' ?s = [[], ''app'', ''_static''] @ split_on CHR ''/'' z"
      by (simp only: split_on_append) simp
    with seg show "a = ''_static''" by simp
  qed (simp add: prefix_def)
  have assets: "sublist ''/_assets/'' ?s \<longleftrightarrow> a = ''_assets''"
  proof -
    have "sublist ''/_assets/'' ?s \<longleftrightarrow> (\<exists>p q. p \<noteq> [] \<and> q \<noteq> [] \<and> [[], ''app'', a, b] = p @ ''_assets'' # q)"
      using sublist_segment [of "''_assets''" ?s] seg by simp
    also have "\<dots> \<longleftrightarrow> a = ''_assets''"
      by (auto simp: Cons_eq_append_conv)
    finally show ?thesis .
  qed
  have theme: "suffix ''/_theme.css'' ?s \<longleftrightarrow> b = ''_theme.css''"
  proof
    show "suffix ''/_theme.css'' ?s \<Longrightarrow> b = ''_theme.css''"
      using suffix_segment [of "''_theme.css''" ?s] seg by simp
    show "b = ''_theme.css'' \<Longrightarrow> suffix ''/_theme.css'' ?s" by (simp add: suffix_def)
  qed
  show ?thesis
    unfolding path_needs_admin_auth_def static assets theme by simp
qed

subsection \<open>Origins of plain hosts\<close>

definition host_char :: "char \<Rightarrow> bool" where
  "host_char c \<longleftrightarrow> is_digit c \<or> c = CHR ''.'' \<or> c = CHR ''-'' \<or> (97 \<le> (of_char c :: nat) \<and> (of_char c :: nat) \<le> 122)"

definition plain_host :: "string \<Rightarrow> bool" where
  "plain_host h \<longleftrightarrow> h \<noteq> [] \<and> list_all host_char h"

lemma host_char_facts:
  assumes "host_char c"
  shows "c \<notin> {CHR 0x09, CHR 0x0A, CHR 0x0D}" "c \<notin> {CHR ''/'', CHR ''?'', CHR ''#''}"
    "c \<noteq> CHR ''[''" "c \<noteq> CHR '']''" "c \<noteq> CHR ''@''" "c \<noteq> CHR '':''" "c \<noteq> CHR ''%''" "lower_char c = c"
  using assms by (auto simp: host_char_def is_digit_def lower_char_def Let_def)

lemma url_hostname_plain:
  assumes "plain_host h"
  shows "url_hostname (''https://'' @ h) = Inr (Some h)"
proof -
  have f: "filter (\<lambda>c. c \<notin> {CHR 0x09, CHR 0x0A, CHR 0x0D}) h = h"
    using assms host_char_facts(1) by (auto simp: plain_host_def list_all_iff filter_id_conv)
  have t: "takeWhile (\<lambda>c. c \<notin> {CHR ''/'', CHR ''?'', CHR ''#''}) h = h"
    using assms host_char_facts(2) by (auto simp: plain_host_def list_all_iff takeWhile_eq_all_conv)
  have s: "split1 CHR '':'' (''https'' @ CHR '':'' # ''//'' @ h) = Some (''https'', ''//'' @ h)"
    by (rule split1_append) simp
  have d: "dropWhile c0_or_space (''https://'' @ h) = ''https://'' @ h"
    by (simp add: c0_or_space_def)
  have fl: "filter (\<lambda>c. c \<notin> {CHR 0x09, CHR 0x0A, CHR 0x0D}) (''https://'' @ h) = ''https'' @ CHR '':'' # ''//'' @ h"
    using f by simp
  have "netloc (''https://'' @ h) = h"
    unfolding netloc_def Let_def d fl strip_scheme_def s using t
    by (simp add: scheme_char_def is_alnum_def is_alpha_def)
  moreover have n: "CHR ''['' \<notin> set h" "CHR '']'' \<notin> set h" "CHR ''@'' \<notin> set h" "CHR '':'' \<notin> set h" "CHR ''%'' \<notin> set h"
    and l: "lower h = h"
  proof -
    have hc: "\<forall>c \<in> set h. host_char c" using assms by (simp add: plain_host_def list_all_iff)
    then show "CHR ''['' \<notin> set h" "CHR '']'' \<notin> set h" "CHR ''@'' \<notin> set h" "CHR '':'' \<notin> set h" "CHR ''%'' \<notin> set h"
      by (metis host_char_facts(3), metis host_char_facts(4), metis host_char_facts(5),
          metis host_char_facts(6), metis host_char_facts(7))
    from hc show "lower h = h" unfolding lower_def by (intro map_idI) (simp add: host_char_facts(8))
  qed
  moreover have "split1 c h = None" if "c \<notin> set h" for c using that by (simp add: split1_None_iff)
  moreover have "rsplit1 CHR ''@'' h = None" using n(3) by (simp add: rsplit1_def split1_None_iff)
  ultimately show ?thesis using assms by (simp add: url_hostname_def plain_host_def)
qed

lemma origin_hosts_bare:
  "\<forall>i \<in> set items. \<not> sublist ''://'' i \<and> i \<noteq> [] \<Longrightarrow> origin_hosts items = Inr items"
  by (induction items) auto

subsection \<open>Properties\<close>

text \<open>
  What is gated: the whole administrative surface except the logout page; a customer page
  \<open>/app/<app>/<device>\<close> unless the application is one of the two reserved directories or the device
  is the stylesheet; never the device API.
\<close>

lemma gated_surface:
  assumes "CHR ''/'' \<notin> set a" and "CHR ''/'' \<notin> set b"
  shows "path_needs_admin_auth (''/api/admin'' @ r)" and "path_needs_admin_auth (''/admin'' @ r) \<longleftrightarrow> r \<noteq> ''/logout''"
    and "path_needs_admin_auth (''/app/'' @ a @ ''/'' @ b) \<longleftrightarrow>
      a \<noteq> ''_static'' \<and> a \<noteq> ''_assets'' \<and> b \<noteq> ''_theme.css''"
    and "\<not> path_needs_admin_auth (''/kv/'' @ r)" and "\<not> path_needs_admin_auth (''/q/'' @ r)"
  using customer_page_gated [OF assms] by (simp_all add: path_needs_admin_auth_def)

text \<open>
  Nothing behind the gate runs for an unauthenticated request: on a gated path either the
  handler ran for a user that the session cookie or the Basic credentials authenticate, and the
  store is what that run left, or the store is untouched and the answer is an error, the
  cross-origin rejection, the login redirect or the password challenge.
\<close>

lemma gate_authenticates:
  assumes "path_needs_admin_auth (rq_path req)"
    and "admin_auth_middleware cfg E now req call_next d = (out, d')"
  shows "(\<exists>u. (cookie_user cfg E now req = Some u \<or> (\<exists>name. basic_user cfg E req = Some name \<and> u = PStr name)) \<and>
      d' = snd (call_next (Some u) d)) \<or>
    d' = d \<and> (is_ok out \<longrightarrow> out = Inr (cross_origin_response, None) \<or> out = Inr (unauthenticated_response cfg req, None))"
proof (cases "admin_auth_decide cfg E now req")
  case (Inl e)
  with assms(2) show ?thesis by (auto simp: admin_auth_middleware_def)
next
  case (Inr dec)
  note dec = this
  show ?thesis
  proof (cases dec)
    case (Forward u ck)
    have "cookie_user cfg E now req = Some u \<or> (\<exists>name. basic_user cfg E req = Some name \<and> u = PStr name)"
      using dec Forward assms(1)
      by (auto simp: admin_auth_decide_def Let_def bind_res_Inr_iff split: if_splits option.splits)
    moreover have "d' = snd (call_next (Some u) d)"
      using assms(2) dec Forward
      by (auto simp: admin_auth_middleware_def split: option.splits prod.splits sum.splits)
    ultimately show ?thesis by blast
  next
    case PassThrough
    with dec assms(1) show ?thesis
      by (auto simp: admin_auth_decide_def Let_def bind_res_Inr_iff split: if_splits option.splits)
  qed (use assms(2) dec in \<open>auto simp: admin_auth_middleware_def\<close>)
qed

text \<open>A configuration and a request for the concrete runs.\<close>

definition ref_cfg :: app_config where
  "ref_cfg = \<lparr>cfg_browser_host = ''ui.example'', cfg_allowed_origins = ''dev.example'', cfg_oauth_enabled = ''1'',
     cfg_cookie_insecure = [], cfg_session_secret = ''k'',
     cfg_htpasswd = Some (create_admin ref_ext ''s'' ''bob'' ''pw'' None)\<rparr>"

definition admin_req :: "string \<Rightarrow> (string \<rightharpoonup> string) \<Rightarrow> (string \<rightharpoonup> string) \<Rightarrow> request" where
  "admin_req m h c = \<lparr>rq_method = m, rq_path = ''/api/admin/keys'', rq_query = [], rq_headers = h,
     rq_cookies = c, rq_body = [], rq_hostname = Some ''ui.example''\<rparr>"

text \<open>
  The origin check is exact: for a state-changing request to the gated surface whose Origin
  is \<open>https://\<close> and a plain host, with bare hosts configured, the request is rejected before
  authentication if and only if the host is neither the browser host, nor a configured one, nor
  the host the request came in on.
\<close>

lemma csrf_exact:
  assumes "path_needs_admin_auth (rq_path req)" and "rq_method req \<in> set state_changing_methods"
    and "rq_headers req ''origin'' = Some (''https://'' @ h)" and "plain_host h"
    and "\<forall>i \<in> set (configured_extra_origins cfg). \<not> sublist ''://'' i"
  shows "admin_auth_middleware cfg E now req call_next d = (Inr (cross_origin_response, None), d) \<and>
      admin_auth_decide cfg E now req = Inr RejectOrigin \<longleftrightarrow>
    h \<noteq> cfg_browser_host cfg \<and> h \<notin> set (configured_extra_origins cfg) \<and> browser_facing_host req \<noteq> Some h"
proof -
  have extra: "origin_hosts (configured_extra_origins cfg) = Inr (configured_extra_origins cfg)"
    using assms(5) by (intro origin_hosts_bare) (auto simp: configured_extra_origins_def)
  have "csrf_origin_ok cfg req = Inr (h = cfg_browser_host cfg \<or> h \<in> set (configured_extra_origins cfg) \<or>
      browser_facing_host req = Some h)"
    using assms(3) by (auto simp: csrf_origin_ok_def url_hostname_plain [OF assms(4), simplified]
        allowed_origin_hosts_def extra split: option.splits)
  then have "admin_auth_decide cfg E now req = Inr RejectOrigin \<longleftrightarrow>
      \<not> (h = cfg_browser_host cfg \<or> h \<in> set (configured_extra_origins cfg) \<or> browser_facing_host req = Some h)"
    using assms(1,2) by (auto simp: admin_auth_decide_def Let_def split: option.splits)
  moreover have "admin_auth_decide cfg E now req = Inr RejectOrigin \<Longrightarrow>
      admin_auth_middleware cfg E now req call_next d = (Inr (cross_origin_response, None), d)"
    by (simp add: admin_auth_middleware_def)
  ultimately show ?thesis by blast
qed

text \<open>
  Under Basic credentials an unhandled exception of the handler is not an error response but
  the login answer: the handler runs inside the \<open>try\<close>, so its exception falls through to the
  unauthenticated answer while what the handler wrote stays written.
\<close>

lemma basic_auth_masks_exceptions:
  assumes "path_needs_admin_auth (rq_path req)" and "rq_method req \<notin> set state_changing_methods"
    and "cookie_user cfg E now req = None" and "basic_user cfg E req = Some u"
    and "call_next (Some (PStr u)) d = (Inl e, d')"
  shows "admin_auth_middleware cfg E now req call_next d = (Inr (unauthenticated_response cfg req, None), d')"
  using assms by (simp add: admin_auth_middleware_def admin_auth_decide_def Let_def)

text \<open>
  Every device call leaves exactly one entry in the activity log, whatever its outcome: on a
  path of the device API the middleware passes on the outcome of the call and appends one entry
  that names the client, the action and the outcome; on other paths it does nothing.
\<close>

lemma activity_logged_once:
  assumes "redis_store R entries" and "call_next d = (hit, r, d1)"
  shows "if prefix ''/q/'' (rq_path req) \<or> prefix ''/kv/'' (rq_path req)
    then \<exists>i d2. activity_log_middleware R now req call_next d = (r, d2) \<and>
      entries ACTIVITY_LOG d2 = entries ACTIVITY_LOG d1 @ [(i, activity_entry now req hit r)] \<and>
      (\<forall>k. k \<noteq> ACTIVITY_LOG \<longrightarrow> entries k d2 = entries k d1 \<and> r_get R k d2 = r_get R k d1)
    else activity_log_middleware R now req call_next d = (r, d1)"
proof (cases "prefix ''/q/'' (rq_path req) \<or> prefix ''/kv/'' (rq_path req)")
  case True
  obtain d2 i where x: "r_xadd R ACTIVITY_LOG None (activity_entry now req hit r) d1 = Inr d2"
    "entries ACTIVITY_LOG d2 = entries ACTIVITY_LOG d1 @ [(i, activity_entry now req hit r)]"
    using redis_store.xadd_auto [OF assms(1) activity_entry_nonempty] by blast
  have "entries k d2 = entries k d1 \<and> r_get R k d2 = r_get R k d1" if "k \<noteq> ACTIVITY_LOG" for k
    using redis_store.entries_xadd_other [OF assms(1) x(1) that] redis_store.get_xadd [OF assms(1) x(1) that] by simp
  with True x assms(2) show ?thesis by (auto simp: activity_log_middleware_def)
qed (use assms(2) in \<open>simp add: activity_log_middleware_def\<close>)

end
