(* ===== verification/AdminClients.thy ===== *)
theory AdminClients
  imports MainApp
begin

text \<open>
  The part of \<open>backend/src/api/routes_admin.py\<close> that manages identities: the clients, their
  secrets and access lists, the admin users, and what an admin sees of itself. A handler takes
  what its FastAPI dependency needs (\<open>admin_user\<close>, left on the request by the gate), its
  validated parameters and the store, and returns its JSON document or an exception.

  A freshly generated secret is an argument. \<open>json.dumps\<close> and \<open>json.loads\<close> are the codec.
\<close>

subsection \<open>Iterating permissions\<close>

definition iter_perms :: "pyval \<Rightarrow> pyval list res" where
  "iter_perms acl = bind_res (dget_or acl ''permissions'' (PList [])) py_iter"

text \<open>\<open>any(_prefix_matches(p.get("prefix", ""), path) for p in perms)\<close>\<close>

fun any_perm_covers :: "pyval list \<Rightarrow> string \<Rightarrow> bool res" where
  "any_perm_covers [] path = Inr False"
| "any_perm_covers (p # ps) path =
     bind_res (dget_or p ''prefix'' (PStr [])) (\<lambda>pre.
     bind_res (prefix_matches pre path) (\<lambda>m.
     if m then Inr True else any_perm_covers ps path))"

text \<open>\<open>"/" in prefix\<close>, and \<open>prefix.split("/", 1)\<close> when it is.\<close>

definition slash_split :: "pyval \<Rightarrow> (string \<times> string) option res" where
  "slash_split v =
     (case v of
        PStr s \<Rightarrow> Inr (split1 CHR ''/'' s)
      | PList xs \<Rightarrow> if PStr ''/'' \<in> set xs then Inl (PyExn ''AttributeError'') else Inr None
      | PDict d \<Rightarrow> if map_of d ''/'' \<noteq> None then Inl (PyExn ''AttributeError'') else Inr None
      | _ \<Rightarrow> Inl (PyExn ''TypeError''))"

fun device_app_perms :: "pyval list \<Rightarrow> string \<Rightarrow> string option res" where
  "device_app_perms [] client_id = Inr None"
| "device_app_perms (perm # perms) client_id =
     bind_res (dget_or perm ''prefix'' (PStr [])) (\<lambda>pre.
     bind_res (slash_split pre) (\<lambda>s.
     case s of
       Some (h, t) \<Rightarrow> if t = client_id then Inr (Some h) else device_app_perms perms client_id
     | None \<Rightarrow> device_app_perms perms client_id))"

definition device_app_for_client :: "pyval \<Rightarrow> string \<Rightarrow> string option res" where
  "device_app_for_client client_acl client_id =
     bind_res (iter_perms client_acl) (\<lambda>perms. device_app_perms perms client_id)"

subsection \<open>Listing clients\<close>

definition client_id_of_key :: "string \<Rightarrow> string" where
  "client_id_of_key k = split_on CHR '':'' k ! 1"

definition client_visible ::
    "'db redis \<Rightarrow> ext \<Rightarrow> 'db \<Rightarrow> pyval \<Rightarrow> string \<Rightarrow> bool res" where
  "client_visible R E d caller_perms client_id =
     (case get_truthy R (client_acl_key client_id) d of
        None \<Rightarrow> Inr False
      | Some acl_raw \<Rightarrow>
         (case e_loads E acl_raw of
            None \<Rightarrow> Inr False
          | Some client_acl \<Rightarrow>
             bind_res (device_app_for_client client_acl client_id) (\<lambda>app.
             bind_res (py_iter caller_perms) (\<lambda>ps.
             any_perm_covers ps
               (case app of Some a \<Rightarrow> a @ ''/'' @ client_id | None \<Rightarrow> client_id)))))"

fun filter_res :: "('a \<Rightarrow> bool res) \<Rightarrow> 'a list \<Rightarrow> 'a list res" where
  "filter_res p [] = Inr []"
| "filter_res p (x # xs) =
     bind_res (p x) (\<lambda>b. bind_res (filter_res p xs) (\<lambda>ys. Inr (if b then x # ys else ys)))"

fun map_res :: "('a \<Rightarrow> 'b res) \<Rightarrow> 'a list \<Rightarrow> 'b list res" where
  "map_res f [] = Inr []"
| "map_res f (x # xs) = bind_res (f x) (\<lambda>y. bind_res (map_res f xs) (\<lambda>ys. Inr (y # ys)))"

definition list_visible_clients ::
    "'db redis \<Rightarrow> ext \<Rightarrow> string list \<Rightarrow> string option \<Rightarrow> 'db \<Rightarrow> string list res" where
  "list_visible_clients R E rescue admin_user d =
     bind_res (get_admin_context R E rescue admin_user d) (\<lambda>ctx.
     bind_res (dget_or (ctx_acl ctx) ''permissions'' (PList [])) (\<lambda>caller_perms.
     if \<not> truthy caller_perms then Inr []
     else bind_res (filter_res (client_visible R E d caller_perms)
                      (map client_id_of_key (r_keys R ''client:*:secret'' d))) (\<lambda>visible.
          Inr (sort visible))))"

definition client_row :: "'db redis \<Rightarrow> ext \<Rightarrow> 'db \<Rightarrow> string \<Rightarrow> pyval res" where
  "client_row R E d client_id =
     bind_res (case get_truthy R (client_acl_key client_id) d of
                 None \<Rightarrow> Inr (PDict []) | Some j \<Rightarrow> loads_res E j) (\<lambda>acl.
     Inr (PDict [(''client_id'', PStr client_id), (''acl'', acl)]))"

definition list_keys ::
    "'db redis \<Rightarrow> ext \<Rightarrow> string list \<Rightarrow> string option \<Rightarrow> 'db \<Rightarrow> pyval res" where
  "list_keys R E rescue admin_user d =
     bind_res (require_admin_superuser R E rescue admin_user d) (\<lambda>_.
     bind_res (map_res (client_row R E d) (map client_id_of_key (r_keys R ''client:*:secret'' d))) (\<lambda>rows.
     Inr (PList rows)))"

subsection \<open>Which admins reach a device\<close>

fun max_access_of :: "pyval list \<Rightarrow> string \<Rightarrow> pyval \<Rightarrow> pyval res" where
  "max_access_of [] path best = Inr best"
| "max_access_of (perm # perms) path best =
     bind_res (dget_or perm ''prefix'' (PStr [])) (\<lambda>pre.
     bind_res (prefix_matches pre path) (\<lambda>m.
     if m then
       bind_res (dget_or perm ''access'' (PStr ''r'')) (\<lambda>access.
       if access = PStr ''rw'' then Inr (PStr ''rw'')
       else max_access_of perms path (if best = PNone then access else best))
     else max_access_of perms path best))"

definition admin_row :: "'db redis \<Rightarrow> ext \<Rightarrow> 'db \<Rightarrow> string \<Rightarrow> string \<Rightarrow> (string \<times> pyval) option res" where
  "admin_row R E d resource_path key =
     (case get_truthy R key d of
        None \<Rightarrow> Inr None
      | Some raw \<Rightarrow>
         (case e_loads E raw of
            None \<Rightarrow> Inr None
          | Some user_acl \<Rightarrow>
             bind_res (iter_perms user_acl) (\<lambda>perms.
             bind_res (max_access_of perms resource_path PNone) (\<lambda>acc.
             Inr (if truthy acc then Some (drop (length ''admin_acls:'') key, acc) else None)))))"

definition list_admins_for_device ::
    "'db redis \<Rightarrow> ext \<Rightarrow> string list \<Rightarrow> string option \<Rightarrow> string \<Rightarrow> 'db \<Rightarrow> pyval res" where
  "list_admins_for_device R E rescue admin_user client_id d =
     bind_res (require_admin_superuser R E rescue admin_user d) (\<lambda>_.
     if get_truthy R (client_secret_key client_id) d = None
     then Inl (HTTPException 404 ''Client not found'')
     else
       let client_acl = (case get_truthy R (client_acl_key client_id) d of
             None \<Rightarrow> deny_all | Some j \<Rightarrow> (case e_loads E j of None \<Rightarrow> deny_all | Some v \<Rightarrow> v)) in
       bind_res (device_app_for_client client_acl client_id) (\<lambda>app.
       case app of
         None \<Rightarrow> Inr (PDict [(''client_id'', PStr client_id), (''app'', PNone), (''admins'', PList [])])
       | Some a \<Rightarrow>
          bind_res (map_res (admin_row R E d (a @ ''/'' @ client_id)) (r_keys R ''admin_acls:*'' d)) (\<lambda>rows.
          Inr (PDict [(''client_id'', PStr client_id), (''app'', PStr a),
            (''admins'', PList (map (\<lambda>(u, acc). PDict [(''username'', PStr u), (''access'', acc)])
               (sort_key fst (List.map_filter id rows))))]))))"

subsection \<open>Minting, provisioning and revoking\<close>

definition RESERVED_CLIENT_IDS :: "string list" where
  "RESERVED_CLIENT_IDS = [''public'']"

definition reject_if_reserved :: "string \<Rightarrow> unit res" where
  "reject_if_reserved client_id =
     (if client_id \<in> set RESERVED_CLIENT_IDS
      then Inl (HTTPException 400 ''Client id is reserved as a namespace under each app.'') else Inr ())"

definition device_to_app_key :: "string \<Rightarrow> string" where
  "device_to_app_key client_id = ''device_to_app:'' @ client_id"

definition create_client ::
    "'db redis \<Rightarrow> ext \<Rightarrow> string list \<Rightarrow> string option \<Rightarrow> string \<Rightarrow> string \<Rightarrow> 'db \<Rightarrow> pyval res \<times> 'db" where
  "create_client R E rescue admin_user new_secret client_id d =
     lift_res (require_admin_superuser R E rescue admin_user d) d (\<lambda>_.
     lift_res (reject_if_reserved client_id) d (\<lambda>_.
     (Inr (PDict [(''client_id'', PStr client_id), (''secret'', PStr new_secret), (''acl'', deny_all)]),
      r_set R (client_acl_key client_id) (e_dumps E deny_all)
        (r_set R (client_secret_key client_id) new_secret d))))"

definition provision_device ::
    "'db redis \<Rightarrow> ext \<Rightarrow> string list \<Rightarrow> string option \<Rightarrow> string \<Rightarrow> string \<Rightarrow> string \<Rightarrow> 'db \<Rightarrow> pyval res \<times> 'db" where
  "provision_device R E rescue admin_user new_secret client_id app d =
     lift_res (require_admin_superuser R E rescue admin_user d) d (\<lambda>_.
     lift_res (reject_if_reserved client_id) d (\<lambda>_.
     if strip client_id = [] then (Inl (HTTPException 400 ''client_id is required''), d)
     else if strip app = [] then (Inl (HTTPException 400 ''app is required''), d)
     else if CHR ''/'' \<in> set app \<or> CHR ''/'' \<in> set client_id
     then (Inl (HTTPException 400 ''app and client_id must not contain a slash''), d)
     else
       let created = (r_get R (client_secret_key client_id) d = None);
           acl = acl_doc [Perm (app @ ''/'' @ client_id) ''rw'', Perm (app @ ''/public'') ''rw''];
           d1 = (if created then r_set R (client_secret_key client_id) new_secret d else d);
           d2 = r_set R (client_acl_key client_id) (e_dumps E acl) d1;
           d3 = r_set R (device_to_app_key client_id) app d2
       in (Inr (PDict [(''client_id'', PStr client_id),
                       (''secret'', if created then PStr new_secret else PNone),
                       (''acl'', acl), (''created'', PBool created)]), d3)))"

definition update_acl ::
    "'db redis \<Rightarrow> ext \<Rightarrow> string list \<Rightarrow> string option \<Rightarrow> string \<Rightarrow> perm list \<Rightarrow> 'db \<Rightarrow> pyval res \<times> 'db" where
  "update_acl R E rescue admin_user client_id permissions d =
     lift_res (require_admin_superuser R E rescue admin_user d) d (\<lambda>_.
     if get_truthy R (client_secret_key client_id) d = None
     then (Inl (HTTPException 404 ''Client not found''), d)
     else (Inr (PDict [(''status'', PStr ''ok''), (''client_id'', PStr client_id), (''acl'', acl_doc permissions)]),
           r_set R (client_acl_key client_id) (e_dumps E (acl_doc permissions)) d))"

definition revoke_client ::
    "'db redis \<Rightarrow> ext \<Rightarrow> string list \<Rightarrow> string option \<Rightarrow> string \<Rightarrow> 'db \<Rightarrow> pyval res \<times> 'db" where
  "revoke_client R E rescue admin_user client_id d =
     lift_res (require_admin_superuser R E rescue admin_user d) d (\<lambda>_.
     (Inr (status_doc ''ok''),
      r_del R (device_to_app_key client_id)
        (r_del R (client_acl_key client_id) (r_del R (client_secret_key client_id) d))))"

subsection \<open>Admin users\<close>

definition read_htpasswd_users :: "string option \<Rightarrow> string list" where
  "read_htpasswd_users file =
     (case file of None \<Rightarrow> []
      | Some text \<Rightarrow> List.map_filter (\<lambda>l. map_option fst (split1 CHR '':'' (strip l))) (file_lines text))"

definition user_source :: "bool \<Rightarrow> string \<Rightarrow> string" where
  "user_source in_htpasswd user =
     (if in_htpasswd then ''htpasswd'' else if CHR ''@'' \<in> set user then ''oauth'' else ''acl-only'')"

definition user_row :: "'db redis \<Rightarrow> ext \<Rightarrow> 'db \<Rightarrow> string list \<Rightarrow> string \<Rightarrow> pyval" where
  "user_row R E d htpasswd_users user =
     (let raw = get_truthy R (admin_acl_key user) d;
          acl = (case raw of None \<Rightarrow> deny_all
                 | Some j \<Rightarrow> (case e_loads E j of Some a \<Rightarrow> a | None \<Rightarrow> deny_all))
      in PDict [(''username'', PStr user), (''source'', PStr (user_source (user \<in> set htpasswd_users) user)),
                (''acl'', acl), (''provisioned'', PBool (raw \<noteq> None))])"

definition list_admin_users ::
    "'db redis \<Rightarrow> ext \<Rightarrow> string list \<Rightarrow> string option \<Rightarrow> string option \<Rightarrow> 'db \<Rightarrow> pyval res" where
  "list_admin_users R E rescue htpasswd admin_user d =
     bind_res (require_admin_superuser R E rescue admin_user d) (\<lambda>_.
     let htpasswd_users = read_htpasswd_users htpasswd;
         acl_users = map (drop (length ''admin_acls:'')) (r_keys R ''admin_acls:*'' d)
     in Inr (PList (map (user_row R E d htpasswd_users) (sort (remdups (htpasswd_users @ acl_users))))))"

definition update_admin_user_acl ::
    "'db redis \<Rightarrow> ext \<Rightarrow> string list \<Rightarrow> string option \<Rightarrow> string \<Rightarrow> perm list \<Rightarrow> 'db \<Rightarrow> pyval res \<times> 'db" where
  "update_admin_user_acl R E rescue admin_user username permissions d =
     lift_res (require_admin_superuser R E rescue admin_user d) d (\<lambda>_.
     if strip username = [] then (Inl (HTTPException 400 ''username is required''), d)
     else (Inr (PDict [(''status'', PStr ''ok''), (''username'', PStr username), (''acl'', acl_doc permissions)]),
           r_set R (admin_acl_key username) (e_dumps E (acl_doc permissions)) d))"

definition delete_admin_user_acl ::
    "'db redis \<Rightarrow> ext \<Rightarrow> string list \<Rightarrow> string option \<Rightarrow> string \<Rightarrow> 'db \<Rightarrow> pyval res \<times> 'db" where
  "delete_admin_user_acl R E rescue admin_user username d =
     lift_res (require_admin_superuser R E rescue admin_user d) d (\<lambda>_.
     (Inr (PDict [(''status'', PStr ''ok''), (''username'', PStr username),
                  (''deleted'', PBool (r_exists R (admin_acl_key username) d))]),
      r_del R (admin_acl_key username) d))"

definition rescue_warning :: pyval where
  "rescue_warning =
     PDict [(''id'', PStr ''rescue-default-password''), (''severity'', PStr ''warning''),
            (''message'', PStr (''Rescue user is on the bootstrap-default password. ''
               @ ''Change it before exposing the device hostname to anything sensitive.'')),
            (''action'', PStr (''On the host: cd backend && python3 create_admin.py rescue ''
               @ [CHR 0x27] @ ''<new-password>'' @ [CHR 0x27]))]"

definition security_warnings ::
    "'db redis \<Rightarrow> ext \<Rightarrow> string list \<Rightarrow> string option \<Rightarrow> string option \<Rightarrow> string option \<Rightarrow> 'db \<Rightarrow> pyval res" where
  "security_warnings R E rescue live_file default_file admin_user d =
     bind_res (get_admin_context R E rescue admin_user d) (\<lambda>_.
     Inr (PDict [(''warnings'',
       PList (if is_rescue_on_default live_file default_file then [rescue_warning] else []))]))"

subsection \<open>Who am I\<close>

fun rw_prefixes :: "pyval list \<Rightarrow> pyval list res" where
  "rw_prefixes [] = Inr []"
| "rw_prefixes (p # ps) =
     bind_res (dget_or p ''access'' PNone) (\<lambda>access.
     bind_res (dget_or p ''prefix'' (PStr [])) (\<lambda>pre.
     bind_res (rw_prefixes ps) (\<lambda>rest.
     Inr (if access = PStr ''rw'' then pre # rest else rest))))"

datatype scope = Superadmin | AppScope string | DeviceScope string string | Custom

definition scope_of_prefixes :: "pyval list \<Rightarrow> scope res" where
  "scope_of_prefixes rw =
     (case rw of
        [PStr p] \<Rightarrow>
          (case split_on CHR ''/'' p of
             [a] \<Rightarrow> Inr (if a \<noteq> [] then AppScope a else Custom)
           | [a, b] \<Rightarrow> Inr (if a \<noteq> [] \<and> b \<noteq> [] then DeviceScope a b else Custom)
           | _ \<Rightarrow> Inr Custom)
      | [_] \<Rightarrow> Inl (PyExn ''AttributeError'')
      | _ \<Rightarrow> Inr Custom)"

definition scope_fields :: "scope \<Rightarrow> (string \<times> pyval) list" where
  "scope_fields s =
     (case s of
        Superadmin \<Rightarrow> [(''is_superuser'', PBool True), (''scope_kind'', PStr ''superadmin''), (''scope_app'', PNone), (''scope_device'', PNone)]
      | AppScope a \<Rightarrow> [(''is_superuser'', PBool False), (''scope_kind'', PStr ''app''), (''scope_app'', PStr a), (''scope_device'', PNone)]
      | DeviceScope a b \<Rightarrow> [(''is_superuser'', PBool False), (''scope_kind'', PStr ''device''), (''scope_app'', PStr a), (''scope_device'', PStr b)]
      | Custom \<Rightarrow> [(''is_superuser'', PBool False), (''scope_kind'', PStr ''custom''), (''scope_app'', PNone), (''scope_device'', PNone)])"

definition get_me ::
    "'db redis \<Rightarrow> ext \<Rightarrow> string list \<Rightarrow> string option \<Rightarrow> 'db \<Rightarrow> pyval res" where
  "get_me R E rescue admin_user d =
     bind_res (get_admin_context R E rescue admin_user d) (\<lambda>ctx.
     bind_res (iter_perms (ctx_acl ctx)) (\<lambda>perms.
     bind_res (has_superuser_perm perms) (\<lambda>sup.
     bind_res (if sup then Inr Superadmin else bind_res (rw_prefixes perms) scope_of_prefixes) (\<lambda>s.
     Inr (PDict ([(''username'', PStr (ctx_client_id ctx)), (''acl'', ctx_acl ctx)] @ scope_fields s))))))"

subsection \<open>Provisioning and revoking, step by step\<close>

lemma device_to_app_simps [simp]:
  "device_to_app_key a = device_to_app_key b \<longleftrightarrow> a = b"
  "device_to_app_key a \<noteq> client_secret_key b" "client_secret_key b \<noteq> device_to_app_key a"
  "device_to_app_key a \<noteq> client_acl_key b" "client_acl_key b \<noteq> device_to_app_key a"
  "device_to_app_key a \<noteq> admin_acl_key b" "admin_acl_key b \<noteq> device_to_app_key a"
  "device_to_app_key a \<noteq> kv_key b" "kv_key b \<noteq> device_to_app_key a"
  by (simp_all add: device_to_app_key_def client_secret_key_def client_acl_key_def admin_acl_key_def kv_key_def)

definition device_acl :: "string \<Rightarrow> string \<Rightarrow> pyval" where
  "device_acl app cid = acl_doc [Perm (app @ ''/'' @ cid) ''rw'', Perm (app @ ''/public'') ''rw'']"

lemma provision_device_Inr:
  assumes "provision_device R E rescue u s cid app d = (Inr doc, d')"
  shows "cid \<notin> set RESERVED_CLIENT_IDS" "CHR ''/'' \<notin> set app" "CHR ''/'' \<notin> set cid"
    "d' = r_set R (device_to_app_key cid) app (r_set R (client_acl_key cid) (e_dumps E (device_acl app cid))
       (if r_get R (client_secret_key cid) d = None then r_set R (client_secret_key cid) s d else d))"
    "doc = PDict [(''client_id'', PStr cid),
       (''secret'', if r_get R (client_secret_key cid) d = None then PStr s else PNone),
       (''acl'', device_acl app cid), (''created'', PBool (r_get R (client_secret_key cid) d = None))]"
  using assms
  by (auto simp: provision_device_def lift_res_cases reject_if_reserved_def Let_def device_acl_def split: if_splits)

lemma strip_type_kv [simp]: "strip_type (CHR ''k'' # CHR ''v'' # CHR ''/'' # key) = key"
  by (simp add: strip_type_def)

lemma strip_type_q [simp]: "strip_type (CHR ''q'' # CHR ''/'' # topic) = topic"
  by (simp add: strip_type_def)

lemma candidates_plain: "\<not> prefix ''_catalog/'' key \<Longrightarrow> acl_candidate_paths key = [key]"
  by (simp add: acl_candidate_paths_def CATALOG_STASH_PREFIX_def)

lemma device_acl_decides:
  assumes "ctx_acl ctx = device_acl app cid"
  shows "check_acl ctx (''kv/'' @ key) mode = Inr () \<longleftrightarrow>
    (\<exists>c \<in> set (acl_candidate_paths key). covers (app @ ''/'' @ cid) c \<or> covers (app @ ''/public'') c)"
  using assms
  by (auto simp: check_acl_doc [OF assms[unfolded device_acl_def]] acl_decide_def)

lemma covers_two_segments:
  assumes "CHR ''/'' \<notin> set a" "CHR ''/'' \<notin> set b" "CHR ''/'' \<notin> set a2" "CHR ''/'' \<notin> set b2"
  shows "covers (a @ ''/'' @ b) (a2 @ ''/'' @ b2 @ ''/'' @ rest) \<longleftrightarrow> a2 = a \<and> b2 = b"
proof -
  have "a @ ''/'' @ b \<noteq> ''*''" using assms(1) by (cases a) auto
  moreover have "split_on CHR ''/'' (a @ ''/'' @ b) = [a, b]"
    using assms by (simp add: split_on_append_sep split_on_no_sep)
  moreover have "split_on CHR ''/'' (a2 @ ''/'' @ b2 @ ''/'' @ rest) = a2 # b2 # split_on CHR ''/'' rest"
    using assms by (simp add: split_on_append_sep)
  ultimately show ?thesis by (simp only: covers_def) auto
qed

context backend
begin

lemma json_ok_acl_doc:
  "\<forall>p \<in> set ps. utf8_valid (perm_prefix p) \<and> utf8_valid (perm_access p) \<Longrightarrow> json_ok (acl_doc ps)"
  by (auto simp: acl_doc_def perm_doc_def char_eval)

lemma stored_acl:
  assumes "r_get R (client_acl_key cid) d = Some (e_dumps E acl)" and "json_ok acl"
    and "verify_device_request R E now req cid ts sig d = Inr ctx"
  shows "ctx_acl ctx = acl" "ctx_client_id ctx = cid"
  using assms dumps_nonempty loads_dumps [OF assms(2)]
  by (auto simp: verify_device_request_Inr get_truthy_def loads_res_def)

lemma provision_twice:
  assumes "provision_device R E rescue u s cid app d = (Inr doc, d1)"
    and "provision_device R E rescue u s2 cid app d1 = (Inr doc2, d2)"
  shows "r_get R k d2 = r_get R k d1"
    "r_get R (client_secret_key cid) d1 =
      Some (case r_get R (client_secret_key cid) d of None \<Rightarrow> s | Some old \<Rightarrow> old)"
    "doc2 = PDict [(''client_id'', PStr cid), (''secret'', PNone), (''acl'', device_acl app cid), (''created'', PBool False)]"
proof -
  note d1 = provision_device_Inr(4) [OF assms(1)]
  show sec: "r_get R (client_secret_key cid) d1 =
      Some (case r_get R (client_secret_key cid) d of None \<Rightarrow> s | Some old \<Rightarrow> old)"
    by (auto simp: d1 get_set split: option.splits)
  then have ex: "r_get R (client_secret_key cid) d1 \<noteq> None" by simp
  show "r_get R k d2 = r_get R k d1"
    using provision_device_Inr(4) [OF assms(2)] ex by (auto simp: d1 get_set)
  show "doc2 = PDict [(''client_id'', PStr cid), (''secret'', PNone), (''acl'', device_acl app cid), (''created'', PBool False)]"
    using provision_device_Inr(5) [OF assms(2)] ex by simp
qed

lemma revoke_get:
  assumes "revoke_client R E rescue admin cid d = (Inr doc, d')"
  shows "r_get R k d' = (if k \<in> {client_secret_key cid, client_acl_key cid, device_to_app_key cid} then None else r_get R k d)"
  using assms by (auto simp: revoke_client_def lift_res_cases get_del)

lemma provisioned_access:
  assumes "provision_device R E rescue u s cid app d = (Inr doc, d1)"
    and "utf8_valid app" "utf8_valid cid"
    and "verify_device_request R E now req cid ts sig d1 = Inr ctx"
  shows "ctx_acl ctx = device_acl app cid"
proof -
  have "json_ok (device_acl app cid)"
    unfolding device_acl_def using assms(2,3) by (intro json_ok_acl_doc) (auto simp: utf8_valid_append char_eval)
  moreover have "r_get R (client_acl_key cid) d1 = Some (e_dumps E (device_acl app cid))"
    using provision_device_Inr(4) [OF assms(1)] by (simp add: get_set)
  ultimately show ?thesis using stored_acl(1) assms(4) by blast
qed

end

subsection \<open>Scopes and visibility\<close>

lemma rw_prefixes_mem:
  assumes "rw_prefixes perms = Inr ps" and "PDict perm \<in> set perms" and "map_of perm ''access'' = Some (PStr ''rw'')"
  shows "(case map_of perm ''prefix'' of None \<Rightarrow> PStr [] | Some x \<Rightarrow> x) \<in> set ps"
  using assms
proof (induction perms arbitrary: ps)
  case (Cons p perms)
  then show ?case by (auto simp: bind_res_Inr_iff split: if_splits)
qed simp

lemma any_perm_covers_True:
  assumes "any_perm_covers ps path = Inr True"
  shows "\<exists>perm p. PDict perm \<in> set ps \<and> (case map_of perm ''prefix'' of None \<Rightarrow> PStr [] | Some x \<Rightarrow> x) = PStr p \<and> covers p path"
  using assms
proof (induction ps)
  case (Cons p ps)
  obtain pre m where pre: "dget_or p ''prefix'' (PStr []) = Inr pre" and m: "prefix_matches pre path = Inr m"
    and rest: "m \<or> any_perm_covers ps path = Inr True"
    using Cons.prems by (auto simp: bind_res_Inr_iff split: if_splits)
  show ?case
  proof (cases m)
    case True
    from m obtain s where s: "pre = PStr s" by (auto simp: prefix_matches_def split: pyval.splits)
    from pre obtain d where "p = PDict d" by (cases p) (auto simp: dget_or_def)
    with True m s pre show ?thesis by auto
  next
    case False
    with rest Cons.IH show ?thesis by auto
  qed
qed simp

lemma filter_res_Inr: "filter_res p xs = Inr ys \<Longrightarrow> y \<in> set ys \<Longrightarrow> y \<in> set xs \<and> p y = Inr True"
  by (induction xs arbitrary: ys) (auto simp: bind_res_Inr_iff split: if_splits)

subsection \<open>Properties\<close>

text \<open>
  Provisioning is idempotent and never replaces a secret: provisioning the same device again
  leaves every key of the store as it was, reports an existing client without revealing its
  secret, and the secret in force is the one that existed before the first call, if any.
\<close>

lemma provision_idempotent:
  assumes "backend R entries E"
    and "provision_device R E rescue admin s cid app d = (Inr doc, d1)"
    and "provision_device R E rescue admin s2 cid app d1 = (Inr doc2, d2)"
  shows "(\<forall>k. r_get R k d2 = r_get R k d1) \<and>
    r_get R (client_secret_key cid) d2 =
      Some (case r_get R (client_secret_key cid) d of None \<Rightarrow> s | Some old \<Rightarrow> old) \<and>
    doc2 = PDict [(''client_id'', PStr cid), (''secret'', PNone), (''acl'', device_acl app cid), (''created'', PBool False)]"
  using backend.provision_twice [OF assms] by simp

lemma ref_super: "require_admin_superuser mem_redis ref_ext [''ann''] (Some ''ann'') [] =
    Inr \<lparr>ctx_client_id = ''ann'', ctx_secret_hex = [], ctx_acl = RESCUE_ACL\<rparr>"
  by (simp add: require_admin_superuser_def get_admin_context_def load_admin_acl_def get_truthy_def
      RESCUE_ACL_def)

lemma ref_provision:
  "\<exists>doc d. provision_device mem_redis ref_ext [''ann''] (Some ''ann'') ''0a'' ''dev'' ''app'' [] = (Inr doc, d) \<and>
     require_admin_superuser mem_redis ref_ext [''ann''] (Some ''ann'') d =
       Inr \<lparr>ctx_client_id = ''ann'', ctx_secret_hex = [], ctx_acl = RESCUE_ACL\<rparr>"
proof -
  let ?d = "r_set mem_redis (device_to_app_key ''dev'') ''app'' (r_set mem_redis (client_acl_key ''dev'')
      (e_dumps ref_ext (device_acl ''app'' ''dev'')) (r_set mem_redis (client_secret_key ''dev'') ''0a'' []))"
  have n: "admin_acl_key ''ann'' \<noteq> device_to_app_key ''dev''" by simp
  have "require_admin_superuser mem_redis ref_ext [''ann''] (Some ''ann'') ?d =
      Inr \<lparr>ctx_client_id = ''ann'', ctx_secret_hex = [], ctx_acl = RESCUE_ACL\<rparr>"
    by (simp add: require_admin_superuser_def get_admin_context_def load_admin_acl_def get_truthy_def
      RESCUE_ACL_def mem_store.get_set)
  moreover have "provision_device mem_redis ref_ext [''ann''] (Some ''ann'') ''0a'' ''dev'' ''app'' [] =
     (Inr (PDict [(''client_id'', PStr ''dev''), (''secret'', PStr ''0a''),
       (''acl'', device_acl ''app'' ''dev''), (''created'', PBool True)]), ?d)"
    by (simp add: provision_device_def ref_super reject_if_reserved_def RESERVED_CLIENT_IDS_def string_eval
        Let_def device_acl_def)
  ultimately show ?thesis by blast
qed

text \<open>
  C17. Provisioned devices are isolated from each other: a device provisioned for an application
  and authenticated afterwards may read or write a key below \<open><a>/<b>/\<close> exactly when \<open>a\<close> is its
  application and \<open>b\<close> is its own name or \<open>public\<close>. (Keys of the catalog stash are read under the
  name they stand for.)
\<close>

theorem provisioned_isolation:
  assumes "backend R entries E"
    and "provision_device R E rescue admin s cid app d = (Inr doc, d1)"
    and "utf8_valid app" and "utf8_valid cid"
    and "verify_device_request R E now req cid ts sig d1 = Inr ctx"
    and "CHR ''/'' \<notin> set a" and "CHR ''/'' \<notin> set b" and "a \<noteq> ''_catalog''"
  shows "check_acl ctx (''kv/'' @ a @ ''/'' @ b @ ''/'' @ rest) mode = Inr () \<longleftrightarrow>
    a = app \<and> (b = cid \<or> b = ''public'')"
proof -
  have acl: "ctx_acl ctx = device_acl app cid"
    by (rule backend.provisioned_access [OF assms(1-5)])
  note names = provision_device_Inr(2,3) [OF assms(2)]
  have "\<not> prefix ''_catalog/'' (a @ ''/'' @ b @ ''/'' @ rest)"
  proof
    assume "prefix ''_catalog/'' (a @ ''/'' @ b @ ''/'' @ rest)"
    then obtain z where "a @ CHR ''/'' # b @ ''/'' @ rest = ''_catalog'' @ CHR ''/'' # z"
      by (auto simp: prefix_def)
    then have "split1 CHR ''/'' (a @ CHR ''/'' # b @ ''/'' @ rest) = split1 CHR ''/'' (''_catalog'' @ CHR ''/'' # z)"
      by simp
    moreover have "split1 CHR ''/'' (''_catalog'' @ CHR ''/'' # z) = Some (''_catalog'', z)"
      by (rule split1_append) simp
    ultimately show False using assms(6,8) by simp
  qed
  then have cand: "acl_candidate_paths (a @ ''/'' @ b @ ''/'' @ rest) = [a @ ''/'' @ b @ ''/'' @ rest]"
    by (rule candidates_plain)
  have "covers (app @ ''/'' @ ''public'') (a @ ''/'' @ b @ ''/'' @ rest) \<longleftrightarrow> a = app \<and> b = ''public''"
    by (rule covers_two_segments) (use names assms(6,7) in simp_all)
  then have pub: "covers (app @ ''/public'') (a @ ''/'' @ b @ ''/'' @ rest) \<longleftrightarrow> a = app \<and> b = ''public''"
    by simp
  have own: "covers (app @ ''/'' @ cid) (a @ ''/'' @ b @ ''/'' @ rest) \<longleftrightarrow> a = app \<and> b = cid"
    by (rule covers_two_segments) (use names assms(6,7) in simp_all)
  show ?thesis
    by (simp only: device_acl_decides [OF acl] cand list.set bex_simps own pub) auto
qed

theorem provisioned_isolation_witness:
  "\<exists>d1 sig ctx. verify_device_request mem_redis ref_ext 0 (ref_req Map.empty []) ''dev'' ''0'' sig d1 = Inr ctx \<and>
    check_acl ctx (''kv/'' @ ''app'' @ ''/'' @ ''dev'' @ ''/'' @ ''k'') WriteMode = Inr () \<and>
    check_acl ctx (''kv/'' @ ''app'' @ ''/'' @ ''other'' @ ''/'' @ ''k'') ReadMode \<noteq> Inr ()"
proof -
  obtain doc d1 where p: "provision_device mem_redis ref_ext [''ann''] (Some ''ann'') ''0a'' ''dev'' ''app'' [] = (Inr doc, d1)"
    using ref_provision by blast
  note d1 = provision_device_Inr(4) [OF p]
  let ?sig = "to_hex (e_hmac ref_ext [char_of (10::nat)] (''/kv/app/k'' @ [] @ dec_int 0))"
  have "verify_device_request mem_redis ref_ext 0 (ref_req Map.empty []) ''dev'' ''0'' ?sig d1 =
      Inr \<lparr>ctx_client_id = ''dev'', ctx_secret_hex = ''0a'', ctx_acl = device_acl ''app'' ''dev''\<rparr>"
  proof (subst verify_device_request_Inr, intro exI conjI)
    show "py_int ''0'' = Some 0" by simp
    show "verify_timestamp 0 0" by (simp add: verify_timestamp_def)
    show "get_truthy mem_redis (client_secret_key ''dev'') d1 = Some ''0a''"
      by (simp add: d1 get_truthy_def mem_store.get_set)
    show "utf8_valid ''0a''" by (simp add: char_eval)
    show "sign_payload ref_ext ''0a'' (rq_path (ref_req Map.empty [])) (rq_body (ref_req Map.empty [])) 0 = Inr ?sig"
      using ref_secret by (simp add: sign_payload_Inr)
    show "(case get_truthy mem_redis (client_acl_key ''dev'') d1 of
        None \<Rightarrow> Inr (PDict [(''read_write'', PStr ''*'')]) | Some a \<Rightarrow> loads_res ref_ext a) = Inr (device_acl ''app'' ''dev'')"
      by (simp add: d1 get_truthy_def mem_store.get_set loads_res_def) (simp add: ref_ext_def)
  qed simp
  from provisioned_isolation [OF ref_backend.backend_axioms p _ _ this, of "''app''" "''dev''" "''k''" WriteMode]
    provisioned_isolation [OF ref_backend.backend_axioms p _ _ this, of "''app''" "''other''" "''k''" ReadMode] this
  show ?thesis by (auto simp: char_eval)
qed

text \<open>
  C18. Revoking takes effect at once: after a client is revoked, no request in its name is
  authenticated, whatever it carries and whenever it comes; other clients authenticate as before.
\<close>

theorem revoked_client_rejected:
  assumes "backend R entries E"
    and "revoke_client R E rescue admin cid d = (Inr doc, d')"
  shows "(\<forall>now req ts sig ctx. verify_device_request R E now req cid ts sig d' \<noteq> Inr ctx) \<and>
    (\<forall>other now req ts sig. other \<noteq> cid \<longrightarrow>
      verify_device_request R E now req other ts sig d' = verify_device_request R E now req other ts sig d)"
proof -
  note g = backend.revoke_get [OF assms]
  have "verify_device_request R E now req cid ts sig d' \<noteq> Inr ctx" for now req ts sig ctx
    by (simp add: verify_device_request_Inr get_truthy_def g)
  moreover have "verify_device_request R E now req other ts sig d' = verify_device_request R E now req other ts sig d"
    if "other \<noteq> cid" for other now req ts sig
  proof -
    have s: "get_truthy R (client_secret_key other) d' = get_truthy R (client_secret_key other) d"
      and a: "get_truthy R (client_acl_key other) d' = get_truthy R (client_acl_key other) d"
      using that by (simp_all add: get_truthy_def g)
    show ?thesis unfolding verify_device_request_def s a ..
  qed
  ultimately show ?thesis by blast
qed

theorem revoked_client_rejected_witness:
  "\<exists>doc d'. revoke_client mem_redis ref_ext [''ann''] (Some ''ann'') ''dev'' [] = (Inr doc, d') \<and>
    (\<forall>now req ts sig ctx. verify_device_request mem_redis ref_ext now req ''dev'' ts sig d' \<noteq> Inr ctx)"
proof -
  obtain doc d' where r: "revoke_client mem_redis ref_ext [''ann''] (Some ''ann'') ''dev'' [] = (Inr doc, d')"
    by (simp add: revoke_client_def ref_super)
  from revoked_client_rejected [OF ref_backend.backend_axioms r] r show ?thesis by blast
qed

text \<open>
  C19. The scope an admin is told is an upper bound of what it may write: when \<open>/me\<close> reports the
  device scope \<open>a/b\<close> (or the application scope \<open>a\<close>), whatever else the access list holds, the admin
  is not a superuser and every key it may write is covered by \<open>a/b\<close> (by \<open>a\<close>), or stands in the
  catalog stash for one that is.
\<close>

theorem scope_bounds_writes:
  assumes "get_me R E rescue (Some u) d = Inr (PDict me)"
    and "dval me ''scope_app'' = PStr a"
    and "pre = (case dval me ''scope_device'' of PStr b \<Rightarrow> a @ ''/'' @ b | _ \<Rightarrow> a)"
    and "require_admin_kv R E rescue WriteMode (Some u) key d = Inr ctx"
  shows "covers pre key \<or> (\<exists>k. key = ''_catalog/'' @ k \<and> k \<noteq> [] \<and> covers pre k)"
proof -
  from assms(4) have ctx: "get_admin_context R E rescue (Some u) d = Inr ctx"
    and acl: "check_acl ctx (''kv/'' @ key) WriteMode = Inr ()"
    by (auto simp: require_admin_kv_def bind_res_Inr_iff)
  from assms(1) ctx obtain perms sup s where perms: "iter_perms (ctx_acl ctx) = Inr perms"
    and sup: "has_superuser_perm perms = Inr sup"
    and s: "(if sup then Inr Superadmin else bind_res (rw_prefixes perms) scope_of_prefixes) = Inr s"
    and me: "me = [(''username'', PStr (ctx_client_id ctx)), (''acl'', ctx_acl ctx)] @ scope_fields s"
    by (auto simp: get_me_def bind_res_Inr_iff)
  have "s \<noteq> Superadmin" "s \<noteq> Custom" using assms(2) me by (auto simp: scope_fields_def)
  with s obtain rw where rw: "rw_prefixes perms = Inr rw" "scope_of_prefixes rw = Inr s"
    by (auto simp: bind_res_Inr_iff split: if_splits)
  have pre: "rw = [PStr pre]"
  proof -
    from rw(2) \<open>s \<noteq> Custom\<close> obtain p where p: "rw = [PStr p]"
      by (auto simp: scope_of_prefixes_def split: list.splits pyval.splits)
    moreover have "p = pre"
    proof (cases s)
      case (AppScope x)
      then have "split_on CHR ''/'' p = [x]"
        using rw(2) p by (auto simp: scope_of_prefixes_def split: list.splits if_splits)
      with AppScope assms(2,3) me show ?thesis by (simp add: scope_fields_def split_on_single_iff)
    next
      case (DeviceScope x y)
      then have "split_on CHR ''/'' p = [x, y]"
        using rw(2) p by (auto simp: scope_of_prefixes_def split: list.splits if_splits)
      with DeviceScope assms(2,3) me show ?thesis by (simp add: scope_fields_def split_on_two_iff)
    qed (use \<open>s \<noteq> Superadmin\<close> \<open>s \<noteq> Custom\<close> in simp_all)
    ultimately show ?thesis by simp
  qed
  from acl perms have ok: "check_perms (acl_candidate_paths key) WriteMode perms = Inr ()"
    by (auto simp: check_acl_def Let_def iter_perms_def bind_res_Inr_iff)
  from check_perms_grant [OF ok] obtain perm p where "PDict perm \<in> set perms"
    and p: "(case map_of perm ''prefix'' of None \<Rightarrow> PStr [] | Some x \<Rightarrow> x) = PStr p"
    and cov: "\<exists>c \<in> set (acl_candidate_paths key). covers p c"
    and "map_of perm ''access'' = Some (PStr ''rw'')" by blast
  with rw_prefixes_mem [OF rw(1)] have "PStr p \<in> set rw" by metis
  with pre have "p = pre" by simp
  with cov show ?thesis
    by (auto simp: acl_candidate_paths_def CATALOG_STASH_PREFIX_def Let_def prefix_def split: if_splits)
qed

theorem scope_bounds_writes_witness:
  "\<exists>me d ctx. get_me mem_redis ref_ext [] (Some ''cust'') d = Inr (PDict me) \<and>
    require_admin_kv mem_redis ref_ext [] WriteMode (Some ''cust'') ''app/dev/k'' d = Inr ctx \<and>
    covers ''app/dev'' ''app/dev/k''"
proof -
  let ?acl = "acl_doc [Perm ''app/dev'' ''rw'', Perm ''app/public'' ''r'']"
  let ?d = "[(admin_acl_key ''cust'', RString (unary ?acl))]"
  let ?ctx = "\<lparr>ctx_client_id = ''cust'', ctx_secret_hex = [], ctx_acl = ?acl\<rparr>"
  have ctx: "get_admin_context mem_redis ref_ext [] (Some ''cust'') ?d = Inr ?ctx"
    by (simp add: get_admin_context_def load_admin_acl_def get_truthy_def mem_redis_def mem_get_def ref_ext_def)
  have me: "get_me mem_redis ref_ext [] (Some ''cust'') ?d =
      Inr (PDict ([(''username'', PStr ''cust''), (''acl'', ?acl)] @ scope_fields (DeviceScope ''app'' ''dev'')))"
    by (simp add: get_me_def ctx iter_perms_def scope_of_prefixes_def)
  have w: "require_admin_kv mem_redis ref_ext [] WriteMode (Some ''cust'') ''app/dev/k'' ?d = Inr ?ctx"
    by (simp add: require_admin_kv_def ctx check_acl_doc [where ps = "[Perm ''app/dev'' ''rw'', Perm ''app/public'' ''r'']"]
        acl_decide_def acl_candidate_paths_def CATALOG_STASH_PREFIX_def covers_iff)
  from scope_bounds_writes [OF me _ _ w, of "''app''" "''app/dev''"] me w show ?thesis
    by (auto simp: scope_fields_def)
qed

end
