(* ===== verification/AppRoutes.thy ===== *)
theory AppRoutes
  imports AdminClients
begin

text \<open>
  The customer-facing surface under \<open>/app/\<close>: reading the published catalog
  (\<open>backend/src/api/routes_app_theme.py\<close>), the value of a variable for a device
  (\<open>services/value_resolver.py\<close>), the theme stylesheet (\<open>services/theme_serializer.py\<close>), assets
  (\<open>routes_app_assets.py\<close>), the form submission (\<open>routes_app_form.py\<close>) and the look-up of a
  device's application (\<open>routes_app.py\<close>).
\<close>

subsection \<open>The published catalog\<close>

definition load_catalog_dict :: "'db redis \<Rightarrow> ext \<Rightarrow> string \<Rightarrow> 'db \<Rightarrow> (string \<times> pyval) list option" where
  "load_catalog_dict R E app d =
     (case r_get R (kv_key (''_catalog/'' @ app)) d of
        None \<Rightarrow> None
      | Some raw \<Rightarrow>
         (case e_unpackb E raw of
            Some (PStr unpacked) \<Rightarrow>
              (case e_yaml E unpacked of Some (PDict doc) \<Rightarrow> Some doc | _ \<Rightarrow> None)
          | _ \<Rightarrow> None))"

text \<open>\<open>(catalog or {}).get(k)\<close>\<close>

definition cat_get :: "(string \<times> pyval) list option \<Rightarrow> string \<Rightarrow> pyval" where
  "cat_get catalog k = (case catalog of None \<Rightarrow> PNone | Some doc \<Rightarrow> dval doc k)"

definition resolve_telemetry_topic ::
    "string \<Rightarrow> string \<Rightarrow> (string \<times> pyval) list option \<Rightarrow> string res" where
  "resolve_telemetry_topic app device catalog =
     (let v = cat_get catalog ''telemetry_topic'';
          declared = (if truthy v then v else PStr ''{app}/public/heartbeep'') in
      case declared of
        PStr s \<Rightarrow> Inr (replace_all ''{device}'' device (replace_all ''{app}'' app s))
      | _ \<Rightarrow> Inl (PyExn ''AttributeError''))"

definition resolve_heartbeat_seconds :: "(string \<times> pyval) list option \<Rightarrow> pyval" where
  "resolve_heartbeat_seconds catalog =
     (case cat_get catalog ''heartbeat_interval_seconds'' of
        PInt i \<Rightarrow> if 0 < i then PInt i else PInt 60
      | PBool b \<Rightarrow> if b then PBool True else PInt 60
      | _ \<Rightarrow> PInt 60)"

definition DEFAULT_FAVICON_HREF :: string where
  "DEFAULT_FAVICON_HREF = ''/app/_static/favicon.png''"

definition resolve_favicon_href :: "string \<Rightarrow> (string \<times> pyval) list option \<Rightarrow> string" where
  "resolve_favicon_href app catalog =
     (case cat_get catalog ''theme'' of
        PDict theme \<Rightarrow>
          (case dval theme ''favicon_asset'' of
             PStr f \<Rightarrow> if f \<noteq> [] then ''/app/'' @ app @ ''/_assets/'' @ f else DEFAULT_FAVICON_HREF
           | _ \<Rightarrow> DEFAULT_FAVICON_HREF)
      | _ \<Rightarrow> DEFAULT_FAVICON_HREF)"

subsection \<open>The value of a variable for a device\<close>

record resolved =
  rv_value :: "string option"
  rv_encrypted :: bool
  rv_from_default :: bool

definition to_form_string :: "ext \<Rightarrow> pyval \<Rightarrow> string" where
  "to_form_string E v =
     (case v of PBool b \<Rightarrow> if b then ''true'' else ''false'' | _ \<Rightarrow> py_str E v)"

text \<open>\<open>PNone\<close>: absent, undecodable, or a stored nil.\<close>

definition vr_read_kv :: "'db redis \<Rightarrow> ext \<Rightarrow> string \<Rightarrow> 'db \<Rightarrow> pyval \<times> bool" where
  "vr_read_kv R E key d =
     (case r_get R (kv_key key) d of
        None \<Rightarrow> (PNone, False)
      | Some raw \<Rightarrow>
         let encrypted = (get_truthy R (enc_key key) d \<noteq> None) in
         (case e_unpackb E raw of None \<Rightarrow> (PNone, encrypted) | Some v \<Rightarrow> (v, encrypted)))"

definition resolve_value ::
    "'db redis \<Rightarrow> ext \<Rightarrow> string \<Rightarrow> string \<Rightarrow> string \<Rightarrow> (string \<times> pyval) list \<Rightarrow> 'db \<Rightarrow> resolved" where
  "resolve_value R E app device var_name var d =
     (let (v1, e1) = vr_read_kv R E (app @ ''/'' @ device @ ''/'' @ var_name) d in
      if v1 \<noteq> PNone then \<lparr>rv_value = Some (to_form_string E v1), rv_encrypted = e1, rv_from_default = False\<rparr>
      else
        let (v2, e2) = vr_read_kv R E (app @ ''/public/'' @ var_name) d in
        if v2 \<noteq> PNone then \<lparr>rv_value = Some (to_form_string E v2), rv_encrypted = e2, rv_from_default = False\<rparr>
        else
          let dflt = dval var ''default'' in
          if dflt \<noteq> PNone
          then \<lparr>rv_value = Some (to_form_string E dflt), rv_encrypted = False, rv_from_default = True\<rparr>
          else \<lparr>rv_value = None, rv_encrypted = False, rv_from_default = False\<rparr>)"

subsection \<open>The theme stylesheet\<close>

definition is_hex_char :: "char \<Rightarrow> bool" where
  "is_hex_char c \<longleftrightarrow> hex_val c \<noteq> None"

text \<open>\<open>_HEX_COLOR_RE.fullmatch\<close>\<close>

definition hex_color :: "string \<Rightarrow> bool" where
  "hex_color s \<longleftrightarrow>
     (case s of [] \<Rightarrow> False
      | c # cs \<Rightarrow> c = CHR ''#'' \<and> length cs \<in> {3, 4, 6, 8} \<and> list_all is_hex_char cs)"

definition FONT_ALLOWLIST :: "string list" where
  "FONT_ALLOWLIST = [''system-ui'', ''sans-serif'', ''serif'', ''monospace'']"

definition is_lower :: "char \<Rightarrow> bool" where
  "is_lower c \<longleftrightarrow> 97 \<le> (of_char c :: nat) \<and> (of_char c :: nat) \<le> 122"

text \<open>\<open>_APP_SLUG_RE.fullmatch\<close>\<close>

definition app_slug :: "string \<Rightarrow> bool" where
  "app_slug s \<longleftrightarrow>
     (case s of [] \<Rightarrow> False
      | c # cs \<Rightarrow> is_lower c \<and> list_all (\<lambda>x. is_lower x \<or> is_digit x \<or> x = CHR ''_'') cs)"

datatype validator = ColorKind | FontKind

definition DECLARATIONS :: "(string \<times> string \<times> validator) list" where
  "DECLARATIONS =
     [(''primary_color'', ''--app-primary'', ColorKind), (''accent_color'', ''--app-accent'', ColorKind),
      (''bg_color'', ''--app-bg'', ColorKind), (''text_color'', ''--app-text'', ColorKind),
      (''font_family'', ''--app-font'', FontKind)]"

definition safe_color :: "pyval \<Rightarrow> string option" where
  "safe_color v = (case v of PStr s \<Rightarrow> if hex_color s then Some s else None | _ \<Rightarrow> None)"

definition safe_font :: "pyval \<Rightarrow> string option" where
  "safe_font v = (case v of PStr s \<Rightarrow> if s \<in> set FONT_ALLOWLIST then Some s else None | _ \<Rightarrow> None)"

definition validate :: "validator \<Rightarrow> pyval \<Rightarrow> string option" where
  "validate k v = (case k of ColorKind \<Rightarrow> safe_color v | FontKind \<Rightarrow> safe_font v)"

definition theme_decl :: "(string \<times> pyval) list \<Rightarrow> string \<times> string \<times> validator \<Rightarrow> string option" where
  "theme_decl theme = (\<lambda>(key, css_var, kind).
     map_option (\<lambda>v. ''  '' @ css_var @ '': '' @ v @ '';'') (validate kind (dval theme key)))"

definition serialize_theme_css :: "string \<Rightarrow> (string \<times> pyval) list option \<Rightarrow> string" where
  "serialize_theme_css slug theme =
     (if \<not> app_slug slug then []
      else
        let declarations = (case theme of None \<Rightarrow> [] | Some th \<Rightarrow> List.map_filter (theme_decl th) DECLARATIONS);
            selector = ''[data-app=\"'' @ slug @ ''\"]'' in
        if declarations \<noteq> [] then selector @ '' {'' @ [NL] @ join [NL] declarations @ [NL] @ ''}'' @ [NL]
        else selector @ '' {'' @ [NL] @ ''}'' @ [NL])"

definition theme_hash :: "ext \<Rightarrow> (string \<times> pyval) list option \<Rightarrow> string" where
  "theme_hash E theme =
     take 8 (to_hex (e_sha256 E (e_dumps_sorted E (PDict (case theme of None \<Rightarrow> [] | Some t \<Rightarrow> t)))))"

text \<open>\<open>(theme, hash)\<close>; \<open>None\<close> when no catalog is published. A theme of another shape counts as none.\<close>

definition load_theme ::
    "'db redis \<Rightarrow> ext \<Rightarrow> string \<Rightarrow> 'db \<Rightarrow> ((string \<times> pyval) list option \<times> string) option" where
  "load_theme R E app d =
     (case load_catalog_dict R E app d of
        None \<Rightarrow> None
      | Some doc \<Rightarrow>
         let theme = (case dval doc ''theme'' of PDict t \<Rightarrow> Some t | _ \<Rightarrow> None)
         in Some (theme, theme_hash E theme))"

definition IMMUTABLE :: string where
  "IMMUTABLE = ''public, max-age=31536000, immutable''"

definition serve_theme :: "'db redis \<Rightarrow> ext \<Rightarrow> string \<Rightarrow> 'db \<Rightarrow> response res" where
  "serve_theme R E app d =
     (case load_theme R E app d of
        None \<Rightarrow> Inl (HTTPException 404 ''catalog not published'')
      | Some (theme, h) \<Rightarrow>
         Inr \<lparr>rs_status = 200, rs_media = ''text/css; charset=utf-8'',
              rs_headers = (''Cache-Control'', IMMUTABLE) #
                (if h \<noteq> [] then [(''ETag'', ''\"'' @ h @ ''\"'')] else []),
              rs_body = serialize_theme_css app theme\<rparr>)"

subsection \<open>Assets\<close>

text \<open>\<open>_FILENAME_RE.match\<close>: the dollar sign also matches before a final line feed.\<close>

definition filename_body :: "string \<Rightarrow> bool" where
  "filename_body s \<longleftrightarrow> 1 \<le> length s \<and> length s \<le> 64 \<and> hd s \<noteq> CHR ''.'' \<and>
     list_all (\<lambda>c. is_lower c \<or> is_digit c \<or> c \<in> {CHR ''.'', CHR ''_'', CHR ''-''}) s"

definition filename_match :: "string \<Rightarrow> bool" where
  "filename_match s \<longleftrightarrow> filename_body s \<or> (s \<noteq> [] \<and> last s = NL \<and> filename_body (butlast s))"

definition asset_kv_key :: "string \<Rightarrow> string \<Rightarrow> bool \<Rightarrow> string" where
  "asset_kv_key app filename meta =
     ''_catalog/'' @ app @ ''/_assets/'' @ filename @ (if meta then ''.meta'' else [])"

text \<open>An empty \<open>rs_media\<close>: no content type is sent.\<close>

definition asset_response :: "string \<Rightarrow> (string \<times> pyval) list \<Rightarrow> string \<Rightarrow> response" where
  "asset_response ct meta payload =
     \<lparr>rs_status = 200, rs_media = ct,
      rs_headers = (''Cache-Control'', IMMUTABLE) #
        (case dval meta ''sha256'' of
           PStr s \<Rightarrow> if s \<noteq> [] then [(''ETag'', ''\"'' @ s @ ''\"'')] else []
         | _ \<Rightarrow> []),
      rs_body = payload\<rparr>"

definition serve_asset :: "'db redis \<Rightarrow> ext \<Rightarrow> string \<Rightarrow> string \<Rightarrow> 'db \<Rightarrow> response res" where
  "serve_asset R E app filename d =
     (if \<not> filename_match filename then Inl (HTTPException 404 ''bad asset name'')
      else if suffix ''.meta'' filename then Inl (HTTPException 404 ''reserved suffix'')
      else
      (case (r_get R (kv_key (asset_kv_key app filename False)) d,
             r_get R (kv_key (asset_kv_key app filename True)) d) of
         (Some bytes_raw, Some meta_raw) \<Rightarrow>
           (case (e_unpackb_raw E bytes_raw, e_unpackb E meta_raw) of
              (Some payload, Some meta) \<Rightarrow>
                (case payload of
                   PBytes b \<Rightarrow>
                     (case meta of
                        PDict m \<Rightarrow>
                          (case (case map_of m ''content_type'' of None \<Rightarrow> PStr ''application/octet-stream'' | Some v \<Rightarrow> v) of
                             PStr ct \<Rightarrow> Inr (asset_response ct m b)
                           | PNone \<Rightarrow> Inr (asset_response [] m b)
                           | _ \<Rightarrow> Inl (PyExn ''AttributeError''))
                      | _ \<Rightarrow> Inl (HTTPException 404 ''asset meta malformed''))
                 | _ \<Rightarrow> Inl (HTTPException 404 ''asset payload not bytes''))
            | _ \<Rightarrow> Inl (HTTPException 404 ''asset corrupted''))
       | _ \<Rightarrow> Inl (HTTPException 404 ''asset not found'')))"

subsection \<open>Submitting the form\<close>

definition decode_form_value :: "ext \<Rightarrow> string \<Rightarrow> pyval" where
  "decode_form_value E raw =
     (if raw = [] then PStr [] else (case e_loads E raw of Some v \<Rightarrow> v | None \<Rightarrow> PStr raw))"

text \<open>\<open>(catalog or {}).get("vars") or {}\<close>\<close>

definition catalog_vars :: "'db redis \<Rightarrow> ext \<Rightarrow> string \<Rightarrow> 'db \<Rightarrow> pyval" where
  "catalog_vars R E app d =
     (let v = cat_get (load_catalog_dict R E app d) ''vars'' in if truthy v then v else PDict [])"

definition write_field ::
    "'db redis \<Rightarrow> ext \<Rightarrow> string \<Rightarrow> string \<Rightarrow> pyval \<Rightarrow> string \<Rightarrow> string \<Rightarrow> 'db \<Rightarrow> unit res \<times> 'db" where
  "write_field R E app device vars name raw_value d =
     (if name = [] \<or> CHR ''/'' \<in> set name then (Inr (), d)
      else
        let key = app @ ''/'' @ device @ ''/'' @ name in
        lift_res (packb_res E (decode_form_value E raw_value)) d (\<lambda>packed.
        let d1 = r_set R (kv_key key) packed d in
        (Inr (),
         (case (case vars of PDict vs \<Rightarrow> dval vs name | _ \<Rightarrow> PNone) of
            PDict var \<Rightarrow>
              if truthy (dval var ''encrypted'') then r_set R (enc_key key) ''1'' d1
              else r_del R (enc_key key) d1
          | _ \<Rightarrow>
              if get_truthy R (enc_key key) d1 \<noteq> None then r_set R (enc_key key) ''1'' d1 else d1))))"

fun write_fields ::
    "'db redis \<Rightarrow> ext \<Rightarrow> string \<Rightarrow> string \<Rightarrow> pyval \<Rightarrow> (string \<times> string) list \<Rightarrow> 'db \<Rightarrow> unit res \<times> 'db" where
  "write_fields R E app device vars [] d = (Inr (), d)"
| "write_fields R E app device vars ((name, raw_value) # items) d =
     (case write_field R E app device vars name raw_value d of
        (Inl e, d1) \<Rightarrow> (Inl e, d1)
      | (Inr _, d1) \<Rightarrow> write_fields R E app device vars items d1)"

text \<open>The result is the redirect target.\<close>

definition submit_device_form ::
    "'db redis \<Rightarrow> ext \<Rightarrow> string list \<Rightarrow> string option \<Rightarrow> string \<Rightarrow> string \<Rightarrow> (string \<times> string) list \<Rightarrow> 'db \<Rightarrow> string res \<times> 'db" where
  "submit_device_form R E rescue admin_user app device form d =
     lift_res (get_admin_context R E rescue admin_user d) d (\<lambda>ctx.
     (case check_acl ctx (''kv/'' @ app @ ''/'' @ device) WriteMode of
        Inl (HTTPException _ _) \<Rightarrow> (Inr ''/app/'', d)
      | Inl e \<Rightarrow> (Inl e, d)
      | Inr _ \<Rightarrow>
         (case write_fields R E app device (catalog_vars R E app d) form d of
            (Inl e, d1) \<Rightarrow> (Inl e, d1)
          | (Inr _, d1) \<Rightarrow> (Inr (''/app/'' @ app @ ''/'' @ device), d1))))"

subsection \<open>Finding a device\<close>

text \<open>The application a scanned key names, when it is a key of the device.\<close>

definition scan_hit :: "string \<Rightarrow> string \<Rightarrow> string option res" where
  "scan_hit name key =
     (if \<not> utf8_valid key then Inl (PyExn ''UnicodeDecodeError'')
      else case split1 CHR '':'' key of
        None \<Rightarrow> Inl (PyExn ''IndexError'')
      | Some (_, path) \<Rightarrow>
         (case split_on CHR ''/'' path of
            a # b # _ # _ \<Rightarrow> Inr (if b = name then Some a else None)
          | _ \<Rightarrow> Inr None))"

fun first_hit :: "string \<Rightarrow> string list \<Rightarrow> string option res" where
  "first_hit name [] = Inr None"
| "first_hit name (key # keys) =
     (case scan_hit name key of
        Inr None \<Rightarrow> first_hit name keys
      | r \<Rightarrow> r)"

definition scan_pattern :: "string \<Rightarrow> string" where
  "scan_pattern name = ''kv:*/'' @ name @ ''/*''"

partial_function (option) lookup_scan ::
    "'db redis \<Rightarrow> string \<Rightarrow> nat \<Rightarrow> 'db \<Rightarrow> string option res option" where
  "lookup_scan R name cursor d =
     (case r_scan R cursor (scan_pattern name) 200 d of (cursor', keys) \<Rightarrow>
     (case first_hit name keys of
        Inl e \<Rightarrow> Some (Inl e)
      | Inr (Some app) \<Rightarrow> Some (Inr (Some app))
      | Inr None \<Rightarrow> if cursor' = 0 then Some (Inr None) else lookup_scan R name cursor' d))"

text \<open>\<open>None\<close>: the scan does not end.\<close>

definition lookup_device :: "'db redis \<Rightarrow> string \<Rightarrow> 'db \<Rightarrow> (string res \<times> 'db) option" where
  "lookup_device R name d =
     (if name = [] \<or> CHR ''/'' \<in> set name then Some (Inl (HTTPException 404 ''No device by that name''), d)
      else case r_get R (device_to_app_key name) d of
        Some indexed \<Rightarrow>
          Some (if utf8_valid indexed then Inr indexed else Inl (PyExn ''UnicodeDecodeError''), d)
      | None \<Rightarrow>
         (case lookup_scan R name 0 d of
            None \<Rightarrow> None
          | Some (Inl e) \<Rightarrow> Some (Inl e, d)
          | Some (Inr (Some app)) \<Rightarrow> Some (Inr app, r_set R (device_to_app_key name) app d)
          | Some (Inr None) \<Rightarrow> Some (Inl (HTTPException 404 ''No device by that name''), d)))"

subsection \<open>What the form may touch\<close>

definition field_ok :: "string \<Rightarrow> bool" where
  "field_ok name \<longleftrightarrow> name \<noteq> [] \<and> CHR ''/'' \<notin> set name"

definition field_key :: "string \<Rightarrow> string \<Rightarrow> string \<Rightarrow> string" where
  "field_key app device name = app @ ''/'' @ device @ ''/'' @ name"

lemma field_key_inj [simp]: "field_key a d n = field_key a d m \<longleftrightarrow> n = m"
  by (simp add: field_key_def)

text \<open>What the catalog says of a field: \<open>None\<close> when it does not declare it.\<close>

definition declared_encrypted :: "pyval \<Rightarrow> string \<Rightarrow> bool option" where
  "declared_encrypted vars name =
     (case (case vars of PDict vs \<Rightarrow> dval vs name | _ \<Rightarrow> PNone) of
        PDict var \<Rightarrow> Some (truthy (dval var ''encrypted'')) | _ \<Rightarrow> None)"

definition flag_set :: "'db redis \<Rightarrow> string \<Rightarrow> 'db \<Rightarrow> bool" where
  "flag_set R key d \<longleftrightarrow> get_truthy R (enc_key key) d \<noteq> None"

lemma write_field_skip: "\<not> field_ok name \<Longrightarrow> write_field R E app device vars name raw d = (Inr (), d)"
  by (auto simp: write_field_def field_ok_def)

context redis_store
begin

lemma write_field_keys:
  assumes "write_field R E app device vars name raw d = (r, d')"
    and "r_get R k d' \<noteq> r_get R k d"
  shows "field_ok name \<and> k \<in> {kv_key (field_key app device name), enc_key (field_key app device name)}"
  using assms
  by (auto simp: write_field_def field_ok_def field_key_def lift_res_cases Let_def get_set get_del
      split: if_splits pyval.splits)

lemma write_fields_keys:
  assumes "write_fields R E app device vars form d = (r, d')"
    and "r_get R k d' \<noteq> r_get R k d"
  shows "\<exists>(name, raw) \<in> set form. field_ok name \<and>
    k \<in> {kv_key (field_key app device name), enc_key (field_key app device name)}"
  using assms
proof (induction form arbitrary: d)
  case (Cons p form)
  obtain name raw where p: "p = (name, raw)" by fastforce
  obtain r1 d1 where w: "write_field R E app device vars name raw d = (r1, d1)" by fastforce
  show ?case
  proof (cases "r_get R k d1 = r_get R k d")
    case True
    with Cons.prems w p Cons.IH [of d1] show ?thesis by (auto split: sum.splits)
  next
    case False
    with write_field_keys [OF w] p show ?thesis by auto
  qed
qed simp

lemma write_field_stores:
  assumes "write_field R E app device vars name raw d = (Inr (), d')" and "field_ok name"
  shows "\<exists>b. e_packb E (decode_form_value E raw) = Some b \<and>
      r_get R (kv_key (field_key app device name)) d' = Some b \<and>
      (flag_set R (field_key app device name) d' \<longleftrightarrow>
        (case declared_encrypted vars name of Some e \<Rightarrow> e | None \<Rightarrow> flag_set R (field_key app device name) d))"
proof -
  let ?k = "kv_key (field_key app device name)" and ?e = "enc_key (field_key app device name)"
  from assms obtain b where b: "e_packb E (decode_form_value E raw) = Some b"
    and d': "d' = (let d1 = r_set R ?k b d in
       case (case vars of PDict vs \<Rightarrow> dval vs name | _ \<Rightarrow> PNone) of
         PDict var \<Rightarrow> if truthy (dval var ''encrypted'') then r_set R ?e ''1'' d1 else r_del R ?e d1
       | _ \<Rightarrow> if get_truthy R ?e d1 \<noteq> None then r_set R ?e ''1'' d1 else d1)"
    unfolding write_field_def field_ok_def field_key_def lift_res_cases packb_res_def Let_def
    by (cases "e_packb E (decode_form_value E raw)") simp_all
  have ne: "?e \<noteq> ?k" by simp
  define v where "v = (case vars of PDict vs \<Rightarrow> dval vs name | _ \<Rightarrow> PNone)"
  show ?thesis
  proof (cases "\<exists>var. v = PDict var")
    case True
    then obtain var where "v = PDict var" by blast
    then show ?thesis
      using b unfolding d' declared_encrypted_def v_def [symmetric] flag_set_def get_truthy_def Let_def
      by (simp add: get_set get_del)
  next
    case False
    then have "d' = (let d1 = r_set R ?k b d in if get_truthy R ?e d1 \<noteq> None then r_set R ?e ''1'' d1 else d1)"
      and "declared_encrypted vars name = None"
      unfolding d' declared_encrypted_def v_def [symmetric] by (cases v; simp)+
    then show ?thesis
      using b unfolding flag_set_def get_truthy_def Let_def by (auto simp: get_set split: option.splits)
  qed
qed

lemma write_fields_append:
  "write_fields R E app device vars (xs @ ys) d =
     (case write_fields R E app device vars xs d of
        (Inl e, d1) \<Rightarrow> (Inl e, d1) | (Inr _, d1) \<Rightarrow> write_fields R E app device vars ys d1)"
  by (induction xs arbitrary: d) (auto split: prod.splits sum.splits)

lemma write_fields_store:
  assumes "write_fields R E app device vars form d = (Inr (), d')"
    and "(name, raw) \<in> set form" and "field_ok name" and "distinct (map fst form)"
    and clash: "\<forall>n \<in> fst ` set form. n \<noteq> name @ '':enc'' \<and> name \<noteq> n @ '':enc''"
  shows "\<exists>b. e_packb E (decode_form_value E raw) = Some b \<and>
      r_get R (kv_key (field_key app device name)) d' = Some b \<and>
      (flag_set R (field_key app device name) d' \<longleftrightarrow>
        (case declared_encrypted vars name of Some e \<Rightarrow> e | None \<Rightarrow> flag_set R (field_key app device name) d))"
proof -
  obtain xs ys where form: "form = xs @ (name, raw) # ys"
    using assms(2) by (auto simp: in_set_conv_decomp)
  obtain d1 d2 where w: "write_fields R E app device vars xs d = (Inr (), d1)"
      "write_field R E app device vars name raw d1 = (Inr (), d2)"
      "write_fields R E app device vars ys d2 = (Inr (), d')"
    using assms(1) by (auto simp: form write_fields_append split: prod.splits sum.splits)
  have others: "n \<noteq> name" if "(n, v) \<in> set xs \<union> set ys" for n v
  proof
    assume "n = name"
    with that have "name \<in> fst ` set (xs @ ys)" by force
    with assms(4) show False by (auto simp: form)
  qed
  have sep: "k \<noteq> kv_key (field_key app device n)" "k \<noteq> enc_key (field_key app device n)"
    if "(n, v) \<in> set xs \<union> set ys" "k \<in> {kv_key (field_key app device name), enc_key (field_key app device name)}"
    for k n v
  proof -
    have "(n, v) \<in> set form" using that(1) by (auto simp: form)
    then have "n \<in> fst ` set form" by (metis fst_conv image_eqI)
    with clash others [OF that(1)] that(2)
    show "k \<noteq> kv_key (field_key app device n)" "k \<noteq> enc_key (field_key app device n)"
      by (auto simp: kv_key_def enc_key_def field_key_def)
  qed
  have before: "r_get R k d1 = r_get R k d"
    if k: "k \<in> {kv_key (field_key app device name), enc_key (field_key app device name)}" for k
  proof (rule ccontr)
    assume "r_get R k d1 \<noteq> r_get R k d"
    from write_fields_keys [OF w(1) this] obtain n v where n: "(n, v) \<in> set xs"
      and "k \<in> {kv_key (field_key app device n), enc_key (field_key app device n)}" by blast
    with sep [OF _ k, of n v] show False by simp
  qed
  have after: "r_get R k d' = r_get R k d2"
    if k: "k \<in> {kv_key (field_key app device name), enc_key (field_key app device name)}" for k
  proof (rule ccontr)
    assume "r_get R k d' \<noteq> r_get R k d2"
    from write_fields_keys [OF w(3) this] obtain n v where n: "(n, v) \<in> set ys"
      and "k \<in> {kv_key (field_key app device n), enc_key (field_key app device n)}" by blast
    with sep [OF _ k, of n v] show False by simp
  qed
  let ?k = "kv_key (field_key app device name)" and ?e = "enc_key (field_key app device name)"
  have "flag_set R (field_key app device name) d1 = flag_set R (field_key app device name) d"
    "flag_set R (field_key app device name) d' = flag_set R (field_key app device name) d2"
    unfolding flag_set_def get_truthy_def using before [of ?e] after [of ?e] by simp_all
  with write_field_stores [OF w(2) assms(3)] after [of ?k] show ?thesis
    by (cases "declared_encrypted vars name") simp_all
qed

text \<open>Scanning for a device.\<close>

lemma first_hit_append:
  "first_hit name (xs @ ys) = (case first_hit name xs of Inr None \<Rightarrow> first_hit name ys | r \<Rightarrow> r)"
  by (induction xs) (auto split: sum.splits option.splits)

lemma first_hit_Some: "first_hit name ks = Inr (Some a) \<Longrightarrow> \<exists>k \<in> set ks. scan_hit name k = Inr (Some a)"
  by (induction ks) (auto split: sum.splits option.splits)

lemma first_hit_None: "first_hit name ks = Inr None \<Longrightarrow> k \<in> set ks \<Longrightarrow> scan_hit name k = Inr None"
  by (induction ks) (auto split: sum.splits option.splits)

lemma first_hit_Inl: "first_hit name ks = Inl e \<Longrightarrow> \<exists>c. e = PyExn c"
  by (induction ks) (auto simp: scan_hit_def split: sum.splits option.splits if_splits prod.splits list.splits)

lemma lookup_scan_run:
  "scan_run R (scan_pattern name) 200 d c ks \<Longrightarrow> lookup_scan R name c d = Some (first_hit name ks)"
proof (induction rule: scan_run.induct)
  case (scan_last c ks)
  then show ?case by (subst lookup_scan.simps) (simp split: sum.splits option.splits)
next
  case (scan_more c c' ks ks')
  then show ?case by (subst lookup_scan.simps) (simp add: first_hit_append split: sum.splits option.splits)
qed

lemma lookup_scan_total:
  assumes "star_plain (scan_pattern name)"
  obtains ks where "lookup_scan R name 0 d = Some (first_hit name ks)"
    "\<And>k. k \<in> set ks \<longleftrightarrow> star_match (scan_pattern name) k \<and> r_exists R k d"
  using scan_ends [of "scan_pattern name" 200 d] lookup_scan_run scan_keys [OF assms] by metis

end

definition device_path :: "string \<Rightarrow> string \<Rightarrow> string \<Rightarrow> string" where
  "device_path app name rest = ''kv:'' @ app @ ''/'' @ name @ ''/'' @ rest"

lemma star_match_append: "star_match ps s \<Longrightarrow> star_match (pre @ ps) (pre @ s)"
proof (induction pre)
  case (Cons c pre)
  then have "star_match (pre @ ps) (pre @ s)" by blast
  then have "star_match (CHR ''*'' # pre @ ps) (c # pre @ s)"
    by (subst star_match_star) (metis append_Cons append_Nil)
  with Cons show ?case by auto
qed simp

lemma scan_pattern_covers: "star_match (scan_pattern name) (device_path app name rest)"
proof -
  have "star_match ''*'' rest" by (simp add: star_match_star)
  then have "star_match (''/'' @ name @ ''/'' @ ''*'') (''/'' @ name @ ''/'' @ rest)"
    by (intro star_match_append)
  then have "star_match (CHR ''*'' # ''/'' @ name @ ''/*'') (app @ ''/'' @ name @ ''/'' @ rest)"
    unfolding star_match_star by (metis append_Cons append_Nil)
  then have "star_match (''kv:'' @ CHR ''*'' # ''/'' @ name @ ''/*'') (''kv:'' @ app @ ''/'' @ name @ ''/'' @ rest)"
    by (rule star_match_append)
  then show ?thesis by (simp add: scan_pattern_def device_path_def)
qed

lemma scan_hit_device:
  assumes "CHR ''/'' \<notin> set app" and "CHR ''/'' \<notin> set name"
  shows "scan_hit name (device_path app name rest) \<noteq> Inr None"
proof -
  have "split1 CHR '':'' (device_path app name rest) = Some (''kv'', app @ ''/'' @ name @ ''/'' @ rest)"
    by (simp add: device_path_def)
  moreover have "split_on CHR ''/'' (app @ ''/'' @ name @ ''/'' @ rest) = app # name # split_on CHR ''/'' rest"
    using assms by (simp add: split_on_append_sep)
  ultimately show ?thesis
    by (cases "split_on CHR ''/'' rest") (simp_all add: scan_hit_def)
qed

lemma scan_hit_Some:
  assumes "scan_hit name k = Inr (Some app)" and "star_match (scan_pattern name) k"
  shows "\<exists>rest. k = device_path app name rest"
proof -
  have "star_match (''kv:'' @ ''*/'' @ name @ ''/*'') k"
    using assms(2) by (simp add: scan_pattern_def)
  then obtain r where k: "k = ''kv:'' @ r"
    by (subst (asm) star_match_prefix) auto
  then have "split1 CHR '':'' k = Some (''kv'', r)" by simp
  with assms(1) obtain c cs where s: "split_on CHR ''/'' r = app # name # c # cs"
    by (auto simp: scan_hit_def split: if_splits list.splits)
  then have "r = join ''/'' (app # name # c # cs)" using join_split_on [of "CHR ''/''" r] by metis
  then show ?thesis by (auto simp: k device_path_def)
qed

subsection \<open>Properties\<close>

lemma submit_cases:
  assumes "submit_device_form R E rescue u app device form d = (r, d')"
  obtains (denied) "d' = d" "r = Inr ''/app/'' \<or> is_ok r = False"
  | (written) ctx w where "require_admin_kv R E rescue WriteMode u (app @ ''/'' @ device) d = Inr ctx"
      "write_fields R E app device (catalog_vars R E app d) form d = (w, d')"
      "r = (case w of Inl e \<Rightarrow> Inl e | Inr _ \<Rightarrow> Inr (''/app/'' @ app @ ''/'' @ device))"
proof -
  show thesis
  proof (cases "get_admin_context R E rescue u d")
    case (Inl e)
    with assms have "d' = d" "r = Inl e" by (simp_all add: submit_device_form_def)
    then show thesis by (intro denied) simp_all
  next
    case (Inr ctx)
    show thesis
    proof (cases "check_acl ctx (''kv/'' @ app @ ''/'' @ device) WriteMode")
      case (Inl e)
      with assms Inr have "d' = d" "r = Inr ''/app/'' \<or> is_ok r = False"
        by (auto simp: submit_device_form_def split: exn.splits)
      then show thesis by (rule denied)
    next
      case acl: (Inr x)
      obtain w d1 where w: "write_fields R E app device (catalog_vars R E app d) form d = (w, d1)" by fastforce
      with assms Inr acl have "d' = d1" "r = (case w of Inl e \<Rightarrow> Inl e | Inr _ \<Rightarrow> Inr (''/app/'' @ app @ ''/'' @ device))"
        by (auto simp: submit_device_form_def split: sum.splits)
      with w Inr acl show thesis by (intro written [of ctx w]) (simp_all add: require_admin_kv_def)
    qed
  qed
qed

text \<open>
  C20. A submitted form stays in its sandbox: whatever the fields are called and however the
  request ends, every key of the store that changes is the value or the encrypted flag of a
  submitted field below \<open><app>/<device>/\<close>, the field's name has no slash, and the admin who
  submitted it may write to the device.
\<close>

theorem form_sandbox:
  assumes "redis_store R entries"
    and "submit_device_form R E rescue admin app device form d = (r, d')"
    and "r_get R k d' \<noteq> r_get R k d"
  shows "(\<exists>ctx. require_admin_kv R E rescue WriteMode admin (app @ ''/'' @ device) d = Inr ctx) \<and>
    (\<exists>(name, raw) \<in> set form. name \<noteq> [] \<and> CHR ''/'' \<notin> set name \<and>
       k \<in> {kv_key (app @ ''/'' @ device @ ''/'' @ name), enc_key (app @ ''/'' @ device @ ''/'' @ name)})"
proof (rule submit_cases [OF assms(2)])
  fix ctx w
  assume ctx: "require_admin_kv R E rescue WriteMode admin (app @ ''/'' @ device) d = Inr ctx"
    and w: "write_fields R E app device (catalog_vars R E app d) form d = (w, d')"
  from redis_store.write_fields_keys [OF assms(1) w assms(3)] ctx show ?thesis
    unfolding field_ok_def field_key_def by blast
qed (use assms(3) in simp_all)

text \<open>
  A store in which \<open>ann\<close> may write everything and a catalog whose field \<open>pw\<close> is encrypted.
\<close>

lemma codec_yaml: "codec E \<Longrightarrow> codec (E\<lparr>e_yaml := y\<rparr>)"
  by (simp add: codec_def py_to_int_def)

definition form_catalog :: pyval where
  "form_catalog = PDict [(''vars'', PDict [(''pw'', PDict [(''encrypted'', PBool True)])])]"

definition form_ext :: ext where
  "form_ext = ref_ext\<lparr>e_yaml := (\<lambda>s. Some form_catalog)\<rparr>"

definition form_db :: mem where
  "form_db = [(kv_key ''_catalog/app'', RString (unary (PStr ''doc'')))]"

interpretation form_backend: backend mem_redis mem_entries form_ext
  unfolding form_ext_def by (intro backend.intro mem_store.redis_store_axioms codec_yaml ref_codec.codec_axioms)

lemma form_ext_simps [simp]:
  "e_packb form_ext v = (if mp_ok v then Some (unary v) else None)"
  "e_unpackb form_ext b = (if b = [] then None else Some (of_unary b))"
  "e_loads form_ext s = (if s = [] then None else Some (of_unary s))"
  "e_yaml form_ext s = Some form_catalog"
  by (simp_all add: form_ext_def ref_ext_def)

lemma form_vars: "catalog_vars mem_redis form_ext ''app'' form_db = PDict [(''pw'', PDict [(''encrypted'', PBool True)])]"
  by (simp add: catalog_vars_def cat_get_def load_catalog_dict_def form_db_def mem_redis_def mem_get_def form_catalog_def)

lemma form_submit:
  "\<exists>d'. submit_device_form mem_redis form_ext [''ann''] (Some ''ann'') ''app'' ''dev'' [(''pw'', unary (PInt 5))] form_db =
    (Inr ''/app/app/dev'', d') \<and>
    r_get mem_redis (kv_key ''app/dev/pw'') d' \<noteq> r_get mem_redis (kv_key ''app/dev/pw'') form_db"
proof -
  let ?ctx = "\<lparr>ctx_client_id = ''ann'', ctx_secret_hex = [], ctx_acl = RESCUE_ACL\<rparr>"
  have ctx: "get_admin_context mem_redis form_ext [''ann''] (Some ''ann'') form_db = Inr ?ctx"
    by (simp add: get_admin_context_def load_admin_acl_def get_truthy_def form_db_def mem_redis_def mem_get_def
        admin_acl_key_def kv_key_def)
  have acl: "check_acl ?ctx (''kv/'' @ ''app'' @ ''/'' @ ''dev'') WriteMode = Inr ()"
    by (subst check_acl_doc [of _ "[Perm ''*'' ''rw'']"])
      (auto simp: RESCUE_ACL_def acl_doc_def perm_doc_def acl_decide_def covers_def acl_candidate_paths_def Let_def)
  show ?thesis
    using acl by (simp add: submit_device_form_def ctx form_vars write_field_def decode_form_value_def packb_res_def
        mem_store.get_set) (simp add: form_db_def mem_redis_def mem_get_def kv_key_def enc_key_def)
qed

theorem form_sandbox_witness:
  "\<exists>ctx. require_admin_kv mem_redis form_ext [''ann''] WriteMode (Some ''ann'') ''app/dev'' form_db = Inr ctx"
proof -
  obtain d' where "submit_device_form mem_redis form_ext [''ann''] (Some ''ann'') ''app'' ''dev'' [(''pw'', unary (PInt 5))] form_db =
    (Inr ''/app/app/dev'', d')" "r_get mem_redis (kv_key ''app/dev/pw'') d' \<noteq> r_get mem_redis (kv_key ''app/dev/pw'') form_db"
    using form_submit by blast
  from form_sandbox [OF mem_store.redis_store_axioms this] show ?thesis by simp
qed

text \<open>
  C21. What the customer saves is what the page shows next, encrypted as the catalog says: after
  an accepted form with distinct field names, none of which is another's name followed by \<open>:enc\<close>,
  the decoded value of every valid field is stored in the device's own key, the encrypted flag is
  the one the catalog declares (the previous one for a field the catalog does not declare), and
  unless the value is a null the value resolved for the device is the submitted one.
\<close>

theorem form_round_trip:
  assumes "backend R entries E"
    and "submit_device_form R E rescue admin app device form d = (Inr loc, d')" and "loc \<noteq> ''/app/''"
    and "(name, raw) \<in> set form" and "name \<noteq> []" and "CHR ''/'' \<notin> set name" and "distinct (map fst form)"
    and "\<forall>n \<in> fst ` set form. n \<noteq> name @ '':enc'' \<and> name \<noteq> n @ '':enc''"
    and "enc = (case declared_encrypted (catalog_vars R E app d) name of Some e \<Rightarrow> e
                | None \<Rightarrow> get_truthy R (enc_key (app @ ''/'' @ device @ ''/'' @ name)) d \<noteq> None)"
  shows "(\<exists>b. e_packb E (decode_form_value E raw) = Some b \<and>
      r_get R (kv_key (app @ ''/'' @ device @ ''/'' @ name)) d' = Some b) \<and>
    (get_truthy R (enc_key (app @ ''/'' @ device @ ''/'' @ name)) d' \<noteq> None \<longleftrightarrow> enc) \<and>
    (decode_form_value E raw \<noteq> PNone \<longrightarrow> resolve_value R E app device name var d' =
      \<lparr>rv_value = Some (to_form_string E (decode_form_value E raw)), rv_encrypted = enc, rv_from_default = False\<rparr>)"
proof -
  have rs: "redis_store R entries" and cd: "codec E" using assms(1) by (simp_all add: backend_def)
  have w: "write_fields R E app device (catalog_vars R E app d) form d = (Inr (), d')"
    using assms(2,3) by (auto elim!: submit_cases split: sum.splits)
  have ok: "field_ok name" using assms(5,6) by (simp add: field_ok_def)
  obtain b where b: "e_packb E (decode_form_value E raw) = Some b"
    and st: "r_get R (kv_key (app @ ''/'' @ device @ ''/'' @ name)) d' = Some b"
    and fl: "get_truthy R (enc_key (app @ ''/'' @ device @ ''/'' @ name)) d' \<noteq> None \<longleftrightarrow> enc"
    using redis_store.write_fields_store [OF rs w assms(4) ok assms(7,8)] assms(9)
    unfolding field_key_def flag_set_def by blast
  have "vr_read_kv R E (app @ ''/'' @ device @ ''/'' @ name) d' = (decode_form_value E raw, enc)"
    using st fl codec.unpackb_packb [OF cd b] by (simp add: vr_read_kv_def Let_def)
  with b st fl show ?thesis by (simp add: resolve_value_def)
qed

theorem form_round_trip_witness:
  "\<exists>d'. get_truthy mem_redis (enc_key ''app/dev/pw'') d' \<noteq> None \<and>
    resolve_value mem_redis form_ext ''app'' ''dev'' ''pw'' [] d' =
      \<lparr>rv_value = Some (dec_int 5), rv_encrypted = True, rv_from_default = False\<rparr>"
proof -
  obtain d' where s: "submit_device_form mem_redis form_ext [''ann''] (Some ''ann'') ''app'' ''dev'' [(''pw'', unary (PInt 5))] form_db =
    (Inr ''/app/app/dev'', d')"
    using form_submit by blast
  have e: "True = (case declared_encrypted (catalog_vars mem_redis form_ext ''app'' form_db) ''pw'' of Some e \<Rightarrow> e
      | None \<Rightarrow> get_truthy mem_redis (enc_key (''app'' @ ''/'' @ ''dev'' @ ''/'' @ ''pw'')) form_db \<noteq> None)"
    by (simp add: form_vars declared_encrypted_def)
  have dv: "decode_form_value form_ext (unary (PInt 5)) = PInt 5" by (simp add: decode_form_value_def)
  from form_round_trip [OF form_backend.backend_axioms s _ _ _ _ _ _ e, of "unary (PInt 5)" "[]"] show ?thesis
    by (simp add: dv to_form_string_def) blast
qed



lemma length_DECLARATIONS: "length DECLARATIONS = 5"
  by (simp add: DECLARATIONS_def)

lemma join_lines: "ls \<noteq> [] \<Longrightarrow> join [NL] ls @ [NL] = concat (map (\<lambda>l. l @ [NL]) ls)"
proof (induction ls)
  case (Cons l ls)
  then show ?case by (cases ls) auto
qed simp

definition css_special :: "char \<Rightarrow> bool" where
  "css_special c \<longleftrightarrow> c \<in> set '';{}:<>()/*@&'' \<or> c = CHR 0x22 \<or> c = CHR 0x5C \<or> c = NL"

definition css_plain :: "string \<Rightarrow> bool" where
  "css_plain v \<longleftrightarrow> list_all (\<lambda>c. \<not> css_special c) v"

lemma is_hex_char_plain: "is_hex_char c \<Longrightarrow> \<not> css_special c"
  by (auto simp: is_hex_char_def hex_val_def NL_def Let_def css_special_def split: if_splits)

lemma hash_plain: "\<not> css_special CHR ''#''"
  by (simp add: css_special_def NL_def)

lemma hex_color_plain: "hex_color v \<Longrightarrow> css_plain v"
  by (auto simp: hex_color_def css_plain_def hash_plain is_hex_char_plain elim: list.pred_mono_strong split: list.splits)

lemma font_plain: "v \<in> set FONT_ALLOWLIST \<Longrightarrow> css_plain v"
  by (auto simp: FONT_ALLOWLIST_def css_plain_def css_special_def NL_def)

lemma validate_plain: "validate kind raw = Some v \<Longrightarrow> (hex_color v \<or> v \<in> set FONT_ALLOWLIST) \<and> css_plain v"
  by (cases kind)
    (auto simp: validate_def safe_color_def safe_font_def hex_color_plain font_plain split: pyval.splits if_splits)

text \<open>
  A theme cannot inject CSS: for every catalog theme, of whatever shape, the stylesheet is
  empty or one rule for the application's own selector, whose body is at most five lines, each
  setting one of the five \<open>--app-\<close> properties to a hexadecimal colour or an allowed font name;
  no value has a character that could end its declaration, the rule or the string.
\<close>

lemma theme_css_safe:
  "serialize_theme_css slug theme = [] \<or>
   (app_slug slug \<and> (\<exists>decls.
     serialize_theme_css slug theme = ''[data-app=\"'' @ slug @ ''\"] {'' @ [NL] @ concat (map (\<lambda>l. l @ [NL]) decls) @ ''}'' @ [NL] \<and>
     length decls \<le> 5 \<and>
     (\<forall>l \<in> set decls. \<exists>css v.
        css \<in> {''--app-primary'', ''--app-accent'', ''--app-bg'', ''--app-text'', ''--app-font''} \<and>
        l = ''  '' @ css @ '': '' @ v @ '';'' \<and> (hex_color v \<or> v \<in> set FONT_ALLOWLIST) \<and> css_plain v)))"
proof (cases "app_slug slug")
  case True
  define decls where "decls = (case theme of None \<Rightarrow> [] | Some th \<Rightarrow> List.map_filter (theme_decl th) DECLARATIONS)"
  have css: "serialize_theme_css slug theme =
      ''[data-app=\"'' @ slug @ ''\"] {'' @ [NL] @ concat (map (\<lambda>l. l @ [NL]) decls) @ ''}'' @ [NL]"
    using True join_lines [of decls] by (simp add: serialize_theme_css_def decls_def [symmetric] Let_def)
  have len: "length decls \<le> 5"
    using length_filter_le [of "\<lambda>x. theme_decl (the theme) x \<noteq> None" DECLARATIONS] length_DECLARATIONS
    by (cases theme) (simp_all add: decls_def map_filter_def)
  have "\<exists>css v. css \<in> {''--app-primary'', ''--app-accent'', ''--app-bg'', ''--app-text'', ''--app-font''} \<and>
        l = ''  '' @ css @ '': '' @ v @ '';'' \<and> (hex_color v \<or> v \<in> set FONT_ALLOWLIST) \<and> css_plain v"
    if l: "l \<in> set decls" for l
  proof -
    from l obtain th key css kind where d: "(key, css, kind) \<in> set DECLARATIONS" "theme_decl th (key, css, kind) = Some l"
      by (cases theme) (auto simp: decls_def map_filter_def)
    then obtain v where v: "validate kind (dval th key) = Some v" "l = ''  '' @ css @ '': '' @ v @ '';''"
      by (auto simp: theme_decl_def)
    from d(1) have "css \<in> {''--app-primary'', ''--app-accent'', ''--app-bg'', ''--app-text'', ''--app-font''}"
      by (auto simp: DECLARATIONS_def)
    with v validate_plain [OF v(1)] show ?thesis by blast
  qed
  with True css len show ?thesis by blast
qed (simp add: serialize_theme_css_def)

end
