(* ===== verification/AdminData.thy ===== *)
theory AdminData
  imports AppRoutes
begin

text \<open>
  The part of \<open>backend/src/api/routes_admin.py\<close> that shows and edits data: the statistics, the
  peeks, the key scan, the devices of a catalog, the logs, the stream monitor and the heartbeat
  dump. A handler takes what its FastAPI dependency needs, its validated parameters and the
  store. Timers of \<open>PerfPhases\<close> have no effect on a result and are left out.

  Limits are integers; a negative or zero \<open>COUNT\<close> fetches nothing.
\<close>

subsection \<open>Access checks that hide rather than fail\<close>

text \<open>\<open>try: await check_acl(...) except HTTPException: continue\<close>\<close>

definition acl_allows :: "client_ctx \<Rightarrow> string \<Rightarrow> acl_mode \<Rightarrow> bool res" where
  "acl_allows ctx resource mode =
     (case check_acl ctx resource mode of
        Inr _ \<Rightarrow> Inr True
      | Inl (HTTPException _ _) \<Rightarrow> Inr False
      | Inl e \<Rightarrow> Inl e)"

lemma acl_allows_True [simp]: "acl_allows ctx r m = Inr True \<longleftrightarrow> check_acl ctx r m = Inr ()"
  by (auto simp: acl_allows_def split: sum.splits exn.splits)

text \<open>\<open>k.split(":", 1)[1]\<close>\<close>

definition after_colon :: "string \<Rightarrow> string res" where
  "after_colon k = (case split1 CHR '':'' k of None \<Rightarrow> Inl (PyExn ''IndexError'') | Some (_, t) \<Rightarrow> Inr t)"

subsection \<open>Statistics\<close>

definition stat_queue :: "'db redis \<Rightarrow> client_ctx \<Rightarrow> 'db \<Rightarrow> string \<Rightarrow> pyval option res" where
  "stat_queue R ctx d qk =
     bind_res (after_colon qk) (\<lambda>topic.
     bind_res (acl_allows ctx (''q/'' @ topic) ReadMode) (\<lambda>ok.
     Inr (if ok then Some (PDict [(''topic'', PStr topic), (''count'', PInt (int (r_xlen R qk d)))]) else None)))"

definition stat_kv :: "'db redis \<Rightarrow> client_ctx \<Rightarrow> 'db \<Rightarrow> string \<Rightarrow> pyval option res" where
  "stat_kv R ctx d kvk =
     bind_res (after_colon kvk) (\<lambda>name.
     if suffix '':enc'' name then Inr None
     else bind_res (acl_allows ctx (''kv/'' @ name) ReadMode) (\<lambda>ok.
     Inr (if ok then Some (PDict [(''key'', PStr name),
                                  (''encrypted'', PBool (get_truthy R (enc_key name) d \<noteq> None))]) else None)))"

definition get_stats :: "'db redis \<Rightarrow> ext \<Rightarrow> string list \<Rightarrow> string option \<Rightarrow> 'db \<Rightarrow> pyval res" where
  "get_stats R E rescue admin_user d =
     bind_res (get_admin_context R E rescue admin_user d) (\<lambda>ctx.
     bind_res (map_res (stat_queue R ctx d) (r_keys R ''q:*'' d)) (\<lambda>queues.
     bind_res (map_res (stat_kv R ctx d) (r_keys R ''kv:*'' d)) (\<lambda>kvs.
     Inr (PDict [(''queues'', PList (List.map_filter id queues)), (''kvs'', PList (List.map_filter id kvs))]))))"

subsection \<open>Peeking and editing\<close>

text \<open>A record without a payload makes the handler use a variable that was never bound.\<close>

definition peek_queue :: "'db redis \<Rightarrow> ext \<Rightarrow> string list \<Rightarrow> string option \<Rightarrow> string \<Rightarrow> 'db \<Rightarrow> pyval res" where
  "peek_queue R E rescue admin_user topic d =
     bind_res (require_admin_queue R E rescue ReadMode admin_user topic d) (\<lambda>_.
     case r_xrange R (q_key topic) ''-'' (Some 1) d of
       [] \<Rightarrow> Inr (PDict [(''status'', PStr ''empty''), (''message'', PNone)])
     | (msg_id, f) # _ \<Rightarrow>
        (case map_of f ''payload'' of
           None \<Rightarrow> Inl (PyExn ''UnboundLocalError'')
         | Some payload \<Rightarrow>
            Inr (PDict [(''status'', PStr ''ok''),
              (''message'', case e_unpackb E payload of Some v \<Rightarrow> v | None \<Rightarrow> PStr ''unparseable_msgpack''),
              (''hex'', PStr (to_hex payload))])))"

definition peek_kv :: "'db redis \<Rightarrow> ext \<Rightarrow> string list \<Rightarrow> string option \<Rightarrow> string \<Rightarrow> 'db \<Rightarrow> pyval res" where
  "peek_kv R E rescue admin_user key d =
     bind_res (require_admin_kv R E rescue ReadMode admin_user key d) (\<lambda>_.
     case get_truthy R (kv_key key) d of
       None \<Rightarrow> Inr (PDict [(''status'', PStr ''empty''), (''message'', PNone)])
     | Some msg \<Rightarrow>
        Inr (PDict [(''status'', PStr ''ok''),
          (''message'', case e_unpackb E msg of Some v \<Rightarrow> v | None \<Rightarrow> PStr ''unparseable_msgpack''),
          (''hex'', PStr (to_hex msg)),
          (''encrypted'', PBool (get_truthy R (enc_key key) d \<noteq> None))]))"

definition set_kv ::
    "'db redis \<Rightarrow> ext \<Rightarrow> string list \<Rightarrow> string option \<Rightarrow> string \<Rightarrow> string \<Rightarrow> bool \<Rightarrow> 'db \<Rightarrow> pyval res \<times> 'db" where
  "set_kv R E rescue admin_user key payload_value encrypted d =
     lift_res (require_admin_kv R E rescue WriteMode admin_user key d) d (\<lambda>_.
     let data = (case e_loads E payload_value of Some v \<Rightarrow> v | None \<Rightarrow> PStr payload_value) in
     lift_res (packb_res E data) d (\<lambda>packed.
     (Inr (status_doc ''ok''), set_enc_flag R key encrypted (r_set R (kv_key key) packed d))))"

definition admin_delete_kv ::
    "'db redis \<Rightarrow> ext \<Rightarrow> string list \<Rightarrow> string option \<Rightarrow> string \<Rightarrow> 'db \<Rightarrow> pyval res \<times> 'db" where
  "admin_delete_kv R E rescue admin_user key d =
     lift_res (require_admin_kv R E rescue WriteMode admin_user key d) d (\<lambda>_.
     (Inr (status_doc ''ok''), r_del R (enc_key key) (r_del R (kv_key key) d)))"

definition delete_queue ::
    "'db redis \<Rightarrow> ext \<Rightarrow> string list \<Rightarrow> string option \<Rightarrow> string \<Rightarrow> 'db \<Rightarrow> pyval res \<times> 'db" where
  "delete_queue R E rescue admin_user topic d =
     lift_res (require_admin_queue R E rescue WriteMode admin_user topic d) d (\<lambda>_.
     (Inr (status_doc ''ok''), r_del R (q_key topic) d))"

subsection \<open>Scanning keys\<close>

text \<open>The loop with the number of items so far; it stops as soon as the limit is reached.\<close>

fun scan_items :: "'db redis \<Rightarrow> client_ctx \<Rightarrow> int \<Rightarrow> 'db \<Rightarrow> string list \<Rightarrow> int \<Rightarrow> (string \<times> nat) list res" where
  "scan_items R ctx limit d [] n = Inr []"
| "scan_items R ctx limit d (k # ks) n =
     bind_res (after_colon k) (\<lambda>name.
     bind_res (acl_allows ctx (''kv/'' @ name) ReadMode) (\<lambda>ok.
     if \<not> ok then scan_items R ctx limit d ks n
     else if limit \<le> n + 1 then Inr [(name, r_strlen R k d)]
     else bind_res (scan_items R ctx limit d ks (n + 1)) (\<lambda>items. Inr ((name, r_strlen R k d) # items))))"

definition scan_kv ::
    "'db redis \<Rightarrow> ext \<Rightarrow> string list \<Rightarrow> string option \<Rightarrow> string \<Rightarrow> int \<Rightarrow> 'db \<Rightarrow> pyval res" where
  "scan_kv R E rescue admin_user pre limit d =
     bind_res (get_admin_context R E rescue admin_user d) (\<lambda>ctx.
     bind_res (scan_items R ctx limit d (r_keys R (''kv:'' @ pre @ ''*'') d) 0) (\<lambda>items.
     Inr (PDict [(''prefix'', PStr pre), (''count'', PInt (int (length items))),
       (''truncated'', PBool (limit \<le> int (length items))),
       (''items'', PList (map (\<lambda>(k, n). PDict [(''key'', PStr k), (''bytes'', PInt (int n))])
                            (sort_key fst items)))])))"

subsection \<open>The devices of a catalog\<close>

definition perm_in_app :: "string \<Rightarrow> pyval \<Rightarrow> bool res" where
  "perm_in_app app perm =
     bind_res (dget_or perm ''prefix'' (PStr [])) (\<lambda>pre.
     case pre of
       PStr p \<Rightarrow> Inr (p = ''*'' \<or> p = app \<or> prefix (app @ ''/'') p)
     | _ \<Rightarrow> Inl (PyExn ''AttributeError''))"

fun any_res :: "('a \<Rightarrow> bool res) \<Rightarrow> 'a list \<Rightarrow> bool res" where
  "any_res p [] = Inr False"
| "any_res p (x # xs) = bind_res (p x) (\<lambda>b. if b then Inr True else any_res p xs)"

definition app_device :: "'db redis \<Rightarrow> ext \<Rightarrow> string \<Rightarrow> 'db \<Rightarrow> string \<Rightarrow> string option res" where
  "app_device R E app d k =
     (let parts = split_on CHR '':'' k in
      if length parts < 3 then Inr None
      else case get_truthy R k d of
        None \<Rightarrow> Inr None
      | Some raw \<Rightarrow>
         (case e_loads E raw of
            None \<Rightarrow> Inr None
          | Some acl \<Rightarrow>
             bind_res (iter_perms acl) (\<lambda>perms.
             bind_res (any_res (perm_in_app app) perms) (\<lambda>b. Inr (if b then Some (parts ! 1) else None)))))"

definition list_catalog_devices ::
    "'db redis \<Rightarrow> ext \<Rightarrow> string list \<Rightarrow> string option \<Rightarrow> string \<Rightarrow> 'db \<Rightarrow> pyval res" where
  "list_catalog_devices R E rescue admin_user app d =
     bind_res (get_admin_context R E rescue admin_user d) (\<lambda>ctx.
     bind_res (check_acl ctx (''kv/_catalog/'' @ app) ReadMode) (\<lambda>_.
     bind_res (map_res (app_device R E app d) (r_keys R ''client:*:acl'' d)) (\<lambda>found.
     bind_res (filter_res (\<lambda>device. acl_allows ctx (''kv/'' @ app @ ''/'' @ device) WriteMode)
                 (sort (remdups (List.map_filter id found)))) (\<lambda>visible.
     Inr (PDict [(''app'', PStr app), (''devices'', PList (map PStr visible))])))))"

subsection \<open>The activity log\<close>

definition log_resource_from_action :: "string \<Rightarrow> string option" where
  "log_resource_from_action action =
     (case split1 CHR '' '' action of
        None \<Rightarrow> None
      | Some (_, path) \<Rightarrow>
         if prefix ''/q/'' path then Some (''q/'' @ drop 3 path)
         else if prefix ''/kv/'' path then Some (''kv/'' @ drop 4 path)
         else None)"

definition field_or :: "fields \<Rightarrow> string \<Rightarrow> string \<Rightarrow> string" where
  "field_or f k dflt = (case map_of f k of None \<Rightarrow> dflt | Some v \<Rightarrow> v)"

definition int_field :: "fields \<Rightarrow> string \<Rightarrow> int res" where
  "int_field f k = (case py_int (field_or f k ''0'') of None \<Rightarrow> Inl (PyExn ''ValueError'') | Some i \<Rightarrow> Inr i)"

text \<open>The row of a record, \<open>None\<close> when it is filtered out.\<close>

definition log_row :: "client_ctx \<Rightarrow> string list \<Rightarrow> fields \<Rightarrow> pyval option res" where
  "log_row ctx client_id f =
     bind_res (decode_utf8 (field_or f ''client_id'' ''unknown'')) (\<lambda>cid.
     if client_id \<noteq> [] \<and> cid \<notin> set client_id then Inr None
     else
       bind_res (decode_utf8 (field_or f ''action'' [])) (\<lambda>action.
       bind_res (case log_resource_from_action action of
                   None \<Rightarrow> Inr True | Some resource \<Rightarrow> acl_allows ctx resource ReadMode) (\<lambda>ok.
       if \<not> ok then Inr None
       else
         bind_res (int_field f ''timestamp'') (\<lambda>ts.
         bind_res (decode_utf8 (field_or f ''status'' [])) (\<lambda>status.
         Inr (Some (PDict [(''timestamp'', PInt ts), (''client_id'', PStr cid),
                           (''action'', PStr action), (''status'', PStr status)])))))))"

text \<open>Rows up to a limit, checked after each row that is added.\<close>

fun take_rows :: "int \<Rightarrow> (entry \<Rightarrow> 'a option res) \<Rightarrow> entry list \<Rightarrow> int \<Rightarrow> 'a list res" where
  "take_rows limit row [] n = Inr []"
| "take_rows limit row (e # es) n =
     bind_res (row e) (\<lambda>r.
     case r of
       None \<Rightarrow> take_rows limit row es n
     | Some x \<Rightarrow> if limit \<le> n + 1 then Inr [x]
                else bind_res (take_rows limit row es (n + 1)) (\<lambda>xs. Inr (x # xs)))"

definition perm_is_star :: "pyval \<Rightarrow> bool res" where
  "perm_is_star p = bind_res (dget_or p ''prefix'' PNone) (\<lambda>pre. Inr (pre = PStr ''*''))"

definition get_logs ::
    "'db redis \<Rightarrow> ext \<Rightarrow> string list \<Rightarrow> string option \<Rightarrow> int \<Rightarrow> string list \<Rightarrow> 'db \<Rightarrow> pyval res" where
  "get_logs R E rescue admin_user limit client_id d =
     bind_res (get_admin_context R E rescue admin_user d) (\<lambda>ctx.
     bind_res (iter_perms (ctx_acl ctx)) (\<lambda>perms.
     bind_res (any_res perm_is_star perms) (\<lambda>is_wildcard.
     let fetch_count = (if is_wildcard then limit else min (limit * 10) 5000);
         records = r_xrevrange R ''system:activity_log'' ''+'' (nat fetch_count) d in
     bind_res (take_rows limit (\<lambda>e. log_row ctx client_id (snd e)) records 0) (\<lambda>rows.
     Inr (PList rows)))))"

subsection \<open>The performance log\<close>

text \<open>
  \<open>float(b)\<close> of decimal notation with an optional exponent, as an exact rational. The words for
  infinities and NaN, which no other part of the program writes, count as an error.
\<close>

definition digit_count :: "string \<Rightarrow> nat" where
  "digit_count s = length (filter is_digit s)"

definition opt_nat :: "string \<Rightarrow> nat option" where
  "opt_nat s = (if s = [] then Some 0 else parse_nat s)"

definition float_mantissa :: "string \<Rightarrow> rat option" where
  "float_mantissa s =
     (case split1 CHR ''.'' s of
        None \<Rightarrow> map_option of_nat (parse_nat s)
      | Some (a, b) \<Rightarrow>
         if a = [] \<and> b = [] then None
         else (case (opt_nat a, opt_nat b) of
                 (Some x, Some y) \<Rightarrow> Some (of_nat x + of_nat y / 10 ^ digit_count b)
               | _ \<Rightarrow> None))"

definition float_unsigned :: "string \<Rightarrow> rat option" where
  "float_unsigned s =
     (case split1 CHR ''e'' (map lower_char s) of
        None \<Rightarrow> float_mantissa s
      | Some (m, x) \<Rightarrow>
         (case (float_mantissa m, if x \<noteq> [] \<and> is_space (hd x) then None else py_int x) of
            (Some r, Some i) \<Rightarrow> Some (if 0 \<le> i then r * 10 ^ nat i else r / 10 ^ nat (- i))
          | _ \<Rightarrow> None))"

definition py_float :: "string \<Rightarrow> rat option" where
  "py_float s =
     (case strip s of
        [] \<Rightarrow> None
      | c # cs \<Rightarrow> if c = CHR ''-'' then map_option uminus (float_unsigned cs)
                 else if c = CHR ''+'' then float_unsigned cs
                 else float_unsigned (c # cs))"

definition perf_row :: "ext \<Rightarrow> string \<Rightarrow> rat \<Rightarrow> fields \<Rightarrow> pyval option res" where
  "perf_row E path_prefix min_ms f =
     bind_res (decode_utf8 (field_or f ''path'' [])) (\<lambda>path.
     if path_prefix \<noteq> [] \<and> \<not> prefix path_prefix path then Inr None
     else
       bind_res (case py_float (field_or f ''total_ms'' ''0'') of
                   None \<Rightarrow> Inl (PyExn ''ValueError'') | Some t \<Rightarrow> Inr t) (\<lambda>total_ms.
       if total_ms < min_ms then Inr None
       else
         bind_res (int_field f ''timestamp'') (\<lambda>ts.
         bind_res (decode_utf8 (field_or f ''method'' [])) (\<lambda>meth.
         bind_res (int_field f ''status'') (\<lambda>status.
         bind_res (decode_utf8 (field_or f ''client_id'' [])) (\<lambda>cid.
         Inr (Some (PDict ([(''timestamp'', PInt ts), (''method'', PStr meth), (''path'', PStr path),
             (''total_ms'', PFloat total_ms), (''status'', PInt status), (''client_id'', PStr cid)]
           @ (case map_of f ''phase_breakdown'' of
                None \<Rightarrow> []
              | Some p \<Rightarrow> (case e_loads E p of None \<Rightarrow> [] | Some v \<Rightarrow> [(''phases'', v)])))))))))))"

text \<open>An absent \<open>path_prefix\<close> filters like the empty one.\<close>

definition get_perf_log ::
    "'db redis \<Rightarrow> ext \<Rightarrow> string list \<Rightarrow> string option \<Rightarrow> int \<Rightarrow> string \<Rightarrow> rat \<Rightarrow> 'db \<Rightarrow> pyval res" where
  "get_perf_log R E rescue admin_user limit path_prefix min_ms d =
     bind_res (require_admin_superuser R E rescue admin_user d) (\<lambda>_.
     bind_res (take_rows limit (\<lambda>e. perf_row E path_prefix min_ms (snd e))
        (r_xrevrange R PERF_LOG_STREAM ''+'' (nat (min (limit * 5) 5000)) d) 0) (\<lambda>rows.
     Inr (PList rows)))"

subsection \<open>The stream monitor\<close>

definition STREAM_FILTER_BATCH :: nat where "STREAM_FILTER_BATCH = 100"
definition STREAM_FILTER_MAX_BATCHES :: nat where "STREAM_FILTER_MAX_BATCHES = 10"

text \<open>One batch: the matches so far, and whether the limit was reached.\<close>

fun scan_page :: "string list \<Rightarrow> int \<Rightarrow> entry list \<Rightarrow> entry list \<Rightarrow> entry list \<times> bool" where
  "scan_page wanted limit [] matches = (matches, False)"
| "scan_page wanted limit ((msg_id, f) # es) matches =
     (if field_or f ''client_id'' [] \<in> set wanted then
        let m = matches @ [(msg_id, f)] in
        if limit \<le> int (length m) then (m, True) else scan_page wanted limit es m
      else scan_page wanted limit es matches)"

text \<open>The loop over the batches still allowed.\<close>

fun filtered_loop ::
    "'db redis \<Rightarrow> string \<Rightarrow> int \<Rightarrow> string list \<Rightarrow> 'db \<Rightarrow> nat \<Rightarrow> string \<Rightarrow> entry list \<Rightarrow> entry list" where
  "filtered_loop R key limit wanted d 0 cursor matches = matches"
| "filtered_loop R key limit wanted d (Suc n) cursor matches =
     (let batch = r_xrevrange R key cursor STREAM_FILTER_BATCH d in
      if batch = [] then matches
      else
        (case scan_page wanted limit batch matches of
           (m, True) \<Rightarrow> m
         | (m, False) \<Rightarrow>
             if length batch < STREAM_FILTER_BATCH then m
             else filtered_loop R key limit wanted d n (CHR ''('' # fst (last batch)) m))"

definition xrevrange_filtered :: "'db redis \<Rightarrow> string \<Rightarrow> int \<Rightarrow> string list \<Rightarrow> 'db \<Rightarrow> entry list" where
  "xrevrange_filtered R key limit client_ids d =
     filtered_loop R key limit client_ids d STREAM_FILTER_MAX_BATCHES ''+'' []"

definition monitor_row :: "ext \<Rightarrow> int \<Rightarrow> string list \<Rightarrow> entry \<Rightarrow> pyval option res" where
  "monitor_row E now client_id e =
     (case py_int (hd (split_on CHR ''-'' (fst e))) of
        None \<Rightarrow> Inl (PyExn ''ValueError'')
      | Some ms \<Rightarrow>
         bind_res (int_field (snd e) ''exp'') (\<lambda>x_exp.
         if x_exp < now then Inr None
         else
           bind_res (decode_utf8 (field_or (snd e) ''client_id'' ''unknown'')) (\<lambda>cid.
           if client_id \<noteq> [] \<and> cid \<notin> set client_id then Inr None
           else
             let raw = field_or (snd e) ''payload'' [] in
             Inr (Some (PDict [(''id'', PStr (fst e)), (''received_at'', PInt (ms div 1000)),
               (''client_id'', PStr cid),
               (''data'', case e_unpackb E raw of Some v \<Rightarrow> v | None \<Rightarrow> PStr (to_hex raw))])))))"

definition stream_monitor ::
    "'db redis \<Rightarrow> ext \<Rightarrow> string list \<Rightarrow> string option \<Rightarrow> int \<Rightarrow> string \<Rightarrow> int \<Rightarrow> string list \<Rightarrow> 'db \<Rightarrow> pyval res" where
  "stream_monitor R E rescue admin_user now topic limit client_id d =
     bind_res (require_admin_queue R E rescue ReadMode admin_user topic d) (\<lambda>_.
     let records = (if client_id \<noteq> [] then xrevrange_filtered R (q_key topic) limit client_id d
                    else r_xrevrange R (q_key topic) ''+'' (nat limit) d) in
     bind_res (map_res (monitor_row E now client_id) records) (\<lambda>rows.
     Inr (PList (List.map_filter id rows))))"

subsection \<open>The heartbeat dump\<close>

definition DUMP_HEARTBEATS_PAGE :: nat where "DUMP_HEARTBEATS_PAGE = 500"

partial_function (option) heartbeat_pages ::
    "'db redis \<Rightarrow> string \<Rightarrow> string \<Rightarrow> 'db \<Rightarrow> string \<Rightarrow> entry list \<Rightarrow> entry list option" where
  "heartbeat_pages R key wanted d cursor matches =
     (let page = r_xrange R key cursor (Some DUMP_HEARTBEATS_PAGE) d in
      if page = [] then Some matches
      else
        let m = matches @ filter (\<lambda>e. field_or (snd e) ''client_id'' [] = wanted) page in
        if length page < DUMP_HEARTBEATS_PAGE then Some m
        else heartbeat_pages R key wanted d (CHR ''('' # fst (last page)) m)"

text \<open>
  A line of the dump. \<open>iso_time\<close> is the ISO time of a number of milliseconds (the \<open>datetime\<close> module).
  The publisher is the wanted client, so decoding its name cannot fail.
\<close>

definition heartbeat_row :: "ext \<Rightarrow> (int \<Rightarrow> string) \<Rightarrow> entry \<Rightarrow> pyval" where
  "heartbeat_row E iso_time e =
     (let ts_ms = (case py_int (hd (split_on CHR ''-'' (fst e))) of None \<Rightarrow> 0 | Some i \<Rightarrow> i);
          raw = field_or (snd e) ''payload'' [] in
      PDict [(''ts_ms'', PInt ts_ms), (''received_at_iso'', PStr (iso_time ts_ms)),
        (''client_id'', PStr (field_or (snd e) ''client_id'' [])),
        (''exp'', PInt (case py_int (field_or (snd e) ''exp'' ''0'') of None \<Rightarrow> 0 | Some i \<Rightarrow> i)),
        (''data'', case e_unpackb E raw of None \<Rightarrow> PNone | Some v \<Rightarrow> v),
        (''payload_hex'', PStr (to_hex raw))])"

definition heartbeat_meta :: "string \<Rightarrow> string \<Rightarrow> string \<Rightarrow> pyval" where
  "heartbeat_meta topic client_id generated_at =
     PDict [(''_meta'', PDict [(''topic'', PStr topic), (''client_id'', PStr client_id),
       (''generated_at_iso'', PStr generated_at), (''stream_max_age_days'', PInt 7)])]"

text \<open>The topic whose access is checked.\<close>

definition heartbeat_topic ::
    "'db redis \<Rightarrow> ext \<Rightarrow> client_ctx \<Rightarrow> string \<Rightarrow> 'db \<Rightarrow> string res" where
  "heartbeat_topic R E ctx client_id d =
     (case get_truthy R (client_acl_key client_id) d of
        None \<Rightarrow> Inl (HTTPException 404 ''Client not found'')
      | Some acl_raw \<Rightarrow>
         let client_acl = (case e_loads E acl_raw of Some v \<Rightarrow> v | None \<Rightarrow> deny_all) in
         bind_res (device_app_for_client client_acl client_id) (\<lambda>app.
         case app of
           None \<Rightarrow> Inl (HTTPException 400 ''Client has no app affinity; cannot resolve a heartbeat topic.'')
         | Some a \<Rightarrow>
            bind_res (resolve_telemetry_topic a client_id (load_catalog_dict R E a d)) (\<lambda>topic.
            bind_res (check_acl ctx (''q/'' @ topic) ReadMode) (\<lambda>_. Inr topic))))"

text \<open>The lines of the body; \<open>None\<close>: the traversal does not end.\<close>

definition dump_heartbeats ::
    "'db redis \<Rightarrow> ext \<Rightarrow> string list \<Rightarrow> string option \<Rightarrow> (int \<Rightarrow> string) \<Rightarrow> string \<Rightarrow> string \<Rightarrow> 'db \<Rightarrow> string list res option" where
  "dump_heartbeats R E rescue admin_user iso_time generated_at client_id d =
     (case bind_res (get_admin_context R E rescue admin_user d) (\<lambda>ctx. heartbeat_topic R E ctx client_id d) of
        Inl e \<Rightarrow> Some (Inl e)
      | Inr topic \<Rightarrow>
         (case heartbeat_pages R (q_key topic) client_id d ''-'' [] of
            None \<Rightarrow> None
          | Some matches \<Rightarrow> Some (Inr
              ((e_dumps E (heartbeat_meta topic client_id generated_at) @ [NL]) #
               map (\<lambda>e. e_dumps_str E (heartbeat_row E iso_time e) @ [NL]) (rev matches)))))"

subsection \<open>Paging through a stream\<close>

lemma sorted_entries_nth:
  assumes "sorted_wrt (<) (map fst (es :: (stream_id \<times> 'a) list))" and "i < j" and "j < length es"
  shows "fst (es ! i) < fst (es ! j)"
  using assms by (simp add: sorted_wrt_iff_nth_less)

lemma filter_before_nth:
  assumes "sorted_wrt (<) (map fst (es :: (stream_id \<times> 'a) list))" and "k < length es"
  shows "filter (\<lambda>e. fst e < fst (es ! k)) es = take k es"
proof -
  have "\<not> fst e < fst (es ! k)" if e: "e \<in> set (drop k es)" for e
  proof -
    from e obtain j where j: "j < length es - k" and ej: "e = es ! (k + j)" by (auto simp: in_set_conv_nth)
    from j have kj: "k + j < length es" by linarith
    show ?thesis
    proof (cases "j = 0")
      case True
      then show ?thesis by (simp add: ej)
    next
      case False
      then have "fst (es ! k) < fst e" unfolding ej by (intro sorted_entries_nth [OF assms(1) _ kj]) simp
      then show ?thesis by (simp add: less_asym)
    qed
  qed
  then have "filter (\<lambda>e. fst e < fst (es ! k)) (drop k es) = []" by (simp add: filter_empty_conv)
  moreover have "fst e < fst (es ! k)" if e: "e \<in> set (take k es)" for e
    using e sorted_entries_nth [OF assms(1), of _ k] assms(2) by (auto simp: in_set_conv_nth)
  then have "filter (\<lambda>e. fst e < fst (es ! k)) (take k es) = take k es" by (simp add: filter_id_conv)
  ultimately show ?thesis
    using filter_append [of "\<lambda>e. fst e < fst (es ! k)" "take k es" "drop k es"] by simp
qed

lemma filter_after_nth:
  assumes "sorted_wrt (<) (map fst (es :: (stream_id \<times> 'a) list))" and "k < length es"
  shows "filter (\<lambda>e. fst (es ! k) < fst e) es = drop (Suc k) es"
proof -
  have "filter (\<lambda>e. fst (es ! k) < fst e) (take (Suc k) es @ drop (Suc k) es) = drop (Suc k) es"
  proof -
    have "filter (\<lambda>e. fst (es ! k) < fst e) (take (Suc k) es) = []"
    proof -
      have "\<not> fst (es ! k) < fst e" if e: "e \<in> set (take (Suc k) es)" for e
      proof -
        from e obtain j where "j \<le> k" "e = es ! j" by (auto simp: in_set_conv_nth less_Suc_eq_le)
        then show ?thesis
          using sorted_entries_nth [OF assms(1), of j k] assms(2) by (cases "j = k") auto
      qed
      then show ?thesis by (simp add: filter_empty_conv)
    qed
    moreover have "filter (\<lambda>e. fst (es ! k) < fst e) (drop (Suc k) es) = drop (Suc k) es"
    proof -
      have "fst (es ! k) < fst e" if e: "e \<in> set (drop (Suc k) es)" for e
      proof -
        from e obtain j where "j < length es - Suc k" "e = es ! (Suc k + j)" by (auto simp: in_set_conv_nth)
        then show ?thesis using sorted_entries_nth [OF assms(1), of k "Suc k + j"] by simp
      qed
      then show ?thesis by (simp add: filter_id_conv)
    qed
    ultimately show ?thesis by (simp only: filter_append append_Nil)
  qed
  then show ?thesis by simp
qed

lemma scan_page_spec:
  assumes "int (length matches) < limit"
  shows "scan_page wanted limit es matches =
    (let m = matches @ filter (\<lambda>e. field_or (snd e) ''client_id'' [] \<in> set wanted) es in
     if limit \<le> int (length m) then (take (nat limit) m, True) else (m, False))"
  using assms
proof (induction wanted limit es matches rule: scan_page.induct)
  case (2 wanted limit msg_id f es matches)
  show ?case
  proof (cases "field_or f ''client_id'' [] \<in> set wanted \<and> limit \<le> int (length matches) + 1")
    case True
    with 2(3) have "nat limit = Suc (length matches)" by linarith
    with True show ?thesis by (simp add: Let_def)
  next
    case False
    with 2 show ?thesis by (auto simp: Let_def)
  qed
qed simp

context redis_store
begin

lemma before_page:
  assumes "k < length (entries key d)"
  shows "r_xrevrange R key (CHR ''('' # fst (show_entry (entries key d ! k))) n d =
    map show_entry (take n (rev (take k (entries key d))))"
  using filter_before_nth [OF entries_sorted assms] by (simp add: show_entry_def xrevrange_before)

lemma after_page:
  assumes "k < length (entries key d)"
  shows "r_xrange R key (CHR ''('' # fst (show_entry (entries key d ! k))) (Some n) d =
    map show_entry (take n (drop (Suc k) (entries key d)))"
  using filter_after_nth [OF entries_sorted assms] by (simp add: show_entry_def xrange_after)

lemma last_of_page:
  assumes "k \<le> length es" and "n \<le> k" and "0 < n"
  shows "last (take n (rev (take k es))) = es ! (k - n)"
proof -
  have "last (take n (rev (take k es))) = take n (rev (take k es)) ! (n - 1)"
    using assms by (subst last_conv_nth) auto
  also have "\<dots> = es ! (k - n)" using assms by (simp add: rev_nth)
  finally show ?thesis .
qed

lemma filtered_loop_spec:
  assumes "r_xrevrange R key cursor 100 d = map show_entry (take 100 (rev (take k (entries key d))))"
    and "k \<le> length (entries key d)" and "int (length matches) < limit"
  shows "filtered_loop R key limit wanted d n cursor matches =
    take (nat limit) (matches @ filter (\<lambda>e. field_or (snd e) ''client_id'' [] \<in> set wanted)
      (map show_entry (take (100 * n) (rev (take k (entries key d))))))"
  using assms
proof (induction n arbitrary: cursor matches k)
  case 0
  then show ?case by simp
next
  case (Suc n)
  let ?P = "\<lambda>e. field_or (snd e) ''client_id'' [] \<in> set wanted"
  let ?L = "rev (take k (entries key d))"
  let ?batch = "map show_entry (take 100 ?L)"
  let ?m = "matches @ filter ?P ?batch"
  have split: "map show_entry (take (100 * Suc n) ?L) = ?batch @ map show_entry (take (100 * n) (drop 100 ?L))"
    by (simp add: take_add [of 100 "100 * n"] del: drop_rev)
  show ?case
  proof (cases "?batch = [] \<or> limit \<le> int (length ?m) \<or> length ?L < 100")
    case True
    then consider "?batch = []" | "?batch \<noteq> []" "limit \<le> int (length ?m)"
      | "?batch \<noteq> []" "\<not> limit \<le> int (length ?m)" "length ?L < 100" by blast
    then show ?thesis
    proof cases
      case 1
      then have "?L = []" by simp
      with Suc.prems show ?thesis by (auto simp: STREAM_FILTER_BATCH_def)
    next
      case 2
      then have "nat limit \<le> length ?m" by simp
      then show ?thesis
        using 2 Suc.prems unfolding split
        by (simp add: STREAM_FILTER_BATCH_def scan_page_spec Let_def)
    next
      case 3
      then have "drop 100 ?L = []" by (simp del: drop_rev)
      then show ?thesis
        using 3 Suc.prems unfolding split
        by (simp add: STREAM_FILTER_BATCH_def scan_page_spec Let_def del: drop_rev)
    qed
  next
    case False
    then have k: "100 \<le> k" and ne: "?batch \<noteq> []" and lim: "int (length ?m) < limit" by auto
    have "fst (last ?batch) = fst (show_entry (entries key d ! (k - 100)))"
      using ne last_of_page [OF Suc.prems(2) k] by (simp add: last_map)
    then have "r_xrevrange R key (CHR ''('' # fst (last ?batch)) 100 d =
        map show_entry (take 100 (rev (take (k - 100) (entries key d))))"
      using before_page [of "k - 100" key d 100] k Suc.prems(2) by simp
    then have "filtered_loop R key limit wanted d n (CHR ''('' # fst (last ?batch)) ?m =
        take (nat limit) (?m @ filter ?P (map show_entry (take (100 * n) (rev (take (k - 100) (entries key d))))))"
      using Suc.IH lim Suc.prems(2) by simp
    moreover have "rev (take (k - 100) (entries key d)) = drop 100 ?L"
      using k Suc.prems(2) by (simp add: drop_rev min_def)
    moreover have "scan_page wanted limit ?batch matches = (?m, False)"
      using lim unfolding scan_page_spec [OF Suc.prems(3)] Let_def by simp
    moreover have "\<not> length ?batch < 100" using k Suc.prems(2) by (simp add: min_def)
    ultimately have "filtered_loop R key limit wanted d (Suc n) cursor matches =
        take (nat limit) (?m @ filter ?P (map show_entry (take (100 * n) (drop 100 ?L))))"
      using ne by (simp only: filtered_loop.simps STREAM_FILTER_BATCH_def Let_def Suc.prems(1) if_False prod.case bool.case)
    then show ?thesis by (simp only: split filter_append append_assoc)
  qed
qed

lemma heartbeat_pages_spec:
  assumes "r_xrange R key cursor (Some 500) d = map show_entry (take 500 (drop k (entries key d)))"
  shows "heartbeat_pages R key wanted d cursor matches =
    Some (matches @ filter (\<lambda>e. field_or (snd e) ''client_id'' [] = wanted) (map show_entry (drop k (entries key d))))"
  using assms
proof (induction "length (entries key d) - k" arbitrary: cursor matches k rule: less_induct)
  case less
  let ?es = "entries key d"
  let ?page = "map show_entry (take 500 (drop k ?es))"
  show ?case
  proof (cases "length (drop k ?es) < 500")
    case True
    then show ?thesis
      using less.prems by (subst heartbeat_pages.simps) (auto simp: DUMP_HEARTBEATS_PAGE_def Let_def)
  next
    case False
    then have len: "k + 500 \<le> length ?es" by simp
    have ne: "drop k ?es \<noteq> []" and page: "?page \<noteq> []" using len by simp_all
    have "last ?page = show_entry (take 500 (drop k ?es) ! 499)"
      using len by (subst last_conv_nth) simp_all
    then have "fst (last ?page) = fst (show_entry (?es ! (k + 499)))"
      using len by simp
    then have nxt: "r_xrange R key (CHR ''('' # fst (last ?page)) (Some 500) d =
        map show_entry (take 500 (drop (k + 500) ?es))"
      using after_page [of "k + 499" key d 500] len by (simp add: add.commute)
    have parts: "drop k ?es = take 500 (drop k ?es) @ drop (k + 500) ?es"
      by (metis add.commute append_take_drop_id drop_drop)
    have IH: "heartbeat_pages R key wanted d (CHR ''('' # fst (last ?page)) m =
        Some (m @ filter (\<lambda>e. field_or (snd e) ''client_id'' [] = wanted) (map show_entry (drop (k + 500) ?es)))" for m
      by (rule less.hyps [OF _ nxt]) (use len in simp)
    have len500: "length ?page = 500" using len by simp
    have "heartbeat_pages R key wanted d cursor matches =
        Some (matches @ filter (\<lambda>e. field_or (snd e) ''client_id'' [] = wanted) (?page @ map show_entry (drop (k + 500) ?es)))"
      by (subst heartbeat_pages.simps)
        (simp only: less.prems DUMP_HEARTBEATS_PAGE_def Let_def IH page len500 if_False filter_append
          append_assoc less_irrefl)
    also have "?page @ map show_entry (drop (k + 500) ?es) = map show_entry (drop k ?es)"
      by (metis parts map_append)
    finally show ?thesis .
  qed
qed

lemma xrevrange_filtered_spec:
  assumes "0 < limit"
  shows "xrevrange_filtered R key limit wanted d =
    take (nat limit) (filter (\<lambda>e. field_or (snd e) ''client_id'' [] \<in> set wanted)
      (map show_entry (take 1000 (rev (entries key d)))))"
  using filtered_loop_spec [of key "''+''" d "length (entries key d)" "[]" limit wanted 10] assms
  by (simp add: xrevrange_filtered_def STREAM_FILTER_MAX_BATCHES_def xrevrange_all)

lemma heartbeats_spec:
  "heartbeat_pages R key wanted d ''-'' [] =
    Some (filter (\<lambda>e. field_or (snd e) ''client_id'' [] = wanted) (map show_entry (entries key d)))"
  using heartbeat_pages_spec [of key "''-''" d 0 wanted "[]"] by (simp add: xrange_first)

end

subsection \<open>Properties\<close>

text \<open>
  C23. Filtering the stream monitor by publisher loses nothing within its window: for a positive
  limit the paged backward scan returns exactly the newest \<open>limit\<close> entries of the wanted
  publishers among the 1000 newest entries of the stream, newest first, no matter how they are
  spread over the pages.
\<close>

theorem stream_filter_exact:
  assumes "redis_store R entries" and "0 < limit"
  shows "xrevrange_filtered R key limit client_ids d =
    take (nat limit) (filter (\<lambda>e. field_or (snd e) ''client_id'' [] \<in> set client_ids)
      (map show_entry (take 1000 (rev (entries key d)))))"
  using redis_store.xrevrange_filtered_spec [OF assms] .

theorem stream_filter_exact_witness:
  "xrevrange_filtered mem_redis ''q:t'' 1 [''a'']
     [(''q:t'', RStream [(SID 1 0, [(''client_id'', ''a'')]), (SID 2 0, [(''client_id'', ''b'')])])] =
   [(''1-0'', [(''client_id'', ''a'')])]"
  using stream_filter_exact [OF mem_store.redis_store_axioms, of 1 "''q:t''" "[''a'']"
      "[(''q:t'', RStream [(SID 1 0, [(''client_id'', ''a'')]), (SID 2 0, [(''client_id'', ''b'')])])]"]
  by (simp add: mem_entries_def less_stream_id_def field_or_def show_entry_def show_sid_def dec_nat.simps digit_char_def)

text \<open>
  The heartbeat dump is complete: once the topic is resolved and its access granted, the
  traversal ends and the body is the metadata line followed by one line for every retained entry
  of the client, however many pages that takes, in exactly reversed stream order.
\<close>

lemma heartbeats_complete:
  assumes "redis_store R entries"
    and "get_admin_context R E rescue admin d = Inr ctx" and "heartbeat_topic R E ctx client_id d = Inr topic"
  shows "dump_heartbeats R E rescue admin iso_time gen client_id d = Some (Inr
    ((e_dumps E (heartbeat_meta topic client_id gen) @ [NL]) #
     rev (map (\<lambda>e. e_dumps_str E (heartbeat_row E iso_time (show_entry e)) @ [NL])
       (filter (\<lambda>e. field_or (snd e) ''client_id'' [] = client_id) (entries (q_key topic) d)))))"
proof -
  have "filter (\<lambda>e. field_or (snd e) ''client_id'' [] = client_id) (map show_entry (entries (q_key topic) d)) =
      map show_entry (filter (\<lambda>e. field_or (snd e) ''client_id'' [] = client_id) (entries (q_key topic) d))"
    by (simp add: filter_map o_def show_entry_def)
  then show ?thesis
    using assms(2,3) redis_store.heartbeats_spec [OF assms(1), of "q_key topic" client_id d]
    by (simp add: dump_heartbeats_def rev_map o_def)
qed

lemma map_res_mem: "map_res f xs = Inr ys \<Longrightarrow> y \<in> set ys \<Longrightarrow> \<exists>x \<in> set xs. f x = Inr y"
  by (induction xs arbitrary: ys) (auto simp: bind_res_Inr_iff)

lemma map_res_some: "map_res f xs = Inr ys \<Longrightarrow> z \<in> set (List.map_filter id ys) \<Longrightarrow> \<exists>x \<in> set xs. f x = Inr (Some z)"
  by (auto simp: map_filter_def dest: map_res_mem)

lemma scan_items_mem:
  "scan_items R ctx limit d ks n = Inr items \<Longrightarrow> (name, sz) \<in> set items \<Longrightarrow>
   check_acl ctx (''kv/'' @ name) ReadMode = Inr ()"
proof (induction ks arbitrary: n items)
  case (Cons k ks)
  from Cons.prems(1) obtain nm ok where nm: "after_colon k = Inr nm"
    and ok: "acl_allows ctx (''kv/'' @ nm) ReadMode = Inr ok"
    by (auto simp: bind_res_Inr_iff)
  show ?case
  proof (cases ok)
    case False
    with Cons.prems nm ok Cons.IH show ?thesis by simp
  next
    case True
    with Cons.prems(1) nm ok have "items = [(nm, r_strlen R k d)] \<or>
        (\<exists>its. scan_items R ctx limit d ks (n + 1) = Inr its \<and> items = (nm, r_strlen R k d) # its)"
      by (auto simp: bind_res_Inr_iff simp del: acl_allows_True split: if_splits)
    with Cons.prems(2) Cons.IH True ok show ?thesis by auto
  qed
qed simp

lemma take_rows_mem:
  "take_rows limit row es n = Inr rows \<Longrightarrow> x \<in> set rows \<Longrightarrow> \<exists>e \<in> set es. row e = Inr (Some x)"
proof (induction es arbitrary: n rows)
  case (Cons e es)
  from Cons.prems(1) obtain r where r: "row e = Inr r" by (auto simp: bind_res_Inr_iff)
  show ?case
  proof (cases r)
    case None
    with Cons r show ?thesis by auto
  next
    case (Some y)
    with Cons.prems(1) r have "rows = [y] \<or> (\<exists>ys. take_rows limit row es (n + 1) = Inr ys \<and> rows = y # ys)"
      by (auto simp: bind_res_Inr_iff split: if_splits)
    with Cons.prems(2) Cons.IH Some r show ?thesis by fastforce
  qed
qed simp

text \<open>
  C24. Listings show an admin only what it may read: every queue and key of the statistics, every
  key of a scan and every logged action on a queue or key is one its access list lets it read.
\<close>

theorem listings_readable:
  assumes "get_admin_context R E rescue admin d = Inr ctx"
  shows "(get_stats R E rescue admin d = Inr (PDict [(''queues'', PList qs), (''kvs'', PList kvs)]) \<longrightarrow>
      (\<forall>topic n. PDict [(''topic'', PStr topic), (''count'', n)] \<in> set qs \<longrightarrow> check_acl ctx (''q/'' @ topic) ReadMode = Inr ()) \<and>
      (\<forall>key e. PDict [(''key'', PStr key), (''encrypted'', e)] \<in> set kvs \<longrightarrow> check_acl ctx (''kv/'' @ key) ReadMode = Inr ())) \<and>
    (scan_kv R E rescue admin pre limit d = Inr (PDict doc) \<and> dval doc ''items'' = PList items \<longrightarrow>
      (\<forall>key n. PDict [(''key'', PStr key), (''bytes'', n)] \<in> set items \<longrightarrow> check_acl ctx (''kv/'' @ key) ReadMode = Inr ())) \<and>
    (get_logs R E rescue admin limit cids d = Inr (PList rows) \<longrightarrow>
      (\<forall>row action resource. PDict row \<in> set rows \<and> dval row ''action'' = PStr action \<and>
         log_resource_from_action action = Some resource \<longrightarrow> check_acl ctx resource ReadMode = Inr ()))"
proof (intro conjI impI allI)
  fix topic n
  assume s: "get_stats R E rescue admin d = Inr (PDict [(''queues'', PList qs), (''kvs'', PList kvs)])"
    and m: "PDict [(''topic'', PStr topic), (''count'', n)] \<in> set qs"
  from s assms obtain queues where "map_res (stat_queue R ctx d) (r_keys R ''q:*'' d) = Inr queues"
    "qs = List.map_filter id queues"
    by (auto simp: get_stats_def bind_res_Inr_iff)
  from map_res_some [OF this(1) m [unfolded this(2)]] obtain k
    where "stat_queue R ctx d k = Inr (Some (PDict [(''topic'', PStr topic), (''count'', n)]))" by blast
  then show "check_acl ctx (''q/'' @ topic) ReadMode = Inr ()"
    by (auto simp: stat_queue_def bind_res_Inr_iff split: if_splits)
next
  fix key e
  assume s: "get_stats R E rescue admin d = Inr (PDict [(''queues'', PList qs), (''kvs'', PList kvs)])"
    and m: "PDict [(''key'', PStr key), (''encrypted'', e)] \<in> set kvs"
  from s assms obtain ks where "map_res (stat_kv R ctx d) (r_keys R ''kv:*'' d) = Inr ks"
    "kvs = List.map_filter id ks"
    by (auto simp: get_stats_def bind_res_Inr_iff)
  from map_res_some [OF this(1) m [unfolded this(2)]] obtain k
    where "stat_kv R ctx d k = Inr (Some (PDict [(''key'', PStr key), (''encrypted'', e)]))" by blast
  then show "check_acl ctx (''kv/'' @ key) ReadMode = Inr ()"
    by (auto simp: stat_kv_def bind_res_Inr_iff split: if_splits)
next
  fix key n
  assume s: "scan_kv R E rescue admin pre limit d = Inr (PDict doc) \<and> dval doc ''items'' = PList items"
    and m: "PDict [(''key'', PStr key), (''bytes'', n)] \<in> set items"
  from s assms obtain its where its: "scan_items R ctx limit d (r_keys R (''kv:'' @ pre @ ''*'') d) 0 = Inr its"
    "items = map (\<lambda>(k, n). PDict [(''key'', PStr k), (''bytes'', PInt (int n))]) (sort_key fst its)"
    by (auto simp: scan_kv_def bind_res_Inr_iff)
  with m obtain sz where "(key, sz) \<in> set its" by auto
  with scan_items_mem [OF its(1)] show "check_acl ctx (''kv/'' @ key) ReadMode = Inr ()" by blast
next
  fix row action resource
  assume l: "get_logs R E rescue admin limit cids d = Inr (PList rows)"
    and m: "PDict row \<in> set rows \<and> dval row ''action'' = PStr action \<and> log_resource_from_action action = Some resource"
  from l assms obtain es where "take_rows limit (\<lambda>e. log_row ctx cids (snd e)) es 0 = Inr rows"
    by (auto simp: get_logs_def bind_res_Inr_iff Let_def)
  from take_rows_mem [OF this, of "PDict row"] m
  obtain e :: entry where "log_row ctx cids (snd e) = Inr (Some (PDict row))" by auto
  with m show "check_acl ctx resource ReadMode = Inr ()"
    by (auto simp: log_row_def bind_res_Inr_iff split: if_splits)
qed

theorem listings_readable_witness:
  "\<exists>ctx d rows. get_admin_context mem_redis ref_ext [''ann''] (Some ''ann'') d = Inr ctx \<and>
    get_logs mem_redis ref_ext [''ann''] (Some ''ann'') 5 [] d = Inr (PList rows) \<and> rows \<noteq> [] \<and>
    check_acl ctx ''kv/app/k'' ReadMode = Inr ()"
proof -
  let ?d = "[(''system:activity_log'', RStream [(SID 2 0, [(''client_id'', ''dev''), (''action'', ''GET /kv/app/k''),
      (''status'', ''OK''), (''timestamp'', ''0'')])])]"
  let ?ctx = "\<lparr>ctx_client_id = ''ann'', ctx_secret_hex = [], ctx_acl = RESCUE_ACL\<rparr>"
  let ?row = "[(''timestamp'', PInt 0), (''client_id'', PStr ''dev''), (''action'', PStr ''GET /kv/app/k''), (''status'', PStr ''OK'')]"
  have ctx: "get_admin_context mem_redis ref_ext [''ann''] (Some ''ann'') ?d = Inr ?ctx"
    by (simp add: get_admin_context_def load_admin_acl_def get_truthy_def mem_redis_def mem_get_def admin_acl_key_def)
  have acl: "acl_allows ?ctx r ReadMode = Inr True" for r
    unfolding acl_allows_True by (subst check_acl_doc [of _ "[Perm ''*'' ''rw'']"])
      (auto simp: RESCUE_ACL_def acl_doc_def perm_doc_def acl_decide_def covers_def acl_candidate_paths_def Let_def)
  have rec: "r_xrevrange mem_redis ''system:activity_log'' ''+'' 5 ?d =
      [(''2-0'', [(''client_id'', ''dev''), (''action'', ''GET /kv/app/k''), (''status'', ''OK''), (''timestamp'', ''0'')])]"
    by (simp add: mem_redis_def mem_entries_def less_stream_id_def show_entry_def show_sid_def dec_nat.simps digit_char_def)
  have res: "log_resource_from_action ''GET /kv/app/k'' = Some ''kv/app/k''"
    by (simp add: log_resource_from_action_def)
  have star: "iter_perms RESCUE_ACL = Inr [PDict [(''prefix'', PStr ''*''), (''access'', PStr ''rw'')]]"
    by (simp add: iter_perms_def RESCUE_ACL_def)
  have row: "log_row ?ctx [] [(''client_id'', ''dev''), (''action'', ''GET /kv/app/k''), (''status'', ''OK''), (''timestamp'', ''0'')] =
      Inr (Some (PDict ?row))"
    by (simp add: log_row_def field_or_def decode_utf8_def char_eval res acl int_field_def)
  have l: "get_logs mem_redis ref_ext [''ann''] (Some ''ann'') 5 [] ?d = Inr (PList [PDict ?row])"
    by (simp add: get_logs_def ctx star perm_is_star_def rec row)
  from listings_readable [OF ctx, of _ _ _ 5 _ _ "[]" "[PDict ?row]"] l res
  have "check_acl ?ctx ''kv/app/k'' ReadMode = Inr ()" by (simp only: simp_thms list.set) auto
  with ctx l show ?thesis by blast
qed

end
