(* ===== verification/BackupFormat.thy ===== *)
theory BackupFormat
  imports AdminData Base64
begin

text \<open>
  The backup envelope of \<open>backend/src/services/backup_format.py\<close>: its data classes, the JSON
  document it becomes, the validation on the way back and the predicates that say what belongs to
  an application. The text of an error message is dropped; a structural problem is the exception
  \<open>BackupFormatError\<close>.
\<close>

subsection \<open>The envelope\<close>

record client_record =
  cr_secret :: string
  cr_acl :: pyval

record kv_record =
  kr_value :: string
  kr_encrypted :: bool

record stream_entry =
  se_id :: string
  se_fields :: "(string \<times> string) list"

text \<open>\<open>app\<close> and \<open>exported_at\<close> come from the document unchecked, so they are dynamic values.\<close>

record envelope =
  env_dump_kind :: string
  env_app :: pyval
  env_exported_at :: pyval
  env_clients :: "(string \<times> client_record) list"
  env_admin_acls :: "(string \<times> pyval) list"
  env_kv :: "(string \<times> kv_record) list"
  env_queues :: "(string \<times> stream_entry list) list"
  env_activity_log :: "stream_entry list option"
  env_device_to_app :: "(string \<times> string) list"

definition BACKUP_FORMAT_VERSION :: int where "BACKUP_FORMAT_VERSION = 1"

subsection \<open>Envelope to document\<close>

definition stream_to_json :: "stream_entry \<Rightarrow> pyval" where
  "stream_to_json e =
     PDict [(''id'', PStr (se_id e)),
            (''fields'', PDict (map (\<lambda>(k, v). (k, PStr (b64encode v))) (se_fields e)))]"

definition client_to_json :: "client_record \<Rightarrow> pyval" where
  "client_to_json r = PDict [(''secret'', PStr (cr_secret r)), (''acl'', cr_acl r)]"

definition kv_to_json :: "kv_record \<Rightarrow> pyval" where
  "kv_to_json r = PDict [(''value'', PStr (b64encode (kr_value r))), (''encrypted'', PBool (kr_encrypted r))]"

definition to_json :: "envelope \<Rightarrow> pyval" where
  "to_json env =
     PDict [(''stra2us_backup_version'', PInt BACKUP_FORMAT_VERSION),
       (''dump_kind'', PStr (env_dump_kind env)), (''app'', env_app env),
       (''exported_at'', env_exported_at env),
       (''data'', PDict
         [(''clients'', PDict (map (\<lambda>(k, r). (k, client_to_json r)) (env_clients env))),
          (''admin_acls'', PDict (env_admin_acls env)),
          (''kv'', PDict (map (\<lambda>(k, r). (k, kv_to_json r)) (env_kv env))),
          (''queues'', PDict (map (\<lambda>(t, es). (t, PList (map stream_to_json es))) (env_queues env))),
          (''activity_log'', case env_activity_log env of None \<Rightarrow> PNone | Some es \<Rightarrow> PList (map stream_to_json es)),
          (''device_to_app'', PDict (map (\<lambda>(k, a). (k, PStr a)) (env_device_to_app env)))])]"

subsection \<open>Document to envelope\<close>

definition format_error :: "'a res" where
  "format_error = Inl (PyExn ''BackupFormatError'')"

lemma format_error_not_Inr [simp]: "format_error \<noteq> Inr x"
  by (simp add: format_error_def)

text \<open>\<open>v == n\<close> of Python: booleans and floats compare with integers.\<close>

definition py_eq_int :: "pyval \<Rightarrow> int \<Rightarrow> bool" where
  "py_eq_int v n =
     (case v of PInt i \<Rightarrow> i = n | PBool b \<Rightarrow> (if b then 1 else 0) = n | PFloat r \<Rightarrow> r = of_int n | _ \<Rightarrow> False)"

text \<open>\<open>(v or {}).items()\<close>\<close>

definition items_of :: "pyval \<Rightarrow> (string \<times> pyval) list res" where
  "items_of v =
     (if \<not> truthy v then Inr []
      else (case v of PDict d \<Rightarrow> Inr d | _ \<Rightarrow> Inl (PyExn ''AttributeError'')))"

definition b64decode_value :: "pyval \<Rightarrow> string res" where
  "b64decode_value v =
     (case v of
        PStr s \<Rightarrow> (case b64decode s of None \<Rightarrow> format_error | Some b \<Rightarrow> Inr b)
      | _ \<Rightarrow> format_error)"

text \<open>A value under each key of a dict.\<close>

definition map_items :: "(pyval \<Rightarrow> 'a res) \<Rightarrow> (string \<times> pyval) list \<Rightarrow> (string \<times> 'a) list res" where
  "map_items f items = map_res (\<lambda>(k, v). bind_res (f v) (\<lambda>x. Inr (k, x))) items"

definition stream_from_json :: "ext \<Rightarrow> pyval \<Rightarrow> stream_entry res" where
  "stream_from_json E raw =
     (case raw of
        PDict r \<Rightarrow>
          (case (map_of r ''id'', map_of r ''fields'') of
             (Some i, Some (PDict fields_raw)) \<Rightarrow>
                bind_res (map_items b64decode_value fields_raw) (\<lambda>fs.
                Inr \<lparr>se_id = py_str E i, se_fields = fs\<rparr>)
           | _ \<Rightarrow> format_error)
      | _ \<Rightarrow> format_error)"

definition client_from_json :: "ext \<Rightarrow> pyval \<Rightarrow> client_record res" where
  "client_from_json E raw =
     (case raw of
        PDict r \<Rightarrow>
          (case map_of r ''secret'' of
             None \<Rightarrow> format_error
           | Some s \<Rightarrow>
              Inr \<lparr>cr_secret = py_str E s,
                   cr_acl = (let acl = dval r ''acl'' in if truthy acl then acl else PDict [])\<rparr>)
      | _ \<Rightarrow> format_error)"

definition acl_from_json :: "pyval \<Rightarrow> pyval res" where
  "acl_from_json raw = (case raw of PDict _ \<Rightarrow> Inr raw | _ \<Rightarrow> format_error)"

definition kv_from_json :: "pyval \<Rightarrow> kv_record res" where
  "kv_from_json raw =
     (case raw of
        PDict r \<Rightarrow>
          (case map_of r ''value'' of
             None \<Rightarrow> format_error
           | Some v \<Rightarrow>
              bind_res (b64decode_value v) (\<lambda>b.
              Inr \<lparr>kr_value = b, kr_encrypted = truthy (dval r ''encrypted'')\<rparr>))
      | _ \<Rightarrow> format_error)"

definition entries_from_json :: "ext \<Rightarrow> pyval \<Rightarrow> stream_entry list res" where
  "entries_from_json E raw =
     (case raw of PList es \<Rightarrow> map_res (stream_from_json E) es | _ \<Rightarrow> format_error)"

definition from_json :: "ext \<Rightarrow> pyval \<Rightarrow> envelope res" where
  "from_json E doc =
     (case doc of
        PDict envl \<Rightarrow>
          if \<not> py_eq_int (dval envl ''stra2us_backup_version'') BACKUP_FORMAT_VERSION then format_error
          else
          (case dval envl ''dump_kind'' of
             PStr kind \<Rightarrow>
               if kind \<notin> {''whole'', ''per-app''} then format_error
               else if kind = ''per-app'' \<and> \<not> is_str (dval envl ''app'') then format_error
               else
               (case dval envl ''data'' of
                  PDict data \<Rightarrow>
                    bind_res (bind_res (items_of (dval data ''clients'')) (map_items (client_from_json E))) (\<lambda>clients.
                    bind_res (bind_res (items_of (dval data ''admin_acls'')) (map_items acl_from_json)) (\<lambda>admin_acls.
                    bind_res (bind_res (items_of (dval data ''kv'')) (map_items kv_from_json)) (\<lambda>kv.
                    bind_res (bind_res (items_of (dval data ''queues'')) (map_items (entries_from_json E))) (\<lambda>queues.
                    bind_res (if dval data ''activity_log'' = PNone then Inr None
                              else bind_res (entries_from_json E (dval data ''activity_log'')) (\<lambda>es. Inr (Some es))) (\<lambda>log.
                    bind_res (bind_res (items_of (dval data ''device_to_app'')) (map_items (\<lambda>v. Inr (py_str E v)))) (\<lambda>d2a.
                    Inr \<lparr>env_dump_kind = kind, env_app = dval envl ''app'',
                      env_exported_at = (let x = dval envl ''exported_at'' in if truthy x then x else PStr []),
                      env_clients = clients, env_admin_acls = admin_acls, env_kv = kv, env_queues = queues,
                      env_activity_log = log, env_device_to_app = d2a\<rparr>))))))
                | _ \<Rightarrow> format_error)
           | _ \<Rightarrow> format_error)
      | _ \<Rightarrow> format_error)"

subsection \<open>What belongs to an application\<close>

definition perm_matches_app :: "string \<Rightarrow> pyval \<Rightarrow> bool res" where
  "perm_matches_app app perm =
     bind_res (dget_or perm ''prefix'' PNone) (\<lambda>raw.
     case (if truthy raw then raw else PStr []) of
       PStr p \<Rightarrow> Inr (p = app \<or> prefix (app @ ''/'') p)
     | _ \<Rightarrow> Inl (PyExn ''AttributeError''))"

definition client_matches_app :: "pyval \<Rightarrow> string \<Rightarrow> bool res" where
  "client_matches_app acl app =
     bind_res (dget_or acl ''permissions'' PNone) (\<lambda>raw.
     bind_res (py_iter (if truthy raw then raw else PList [])) (\<lambda>perms.
     any_res (perm_matches_app app) perms))"

definition admin_acl_matches_app :: "pyval \<Rightarrow> string \<Rightarrow> bool res" where
  "admin_acl_matches_app acl app = client_matches_app acl app"

definition kv_key_belongs_to_app :: "string \<Rightarrow> string \<Rightarrow> bool" where
  "kv_key_belongs_to_app key app \<longleftrightarrow>
     key = app \<or> prefix (app @ ''/'') key \<or> key = ''_catalog/'' @ app \<or> prefix (''_catalog/'' @ app @ ''/'') key"

definition queue_topic_belongs_to_app :: "string \<Rightarrow> string \<Rightarrow> bool" where
  "queue_topic_belongs_to_app topic app \<longleftrightarrow> topic = app \<or> prefix (app @ ''/'') topic"

subsection \<open>The round trip\<close>

lemma map_items_ok:
  "(\<forall>x \<in> snd ` set xs. f (g x) = Inr x) \<Longrightarrow> map_items f (map (\<lambda>(k, x). (k, g x)) xs) = Inr xs"
  by (induction xs) (auto simp: map_items_def)

lemma items_of_PDict [simp]: "items_of (PDict d) = Inr d"
  by (simp add: items_of_def)

lemma stream_round_trip [simp]: "stream_from_json E (stream_to_json e) = Inr e"
  using map_items_ok [of "se_fields e" b64decode_value "\<lambda>v. PStr (b64encode v)"]
  by (simp add: stream_from_json_def stream_to_json_def b64decode_value_def)

lemma kv_round_trip [simp]: "kv_from_json (kv_to_json r) = Inr r"
  by (simp add: kv_from_json_def kv_to_json_def b64decode_value_def)

lemma entries_round_trip [simp]: "entries_from_json E (PList (map stream_to_json es)) = Inr es"
  by (induction es) (simp_all add: entries_from_json_def)

lemma client_round_trip:
  "truthy (cr_acl r) \<or> cr_acl r = PDict [] \<Longrightarrow> client_from_json E (client_to_json r) = Inr r"
  by (auto simp: client_from_json_def client_to_json_def Let_def)

text \<open>What the collector produces, as far as the format goes.\<close>

definition envelope_ok :: "envelope \<Rightarrow> bool" where
  "envelope_ok env \<longleftrightarrow>
     (env_dump_kind env = ''whole'' \<or> env_dump_kind env = ''per-app'' \<and> is_str (env_app env)) \<and>
     (\<exists>s. env_exported_at env = PStr s) \<and>
     (\<forall>(k, r) \<in> set (env_clients env). truthy (cr_acl r) \<or> cr_acl r = PDict []) \<and>
     (\<forall>(k, a) \<in> set (env_admin_acls env). is_dict a)"

lemma from_to_json:
  assumes "envelope_ok env"
  shows "from_json E (to_json env) = Inr env"
proof -
  have c: "map_items (client_from_json E) (map (\<lambda>(k, r). (k, client_to_json r)) (env_clients env)) = Inr (env_clients env)"
    using assms by (intro map_items_ok ballI client_round_trip) (auto simp: envelope_ok_def)
  have a: "map_items acl_from_json (env_admin_acls env) = Inr (env_admin_acls env)"
    using map_items_ok [of "env_admin_acls env" acl_from_json "\<lambda>x. x"] assms
    by (fastforce simp: envelope_ok_def acl_from_json_def is_dict_def split: pyval.splits)
  have k: "map_items kv_from_json (map (\<lambda>(k, r). (k, kv_to_json r)) (env_kv env)) = Inr (env_kv env)"
    by (intro map_items_ok) simp
  have q: "map_items (entries_from_json E) (map (\<lambda>(t, es). (t, PList (map stream_to_json es))) (env_queues env)) = Inr (env_queues env)"
    by (intro map_items_ok) simp
  have d: "map_items (\<lambda>v. Inr (py_str E v)) (map (\<lambda>(k, a). (k, PStr a)) (env_device_to_app env)) = Inr (env_device_to_app env)"
    by (intro map_items_ok) simp
  from assms obtain s where s: "env_exported_at env = PStr s" by (auto simp: envelope_ok_def)
  show ?thesis
    using assms c a k q d s
    by (cases "env_activity_log env")
      (auto simp: from_json_def to_json_def py_eq_int_def BACKUP_FORMAT_VERSION_def envelope_ok_def Let_def
        bind_res_def [of "entries_from_json _ _"])
qed

end
