(* ===== verification/BackupIO.thy ===== *)
theory BackupIO
  imports BackupFormat
begin

text \<open>
  Backup and restore: \<open>backend/src/services/backup_io.py\<close> (Redis to envelope and back) and the
  endpoints of \<open>routes_admin.py\<close> built on it, with the older backup of client credentials.

  Collecting reads a store that does not change meanwhile; a key that \<open>KEYS\<close> lists has a value.
  Applying is a fold over the records of each section with the result document and the store as
  its state; a Redis error on the way leaves what was written before.
\<close>

subsection \<open>Collecting\<close>

definition str_get :: "'db redis \<Rightarrow> string \<Rightarrow> 'db \<Rightarrow> string res" where
  "str_get R k d = (case r_get R k d of None \<Rightarrow> Inl (PyExn ''ResponseError'') | Some s \<Rightarrow> decode_utf8 s)"

text \<open>\<open>app is not None and not matches(x, app)\<close>, negated.\<close>

definition wanted :: "string option \<Rightarrow> (string \<Rightarrow> bool res) \<Rightarrow> bool res" where
  "wanted app matches = (case app of None \<Rightarrow> Inr True | Some a \<Rightarrow> matches a)"

definition collect_client :: "'db redis \<Rightarrow> ext \<Rightarrow> string option \<Rightarrow> 'db \<Rightarrow> string \<Rightarrow> (string \<times> client_record) option res" where
  "collect_client R E app d k =
     (let client_id = drop 7 (take (length k - 7) k) in
      bind_res (str_get R k d) (\<lambda>secret.
      bind_res (case get_truthy R (client_acl_key client_id) d of
                  None \<Rightarrow> Inr (PDict []) | Some raw \<Rightarrow> bind_res (decode_utf8 raw) (loads_res E)) (\<lambda>acl.
      bind_res (wanted app (client_matches_app acl)) (\<lambda>ok.
      Inr (if ok then Some (client_id, \<lparr>cr_secret = secret, cr_acl = acl\<rparr>) else None)))))"

definition collect_clients :: "'db redis \<Rightarrow> ext \<Rightarrow> string option \<Rightarrow> 'db \<Rightarrow> (string \<times> client_record) list res" where
  "collect_clients R E app d =
     bind_res (map_res (collect_client R E app d) (r_keys R ''client:*:secret'' d)) (\<lambda>rs. Inr (List.map_filter id rs))"

definition collect_admin_acl :: "'db redis \<Rightarrow> ext \<Rightarrow> string option \<Rightarrow> 'db \<Rightarrow> string \<Rightarrow> (string \<times> pyval) option res" where
  "collect_admin_acl R E app d k =
     (case get_truthy R k d of
        None \<Rightarrow> Inr None
      | Some raw \<Rightarrow>
         bind_res (decode_utf8 raw) (\<lambda>s.
         case e_loads E s of
           None \<Rightarrow> Inr None
         | Some acl \<Rightarrow>
            bind_res (wanted app (admin_acl_matches_app acl)) (\<lambda>ok.
            Inr (if ok then Some (drop (length ''admin_acls:'') k, acl) else None))))"

definition collect_admin_acls :: "'db redis \<Rightarrow> ext \<Rightarrow> string option \<Rightarrow> 'db \<Rightarrow> (string \<times> pyval) list res" where
  "collect_admin_acls R E app d =
     bind_res (map_res (collect_admin_acl R E app d) (r_keys R ''admin_acls:*'' d)) (\<lambda>rs. Inr (List.map_filter id rs))"

definition collect_kv_value :: "'db redis \<Rightarrow> string option \<Rightarrow> 'db \<Rightarrow> string \<Rightarrow> (string \<times> string) option" where
  "collect_kv_value R app d full_key =
     (let rest = drop 3 full_key in
      if suffix '':enc'' rest \<or> (case app of None \<Rightarrow> False | Some a \<Rightarrow> \<not> kv_key_belongs_to_app rest a) then None
      else map_option (\<lambda>raw. (rest, raw)) (r_get R full_key d))"

definition enc_flags :: "string list \<Rightarrow> string list" where
  "enc_flags kv_keys =
     map (\<lambda>k. take (length (drop 3 k) - 4) (drop 3 k)) (filter (\<lambda>k. suffix '':enc'' (drop 3 k)) kv_keys)"

definition collect_kv :: "'db redis \<Rightarrow> string option \<Rightarrow> 'db \<Rightarrow> (string \<times> kv_record) list" where
  "collect_kv R app d =
     (let kv_keys = r_keys R ''kv:*'' d in
      map (\<lambda>(k, v). (k, \<lparr>kr_value = v, kr_encrypted = (k \<in> set (enc_flags kv_keys))\<rparr>))
        (List.map_filter (collect_kv_value R app d) kv_keys))"

definition collect_entry :: "entry \<Rightarrow> stream_entry res" where
  "collect_entry e =
     bind_res (map_res (\<lambda>(k, v). bind_res (decode_utf8 k) (\<lambda>k'. Inr (k', v))) (snd e)) (\<lambda>fs.
     Inr \<lparr>se_id = fst e, se_fields = fs\<rparr>)"

definition collect_stream :: "'db redis \<Rightarrow> string \<Rightarrow> 'db \<Rightarrow> stream_entry list res" where
  "collect_stream R key d = map_res collect_entry (r_xrange R key ''-'' None d)"

definition collect_queues :: "'db redis \<Rightarrow> string option \<Rightarrow> 'db \<Rightarrow> (string \<times> stream_entry list) list res" where
  "collect_queues R app d =
     map_res (\<lambda>k. bind_res (collect_stream R k d) (\<lambda>es. Inr (drop 2 k, es)))
       (filter (\<lambda>k. case app of None \<Rightarrow> True | Some a \<Rightarrow> queue_topic_belongs_to_app (drop 2 k) a) (r_keys R ''q:*'' d))"

definition collect_device_to_app :: "'db redis \<Rightarrow> string option \<Rightarrow> 'db \<Rightarrow> (string \<times> string) list res" where
  "collect_device_to_app R app d =
     bind_res (map_res (\<lambda>k. bind_res (str_get R k d) (\<lambda>v. Inr (drop (length ''device_to_app:'') k, v)))
                (r_keys R ''device_to_app:*'' d)) (\<lambda>rows.
     Inr (filter (\<lambda>(_, v). app = None \<or> app = Some v) rows))"

text \<open>The five sections that every dump has.\<close>

definition collect_sections :: "'db redis \<Rightarrow> ext \<Rightarrow> string \<Rightarrow> string option \<Rightarrow> 'db \<Rightarrow> envelope res" where
  "collect_sections R E now app d =
     bind_res (collect_clients R E app d) (\<lambda>clients.
     bind_res (collect_admin_acls R E app d) (\<lambda>admin_acls.
     bind_res (collect_queues R app d) (\<lambda>queues.
     bind_res (collect_device_to_app R app d) (\<lambda>d2a.
     Inr \<lparr>env_dump_kind = (case app of None \<Rightarrow> ''whole'' | Some _ \<Rightarrow> ''per-app''),
       env_app = (case app of None \<Rightarrow> PNone | Some a \<Rightarrow> PStr a), env_exported_at = PStr now,
       env_clients = clients, env_admin_acls = admin_acls, env_kv = collect_kv R app d,
       env_queues = queues, env_activity_log = None, env_device_to_app = d2a\<rparr>))))"

definition collect_whole_envelope :: "'db redis \<Rightarrow> ext \<Rightarrow> string \<Rightarrow> bool \<Rightarrow> 'db \<Rightarrow> envelope res" where
  "collect_whole_envelope R E now include_logs d =
     bind_res (collect_sections R E now None d) (\<lambda>env.
     if include_logs then
       bind_res (collect_stream R ACTIVITY_LOG d) (\<lambda>es. Inr (env\<lparr>env_activity_log := Some es\<rparr>))
     else Inr env)"

definition collect_per_app_envelope :: "'db redis \<Rightarrow> ext \<Rightarrow> string \<Rightarrow> string \<Rightarrow> bool \<Rightarrow> 'db \<Rightarrow> envelope res" where
  "collect_per_app_envelope R E now app include_logs d =
     bind_res (collect_sections R E now (Some app) d) (\<lambda>env.
     if include_logs then
       bind_res (collect_stream R ACTIVITY_LOG d) (\<lambda>full.
       bind_res (filter_res (\<lambda>e. bind_res (decode_utf8 (field_or (se_fields e) ''client_id'' [])) (\<lambda>c.
                    Inr (c \<in> fst ` set (env_clients env)))) full) (\<lambda>es.
       Inr (env\<lparr>env_activity_log := Some es\<rparr>)))
     else Inr env)"

subsection \<open>Applying\<close>

record section_result =
  sec_restored :: "string list"
  sec_skipped :: "string list"
  sec_overwritten :: "string list"

record restore_result =
  rr_clients :: section_result
  rr_admin_acls :: section_result
  rr_kv :: section_result
  rr_queues :: section_result
  rr_device_to_app :: section_result
  rr_log :: "nat \<times> bool \<times> bool"     \<comment> \<open>restored, skipped, overwritten\<close>
  rr_rejected :: "string list"

definition new_section :: section_result where
  "new_section = \<lparr>sec_restored = [], sec_skipped = [], sec_overwritten = []\<rparr>"

definition new_result :: restore_result where
  "new_result = \<lparr>rr_clients = new_section, rr_admin_acls = new_section, rr_kv = new_section,
     rr_queues = new_section, rr_device_to_app = new_section, rr_log = (0, False, False), rr_rejected = []\<rparr>"

definition skip :: "string \<Rightarrow> section_result \<Rightarrow> section_result" where
  "skip name s = s\<lparr>sec_skipped := sec_skipped s @ [name]\<rparr>"

definition written :: "bool \<Rightarrow> string \<Rightarrow> section_result \<Rightarrow> section_result" where
  "written existing name s =
     (if existing then s\<lparr>sec_overwritten := sec_overwritten s @ [name]\<rparr>
      else s\<lparr>sec_restored := sec_restored s @ [name]\<rparr>)"

definition reject :: "string \<Rightarrow> restore_result \<Rightarrow> restore_result" where
  "reject name res = res\<lparr>rr_rejected := rr_rejected res @ [name]\<rparr>"

text \<open>\<open>app_filter and not matches(x, app_filter)\<close>\<close>

definition outside :: "string option \<Rightarrow> (string \<Rightarrow> bool res) \<Rightarrow> bool res" where
  "outside flt matches =
     (case flt of
        None \<Rightarrow> Inr False
      | Some a \<Rightarrow> if a = [] then Inr False else bind_res (matches a) (\<lambda>m. Inr (\<not> m)))"

text \<open>A loop with a result and a store, left by the first exception.\<close>

fun apply_all :: "('a \<Rightarrow> 'r \<Rightarrow> 'db \<Rightarrow> 'r res \<times> 'db) \<Rightarrow> 'a list \<Rightarrow> 'r \<Rightarrow> 'db \<Rightarrow> 'r res \<times> 'db" where
  "apply_all f [] r d = (Inr r, d)"
| "apply_all f (x # xs) r d =
     (case f x r d of (Inl e, d1) \<Rightarrow> (Inl e, d1) | (Inr r1, d1) \<Rightarrow> apply_all f xs r1 d1)"

definition apply_client ::
    "'db redis \<Rightarrow> ext \<Rightarrow> bool \<Rightarrow> string option \<Rightarrow> string \<times> client_record \<Rightarrow> restore_result \<Rightarrow> 'db \<Rightarrow> restore_result res \<times> 'db" where
  "apply_client R E force flt = (\<lambda>(cid, rec) res d.
     lift_res (outside flt (client_matches_app (cr_acl rec))) d (\<lambda>rej.
     if rej then (Inr (reject (''client:'' @ cid) res), d)
     else
       let existing = (get_truthy R (client_secret_key cid) d \<noteq> None) in
       if existing \<and> \<not> force then (Inr (res\<lparr>rr_clients := skip cid (rr_clients res)\<rparr>), d)
       else (Inr (res\<lparr>rr_clients := written existing cid (rr_clients res)\<rparr>),
             r_set R (client_acl_key cid) (e_dumps E (cr_acl rec)) (r_set R (client_secret_key cid) (cr_secret rec) d))))"

definition apply_admin_acl ::
    "'db redis \<Rightarrow> ext \<Rightarrow> bool \<Rightarrow> string option \<Rightarrow> string \<times> pyval \<Rightarrow> restore_result \<Rightarrow> 'db \<Rightarrow> restore_result res \<times> 'db" where
  "apply_admin_acl R E force flt = (\<lambda>(user, acl) res d.
     lift_res (outside flt (admin_acl_matches_app acl)) d (\<lambda>rej.
     if rej then (Inr (reject (''admin_acls:'' @ user) res), d)
     else
       let existing = (get_truthy R (admin_acl_key user) d \<noteq> None) in
       if existing \<and> \<not> force then (Inr (res\<lparr>rr_admin_acls := skip user (rr_admin_acls res)\<rparr>), d)
       else (Inr (res\<lparr>rr_admin_acls := written existing user (rr_admin_acls res)\<rparr>),
             r_set R (admin_acl_key user) (e_dumps E acl) d)))"

definition apply_kv ::
    "'db redis \<Rightarrow> bool \<Rightarrow> string option \<Rightarrow> string \<times> kv_record \<Rightarrow> restore_result \<Rightarrow> 'db \<Rightarrow> restore_result res \<times> 'db" where
  "apply_kv R force flt = (\<lambda>(key, rec) res d.
     lift_res (outside flt (\<lambda>a. Inr (kv_key_belongs_to_app key a))) d (\<lambda>rej.
     if rej then (Inr (reject (''kv:'' @ key) res), d)
     else
       let existing = r_exists R (kv_key key) d in
       if existing \<and> \<not> force then (Inr (res\<lparr>rr_kv := skip key (rr_kv res)\<rparr>), d)
       else (Inr (res\<lparr>rr_kv := written existing key (rr_kv res)\<rparr>),
             set_enc_flag R key (kr_encrypted rec) (r_set R (kv_key key) (kr_value rec) d))))"

fun xadd_all :: "'db redis \<Rightarrow> string \<Rightarrow> stream_entry list \<Rightarrow> 'db \<Rightarrow> unit res \<times> 'db" where
  "xadd_all R key [] d = (Inr (), d)"
| "xadd_all R key (e # es) d =
     (case r_xadd R key (Some (se_id e)) (se_fields e) d of
        Inl x \<Rightarrow> (Inl x, d)
      | Inr d1 \<Rightarrow> xadd_all R key es d1)"

definition apply_queue ::
    "'db redis \<Rightarrow> bool \<Rightarrow> string option \<Rightarrow> string \<times> stream_entry list \<Rightarrow> restore_result \<Rightarrow> 'db \<Rightarrow> restore_result res \<times> 'db" where
  "apply_queue R force flt = (\<lambda>(topic, es) res d.
     lift_res (outside flt (\<lambda>a. Inr (queue_topic_belongs_to_app topic a))) d (\<lambda>rej.
     if rej then (Inr (reject (''q:'' @ topic) res), d)
     else
       let existed = r_exists R (q_key topic) d in
       if existed \<and> \<not> force then (Inr (res\<lparr>rr_queues := skip topic (rr_queues res)\<rparr>), d)
       else and_then (xadd_all R (q_key topic) es (if existed then r_del R (q_key topic) d else d)) (\<lambda>_ d1.
            (Inr (res\<lparr>rr_queues := written existed topic (rr_queues res)\<rparr>), d1))))"

definition apply_device_to_app ::
    "'db redis \<Rightarrow> bool \<Rightarrow> string option \<Rightarrow> string \<times> string \<Rightarrow> restore_result \<Rightarrow> 'db \<Rightarrow> restore_result res \<times> 'db" where
  "apply_device_to_app R force flt = (\<lambda>(cid, app_val) res d.
     lift_res (outside flt (\<lambda>a. Inr (app_val = a))) d (\<lambda>rej.
     if rej then (Inr (reject (''device_to_app:'' @ cid) res), d)
     else
       let existing = (get_truthy R (device_to_app_key cid) d \<noteq> None) in
       if existing \<and> \<not> force then (Inr (res\<lparr>rr_device_to_app := skip cid (rr_device_to_app res)\<rparr>), d)
       else (Inr (res\<lparr>rr_device_to_app := written existing cid (rr_device_to_app res)\<rparr>),
             r_set R (device_to_app_key cid) app_val d)))"

text \<open>The activity log is not subject to the filter.\<close>

definition apply_log ::
    "'db redis \<Rightarrow> bool \<Rightarrow> stream_entry list option \<Rightarrow> restore_result \<Rightarrow> 'db \<Rightarrow> restore_result res \<times> 'db" where
  "apply_log R force entries_opt res d =
     (case entries_opt of
        None \<Rightarrow> (Inr res, d)
      | Some es \<Rightarrow>
         let existed = r_exists R ACTIVITY_LOG d in
         if existed \<and> \<not> force then (Inr (res\<lparr>rr_log := (0, True, False)\<rparr>), d)
         else and_then (xadd_all R ACTIVITY_LOG es (if existed then r_del R ACTIVITY_LOG d else d)) (\<lambda>_ d1.
              (Inr (res\<lparr>rr_log := (length es, False, existed)\<rparr>), d1)))"

definition apply_envelope ::
    "'db redis \<Rightarrow> ext \<Rightarrow> bool \<Rightarrow> string option \<Rightarrow> envelope \<Rightarrow> 'db \<Rightarrow> restore_result res \<times> 'db" where
  "apply_envelope R E force flt env d =
     and_then (apply_all (apply_client R E force flt) (env_clients env) new_result d) (\<lambda>r1 d1.
     and_then (apply_all (apply_admin_acl R E force flt) (env_admin_acls env) r1 d1) (\<lambda>r2 d2.
     and_then (apply_all (apply_kv R force flt) (env_kv env) r2 d2) (\<lambda>r3 d3.
     and_then (apply_all (apply_queue R force flt) (env_queues env) r3 d3) (\<lambda>r4 d4.
     and_then (apply_all (apply_device_to_app R force flt) (env_device_to_app env) r4 d4) (\<lambda>r5 d5.
     apply_log R force (env_activity_log env) r5 d5)))))"

subsection \<open>The endpoints\<close>

definition dump_filename :: "ext \<Rightarrow> envelope \<Rightarrow> string" where
  "dump_filename E env =
     (if truthy (env_app env) then ''stra2us_backup_'' @ py_str E (env_app env) @ ''_'' @ py_str E (env_exported_at env) @ ''.json''
      else ''stra2us_backup_whole_'' @ py_str E (env_exported_at env) @ ''.json'')"

definition dump_headers :: "ext \<Rightarrow> envelope \<Rightarrow> (string \<times> string) list" where
  "dump_headers E env =
     [(''X-Stra2us-Sensitive'', ''true''), (''Cache-Control'', ''no-store''),
      (''Content-Disposition'', ''attachment; filename='' @ dump_filename E env)]"

text \<open>The document and the headers of the answer.\<close>

definition backup_whole ::
    "'db redis \<Rightarrow> ext \<Rightarrow> string list \<Rightarrow> string option \<Rightarrow> string \<Rightarrow> bool \<Rightarrow> 'db \<Rightarrow> (pyval \<times> (string \<times> string) list) res" where
  "backup_whole R E rescue admin_user now include_logs d =
     bind_res (require_admin_superuser R E rescue admin_user d) (\<lambda>_.
     bind_res (collect_whole_envelope R E now include_logs d) (\<lambda>env.
     Inr (to_json env, dump_headers E env)))"

definition bad_app_name :: "string \<Rightarrow> bool" where
  "bad_app_name app \<longleftrightarrow> strip app = [] \<or> CHR ''/'' \<in> set app"

definition backup_per_app ::
    "'db redis \<Rightarrow> ext \<Rightarrow> string list \<Rightarrow> string option \<Rightarrow> string \<Rightarrow> string \<Rightarrow> bool \<Rightarrow> 'db \<Rightarrow> (pyval \<times> (string \<times> string) list) res" where
  "backup_per_app R E rescue admin_user now app include_logs d =
     bind_res (require_admin_superuser R E rescue admin_user d) (\<lambda>_.
     if bad_app_name app then Inl (HTTPException 400 ''invalid app name'')
     else bind_res (collect_per_app_envelope R E now app include_logs d) (\<lambda>env.
          Inr (to_json env, dump_headers E env)))"

text \<open>The body of a restore, parsed; a structural problem is a 400.\<close>

definition parse_body :: "ext \<Rightarrow> string \<Rightarrow> envelope res" where
  "parse_body E body =
     (case e_loads E body of
        None \<Rightarrow> Inl (PyExn ''JSONDecodeError'')
      | Some doc \<Rightarrow>
         (case from_json E doc of
            Inl e \<Rightarrow> if e = PyExn ''BackupFormatError'' then Inl (HTTPException 400 ''malformed backup envelope'') else Inl e
          | Inr env \<Rightarrow> Inr env))"

definition restore_whole ::
    "'db redis \<Rightarrow> ext \<Rightarrow> string list \<Rightarrow> string option \<Rightarrow> string \<Rightarrow> bool \<Rightarrow> 'db \<Rightarrow> restore_result res \<times> 'db" where
  "restore_whole R E rescue admin_user body force d =
     lift_res (require_admin_superuser R E rescue admin_user d) d (\<lambda>_.
     lift_res (parse_body E body) d (\<lambda>env.
     if env_dump_kind env \<noteq> ''whole'' then (Inl (HTTPException 400 ''this endpoint accepts only whole-instance dumps''), d)
     else apply_envelope R E force None env d))"

definition restore_per_app ::
    "'db redis \<Rightarrow> ext \<Rightarrow> string list \<Rightarrow> string option \<Rightarrow> string \<Rightarrow> string \<Rightarrow> bool \<Rightarrow> 'db \<Rightarrow> restore_result res \<times> 'db" where
  "restore_per_app R E rescue admin_user app body force d =
     lift_res (require_admin_superuser R E rescue admin_user d) d (\<lambda>_.
     if bad_app_name app then (Inl (HTTPException 400 ''invalid app name''), d)
     else
       lift_res (parse_body E body) d (\<lambda>env.
       if env_app env \<noteq> PNone \<and> env_app env \<noteq> PStr app
       then (Inl (HTTPException 400 ''envelope app does not match URL app''), d)
       else apply_envelope R E force (Some app) env d))"

subsection \<open>The older backup of credentials\<close>

definition key_row :: "'db redis \<Rightarrow> ext \<Rightarrow> 'db \<Rightarrow> string \<Rightarrow> pyval res" where
  "key_row R E d client_id =
     bind_res (case r_get R (client_secret_key client_id) d of
                 None \<Rightarrow> Inr PNone | Some s \<Rightarrow> bind_res (decode_utf8 s) (\<lambda>x. Inr (PStr x))) (\<lambda>secret.
     bind_res (case get_truthy R (client_acl_key client_id) d of
                 None \<Rightarrow> Inr (PDict []) | Some j \<Rightarrow> loads_res E j) (\<lambda>acl.
     Inr (PDict [(''client_id'', PStr client_id), (''secret'', secret), (''acl'', acl)])))"

definition backup_keys ::
    "'db redis \<Rightarrow> ext \<Rightarrow> string list \<Rightarrow> string option \<Rightarrow> int \<Rightarrow> 'db \<Rightarrow> pyval res" where
  "backup_keys R E rescue admin_user now d =
     bind_res (require_admin_superuser R E rescue admin_user d) (\<lambda>_.
     bind_res (map_res (key_row R E d) (map client_id_of_key (r_keys R ''client:*:secret'' d))) (\<lambda>clients.
     Inr (PDict [(''exported_at'', PInt now), (''clients'', PList clients)])))"

text \<open>A reserved name ends the loop; what was restored before stays.\<close>

definition restore_key ::
    "'db redis \<Rightarrow> ext \<Rightarrow> bool \<Rightarrow> string \<times> client_record \<Rightarrow> section_result \<Rightarrow> 'db \<Rightarrow> section_result res \<times> 'db" where
  "restore_key R E force = (\<lambda>(cid, rec) res d.
     lift_res (reject_if_reserved cid) d (\<lambda>_.
     let existing = (get_truthy R (client_secret_key cid) d \<noteq> None) in
     if existing \<and> \<not> force then (Inr (skip cid res), d)
     else (Inr (written existing cid res),
           r_set R (client_acl_key cid) (e_dumps E (cr_acl rec)) (r_set R (client_secret_key cid) (cr_secret rec) d))))"

definition restore_keys ::
    "'db redis \<Rightarrow> ext \<Rightarrow> string list \<Rightarrow> string option \<Rightarrow> (string \<times> client_record) list \<Rightarrow> bool \<Rightarrow> 'db \<Rightarrow> section_result res \<times> 'db" where
  "restore_keys R E rescue admin_user clients force d =
     lift_res (require_admin_superuser R E rescue admin_user d) d (\<lambda>_.
     apply_all (restore_key R E force) clients new_section d)"

subsection \<open>What a restore may change\<close>

lemma apply_all_append:
  "apply_all f (xs @ ys) r d = and_then (apply_all f xs r d) (apply_all f ys)"
  by (induction xs arbitrary: r d) (auto simp: and_then_def split: sum.splits prod.splits)

lemma apply_all_snoc:
  "apply_all f (xs @ [x]) r d = (Inr r', d') \<longleftrightarrow>
   (\<exists>r1 d1. apply_all f xs r d = (Inr r1, d1) \<and> f x r1 d1 = (Inr r', d'))"
proof -
  have "apply_all f [x] r1 d1 = f x r1 d1" for r1 d1
    by (auto split: prod.splits sum.splits)
  then show ?thesis by (simp add: apply_all_append and_then_Inr)
qed

text \<open>
  A reflexive and transitive relation between stores that every step of a loop respects holds of
  the whole loop; likewise for a sequence.
\<close>

lemma apply_all_rel:
  assumes refl: "\<And>d. Q d d" and trans: "\<And>d1 d2 d3. Q d1 d2 \<Longrightarrow> Q d2 d3 \<Longrightarrow> Q d1 d3"
    and step: "\<And>x r d. x \<in> set xs \<Longrightarrow> Q d (snd (f x r d))"
  shows "Q d (snd (apply_all f xs r d))"
  using step
proof (induction xs arbitrary: r d)
  case Nil
  then show ?case by (simp add: refl)
next
  case (Cons x xs)
  obtain r1 d1 where f: "f x r d = (r1, d1)" by fastforce
  have q: "Q d d1" using Cons.prems [of x d r] f by simp
  show ?case
  proof (cases r1)
    case (Inl e)
    with f q show ?thesis by simp
  next
    case (Inr r2)
    have "Q d1 (snd (apply_all f xs r2 d1))" by (rule Cons.IH, rule Cons.prems) simp
    with q f Inr show ?thesis by (simp add: trans [OF q])
  qed
qed

lemma and_then_rel:
  assumes trans: "\<And>d1 d2 d3. Q d1 d2 \<Longrightarrow> Q d2 d3 \<Longrightarrow> Q d1 d3"
    and "Q d (snd m)" and "\<And>r d. Q d (snd (f r d))"
  shows "Q d (snd (and_then m f))"
proof (cases m)
  case (Pair r d1)
  with assms(2) have "Q d d1" by simp
  with Pair show ?thesis
    using trans [OF _ assms(3)] by (cases r) (auto simp: and_then_def)
qed

lemma outside_False_app [simp]:
  "a \<noteq> [] \<Longrightarrow> outside (Some a) m = Inr False \<longleftrightarrow> m a = Inr True"
  by (auto simp: outside_def bind_res_Inr_iff)

text \<open>The keys a record may write.\<close>

definition client_keys :: "string \<Rightarrow> string set" where
  "client_keys cid = {client_secret_key cid, client_acl_key cid}"

definition kv_keys_of :: "string \<Rightarrow> string set" where
  "kv_keys_of key = {kv_key key, enc_key key}"

definition restore_may_touch :: "string option \<Rightarrow> envelope \<Rightarrow> string \<Rightarrow> bool" where
  "restore_may_touch flt env k \<longleftrightarrow>
     (\<exists>(cid, rec) \<in> set (env_clients env). k \<in> client_keys cid \<and> outside flt (client_matches_app (cr_acl rec)) = Inr False) \<or>
     (\<exists>(user, acl) \<in> set (env_admin_acls env). k = admin_acl_key user \<and> outside flt (admin_acl_matches_app acl) = Inr False) \<or>
     (\<exists>(key, rec) \<in> set (env_kv env). k \<in> kv_keys_of key \<and> outside flt (\<lambda>a. Inr (kv_key_belongs_to_app key a)) = Inr False) \<or>
     (\<exists>(topic, es) \<in> set (env_queues env). k = q_key topic \<and> outside flt (\<lambda>a. Inr (queue_topic_belongs_to_app topic a)) = Inr False) \<or>
     (\<exists>(cid, a) \<in> set (env_device_to_app env). k = device_to_app_key cid \<and> outside flt (\<lambda>x. Inr (a = x)) = Inr False) \<or>
     (k = ACTIVITY_LOG \<and> env_activity_log env \<noteq> None)"

lemma may_touch_client:
  "(cid, rec) \<in> set (env_clients env) \<Longrightarrow> k \<in> client_keys cid \<Longrightarrow>
   outside flt (client_matches_app (cr_acl rec)) = Inr False \<Longrightarrow> restore_may_touch flt env k"
  unfolding restore_may_touch_def by blast

lemma may_touch_admin:
  "(user, acl) \<in> set (env_admin_acls env) \<Longrightarrow> k = admin_acl_key user \<Longrightarrow>
   outside flt (admin_acl_matches_app acl) = Inr False \<Longrightarrow> restore_may_touch flt env k"
  unfolding restore_may_touch_def by blast

lemma may_touch_kv:
  "(key, rec) \<in> set (env_kv env) \<Longrightarrow> k \<in> kv_keys_of key \<Longrightarrow>
   outside flt (\<lambda>a. Inr (kv_key_belongs_to_app key a)) = Inr False \<Longrightarrow> restore_may_touch flt env k"
  unfolding restore_may_touch_def by blast

lemma may_touch_queue:
  "(topic, es) \<in> set (env_queues env) \<Longrightarrow> k = q_key topic \<Longrightarrow>
   outside flt (\<lambda>a. Inr (queue_topic_belongs_to_app topic a)) = Inr False \<Longrightarrow> restore_may_touch flt env k"
  unfolding restore_may_touch_def by blast

lemma may_touch_device:
  "(cid, a) \<in> set (env_device_to_app env) \<Longrightarrow> k = device_to_app_key cid \<Longrightarrow>
   outside flt (\<lambda>x. Inr (a = x)) = Inr False \<Longrightarrow> restore_may_touch flt env k"
  unfolding restore_may_touch_def by blast

lemma may_touch_log: "k = ACTIVITY_LOG \<Longrightarrow> env_activity_log env \<noteq> None \<Longrightarrow> restore_may_touch flt env k"
  by (simp add: restore_may_touch_def)

context redis_store
begin

definition same_at :: "string \<Rightarrow> 'db \<Rightarrow> 'db \<Rightarrow> bool" where
  "same_at k d d' \<longleftrightarrow> r_get R k d' = r_get R k d \<and> entries k d' = entries k d \<and> r_exists R k d' = r_exists R k d"

lemma same_at_refl [simp]: "same_at k d d"
  by (simp add: same_at_def)

lemma same_at_trans: "same_at k d1 d2 \<Longrightarrow> same_at k d2 d3 \<Longrightarrow> same_at k d1 d3"
  by (simp add: same_at_def)

lemma same_at_set: "k \<noteq> k' \<Longrightarrow> same_at k d (r_set R k' v d)"
  by (simp add: same_at_def get_set entries_set exists_set)

lemma same_at_del: "k \<noteq> k' \<Longrightarrow> same_at k d (r_del R k' d)"
  by (simp add: same_at_def get_del entries_del exists_del)

lemma same_at_xadd: "r_xadd R k' t f d = Inr d' \<Longrightarrow> k \<noteq> k' \<Longrightarrow> same_at k d d'"
  by (simp add: same_at_def get_xadd entries_xadd_other exists_xadd)

lemma same_at_xadd_all: "xadd_all R k' es d = (r, d') \<Longrightarrow> k \<noteq> k' \<Longrightarrow> same_at k d d'"
proof (induction es arbitrary: d)
  case (Cons e es)
  then show ?case
    by (auto split: sum.splits intro: same_at_trans [OF same_at_xadd])
qed simp

lemma same_at_enc: "k \<noteq> enc_key key \<Longrightarrow> same_at k d (set_enc_flag R key e d)"
  by (simp add: set_enc_flag_def same_at_set same_at_del)

lemma apply_client_step:
  assumes "apply_client R E force flt (cid, rec) res d = (r, d')" and "\<not> same_at k d d'"
  shows "k \<in> client_keys cid \<and> outside flt (client_matches_app (cr_acl rec)) = Inr False \<and>
    (force \<or> get_truthy R (client_secret_key cid) d = None)"
proof (cases "k \<in> client_keys cid")
  case True
  with assms show ?thesis by (auto simp: apply_client_def lift_res_cases Let_def split: if_splits)
next
  case False
  then have "same_at k d (r_set R (client_acl_key cid) a (r_set R (client_secret_key cid) s d))" for a s
    by (intro same_at_trans [OF same_at_set same_at_set]) (auto simp: client_keys_def)
  with assms show ?thesis by (auto simp: apply_client_def lift_res_cases Let_def split: if_splits)
qed

lemma apply_admin_acl_step:
  assumes "apply_admin_acl R E force flt (user, acl) res d = (r, d')" and "\<not> same_at k d d'"
  shows "k = admin_acl_key user \<and> outside flt (admin_acl_matches_app acl) = Inr False \<and>
    (force \<or> get_truthy R (admin_acl_key user) d = None)"
  using assms same_at_set [of k "admin_acl_key user"]
  by (cases "k = admin_acl_key user") (auto simp: apply_admin_acl_def lift_res_cases Let_def split: if_splits)

lemma apply_kv_step:
  assumes "apply_kv R force flt (key, rec) res d = (r, d')" and "\<not> same_at k d d'"
  shows "k \<in> kv_keys_of key \<and> outside flt (\<lambda>a. Inr (kv_key_belongs_to_app key a)) = Inr False \<and>
    (force \<or> \<not> r_exists R (kv_key key) d)"
proof (cases "k \<in> kv_keys_of key")
  case True
  with assms show ?thesis by (auto simp: apply_kv_def lift_res_cases Let_def split: if_splits)
next
  case False
  then have "same_at k d (set_enc_flag R key e (r_set R (kv_key key) v d))" for e v
    by (intro same_at_trans [OF same_at_set same_at_enc]) (auto simp: kv_keys_of_def)
  with assms show ?thesis by (auto simp: apply_kv_def lift_res_cases Let_def split: if_splits)
qed

lemma apply_queue_step:
  assumes "apply_queue R force flt (topic, es) res d = (r, d')" and "\<not> same_at k d d'"
  shows "k = q_key topic \<and> outside flt (\<lambda>a. Inr (queue_topic_belongs_to_app topic a)) = Inr False \<and>
    (force \<or> \<not> r_exists R (q_key topic) d)"
proof (cases "k = q_key topic")
  case True
  with assms show ?thesis by (auto simp: apply_queue_def lift_res_cases Let_def split: if_splits)
next
  case False
  have "same_at k d d1" if "xadd_all R (q_key topic) es (r_del R (q_key topic) d) = (x, d1)" for x d1
    using same_at_xadd_all [OF that False] by (rule same_at_trans [OF same_at_del [OF False]])
  moreover have "same_at k d d1" if "xadd_all R (q_key topic) es d = (x, d1)" for x d1
    using that False by (rule same_at_xadd_all)
  ultimately show ?thesis
    using assms unfolding apply_queue_def lift_res_cases Let_def and_then_def prod.case
    by (fastforce split: if_splits prod.splits sum.splits)
qed

lemma apply_device_to_app_step:
  assumes "apply_device_to_app R force flt (cid, a) res d = (r, d')" and "\<not> same_at k d d'"
  shows "k = device_to_app_key cid \<and> outside flt (\<lambda>x. Inr (a = x)) = Inr False \<and>
    (force \<or> get_truthy R (device_to_app_key cid) d = None)"
  using assms same_at_set [of k "device_to_app_key cid"]
  by (cases "k = device_to_app_key cid") (auto simp: apply_device_to_app_def lift_res_cases Let_def split: if_splits)

lemma apply_log_step:
  assumes "apply_log R force es res d = (r, d')" and "\<not> same_at k d d'"
  shows "k = ACTIVITY_LOG \<and> es \<noteq> None \<and> (force \<or> \<not> r_exists R ACTIVITY_LOG d)"
proof (cases "k = ACTIVITY_LOG")
  case True
  with assms show ?thesis by (auto simp: apply_log_def Let_def split: option.splits if_splits)
next
  case False
  have "same_at k d d1" if "xadd_all R ACTIVITY_LOG xs (r_del R ACTIVITY_LOG d) = (x, d1)" for x d1 xs
    using same_at_xadd_all [OF that False] by (rule same_at_trans [OF same_at_del [OF False]])
  moreover have "same_at k d d1" if "xadd_all R ACTIVITY_LOG xs d = (x, d1)" for x d1 xs
    using that False by (rule same_at_xadd_all)
  ultimately show ?thesis
    using assms unfolding apply_log_def Let_def and_then_def
    by (fastforce split: option.splits if_splits prod.splits sum.splits)
qed

text \<open>Any reflexive and transitive relation that the steps respect holds of the whole restore.\<close>

lemma apply_envelope_rel:
  assumes refl: "\<And>d. Q d d" and trans: "\<And>d1 d2 d3. Q d1 d2 \<Longrightarrow> Q d2 d3 \<Longrightarrow> Q d1 d3"
    and "\<And>x res d. x \<in> set (env_clients env) \<Longrightarrow> Q d (snd (apply_client R E force flt x res d))"
    and "\<And>x res d. x \<in> set (env_admin_acls env) \<Longrightarrow> Q d (snd (apply_admin_acl R E force flt x res d))"
    and "\<And>x res d. x \<in> set (env_kv env) \<Longrightarrow> Q d (snd (apply_kv R force flt x res d))"
    and "\<And>x res d. x \<in> set (env_queues env) \<Longrightarrow> Q d (snd (apply_queue R force flt x res d))"
    and "\<And>x res d. x \<in> set (env_device_to_app env) \<Longrightarrow> Q d (snd (apply_device_to_app R force flt x res d))"
    and "\<And>res d. Q d (snd (apply_log R force (env_activity_log env) res d))"
  shows "Q d (snd (apply_envelope R E force flt env d))"
  unfolding apply_envelope_def
  by (intro and_then_rel [of Q, OF trans] apply_all_rel [of Q, OF refl trans] assms(3-8))

lemma restore_changes:
  assumes "\<not> same_at k d (snd (apply_envelope R E force flt env d))"
  shows "restore_may_touch flt env k"
proof (rule ccontr)
  assume n: "\<not> restore_may_touch flt env k"
  have "same_at k d (snd (apply_envelope R E force flt env d))"
  proof (rule apply_envelope_rel [where Q = "same_at k"])
    show "same_at k d d" for d by simp
    show "same_at k d1 d2 \<Longrightarrow> same_at k d2 d3 \<Longrightarrow> same_at k d1 d3" for d1 d2 d3 by (rule same_at_trans)
  next
    fix x res d assume x: "x \<in> set (env_clients env)"
    obtain cid rec r d' where "x = (cid, rec)" "apply_client R E force flt (cid, rec) res d = (r, d')"
      by (metis surj_pair)
    with apply_client_step [OF this(2), of k] may_touch_client x n
    show "same_at k d (snd (apply_client R E force flt x res d))" by fastforce
  next
    fix x res d assume x: "x \<in> set (env_admin_acls env)"
    obtain user acl r d' where "x = (user, acl)" "apply_admin_acl R E force flt (user, acl) res d = (r, d')"
      by (metis surj_pair)
    with apply_admin_acl_step [OF this(2), of k] may_touch_admin x n
    show "same_at k d (snd (apply_admin_acl R E force flt x res d))" by fastforce
  next
    fix x res d assume x: "x \<in> set (env_kv env)"
    obtain key rec r d' where "x = (key, rec)" "apply_kv R force flt (key, rec) res d = (r, d')"
      by (metis surj_pair)
    with apply_kv_step [OF this(2), of k] may_touch_kv x n
    show "same_at k d (snd (apply_kv R force flt x res d))" by fastforce
  next
    fix x res d assume x: "x \<in> set (env_queues env)"
    obtain topic es r d' where "x = (topic, es)" "apply_queue R force flt (topic, es) res d = (r, d')"
      by (metis surj_pair)
    with apply_queue_step [OF this(2), of k] may_touch_queue x n
    show "same_at k d (snd (apply_queue R force flt x res d))" by fastforce
  next
    fix x res d assume x: "x \<in> set (env_device_to_app env)"
    obtain cid a r d' where "x = (cid, a)" "apply_device_to_app R force flt (cid, a) res d = (r, d')"
      by (metis surj_pair)
    with apply_device_to_app_step [OF this(2), of k] may_touch_device x n
    show "same_at k d (snd (apply_device_to_app R force flt x res d))" by fastforce
  next
    fix res d
    obtain r d' where "apply_log R force (env_activity_log env) res d = (r, d')" by (metis surj_pair)
    with apply_log_step [OF this, of k] may_touch_log n
    show "same_at k d (snd (apply_log R force (env_activity_log env) res d))" by fastforce
  qed
  with assms show False by simp
qed

lemmas key_defs = client_secret_key_def client_acl_key_def admin_acl_key_def kv_key_def enc_key_def q_key_def
  device_to_app_key_def ACTIVITY_LOG_def

text \<open>Records that a restore without \<open>force\<close> must leave alone.\<close>

definition protected :: "string \<Rightarrow> 'db \<Rightarrow> bool" where
  "protected k d \<longleftrightarrow>
     (\<exists>cid. k \<in> client_keys cid \<and> get_truthy R (client_secret_key cid) d \<noteq> None) \<or>
     (\<exists>u. k = admin_acl_key u \<and> get_truthy R k d \<noteq> None) \<or>
     (\<exists>key. k = kv_key key \<and> \<not> suffix '':enc'' key \<and> r_exists R k d) \<or>
     (\<exists>t. k = q_key t \<and> r_exists R k d) \<or>
     (\<exists>c. k = device_to_app_key c \<and> get_truthy R k d \<noteq> None) \<or>
     (k = ACTIVITY_LOG \<and> r_exists R k d)"

lemma protected_cases:
  assumes "protected k d"
  obtains (client) cid where "k \<in> client_keys cid" "get_truthy R (client_secret_key cid) d \<noteq> None"
  | (admin) u where "k = admin_acl_key u" "get_truthy R k d \<noteq> None"
  | (kv) key where "k = kv_key key" "\<not> suffix '':enc'' key" "r_exists R k d"
  | (queue) t where "k = q_key t" "r_exists R k d"
  | (device) c where "k = device_to_app_key c" "get_truthy R k d \<noteq> None"
  | (log) "k = ACTIVITY_LOG" "r_exists R k d"
  using assms unfolding protected_def by blast

lemma enc_not_plain: "enc_key key = kv_key key' \<Longrightarrow> suffix '':enc'' key'"
  by (auto simp: enc_key_def kv_key_def suffix_def)

lemma client_keys_iff: "k \<in> client_keys cid \<longleftrightarrow> k = client_secret_key cid \<or> k = client_acl_key cid"
  by (auto simp: client_keys_def)

lemma protected_not_new:
  assumes "protected k d"
  shows "\<not> (k \<in> client_keys cid \<and> get_truthy R (client_secret_key cid) d = None)"
    "\<not> (k = admin_acl_key u \<and> get_truthy R (admin_acl_key u) d = None)"
    "\<not> (k \<in> kv_keys_of key \<and> \<not> r_exists R (kv_key key) d)"
    "\<not> (k = q_key t \<and> \<not> r_exists R (q_key t) d)"
    "\<not> (k = device_to_app_key c \<and> get_truthy R (device_to_app_key c) d = None)"
    "\<not> (k = ACTIVITY_LOG \<and> \<not> r_exists R ACTIVITY_LOG d)"
proof -
  show "\<not> (k \<in> client_keys cid \<and> get_truthy R (client_secret_key cid) d = None)"
    using assms
  proof (cases rule: protected_cases)
    case (client c)
    then show ?thesis by (auto simp: client_keys_def)
  qed (auto simp: client_keys_def key_defs)
  show "\<not> (k = admin_acl_key u \<and> get_truthy R (admin_acl_key u) d = None)"
    using assms by (cases rule: protected_cases) (auto simp: client_keys_def key_defs)
  show "\<not> (k \<in> kv_keys_of key \<and> \<not> r_exists R (kv_key key) d)"
    using assms
  proof (cases rule: protected_cases)
    case (kv x)
    then show ?thesis using enc_not_plain [of key x] by (auto simp: kv_keys_of_def)
  qed (auto simp: kv_keys_of_def client_keys_def key_defs)
  show "\<not> (k = q_key t \<and> \<not> r_exists R (q_key t) d)"
    using assms by (cases rule: protected_cases) (auto simp: client_keys_def key_defs)
  show "\<not> (k = device_to_app_key c \<and> get_truthy R (device_to_app_key c) d = None)"
    using assms by (cases rule: protected_cases) (auto simp: client_keys_def key_defs)
  show "\<not> (k = ACTIVITY_LOG \<and> \<not> r_exists R ACTIVITY_LOG d)"
    using assms by (cases rule: protected_cases) (auto simp: client_keys_def key_defs)
qed

lemma protected_same:
  assumes "protected k d" and "\<And>k. protected k d \<Longrightarrow> same_at k d d'"
  shows "protected k d'"
  using assms(1)
proof (cases rule: protected_cases)
  case (client cid)
  then have "protected (client_secret_key cid) d" by (auto simp: protected_def client_keys_def)
  with assms(2) have "same_at (client_secret_key cid) d d'" by blast
  with client show ?thesis by (auto simp: protected_def same_at_def get_truthy_def)
qed (use assms(2) [OF assms(1)] in \<open>auto simp: protected_def same_at_def get_truthy_def\<close>)

definition keeps :: "'db \<Rightarrow> 'db \<Rightarrow> bool" where
  "keeps d d' \<longleftrightarrow> (\<forall>k. protected k d \<longrightarrow> same_at k d d' \<and> protected k d')"

lemma keepsI: "(\<And>k. protected k d \<Longrightarrow> same_at k d d') \<Longrightarrow> keeps d d'"
  unfolding keeps_def using protected_same by blast

lemma restore_keeps: "keeps d (snd (apply_envelope R E False flt env d))"
proof (rule apply_envelope_rel [where Q = keeps])
  show "keeps d d" for d by (simp add: keeps_def)
  show "keeps d1 d2 \<Longrightarrow> keeps d2 d3 \<Longrightarrow> keeps d1 d3" for d1 d2 d3
    unfolding keeps_def by (meson same_at_trans)
next
  fix x :: "string \<times> client_record" and res d
  obtain cid rec r d' where x: "x = (cid, rec)" "apply_client R E False flt (cid, rec) res d = (r, d')" by (metis surj_pair)
  have "keeps d d'" using apply_client_step [OF x(2)] protected_not_new(1) by (intro keepsI) blast
  with x show "keeps d (snd (apply_client R E False flt x res d))" by simp
next
  fix x :: "string \<times> pyval" and res d
  obtain u acl r d' where x: "x = (u, acl)" "apply_admin_acl R E False flt (u, acl) res d = (r, d')" by (metis surj_pair)
  have "keeps d d'" using apply_admin_acl_step [OF x(2)] protected_not_new(2) by (intro keepsI) blast
  with x show "keeps d (snd (apply_admin_acl R E False flt x res d))" by simp
next
  fix x :: "string \<times> kv_record" and res d
  obtain key rec r d' where x: "x = (key, rec)" "apply_kv R False flt (key, rec) res d = (r, d')" by (metis surj_pair)
  have "keeps d d'" using apply_kv_step [OF x(2)] protected_not_new(3) by (intro keepsI) blast
  with x show "keeps d (snd (apply_kv R False flt x res d))" by simp
next
  fix x :: "string \<times> stream_entry list" and res d
  obtain t es r d' where x: "x = (t, es)" "apply_queue R False flt (t, es) res d = (r, d')" by (metis surj_pair)
  have "keeps d d'" using apply_queue_step [OF x(2)] protected_not_new(4) by (intro keepsI) blast
  with x show "keeps d (snd (apply_queue R False flt x res d))" by simp
next
  fix x :: "string \<times> string" and res d
  obtain c a r d' where x: "x = (c, a)" "apply_device_to_app R False flt (c, a) res d = (r, d')" by (metis surj_pair)
  have "keeps d d'" using apply_device_to_app_step [OF x(2)] protected_not_new(5) by (intro keepsI) blast
  with x show "keeps d (snd (apply_device_to_app R False flt x res d))" by simp
next
  fix res d
  obtain r d' where x: "apply_log R False (env_activity_log env) res d = (r, d')" by (metis surj_pair)
  have "keeps d d'" using apply_log_step [OF x] protected_not_new(6) by (intro keepsI) blast
  with x show "keeps d (snd (apply_log R False (env_activity_log env) res d))" by simp
qed

text \<open>Restoring values, flags and streams.\<close>

lemma kv_loop:
  assumes "apply_all (apply_kv R True None) kvs r d = (Inr r', d')"
    and "\<forall>(k, rec) \<in> set kvs. \<not> suffix '':enc'' k" and "\<forall>rec. (key, rec) \<in> set kvs \<longrightarrow> rec = rec0"
    and "(key, rec0) \<in> set kvs"
  shows "r_get R (kv_key key) d' = Some (kr_value rec0) \<and>
    r_get R (enc_key key) d' = (if kr_encrypted rec0 then Some ''1'' else None)"
  using assms
proof (induction kvs arbitrary: r' d' rule: rev_induct)
  case (snoc x kvs)
  obtain k rec where x: "x = (k, rec)" by fastforce
  from snoc.prems(1) obtain r1 d1 where l: "apply_all (apply_kv R True None) kvs r d = (Inr r1, d1)"
    and s: "apply_kv R True None (k, rec) r1 d1 = (Inr r', d')"
    unfolding x apply_all_snoc by blast
  from s have d': "d' = set_enc_flag R k (kr_encrypted rec) (r_set R (kv_key k) (kr_value rec) d1)"
    by (auto simp: apply_kv_def outside_def Let_def)
  show ?case
  proof (cases "k = key")
    case True
    with snoc.prems(3) x have "rec = rec0" by simp
    with True show ?thesis by (simp add: d' set_enc_flag_def get_set get_del)
  next
    case False
    have "\<not> suffix '':enc'' k" "\<not> suffix '':enc'' key" using snoc.prems(2,4) x by auto
    then have "kv_key key \<noteq> enc_key k" "enc_key key \<noteq> kv_key k"
      using enc_not_plain [of k key] enc_not_plain [of key k] by metis+
    with False have "r_get R (kv_key key) d' = r_get R (kv_key key) d1" "r_get R (enc_key key) d' = r_get R (enc_key key) d1"
      by (simp_all add: d' set_enc_flag_def get_set get_del)
    moreover have "r_get R (kv_key key) d1 = Some (kr_value rec0) \<and>
        r_get R (enc_key key) d1 = (if kr_encrypted rec0 then Some ''1'' else None)"
    proof (rule snoc.IH [OF l])
      show "\<forall>(k, rec)\<in>set kvs. \<not> suffix '':enc'' k" using snoc.prems(2) by simp
      show "\<forall>rec. (key, rec) \<in> set kvs \<longrightarrow> rec = rec0" using snoc.prems(3) by simp
      show "(key, rec0) \<in> set kvs" using snoc.prems(4) x False by simp
    qed
    ultimately show ?thesis by simp
  qed
qed simp

definition to_record :: "stream_id \<times> fields \<Rightarrow> stream_entry" where
  "to_record e = \<lparr>se_id = show_sid (fst e), se_fields = snd e\<rparr>"

lemma xadd_all_spec:
  assumes "sorted_wrt (<) (map fst (entries k d @ es))" and "\<forall>e \<in> set es. SID 0 0 < fst e \<and> snd e \<noteq> []"
  shows "\<exists>d'. xadd_all R k (map to_record es) d = (Inr (), d') \<and> entries k d' = entries k d @ es"
  using assms
proof (induction es arbitrary: d)
  case (Cons e es)
  have "\<forall>x \<in> set (entries k d). fst x < fst e" using Cons.prems(1) by (auto simp: sorted_wrt_append)
  with Cons.prems(2) obtain d1 where d1: "r_xadd R k (Some (show_sid (fst e))) (snd e) d = Inr d1"
    "entries k d1 = entries k d @ [e]"
    using xadd_id [of k d "fst e" "snd e"] by auto
  with Cons.prems Cons.IH [of d1] show ?case by (auto simp: to_record_def)
qed simp

lemma collect_entry_Inr: "collect_entry (show_entry e) = Inr r \<Longrightarrow> r = to_record e"
proof -
  have "map_res (\<lambda>(k, v). bind_res (decode_utf8 k) (\<lambda>k'. Inr (k', v))) fs = Inr gs \<Longrightarrow> gs = fs" for fs gs :: fields
    by (induction fs arbitrary: gs) (auto simp: bind_res_Inr_iff decode_utf8_def split: if_splits)
  then show "collect_entry (show_entry e) = Inr r \<Longrightarrow> r = to_record e"
    by (auto simp: collect_entry_def bind_res_Inr_iff to_record_def show_entry_def)
qed

lemma collect_stream_Inr: "collect_stream R k d = Inr es \<Longrightarrow> es = map to_record (entries k d)"
proof -
  have "map_res collect_entry (map show_entry xs) = Inr ys \<Longrightarrow> ys = map to_record xs" for xs ys
    by (induction xs arbitrary: ys) (auto simp: bind_res_Inr_iff dest: collect_entry_Inr)
  then show "collect_stream R k d = Inr es \<Longrightarrow> es = map to_record (entries k d)"
    by (simp add: collect_stream_def xrange_all)
qed

lemma queue_loop:
  assumes "apply_all (apply_queue R True None) qs r d = (Inr r', d')"
    and "\<forall>es. (topic, es) \<in> set qs \<longrightarrow> es = map to_record xs" and "(topic, map to_record xs) \<in> set qs"
    and "sorted_wrt (<) (map fst xs)" and "\<forall>e \<in> set xs. SID 0 0 < fst e \<and> snd e \<noteq> []"
  shows "entries (q_key topic) d' = xs"
  using assms(1-3)
proof (induction qs arbitrary: r' d' rule: rev_induct)
  case (snoc x qs)
  obtain t es where x: "x = (t, es)" by fastforce
  from snoc.prems(1) obtain r1 d1 where l: "apply_all (apply_queue R True None) qs r d = (Inr r1, d1)"
    and s: "apply_queue R True None (t, es) r1 d1 = (Inr r', d')"
    unfolding x apply_all_snoc by blast
  show ?case
  proof (cases "t = topic")
    case True
    with snoc.prems(2) x have es: "es = map to_record xs" by simp
    let ?d = "if r_exists R (q_key t) d1 then r_del R (q_key t) d1 else d1"
    have "entries (q_key t) ?d = []" using exists_entries [of "q_key t" d1] by (auto simp: entries_del)
    with xadd_all_spec [of "q_key t" ?d xs] assms(4,5) obtain d2
      where "xadd_all R (q_key t) es ?d = (Inr (), d2)" "entries (q_key t) d2 = xs" by (auto simp: es)
    moreover have "outside None m = Inr False" for m by (simp add: outside_def)
    ultimately have "d' = d2"
      using s by (simp add: apply_queue_def and_then_def Let_def)
    with \<open>entries (q_key t) d2 = xs\<close> True show ?thesis by simp
  next
    case False
    then have "q_key topic \<noteq> q_key t" by (simp add: q_key_def)
    with apply_queue_step [OF s, of "q_key topic"] have "same_at (q_key topic) d1 d'" by blast
    moreover have "entries (q_key topic) d1 = xs"
    proof (rule snoc.IH [OF l])
      show "\<forall>es. (topic, es) \<in> set qs \<longrightarrow> es = map to_record xs" using snoc.prems(2) by simp
      show "(topic, map to_record xs) \<in> set qs" using snoc.prems(3) x False by simp
    qed
    ultimately show ?thesis by (simp add: same_at_def)
  qed
qed simp

lemma collect_kv_mem:
  "(k, rec) \<in> set (collect_kv R None d) \<Longrightarrow>
   \<not> suffix '':enc'' k \<and> r_get R (kv_key k) d = Some (kr_value rec) \<and>
   kr_encrypted rec = (k \<in> set (enc_flags (r_keys R ''kv:*'' d)))"
proof -
  have "star_plain ''kv:*''" by (simp add: star_plain_def)
  then have pre: "x \<in> set (r_keys R ''kv:*'' d) \<Longrightarrow> \<exists>y. x = ''kv:'' @ y" for x
    using keys_iff [of "''kv:*''" x d] star_match_pre_any [of "''kv:''" x] by (auto simp: prefix_def)
  assume "(k, rec) \<in> set (collect_kv R None d)"
  then obtain x v where x: "x \<in> set (r_keys R ''kv:*'' d)" "collect_kv_value R None d x = Some (k, v)"
    "rec = \<lparr>kr_value = v, kr_encrypted = (k \<in> set (enc_flags (r_keys R ''kv:*'' d)))\<rparr>"
    by (auto simp: collect_kv_def map_filter_def Let_def)
  with pre obtain y where "x = ''kv:'' @ y" by blast
  with x show ?thesis by (auto simp: collect_kv_value_def Let_def kv_key_def split: if_splits)
qed

lemma collect_kv_has:
  assumes "r_get R (kv_key k) d = Some v" and "\<not> suffix '':enc'' k"
  shows "(k, \<lparr>kr_value = v, kr_encrypted = (k \<in> set (enc_flags (r_keys R ''kv:*'' d)))\<rparr>) \<in> set (collect_kv R None d)"
proof -
  have "kv_key k \<in> set (r_keys R ''kv:*'' d)"
    using keys_get [of "''kv:*''" "kv_key k" d] assms(1) star_match_pre_any [of "''kv:''" "kv_key k"]
    by (simp add: star_plain_def kv_key_def)
  moreover have "collect_kv_value R None d (kv_key k) = Some (k, v)"
    using assms by (simp add: collect_kv_value_def Let_def kv_key_def)
  ultimately have "(k, v) \<in> set (List.map_filter (collect_kv_value R None d) (r_keys R ''kv:*'' d))"
    unfolding map_filter_def by force
  then show ?thesis by (auto simp: collect_kv_def Let_def)
qed

lemma enc_flags_iff: "k \<in> set (enc_flags (r_keys R ''kv:*'' d)) \<longleftrightarrow> r_exists R (enc_key k) d"
proof
  have sp: "star_plain ''kv:*''" by (simp add: star_plain_def)
  have iff: "x \<in> set (r_keys R ''kv:*'' d) \<longleftrightarrow> prefix ''kv:'' x \<and> r_exists R x d" for x
    using keys_iff [OF sp, of x d] star_match_pre_any [of "''kv:''" x] by simp
  show "r_exists R (enc_key k) d" if "k \<in> set (enc_flags (r_keys R ''kv:*'' d))"
  proof -
    from that obtain x where x: "x \<in> set (r_keys R ''kv:*'' d)" "suffix '':enc'' (drop 3 x)"
      "k = take (length (drop 3 x) - 4) (drop 3 x)"
      by (auto simp: enc_flags_def)
    with iff obtain y z where "x = ''kv:'' @ y" "y = z @ '':enc''" by (auto simp: prefix_def suffix_def)
    with x iff show ?thesis by (simp add: enc_key_def)
  qed
  show "k \<in> set (enc_flags (r_keys R ''kv:*'' d))" if "r_exists R (enc_key k) d"
  proof -
    have "enc_key k \<in> set (r_keys R ''kv:*'' d)" using iff that by (simp add: enc_key_def)
    moreover have "suffix '':enc'' (drop 3 (enc_key k))" by (simp add: enc_key_def suffix_def)
    moreover have "k = take (length (drop 3 (enc_key k)) - 4) (drop 3 (enc_key k))" by (simp add: enc_key_def)
    ultimately show ?thesis unfolding enc_flags_def by force
  qed
qed

end

text \<open>The sections that are not affected by what JSON cannot say.\<close>

lemma from_to_json_sections:
  assumes "from_json E (to_json env) = Inr env'"
  shows "env_kv env' = env_kv env" "env_queues env' = env_queues env"
proof -
  have k: "map_items kv_from_json (map (\<lambda>(k, r). (k, kv_to_json r)) (env_kv env)) = Inr (env_kv env)"
    by (intro map_items_ok) simp
  have q: "map_items (entries_from_json E) (map (\<lambda>(t, es). (t, PList (map stream_to_json es))) (env_queues env)) = Inr (env_queues env)"
    by (intro map_items_ok) simp
  show "env_kv env' = env_kv env" "env_queues env' = env_queues env"
    using assms k q by (auto simp: from_json_def to_json_def bind_res_Inr_iff split: if_splits)
qed

lemma map_res_all: "map_res f xs = Inr ys \<Longrightarrow> x \<in> set xs \<Longrightarrow> \<exists>y \<in> set ys. f x = Inr y"
  by (induction xs arbitrary: ys) (auto simp: bind_res_Inr_iff)

context redis_store
begin

lemma queue_keys: "k \<in> set (r_keys R ''q:*'' d) \<longleftrightarrow> prefix ''q:'' k \<and> r_exists R k d"
  using keys_iff [of "''q:*''" k d] star_match_pre_any [of "''q:''" k] by (simp add: star_plain_def)

lemma collect_queues_mem:
  assumes "collect_queues R None d = Inr qs"
  shows "(topic, es) \<in> set qs \<Longrightarrow> es = map to_record (entries (q_key topic) d)"
    and "r_exists R (q_key topic) d \<Longrightarrow> (topic, map to_record (entries (q_key topic) d)) \<in> set qs"
proof -
  let ?f = "\<lambda>k. bind_res (collect_stream R k d) (\<lambda>es. Inr (drop 2 k, es))"
  have m: "map_res ?f (r_keys R ''q:*'' d) = Inr qs" using assms by (simp add: collect_queues_def)
  show "es = map to_record (entries (q_key topic) d)" if h: "(topic, es) \<in> set qs"
  proof -
    from map_res_mem [OF m h] obtain k where k: "k \<in> set (r_keys R ''q:*'' d)" "?f k = Inr (topic, es)" by blast
    with queue_keys obtain t where "k = ''q:'' @ t" by (auto simp: prefix_def)
    with k(2) show ?thesis by (auto simp: bind_res_Inr_iff q_key_def dest: collect_stream_Inr)
  qed
  show "(topic, map to_record (entries (q_key topic) d)) \<in> set qs" if h: "r_exists R (q_key topic) d"
  proof -
    have "q_key topic \<in> set (r_keys R ''q:*'' d)" using h by (simp add: queue_keys) (simp add: q_key_def)
    from map_res_all [OF m this] obtain y where "y \<in> set qs" "?f (q_key topic) = Inr y" by blast
    then show ?thesis by (auto simp: bind_res_Inr_iff q_key_def dest: collect_stream_Inr)
  qed
qed

lemma same_after_loop:
  assumes "apply_all f xs r d = (r', d')" and "\<And>x r d. x \<in> set xs \<Longrightarrow> same_at k d (snd (f x r d))"
  shows "same_at k d d'"
proof -
  have "same_at k d (snd (apply_all f xs r d))"
    by (rule apply_all_rel [where Q = "same_at k"]) (auto intro: same_at_trans assms(2))
  with assms(1) show ?thesis by simp
qed

lemma restore_kv_part:
  assumes "apply_envelope R E True None env d = (Inr res, d')"
  shows "\<exists>r2 d2 r3 d3. apply_all (apply_kv R True None) (env_kv env) r2 d2 = (Inr r3, d3) \<and>
    (\<forall>key. same_at (kv_key key) d3 d' \<and> same_at (enc_key key) d3 d')"
proof -
  from assms obtain r2 d2 r3 d3 r4 d4 r5 d5 where
    kv: "apply_all (apply_kv R True None) (env_kv env) r2 d2 = (Inr r3, d3)" and
    q: "apply_all (apply_queue R True None) (env_queues env) r3 d3 = (Inr r4, d4)" and
    a: "apply_all (apply_device_to_app R True None) (env_device_to_app env) r4 d4 = (Inr r5, d5)" and
    l: "apply_log R True (env_activity_log env) r5 d5 = (Inr res, d')"
    by (auto simp: apply_envelope_def and_then_Inr)
  have "same_at k d3 d'" if k: "\<exists>x. k = ''kv:'' @ x" for k
  proof -
    have nq: "k \<noteq> q_key t" "k \<noteq> device_to_app_key t" "k \<noteq> ACTIVITY_LOG" for t
      using k by (auto simp: key_defs)
    have "same_at k d3 d4" using q
    proof (rule same_after_loop)
      fix x r d
      obtain t es r' d'' where "x = (t, es)" "apply_queue R True None (t, es) r d = (r', d'')" by (metis surj_pair)
      with apply_queue_step [OF this(2), of k] nq show "same_at k d (snd (apply_queue R True None x r d))" by auto
    qed
    moreover have "same_at k d4 d5" using a
    proof (rule same_after_loop)
      fix x r d
      obtain t es r' d'' where "x = (t, es)" "apply_device_to_app R True None (t, es) r d = (r', d'')" by (metis surj_pair)
      with apply_device_to_app_step [OF this(2), of k] nq
      show "same_at k d (snd (apply_device_to_app R True None x r d))" by auto
    qed
    moreover have "same_at k d5 d'" using apply_log_step [OF l, of k] nq by auto
    ultimately show ?thesis by (meson same_at_trans)
  qed
  then have "same_at (kv_key key) d3 d'" "same_at (enc_key key) d3 d'" for key
    by (simp_all add: kv_key_def enc_key_def)
  with kv show ?thesis by blast
qed

lemma restore_queue_part:
  assumes "apply_envelope R E True None env d = (Inr res, d')"
  shows "\<exists>r3 d3 r4 d4. apply_all (apply_queue R True None) (env_queues env) r3 d3 = (Inr r4, d4) \<and>
    (\<forall>t. same_at (q_key t) d4 d')"
proof -
  from assms obtain r3 d3 r4 d4 r5 d5 where
    q: "apply_all (apply_queue R True None) (env_queues env) r3 d3 = (Inr r4, d4)" and
    a: "apply_all (apply_device_to_app R True None) (env_device_to_app env) r4 d4 = (Inr r5, d5)" and
    l: "apply_log R True (env_activity_log env) r5 d5 = (Inr res, d')"
    by (auto simp: apply_envelope_def and_then_Inr)
  have "same_at (q_key t) d4 d'" for t
  proof -
    have nq: "q_key t \<noteq> device_to_app_key x" "q_key t \<noteq> ACTIVITY_LOG" for x
      by (auto simp: key_defs)
    have "same_at (q_key t) d4 d5" using a
    proof (rule same_after_loop)
      fix x r d
      obtain c v r' d'' where "x = (c, v)" "apply_device_to_app R True None (c, v) r d = (r', d'')" by (metis surj_pair)
      with apply_device_to_app_step [OF this(2), of "q_key t"] nq
      show "same_at (q_key t) d (snd (apply_device_to_app R True None x r d))" by auto
    qed
    moreover have "same_at (q_key t) d5 d'" using apply_log_step [OF l, of "q_key t"] nq by auto
    ultimately show ?thesis by (rule same_at_trans)
  qed
  with q show ?thesis by blast
qed

end

subsection \<open>Properties\<close>

text \<open>A source with one value, its backup, and the body that carries it.\<close>

definition ref_src :: mem where
  "ref_src = [(kv_key ''app/k'', RString ''v'')]"

definition ref_env :: envelope where
  "ref_env = \<lparr>env_dump_kind = ''whole'', env_app = PNone, env_exported_at = PStr ''now'', env_clients = [],
     env_admin_acls = [], env_kv = [(''app/k'', \<lparr>kr_value = ''v'', kr_encrypted = False\<rparr>)], env_queues = [],
     env_activity_log = None, env_device_to_app = []\<rparr>"

definition ref_body :: string where
  "ref_body = unary (to_json ref_env)"

lemma ref_admin:
  "r_get mem_redis (admin_acl_key ''ann'') d = None \<Longrightarrow>
   require_admin_superuser mem_redis ref_ext [''ann''] (Some ''ann'') d =
     Inr \<lparr>ctx_client_id = ''ann'', ctx_secret_hex = [], ctx_acl = RESCUE_ACL\<rparr>"
  by (simp add: require_admin_superuser_def get_admin_context_def load_admin_acl_def get_truthy_def RESCUE_ACL_def)

lemma ref_src_get: "r_get mem_redis k ref_src = (if k = ''kv:app/k'' then Some ''v'' else None)"
  by (simp add: ref_src_def mem_redis_def mem_get_def kv_key_def)

lemma ref_backup:
  "backup_whole mem_redis ref_ext [''ann''] (Some ''ann'') ''now'' False ref_src = Inr (to_json ref_env, dump_headers ref_ext ref_env)"
proof -
  have keys: "r_keys mem_redis p ref_src = (if star_match p ''kv:app/k'' then [''kv:app/k''] else [])" for p
    by (simp add: ref_src_def mem_redis_def kv_key_def)
  have "require_admin_superuser mem_redis ref_ext [''ann''] (Some ''ann'') ref_src =
      Inr \<lparr>ctx_client_id = ''ann'', ctx_secret_hex = [], ctx_acl = RESCUE_ACL\<rparr>"
    by (rule ref_admin) (simp add: ref_src_get admin_acl_key_def)
  moreover have "collect_kv_value mem_redis None ref_src ''kv:app/k'' = Some (''app/k'', ''v'')"
    by (simp add: collect_kv_value_def Let_def ref_src_get suffix_def)
  moreover have "enc_flags [''kv:app/k''] = []" by (simp add: enc_flags_def suffix_def)
  ultimately show ?thesis
    by (simp add: backup_whole_def collect_whole_envelope_def collect_sections_def collect_clients_def keys
        collect_admin_acls_def collect_queues_def collect_device_to_app_def collect_kv_def
        ref_env_def map_filter_def)
qed

lemma ref_parse: "parse_body ref_ext ref_body = Inr ref_env"
proof -
  have "from_json ref_ext (to_json ref_env) = Inr ref_env"
    by (rule from_to_json) (simp add: envelope_ok_def ref_env_def)
  then show ?thesis by (simp add: parse_body_def ref_body_def) (simp add: ref_ext_def)
qed

lemma ref_apply:
  "apply_envelope mem_redis ref_ext True flt ref_env d =
    (if flt = None \<or> flt = Some ''app'' then
       (Inr (new_result\<lparr>rr_kv := written (r_exists mem_redis (kv_key ''app/k'') d) ''app/k'' new_section\<rparr>),
        set_enc_flag mem_redis ''app/k'' False (r_set mem_redis (kv_key ''app/k'') ''v'' d))
     else apply_envelope mem_redis ref_ext True flt ref_env d)"
  by (simp add: apply_envelope_def ref_env_def apply_kv_def outside_def kv_key_belongs_to_app_def and_then_def
      Let_def apply_log_def new_result_def)

lemma ref_restore_whole:
  "\<exists>res. restore_whole mem_redis ref_ext [''ann''] (Some ''ann'') ref_body True [] =
    (Inr res, set_enc_flag mem_redis ''app/k'' False (r_set mem_redis (kv_key ''app/k'') ''v'' []))"
  by (subst restore_whole_def, subst ref_admin)
    (simp_all add: ref_parse ref_apply [of None] del: mem_get_nil, simp_all add: ref_env_def)


text \<open>
  C25. A backup document is read back as the envelope it was made of, with every secret, access
  list, value, flag, stream entry and index row, provided the stored access lists are objects.
\<close>

theorem backup_document_round_trip:
  assumes "redis_store R entries"
    and "backup_whole R E rescue admin now logs d = Inr (doc, headers)"
    and "\<forall>k raw v. (prefix ''admin_acls:'' k \<or> prefix ''client:'' k) \<and> r_get R k d = Some raw \<and> e_loads E raw = Some v \<longrightarrow> is_dict v"
  shows "\<exists>env. collect_whole_envelope R E now logs d = Inr env \<and> from_json E doc = Inr env"
proof -
  from assms(2) obtain env where env: "collect_whole_envelope R E now logs d = Inr env" and doc: "doc = to_json env"
    by (auto simp: backup_whole_def bind_res_Inr_iff)
  then have env': "env_dump_kind env = ''whole''" "env_exported_at env = PStr now"
      "collect_clients R E None d = Inr (env_clients env)" "collect_admin_acls R E None d = Inr (env_admin_acls env)"
    by (auto simp: collect_whole_envelope_def collect_sections_def bind_res_Inr_iff split: if_splits)
  have cl: "is_dict (cr_acl rec)" if "(cid, rec) \<in> set (env_clients env)" for cid rec
  proof -
    from env'(3) obtain rs where "map_res (collect_client R E None d) (r_keys R ''client:*:secret'' d) = Inr rs"
      "env_clients env = List.map_filter id rs" by (auto simp: collect_clients_def bind_res_Inr_iff)
    from map_res_some [OF this(1) that [unfolded this(2)]] obtain k where "collect_client R E None d k = Inr (Some (cid, rec))"
      by blast
    then obtain acl where "cr_acl rec = acl" "acl = PDict [] \<or>
        (\<exists>raw. r_get R (client_acl_key cid) d = Some raw \<and> e_loads E raw = Some acl)"
      by (auto simp: collect_client_def bind_res_Inr_iff Let_def decode_utf8_def get_truthy_def loads_res_def
          split: option.splits if_splits)
    moreover have "prefix ''client:'' (client_acl_key cid)" by (simp add: client_acl_key_def)
    ultimately show ?thesis using assms(3) by (metis is_type_simps(1))
  qed
  have ad: "is_dict acl" if "(user, acl) \<in> set (env_admin_acls env)" for user acl
  proof -
    from env'(4) obtain rs where "map_res (collect_admin_acl R E None d) (r_keys R ''admin_acls:*'' d) = Inr rs"
      "env_admin_acls env = List.map_filter id rs" by (auto simp: collect_admin_acls_def bind_res_Inr_iff)
    from map_res_some [OF this(1) that [unfolded this(2)]] obtain k where k: "k \<in> set (r_keys R ''admin_acls:*'' d)"
      "collect_admin_acl R E None d k = Inr (Some (user, acl))" by blast
    from k(1) redis_store.keys_iff [OF assms(1), of "''admin_acls:*''" k d] star_match_pre_any [of "''admin_acls:''" k]
    have "prefix ''admin_acls:'' k" by (simp add: star_plain_def)
    moreover from k(2) obtain raw where "r_get R k d = Some raw" "e_loads E raw = Some acl"
      by (auto simp: collect_admin_acl_def bind_res_Inr_iff decode_utf8_def get_truthy_def split: option.splits if_splits)
    ultimately show ?thesis using assms(3) by blast
  qed
  have "envelope_ok env"
    using env'(1,2) cl ad by (fastforce simp: envelope_ok_def is_dict_iff)
  with env doc from_to_json show ?thesis by blast
qed

theorem backup_document_round_trip_witness:
  "\<exists>env. collect_whole_envelope mem_redis ref_ext ''now'' False ref_src = Inr env \<and>
    from_json ref_ext (to_json ref_env) = Inr env"
  by (rule backup_document_round_trip [OF mem_store.redis_store_axioms ref_backup])
    (simp add: ref_src_get)

text \<open>
  C26. A per-application restore stays in its sandbox: whatever document is posted, a key of the
  store changes only for a superuser and only if it is a value of the application or its flag, a
  queue of the application, the credentials of a client or the row of an admin whose access list
  in the document names the application, an index row that points to it, or the global activity
  log, which the filter does not cover.
\<close>

theorem restore_app_sandbox:
  assumes "redis_store R entries"
    and "restore_per_app R E rescue admin app body force d = (r, d')"
    and "r_get R k d' \<noteq> r_get R k d \<or> entries k d' \<noteq> entries k d"
  shows "(\<exists>ctx. require_admin_superuser R E rescue admin d = Inr ctx) \<and> CHR ''/'' \<notin> set app \<and>
    (\<exists>env. parse_body E body = Inr env \<and>
      ((\<exists>(cid, rec) \<in> set (env_clients env). k \<in> {client_secret_key cid, client_acl_key cid} \<and> client_matches_app (cr_acl rec) app = Inr True) \<or>
       (\<exists>(user, acl) \<in> set (env_admin_acls env). k = admin_acl_key user \<and> admin_acl_matches_app acl app = Inr True) \<or>
       (\<exists>(key, rec) \<in> set (env_kv env). k \<in> {kv_key key, enc_key key} \<and> kv_key_belongs_to_app key app) \<or>
       (\<exists>(topic, es) \<in> set (env_queues env). k = q_key topic \<and> queue_topic_belongs_to_app topic app) \<or>
       (\<exists>cid. (cid, app) \<in> set (env_device_to_app env) \<and> k = device_to_app_key cid) \<or>
       (k = ACTIVITY_LOG \<and> env_activity_log env \<noteq> None)))"
proof -
  have "d' \<noteq> d" using assms(3) by auto
  with assms(2) obtain ctx env where ctx: "require_admin_superuser R E rescue admin d = Inr ctx"
    and app: "\<not> bad_app_name app" and env: "parse_body E body = Inr env"
    and ap: "apply_envelope R E force (Some app) env d = (r, d')"
    by (auto simp: restore_per_app_def lift_res_cases split: if_splits)
  have ne: "app \<noteq> []" using app by (auto simp: bad_app_name_def strip_def lstrip_def rstrip_def)
  have "\<not> redis_store.same_at R entries k d d'"
    using assms(3) redis_store.same_at_def [OF assms(1)] by blast
  with ap redis_store.restore_changes [OF assms(1), of k d E force "Some app" env]
  have "restore_may_touch (Some app) env k" by simp
  with ctx app env ne show ?thesis
    unfolding restore_may_touch_def client_keys_def kv_keys_of_def bad_app_name_def
    by (simp add: case_prod_beta) fastforce
qed

theorem restore_app_sandbox_witness:
  "\<exists>env. parse_body ref_ext ref_body = Inr env \<and> kv_key_belongs_to_app ''app/k'' ''app''"
proof -
  have "restore_per_app mem_redis ref_ext [''ann''] (Some ''ann'') ''app'' ref_body True [] =
      (Inr (new_result\<lparr>rr_kv := written False ''app/k'' new_section\<rparr>),
       set_enc_flag mem_redis ''app/k'' False (r_set mem_redis (kv_key ''app/k'') ''v'' []))"
    by (subst restore_per_app_def, subst ref_admin, simp)
      (simp add: ref_parse ref_apply [of "Some ''app''"] bad_app_name_def string_eval,
        simp add: ref_env_def mem_redis_def)
  from restore_app_sandbox [OF mem_store.redis_store_axioms this, of "kv_key ''app/k''"] show ?thesis
    by (auto simp: set_enc_flag_def mem_store.get_set mem_store.get_del kv_key_belongs_to_app_def)
qed

text \<open>
  C27. Restoring without overwriting keeps what exists: whatever the document holds, whether the
  restore ends well or not, the credentials of an existing client, an existing admin row, value,
  queue, index row or activity log is exactly what it was. (A value whose own key ends in \<open>:enc\<close>
  doubles as the flag of another one and is not covered.)
\<close>

theorem restore_keeps_existing:
  assumes "redis_store R entries"
    and "restore_whole R E rescue admin body False d = (r, d') \<or> restore_per_app R E rescue admin app body False d = (r, d')"
    and "(\<exists>cid. k \<in> {client_secret_key cid, client_acl_key cid} \<and> get_truthy R (client_secret_key cid) d \<noteq> None) \<or>
     (\<exists>user. k = admin_acl_key user \<and> get_truthy R k d \<noteq> None) \<or>
     (\<exists>key. k = kv_key key \<and> \<not> suffix '':enc'' key \<and> r_exists R k d) \<or>
     (\<exists>topic. k = q_key topic \<and> r_exists R k d) \<or>
     (\<exists>cid. k = device_to_app_key cid \<and> get_truthy R k d \<noteq> None) \<or>
     (k = ACTIVITY_LOG \<and> r_exists R k d)"
  shows "r_get R k d' = r_get R k d \<and> entries k d' = entries k d"
proof -
  have "d' = d \<or> (\<exists>env flt. apply_envelope R E False flt env d = (r, d'))"
    using assms(2) by (auto simp: restore_whole_def restore_per_app_def lift_res_cases split: if_splits)
  moreover have "redis_store.keeps R entries d d'" if "apply_envelope R E False flt env d = (r, d')" for env flt
    using redis_store.restore_keeps [OF assms(1), of d E flt env] that by (metis snd_conv)
  moreover have "redis_store.protected R k d"
    using assms(3) unfolding redis_store.protected_def [OF assms(1)] client_keys_def by blast
  ultimately show ?thesis
    unfolding redis_store.keeps_def [OF assms(1)] redis_store.same_at_def [OF assms(1)] by blast
qed

theorem restore_keeps_existing_witness:
  "\<exists>r d'. restore_whole mem_redis ref_ext [''ann''] (Some ''ann'') ref_body False ref_src = (r, d') \<and>
    r_get mem_redis (kv_key ''app/k'') d' = Some ''v''"
proof -
  obtain r d' where r: "restore_whole mem_redis ref_ext [''ann''] (Some ''ann'') ref_body False ref_src = (r, d')"
    by (metis surj_pair)
  have "r_exists mem_redis (kv_key ''app/k'') ref_src" by (simp add: ref_src_def mem_redis_def)
  moreover have "\<not> suffix '':enc'' ''app/k''" by (simp add: suffix_def)
  ultimately have "r_get mem_redis (kv_key ''app/k'') d' = r_get mem_redis (kv_key ''app/k'') ref_src"
    using restore_keeps_existing [OF mem_store.redis_store_axioms disjI1 [OF r], of "kv_key ''app/k''"] by blast
  with r show ?thesis by (simp add: ref_src_get kv_key_def)
qed

text \<open>
  C28. Backup then restore reproduces the data: after the document of a whole backup is restored
  with overwriting into any store, every value of the source has the same bytes and is flagged
  encrypted exactly if it was, and every queue of the source has the same entries with the same
  identifiers.
\<close>

theorem backup_restore_reproduces:
  assumes "redis_store R entries"
    and "backup_whole R E rescue admin now logs src = Inr (doc, headers)"
    and "e_loads E body = Some doc"
    and "restore_whole R E rescue2 admin2 body True dst = (Inr result, dst')"
  shows "(\<forall>key v. r_get R (kv_key key) src = Some v \<and> \<not> suffix '':enc'' key \<longrightarrow>
      r_get R (kv_key key) dst' = Some v \<and>
      (r_get R (enc_key key) dst' \<noteq> None \<longleftrightarrow> r_exists R (enc_key key) src)) \<and>
    (\<forall>topic. r_exists R (q_key topic) src \<longrightarrow> entries (q_key topic) dst' = entries (q_key topic) src)"
proof -
  from assms(2) obtain env where "collect_whole_envelope R E now logs src = Inr env" and doc: "doc = to_json env"
    by (auto simp: backup_whole_def bind_res_Inr_iff)
  then have ekv: "env_kv env = collect_kv R None src" and eq: "collect_queues R None src = Inr (env_queues env)"
    by (auto simp: collect_whole_envelope_def collect_sections_def bind_res_Inr_iff split: if_splits)
  from assms(3,4) obtain env' where env': "from_json E doc = Inr env'"
    and ap: "apply_envelope R E True None env' dst = (Inr result, dst')"
    by (auto simp: restore_whole_def lift_res_cases parse_body_def split: if_splits sum.splits)
  note secs = from_to_json_sections [OF env' [unfolded doc]]
  obtain r2 d2 r3 d3 where kv: "apply_all (apply_kv R True None) (collect_kv R None src) r2 d2 = (Inr r3, d3)"
    and kvs: "\<And>key. redis_store.same_at R entries (kv_key key) d3 dst'" "\<And>key. redis_store.same_at R entries (enc_key key) d3 dst'"
    using redis_store.restore_kv_part [OF assms(1) ap] by (auto simp: secs ekv)
  obtain r4 d4 r5 d5 where q: "apply_all (apply_queue R True None) (env_queues env) r4 d4 = (Inr r5, d5)"
    and qs: "\<And>t. redis_store.same_at R entries (q_key t) d5 dst'"
    using redis_store.restore_queue_part [OF assms(1) ap] by (auto simp: secs)
  note same = redis_store.same_at_def [OF assms(1)] and mem = redis_store.collect_kv_mem [OF assms(1)]
  show ?thesis
  proof (intro conjI allI impI)
    fix key v assume h: "r_get R (kv_key key) src = Some v \<and> \<not> suffix '':enc'' key"
    let ?rec = "\<lparr>kr_value = v, kr_encrypted = (key \<in> set (enc_flags (r_keys R ''kv:*'' src)))\<rparr>"
    have has: "(key, ?rec) \<in> set (collect_kv R None src)"
      using redis_store.collect_kv_has [OF assms(1)] h by blast
    have one: "\<forall>rec. (key, rec) \<in> set (collect_kv R None src) \<longrightarrow> rec = ?rec"
      using mem h by fastforce
    have "\<forall>(k, rec) \<in> set (collect_kv R None src). \<not> suffix '':enc'' k" using mem by blast
    from redis_store.kv_loop [OF assms(1) kv this one has]
    show "r_get R (kv_key key) dst' = Some v" "r_get R (enc_key key) dst' \<noteq> None \<longleftrightarrow> r_exists R (enc_key key) src"
      using kvs same redis_store.enc_flags_iff [OF assms(1), of key src] by auto
  next
    fix topic assume h: "r_exists R (q_key topic) src"
    note qm = redis_store.collect_queues_mem [OF assms(1) eq]
    have "entries (q_key topic) d5 = entries (q_key topic) src"
      by (rule redis_store.queue_loop [OF assms(1) q])
        (use qm h redis_store.entries_sorted [OF assms(1)] redis_store.entries_pos [OF assms(1)]
          redis_store.entries_fields [OF assms(1)] in blast)+
    with qs same show "entries (q_key topic) dst' = entries (q_key topic) src" by metis
  qed
qed

theorem backup_restore_reproduces_witness:
  "\<exists>res dst. restore_whole mem_redis ref_ext [''ann''] (Some ''ann'') ref_body True [] = (Inr res, dst) \<and>
    r_get mem_redis (kv_key ''app/k'') dst = Some ''v''"
proof -
  obtain res dst where r: "restore_whole mem_redis ref_ext [''ann''] (Some ''ann'') ref_body True [] = (Inr res, dst)"
    using ref_restore_whole by blast
  have l: "e_loads ref_ext ref_body = Some (to_json ref_env)" by (simp add: ref_body_def ref_ext_def)
  have "r_get mem_redis (kv_key ''app/k'') ref_src = Some ''v'' \<and> \<not> suffix '':enc'' ''app/k''"
    by (simp add: ref_src_get kv_key_def suffix_def)
  with backup_restore_reproduces [OF mem_store.redis_store_axioms ref_backup l r] r show ?thesis by blast
qed

end
