(* ===== verification/AdminApi.thy ===== *)
theory AdminApi
  imports BackupIO
begin

text \<open>
  The administrative API as a whole: the release endpoint with \<open>core/version.py\<close>, the operations of
  \<open>api/routes_admin.py\<close> under one roof, and what any of them may change for whom.

  FastAPI decodes the parameters of a request; the decoded ones are the record \<open>admin_args\<close>, and
  path parameters come by name. What the process runs on (store, codecs, clock, random bytes,
  password files) is the record \<open>server\<close>.
\<close>

subsection \<open>The release\<close>

text \<open>\<open>get_release_version\<close> with its cache; the argument is the file, when it can be read.\<close>

definition RELEASE_FALLBACK :: string where
  "RELEASE_FALLBACK = ''dev''"

definition get_release_version :: "string option \<Rightarrow> string option \<Rightarrow> string \<times> string option" where
  "get_release_version version_file cached =
     (case cached of
        Some v \<Rightarrow> (v, cached)
      | None \<Rightarrow>
         (case version_file of
            None \<Rightarrow> (RELEASE_FALLBACK, Some RELEASE_FALLBACK)
          | Some text \<Rightarrow>
             (let raw = strip text; v = (if raw \<noteq> [] then raw else RELEASE_FALLBACK) in (v, Some v))))"

text \<open>The first answer stands for the life of the process, whatever becomes of the file.\<close>

lemma release_stable:
  assumes "get_release_version f c = (v, c')"
  shows "get_release_version f' c' = (v, c')" and "c = None \<Longrightarrow> v \<noteq> []"
  using assms by (auto simp: get_release_version_def RELEASE_FALLBACK_def Let_def split: option.splits if_splits)

definition get_release ::
    "'db redis \<Rightarrow> ext \<Rightarrow> string list \<Rightarrow> string \<Rightarrow> string option \<Rightarrow> 'db \<Rightarrow> pyval res" where
  "get_release R E rescue version admin_user d =
     bind_res (get_admin_context R E rescue admin_user d) (\<lambda>_.
     Inr (PDict [(''version'', PStr version)]))"

subsection \<open>The operations\<close>

datatype admin_op =
    GetRelease | ListVisibleClients | ListKeys | ListAdminsForDevice | CreateClient | ProvisionDevice
  | UpdateAcl | RevokeClient | ListAdminUsers | UpdateAdminUserAcl | DeleteAdminUserAcl
  | SecurityWarnings | GetMe | GetStats | PeekQueue | ScanKv | ListCatalogDevices | PeekKv | SetKv
  | AdminDeleteKv | DeleteQueue | GetLogs | BackupKeys | RestoreKeys | BackupWhole | BackupPerApp
  | RestoreWhole | RestorePerApp | GetPerfLog | StreamMonitor | DumpHeartbeats

text \<open>The method each is registered under.\<close>

definition admin_method :: "admin_op \<Rightarrow> string" where
  "admin_method op =
     (case op of
        CreateClient \<Rightarrow> ''POST'' | ProvisionDevice \<Rightarrow> ''POST'' | SetKv \<Rightarrow> ''POST'' | RestoreKeys \<Rightarrow> ''POST''
      | RestoreWhole \<Rightarrow> ''POST'' | RestorePerApp \<Rightarrow> ''POST'' | UpdateAcl \<Rightarrow> ''PUT'' | UpdateAdminUserAcl \<Rightarrow> ''PUT''
      | RevokeClient \<Rightarrow> ''DELETE'' | DeleteAdminUserAcl \<Rightarrow> ''DELETE'' | AdminDeleteKv \<Rightarrow> ''DELETE''
      | DeleteQueue \<Rightarrow> ''DELETE'' | _ \<Rightarrow> ''GET'')"

record 'db server =
  sv_redis :: "'db redis"
  sv_ext :: ext
  sv_rescue :: "string list"
  sv_now :: int
  sv_now_iso :: string
  sv_iso_time :: "int \<Rightarrow> string"
  sv_random :: string
  sv_version :: string
  sv_htpasswd :: "string option"
  sv_htpasswd_default :: "string option"

record admin_args =
  aa_client_id :: string                      \<comment> \<open>\<open>ClientCreate\<close>, \<open>DeviceProvision\<close>\<close>
  aa_app :: string
  aa_permissions :: "perm list"               \<comment> \<open>\<open>AclUpdate\<close>\<close>
  aa_value :: string                          \<comment> \<open>\<open>KVPayload\<close>\<close>
  aa_encrypted :: bool
  aa_clients :: "(string \<times> client_record) list"  \<comment> \<open>\<open>BackupPayload\<close>\<close>
  aa_body :: string
  aa_prefix :: string
  aa_limit :: int
  aa_wanted :: "string list"
  aa_min_ms :: rat
  aa_include_logs :: bool
  aa_force :: bool

datatype answer =
    Json pyval
  | Attachment pyval "(string \<times> string) list"
  | Names "string list"
  | Restored restore_result
  | RestoredKeys section_result
  | JsonLines "string list"

definition reading :: "('a \<Rightarrow> answer) \<Rightarrow> 'a res \<Rightarrow> 'db \<Rightarrow> (answer res \<times> 'db) option" where
  "reading f r d = Some (bind_res r (\<lambda>x. Inr (f x)), d)"

definition changing :: "('a \<Rightarrow> answer) \<Rightarrow> 'a res \<times> 'db \<Rightarrow> (answer res \<times> 'db) option" where
  "changing f rd = Some (bind_res (fst rd) (\<lambda>x. Inr (f x)), snd rd)"

definition run_admin ::
    "'db server \<Rightarrow> admin_op \<Rightarrow> (string \<Rightarrow> string) \<Rightarrow> admin_args \<Rightarrow> string option \<Rightarrow> 'db \<Rightarrow> (answer res \<times> 'db) option" where
  "run_admin S op par a u d =
     (let R = sv_redis S; E = sv_ext S; resc = sv_rescue S in
      case op of
        GetRelease \<Rightarrow> reading Json (get_release R E resc (sv_version S) u d) d
      | ListVisibleClients \<Rightarrow> reading Names (list_visible_clients R E resc u d) d
      | ListKeys \<Rightarrow> reading Json (list_keys R E resc u d) d
      | ListAdminsForDevice \<Rightarrow> reading Json (list_admins_for_device R E resc u (par ''client_id'') d) d
      | CreateClient \<Rightarrow> changing Json (create_client R E resc u (generate_secret (sv_random S)) (aa_client_id a) d)
      | ProvisionDevice \<Rightarrow>
          changing Json (provision_device R E resc u (generate_secret (sv_random S)) (aa_client_id a) (aa_app a) d)
      | UpdateAcl \<Rightarrow> changing Json (update_acl R E resc u (par ''client_id'') (aa_permissions a) d)
      | RevokeClient \<Rightarrow> changing Json (revoke_client R E resc u (par ''client_id'') d)
      | ListAdminUsers \<Rightarrow> reading Json (list_admin_users R E resc (sv_htpasswd S) u d) d
      | UpdateAdminUserAcl \<Rightarrow> changing Json (update_admin_user_acl R E resc u (par ''username'') (aa_permissions a) d)
      | DeleteAdminUserAcl \<Rightarrow> changing Json (delete_admin_user_acl R E resc u (par ''username'') d)
      | SecurityWarnings \<Rightarrow>
          reading Json (security_warnings R E resc (sv_htpasswd S) (sv_htpasswd_default S) u d) d
      | GetMe \<Rightarrow> reading Json (get_me R E resc u d) d
      | GetStats \<Rightarrow> reading Json (get_stats R E resc u d) d
      | PeekQueue \<Rightarrow> reading Json (peek_queue R E resc u (par ''topic'') d) d
      | ScanKv \<Rightarrow> reading Json (scan_kv R E resc u (aa_prefix a) (aa_limit a) d) d
      | ListCatalogDevices \<Rightarrow> reading Json (list_catalog_devices R E resc u (par ''app'') d) d
      | PeekKv \<Rightarrow> reading Json (peek_kv R E resc u (par ''key'') d) d
      | SetKv \<Rightarrow> changing Json (set_kv R E resc u (par ''key'') (aa_value a) (aa_encrypted a) d)
      | AdminDeleteKv \<Rightarrow> changing Json (admin_delete_kv R E resc u (par ''key'') d)
      | DeleteQueue \<Rightarrow> changing Json (delete_queue R E resc u (par ''topic'') d)
      | GetLogs \<Rightarrow> reading Json (get_logs R E resc u (aa_limit a) (aa_wanted a) d) d
      | BackupKeys \<Rightarrow>
          reading (\<lambda>doc. Attachment doc [(''Content-Disposition'', ''attachment; filename=stra2us_backup.json'')])
            (backup_keys R E resc u (sv_now S) d) d
      | RestoreKeys \<Rightarrow> changing RestoredKeys (restore_keys R E resc u (aa_clients a) (aa_force a) d)
      | BackupWhole \<Rightarrow>
          reading (\<lambda>(doc, hs). Attachment doc hs) (backup_whole R E resc u (sv_now_iso S) (aa_include_logs a) d) d
      | BackupPerApp \<Rightarrow>
          reading (\<lambda>(doc, hs). Attachment doc hs)
            (backup_per_app R E resc u (sv_now_iso S) (par ''app'') (aa_include_logs a) d) d
      | RestoreWhole \<Rightarrow> changing Restored (restore_whole R E resc u (aa_body a) (aa_force a) d)
      | RestorePerApp \<Rightarrow> changing Restored (restore_per_app R E resc u (par ''app'') (aa_body a) (aa_force a) d)
      | GetPerfLog \<Rightarrow> reading Json (get_perf_log R E resc u (aa_limit a) (aa_prefix a) (aa_min_ms a) d) d
      | StreamMonitor \<Rightarrow>
          reading Json (stream_monitor R E resc u (sv_now S) (par ''topic'') (aa_limit a) (aa_wanted a) d) d
      | DumpHeartbeats \<Rightarrow>
          (case dump_heartbeats R E resc u (sv_iso_time S) (sv_now_iso S) (par ''client_id'') d of
             None \<Rightarrow> None
           | Some r \<Rightarrow> reading JsonLines r d))"

subsection \<open>Every operation is guarded\<close>

lemma reading_simps [simp]: "reading f r d = Some (x, d') \<longleftrightarrow> d' = d \<and> x = bind_res r (\<lambda>y. Inr (f y))"
  by (auto simp: reading_def)

lemma changing_store [simp]: "changing f rd = Some (x, d') \<longleftrightarrow> d' = snd rd \<and> x = bind_res (fst rd) (\<lambda>y. Inr (f y))"
  by (auto simp: changing_def)

lemma snd_lift_res: "snd (lift_res m d f) = (case m of Inl _ \<Rightarrow> d | Inr v \<Rightarrow> snd (f v))"
  by (cases m) simp_all

lemma fst_lift_res: "fst (lift_res m d f) = (case m of Inl e \<Rightarrow> Inl e | Inr v \<Rightarrow> fst (f v))"
  by (cases m) simp_all

lemma get_requests_read:
  assumes "admin_method op = ''GET''" and "run_admin S op par a u d = Some (r, d')"
  shows "d' = d"
  using assms
  by (cases op) (auto simp: run_admin_def admin_method_def Let_def split: option.splits)

text \<open>The refusal every operation gives when there is no user.\<close>

definition no_session :: exn where
  "no_session = HTTPException 401 ''Admin session required''"

lemma no_context:
  assumes "u = None \<or> u = Some []"
  shows "get_admin_context R E resc u d = Inl no_session"
    "require_admin_superuser R E resc u d = Inl no_session"
    "require_admin_kv R E resc m u key d = Inl no_session"
    "require_admin_queue R E resc m u topic d = Inl no_session"
  using assms
  by (auto simp: get_admin_context_def require_admin_superuser_def require_admin_kv_def
      require_admin_queue_def no_session_def)

lemmas admin_handlers =
  get_release_def list_visible_clients_def list_keys_def list_admins_for_device_def create_client_def
  provision_device_def update_acl_def revoke_client_def list_admin_users_def update_admin_user_acl_def
  delete_admin_user_acl_def security_warnings_def get_me_def get_stats_def peek_queue_def scan_kv_def
  list_catalog_devices_def peek_kv_def set_kv_def admin_delete_kv_def delete_queue_def get_logs_def
  backup_keys_def restore_keys_def backup_whole_def backup_per_app_def restore_whole_def
  restore_per_app_def get_perf_log_def stream_monitor_def dump_heartbeats_def

lemma no_session_refused:
  assumes "u = None \<or> u = Some []"
  shows "run_admin S op par a u d = Some (Inl no_session, d)"
  by (cases op)
    (simp_all add: no_context [OF assms] run_admin_def Let_def admin_handlers reading_def changing_def bind_res_def lift_res_def)

lemma lift_res_changed: "snd (lift_res m d f) \<noteq> d \<Longrightarrow> \<exists>v. m = Inr v \<and> snd (lift_res m d f) = snd (f v)"
  by (cases m) simp_all

text \<open>Three operations change the store for an administrator who is not a superuser.\<close>

definition scoped_ops :: "admin_op list" where
  "scoped_ops = [SetKv, AdminDeleteKv, DeleteQueue]"

lemma superuser_changes:
  assumes "op \<notin> set scoped_ops" and "run_admin S op par a u d = Some (r, d')" and "d' \<noteq> d"
  shows "\<exists>ctx. require_admin_superuser (sv_redis S) (sv_ext S) (sv_rescue S) u d = Inr ctx"
proof (cases "admin_method op = ''GET''")
  case True
  with get_requests_read [OF True assms(2)] assms(3) show ?thesis by simp
next
  case False
  then show ?thesis
    using assms
    by (cases op)
      (auto simp: scoped_ops_def admin_method_def run_admin_def Let_def admin_handlers dest!: lift_res_changed)
qed

lemma require_kv_Inr:
  assumes "require_admin_kv R E resc m u key d = Inr ctx"
  shows "get_admin_context R E resc u d = Inr ctx" "check_acl ctx (''kv/'' @ key) m = Inr ()"
  using assms by (auto simp: require_admin_kv_def bind_res_Inr_iff)

lemma require_queue_Inr:
  assumes "require_admin_queue R E resc m u topic d = Inr ctx"
  shows "get_admin_context R E resc u d = Inr ctx" "check_acl ctx (''q/'' @ topic) m = Inr ()"
  using assms by (auto simp: require_admin_queue_def bind_res_Inr_iff)

text \<open>What a user who is not a superuser may change.\<close>

definition writable :: "client_ctx \<Rightarrow> string \<Rightarrow> bool" where
  "writable ctx k \<longleftrightarrow>
     (\<exists>key. check_acl ctx (''kv/'' @ key) WriteMode = Inr () \<and> k \<in> {kv_key key, enc_key key}) \<or>
     (\<exists>topic. check_acl ctx (''q/'' @ topic) WriteMode = Inr () \<and> k = q_key topic)"

context redis_store
begin

lemma enc_flag_frame:
  assumes "k \<noteq> enc_key key"
  shows "r_get R k (set_enc_flag R key b d) = r_get R k d" "entries k (set_enc_flag R key b d) = entries k d"
  using assms by (simp_all add: set_enc_flag_def get_set get_del entries_set entries_del)

lemma scoped_changes:
  assumes S: "sv_redis S = R" and op: "op \<in> set scoped_ops" and run: "run_admin S op par a u d = Some (r, d')"
    and ch: "r_get R k d' \<noteq> r_get R k d \<or> entries k d' \<noteq> entries k d"
  shows "\<exists>ctx. get_admin_context R (sv_ext S) (sv_rescue S) u d = Inr ctx \<and> writable ctx k"
proof -
  have ne: "d' \<noteq> d" using ch by auto
  consider (set) "op = SetKv" | (del) "op = AdminDeleteKv" | (queue) "op = DeleteQueue"
    using op by (auto simp: scoped_ops_def)
  then show ?thesis
  proof cases
    case set
    with run S have d': "d' = snd (set_kv R (sv_ext S) (sv_rescue S) u (par ''key'') (aa_value a) (aa_encrypted a) d)"
      by (simp add: run_admin_def Let_def)
    with ne obtain ctx where ctx: "require_admin_kv R (sv_ext S) (sv_rescue S) WriteMode u (par ''key'') d = Inr ctx"
      unfolding set_kv_def by (auto dest: lift_res_changed)
    have "k \<in> {kv_key (par ''key''), enc_key (par ''key'')}"
    proof (rule ccontr)
      assume "k \<notin> {kv_key (par ''key''), enc_key (par ''key'')}"
      then show False using ch
        by (auto simp: d' set_kv_def ctx snd_lift_res enc_flag_frame get_set entries_set Let_def split: sum.splits)
    qed
    with require_kv_Inr [OF ctx] show ?thesis unfolding writable_def by blast
  next
    case del
    with run S have d': "d' = snd (admin_delete_kv R (sv_ext S) (sv_rescue S) u (par ''key'') d)"
      by (simp add: run_admin_def Let_def)
    with ne obtain ctx where ctx: "require_admin_kv R (sv_ext S) (sv_rescue S) WriteMode u (par ''key'') d = Inr ctx"
      unfolding admin_delete_kv_def by (auto dest: lift_res_changed)
    have "k \<in> {kv_key (par ''key''), enc_key (par ''key'')}"
      using ch by (auto simp: d' admin_delete_kv_def ctx get_del entries_del split: if_splits)
    with require_kv_Inr [OF ctx] show ?thesis unfolding writable_def by blast
  next
    case queue
    with run S have d': "d' = snd (delete_queue R (sv_ext S) (sv_rescue S) u (par ''topic'') d)"
      by (simp add: run_admin_def Let_def)
    with ne obtain ctx where ctx: "require_admin_queue R (sv_ext S) (sv_rescue S) WriteMode u (par ''topic'') d = Inr ctx"
      unfolding delete_queue_def by (auto dest: lift_res_changed)
    have "k = q_key (par ''topic'')"
      using ch by (auto simp: d' delete_queue_def ctx get_del entries_del split: if_splits)
    with require_queue_Inr [OF ctx] show ?thesis unfolding writable_def by blast
  qed
qed

lemma run_admin_returns:
  assumes S: "sv_redis S = R"
  shows "\<exists>x. run_admin S op par a u d = Some x"
proof (cases "op = DumpHeartbeats")
  case True
  then show ?thesis
    by (auto simp: run_admin_def Let_def S dump_heartbeats_def heartbeats_spec reading_def split: sum.splits)
next
  case False
  then show ?thesis by (cases op) (simp_all add: run_admin_def Let_def reading_def changing_def)
qed

end

text \<open>
  Every operation of the administrative API is guarded. It returns; without a user it answers
  401 and leaves the store alone; a GET never changes the store; and when any operation changes
  the record at a key, the user is a superuser, or has an access list that lets it write the value
  or the queue the key belongs to. In particular only a superuser changes credentials and access
  lists.
\<close>

lemma admin_api_guarded:
  assumes "redis_store (sv_redis S) entries"
  shows "(\<exists>r d'. run_admin S op par a u d = Some (r, d') \<and>
      (u = None \<or> u = Some [] \<longrightarrow> r = Inl no_session \<and> d' = d) \<and>
      (admin_method op = ''GET'' \<longrightarrow> d' = d) \<and>
      (\<forall>k. r_get (sv_redis S) k d' \<noteq> r_get (sv_redis S) k d \<or> entries k d' \<noteq> entries k d \<longrightarrow>
        (\<exists>ctx. require_admin_superuser (sv_redis S) (sv_ext S) (sv_rescue S) u d = Inr ctx) \<or>
        (\<exists>ctx. get_admin_context (sv_redis S) (sv_ext S) (sv_rescue S) u d = Inr ctx \<and> writable ctx k)))"
proof -
  obtain r d' where run: "run_admin S op par a u d = Some (r, d')"
    using redis_store.run_admin_returns [OF assms refl] by (metis surj_pair)
  have none: "u = None \<or> u = Some [] \<Longrightarrow> r = Inl no_session \<and> d' = d"
    using no_session_refused [of u S op par a d] run by simp
  have frame: "(\<exists>ctx. require_admin_superuser (sv_redis S) (sv_ext S) (sv_rescue S) u d = Inr ctx) \<or>
      (\<exists>ctx. get_admin_context (sv_redis S) (sv_ext S) (sv_rescue S) u d = Inr ctx \<and> writable ctx k)"
    if "r_get (sv_redis S) k d' \<noteq> r_get (sv_redis S) k d \<or> entries k d' \<noteq> entries k d" for k
  proof (cases "op \<in> set scoped_ops")
    case True
    from redis_store.scoped_changes [OF assms refl True run that] show ?thesis by (rule disjI2)
  next
    case False
    have "d' \<noteq> d" using that by auto
    from superuser_changes [OF False run this] show ?thesis by (rule disjI1)
  qed
  show ?thesis
    by (intro exI conjI allI impI, rule run) (simp_all add: none get_requests_read [OF _ run] frame)
qed

text \<open>A server for the concrete runs.\<close>

definition ref_server :: "mem server" where
  "ref_server = \<lparr>sv_redis = mem_redis, sv_ext = ref_ext, sv_rescue = [''ann''], sv_now = 100000, sv_now_iso = [],
     sv_iso_time = (\<lambda>_. []), sv_random = ''r'', sv_version = ''v1'', sv_htpasswd = None, sv_htpasswd_default = None\<rparr>"

definition ref_args :: admin_args where
  "ref_args = \<lparr>aa_client_id = ''dev'', aa_app = ''app'', aa_permissions = [], aa_value = [], aa_encrypted = False, aa_clients = [],
     aa_body = [], aa_prefix = [], aa_limit = 10, aa_wanted = [], aa_min_ms = 0, aa_include_logs = False, aa_force = False\<rparr>"

end
