(* ===== verification/Html.thy ===== *)
theory Html
  imports PyValue
begin

text \<open>
  HTML text: \<open>html.escape\<close> of the standard library, and a reference reading of the markup the
  renderers produce. A token is an opening tag with its attributes, a closing tag or a stretch
  of text; \<open>flat\<close> writes tokens out, \<open>lex\<close> reads them as a browser does the subset at hand (a
  tag ends at its bracket, a value at its double quote, entities are decoded). Reading back what
  was written gives the same tokens, whatever text is put in: no text can end its place early.
\<close>

subsection \<open>Escaping\<close>

definition esc_char :: "char \<Rightarrow> string" where
  \<open>esc_char c =
     (if c = CHR ''&'' then ''&amp;''
      else if c = CHR ''<'' then ''&lt;''
      else if c = CHR ''>'' then ''&gt;''
      else if c = CHR 0x22 then ''&quot;''
      else if c = CHR 0x27 then ''&#x27;''
      else [c])\<close>

definition html_escape :: "string \<Rightarrow> string" where
  "html_escape s = concat (map esc_char s)"

text \<open>The entities that escaping introduces, after their ampersand.\<close>

definition entities :: "(string \<times> char) list" where
  "entities = [(''amp;'', CHR ''&''), (''lt;'', CHR ''<''), (''gt;'', CHR ''>''), (''quot;'', CHR 0x22), (''#x27;'', CHR 0x27)]"

definition entity :: "string \<Rightarrow> (char \<times> string) option" where
  "entity s =
     (case find (\<lambda>(n, c). prefix n s) entities of
        None \<Rightarrow> None | Some (n, c) \<Rightarrow> Some (c, drop (length n) s))"

lemma entity_length: "entity s = Some (c, r) \<Longrightarrow> length r \<le> length s"
  by (auto simp: entity_def split: option.splits)

function unescape :: "string \<Rightarrow> string" where
  "unescape [] = []"
| "unescape (c # s) =
     (if c \<noteq> CHR ''&'' then c # unescape s
      else (case entity s of None \<Rightarrow> c # unescape s | Some (x, r) \<Rightarrow> x # unescape r))"
  by pat_completeness auto
termination
  by (relation "measure length") (auto dest: entity_length)

lemma unescape_esc_char: "unescape (esc_char c @ s) = c # unescape s"
  by (simp add: esc_char_def entity_def entities_def)

lemma unescape_escape [simp]: "unescape (html_escape s) = s"
  by (induction s) (simp_all add: html_escape_def unescape_esc_char)

lemma html_escape_simps [simp]:
  "html_escape [] = []" "html_escape (a @ b) = html_escape a @ html_escape b"
  by (simp_all add: html_escape_def)

lemma html_escape_Cons: "html_escape (c # s) = esc_char c @ html_escape s"
  by (simp add: html_escape_def)

lemma esc_char_plain: "c \<notin> {CHR ''&'', CHR ''<'', CHR ''>'', CHR 0x22, CHR 0x27} \<Longrightarrow> esc_char c = [c]"
  by (simp add: esc_char_def)

lemma escaped_chars: "c \<in> set (html_escape s) \<Longrightarrow> c \<notin> {CHR ''<'', CHR ''>'', CHR 0x22, CHR 0x27}"
  by (auto simp: html_escape_def esc_char_def split: if_splits)

lemma html_escape_eq_nil [simp]: "html_escape s = [] \<longleftrightarrow> s = []"
  by (cases s) (auto simp: html_escape_def esc_char_def)

subsection \<open>Tokens\<close>

datatype token =
    Open string "(string \<times> string option) list"     \<comment> \<open>tag, attributes; \<open>None\<close>: without a value\<close>
  | Close string
  | Text string

definition attr :: "string \<Rightarrow> string \<Rightarrow> string" where
  \<open>attr n v = n @ ''="'' @ html_escape v @ [CHR 0x22]\<close>

definition flat_attr :: "string \<times> string option \<Rightarrow> string" where
  "flat_attr = (\<lambda>(n, v). CHR '' '' # (case v of None \<Rightarrow> n | Some x \<Rightarrow> attr n x))"

fun flat_token :: "token \<Rightarrow> string" where
  "flat_token (Open n as) = CHR ''<'' # n @ concat (map flat_attr as) @ ''>''"
| "flat_token (Close n) = ''</'' @ n @ ''>''"
| "flat_token (Text s) = html_escape s"

definition flat :: "token list \<Rightarrow> string" where
  "flat ts = concat (map flat_token ts)"

lemma flat_simps [simp]:
  "flat [] = []" "flat (t # ts) = flat_token t @ flat ts" "flat (ts @ us) = flat ts @ flat us"
  by (simp_all add: flat_def)

subsection \<open>Reading markup\<close>

definition name_char :: "char \<Rightarrow> bool" where
  "name_char c \<longleftrightarrow> (let n = of_char c :: nat in (97 \<le> n \<and> n \<le> 122) \<or> c = CHR ''-'' \<or> (48 \<le> n \<and> n \<le> 57))"

definition html_name :: "string \<Rightarrow> bool" where
  "html_name s \<longleftrightarrow> s \<noteq> [] \<and> (\<forall>c \<in> set s. name_char c)"

text \<open>The attributes of a tag, to its closing bracket.\<close>

function lex_attrs :: "string \<Rightarrow> ((string \<times> string option) list \<times> string) option" where
  "lex_attrs s =
     (case s of [] \<Rightarrow> None
      | c # r \<Rightarrow>
         if c = CHR ''>'' then Some ([], r)
         else if c \<noteq> CHR '' '' then None
         else
           let n = takeWhile name_char r; r1 = dropWhile name_char r in
           if prefix [CHR ''='', CHR 0x22] r1 then
             let r2 = drop 2 r1; v = takeWhile (\<lambda>x. x \<noteq> CHR 0x22) r2; r3 = dropWhile (\<lambda>x. x \<noteq> CHR 0x22) r2 in
             (if r3 = [] then None
              else map_option (\<lambda>(as, rest). ((n, Some (unescape v)) # as, rest)) (lex_attrs (tl r3)))
           else map_option (\<lambda>(as, rest). ((n, None) # as, rest)) (lex_attrs r1))"
  by pat_completeness auto
termination
proof (relation "measure length", goal_cases)
  case (2 s c r n r1 r2 v r3)
  have "length r1 \<le> length r" "length r3 \<le> length r2"
    using 2 length_dropWhile_le by metis+
  moreover have "length r2 \<le> length r1" using 2 by simp
  ultimately have "length (tl r3) \<le> length r" by simp
  then show ?case using 2(1) by simp
next
  case (3 s c r n r1)
  then show ?case by (simp add: length_dropWhile_le le_imp_less_Suc)
qed simp

declare lex_attrs.simps [simp del]

lemma lex_attrs_Nil [simp]: "lex_attrs [] = None"
  by (simp add: lex_attrs.simps)

lemma lex_attrs_Cons:
  "lex_attrs (c # r) =
     (if c = CHR ''>'' then Some ([], r)
      else if c \<noteq> CHR '' '' then None
      else
        let n = takeWhile name_char r; r1 = dropWhile name_char r in
        if prefix [CHR ''='', CHR 0x22] r1 then
          let r2 = drop 2 r1; v = takeWhile (\<lambda>x. x \<noteq> CHR 0x22) r2; r3 = dropWhile (\<lambda>x. x \<noteq> CHR 0x22) r2 in
          (if r3 = [] then None
           else map_option (\<lambda>(as, rest). ((n, Some (unescape v)) # as, rest)) (lex_attrs (tl r3)))
        else map_option (\<lambda>(as, rest). ((n, None) # as, rest)) (lex_attrs r1))"
  by (subst lex_attrs.simps) simp

lemma lex_attrs_length: "lex_attrs s = Some (as, r) \<Longrightarrow> length r < length s"
proof (induction s arbitrary: as r rule: lex_attrs.induct)
  case (1 s)
  show ?case
  proof (cases s)
    case (Cons c s')
    let ?r1 = "dropWhile name_char s'"
    let ?r3 = "dropWhile (\<lambda>x. x \<noteq> CHR 0x22) (drop 2 ?r1)"
    have l: "length ?r1 \<le> length s'" "length ?r3 \<le> length (drop 2 ?r1)"
      by (rule length_dropWhile_le)+
    consider "c = CHR ''>''" | "c = CHR '' ''" "prefix [CHR ''='', CHR 0x22] ?r1"
      | "c = CHR '' ''" "\<not> prefix [CHR ''='', CHR 0x22] ?r1"
    proof -
      have "c = CHR ''>'' \<or> c = CHR '' ''"
        using "1.prems" Cons by (auto simp: lex_attrs_Cons split: if_splits)
      with that show thesis by blast
    qed
    then show ?thesis
    proof cases
      case 1
      with Cons "1.prems" show ?thesis by (simp add: lex_attrs_Cons)
    next
      case 2
      with Cons "1.prems" obtain bs where "?r3 \<noteq> []" "lex_attrs (tl ?r3) = Some (bs, r)"
        by (auto simp: lex_attrs_Cons Let_def split: if_splits)
      with "1.IH"(1) [OF Cons _ _ refl refl _ refl refl refl] 2 have "length r < length (tl ?r3)" by simp
      with l Cons show ?thesis by simp
    next
      case 3
      with Cons "1.prems" obtain bs where "lex_attrs ?r1 = Some (bs, r)"
        by (auto simp: lex_attrs_Cons Let_def split: if_splits)
      with "1.IH"(2) [OF Cons _ _ refl refl] 3 have "length r < length ?r1" by simp
      with l Cons show ?thesis by simp
    qed
  qed (use 1 in simp)
qed

text \<open>The tokens of a document; \<open>None\<close> for an unfinished tag.\<close>

function lex :: "string \<Rightarrow> token list option" where
  "lex s =
     (case s of [] \<Rightarrow> Some []
      | c # r \<Rightarrow>
         if c \<noteq> CHR ''<'' then
           map_option (\<lambda>ts. Text (unescape (takeWhile (\<lambda>x. x \<noteq> CHR ''<'') s)) # ts)
             (lex (dropWhile (\<lambda>x. x \<noteq> CHR ''<'') r))
         else if prefix ''/'' r then
           let n = takeWhile name_char (tl r); r1 = dropWhile name_char (tl r) in
           if prefix ''>'' r1 then map_option (\<lambda>ts. Close n # ts) (lex (tl r1)) else None
         else
           (case lex_attrs (dropWhile name_char r) of
              None \<Rightarrow> None
            | Some (as, r1) \<Rightarrow> map_option (\<lambda>ts. Open (takeWhile name_char r) as # ts) (lex r1)))"
  by pat_completeness auto
termination
proof (relation "measure length", goal_cases)
  case (2 s c r)
  then show ?case by (simp add: length_dropWhile_le le_imp_less_Suc)
next
  case (3 s c r n r1)
  have "length r1 \<le> length (tl r)" using 3 length_dropWhile_le by metis
  with 3 show ?case by simp
next
  case (4 s c r p as r1)
  then have "length r1 < length (dropWhile name_char r)" using lex_attrs_length by metis
  also have "\<dots> \<le> length r" by (rule length_dropWhile_le)
  finally show ?case using 4 by simp
qed simp

declare lex.simps [simp del]

lemma lex_Nil [simp]: "lex [] = Some []"
  by (simp add: lex.simps)

lemma lex_Cons:
  "lex (c # r) =
     (if c \<noteq> CHR ''<'' then
        map_option (\<lambda>ts. Text (unescape (takeWhile (\<lambda>x. x \<noteq> CHR ''<'') (c # r))) # ts)
          (lex (dropWhile (\<lambda>x. x \<noteq> CHR ''<'') r))
      else if prefix ''/'' r then
        let n = takeWhile name_char (tl r); r1 = dropWhile name_char (tl r) in
        if prefix ''>'' r1 then map_option (\<lambda>ts. Close n # ts) (lex (tl r1)) else None
      else
        (case lex_attrs (dropWhile name_char r) of
           None \<Rightarrow> None
         | Some (as, r1) \<Rightarrow> map_option (\<lambda>ts. Open (takeWhile name_char r) as # ts) (lex r1)))"
  by (subst lex.simps) simp

subsection \<open>What is written is read back\<close>

definition wf_attr :: "string \<times> string option \<Rightarrow> bool" where
  "wf_attr a \<longleftrightarrow> html_name (fst a)"

fun wf_token :: "token \<Rightarrow> bool" where
  "wf_token (Open n as) = (html_name n \<and> (\<forall>a \<in> set as. wf_attr a))"
| "wf_token (Close n) = html_name n"
| "wf_token (Text s) = (s \<noteq> [])"

fun is_text :: "token \<Rightarrow> bool" where
  "is_text (Text s) = True"
| "is_text _ = False"

text \<open>No two stretches of text side by side, none empty.\<close>

fun wf_tokens :: "token list \<Rightarrow> bool" where
  "wf_tokens [] = True"
| "wf_tokens (t # ts) = (wf_token t \<and> (is_text t \<longrightarrow> (case ts of [] \<Rightarrow> True | u # us \<Rightarrow> \<not> is_text u)) \<and> wf_tokens ts)"

lemma name_char_not [simp]:
  "\<not> name_char CHR ''>''" "\<not> name_char CHR '' ''" "\<not> name_char CHR ''=''" "\<not> name_char CHR ''/''"
  by (simp_all add: name_char_def)

lemma take_name: "\<forall>c \<in> set n. name_char c \<Longrightarrow> \<not> name_char x \<Longrightarrow>
    takeWhile name_char (n @ x # r) = n \<and> dropWhile name_char (n @ x # r) = x # r"
  by (simp add: takeWhile_append2 dropWhile_append2)

lemma take_quoted:
  "takeWhile (\<lambda>x. x \<noteq> CHR 0x22) (html_escape v @ CHR 0x22 # r) = html_escape v \<and>
   dropWhile (\<lambda>x. x \<noteq> CHR 0x22) (html_escape v @ CHR 0x22 # r) = CHR 0x22 # r"
proof -
  have "\<forall>c \<in> set (html_escape v). c \<noteq> CHR 0x22" using escaped_chars by blast
  then show ?thesis by (simp add: takeWhile_append2 dropWhile_append2)
qed

lemma lex_attrs_flat:
  assumes "\<forall>a \<in> set as. wf_attr a"
  shows "lex_attrs (concat (map flat_attr as) @ CHR ''>'' # r) = Some (as, r)"
  using assms
proof (induction as)
  case Nil
  show ?case by (simp add: lex_attrs_Cons)
next
  case (Cons a as)
  obtain n v where a: "a = (n, v)" by force
  let ?rest = "concat (map flat_attr as) @ CHR ''>'' # r"
  have n: "\<forall>c \<in> set n. name_char c" using Cons.prems a by (simp add: wf_attr_def html_name_def)
  have IH: "lex_attrs ?rest = Some (as, r)" using Cons by simp
  have hd: "\<exists>x t. ?rest = x # t \<and> x \<in> {CHR '' '', CHR ''>''}"
    by (cases as) (auto simp: flat_attr_def)
  show ?case
  proof (cases v)
    case None
    from hd obtain x t where x: "?rest = x # t" "x \<in> {CHR '' '', CHR ''>''}" by blast
    have "takeWhile name_char (n @ ?rest) = n \<and> dropWhile name_char (n @ ?rest) = ?rest"
      unfolding x(1) by (rule take_name [OF n]) (use x(2) in auto)
    moreover have "\<not> prefix [CHR ''='', CHR 0x22] ?rest" using x by auto
    ultimately show ?thesis
      using IH by (simp add: a None flat_attr_def lex_attrs_Cons Let_def)
  next
    case (Some w)
    have "takeWhile name_char (n @ CHR ''='' # CHR 0x22 # html_escape w @ CHR 0x22 # ?rest) = n \<and>
        dropWhile name_char (n @ CHR ''='' # CHR 0x22 # html_escape w @ CHR 0x22 # ?rest)
        = CHR ''='' # CHR 0x22 # html_escape w @ CHR 0x22 # ?rest"
      by (rule take_name [OF n]) simp
    then show ?thesis
      using IH take_quoted [of w ?rest]
      by (simp add: a Some flat_attr_def attr_def lex_attrs_Cons Let_def)
  qed
qed

lemma flat_not_text:
  assumes "wf_tokens ts" and "case ts of [] \<Rightarrow> True | u # us \<Rightarrow> \<not> is_text u"
  shows "flat ts = [] \<or> (\<exists>r. flat ts = CHR ''<'' # r)"
proof (cases ts)
  case (Cons t us)
  with assms show ?thesis by (cases t) simp_all
qed simp

lemma lex_flat: "wf_tokens ts \<Longrightarrow> lex (flat ts) = Some ts"
proof (induction ts)
  case (Cons t ts)
  then have IH: "lex (flat ts) = Some ts" by simp
  show ?case
  proof (cases t)
    case (Open n as)
    with Cons.prems have n: "\<forall>c \<in> set n. name_char c" "n \<noteq> []" and as: "\<forall>a \<in> set as. wf_attr a"
      by (simp_all add: html_name_def)
    let ?rest = "concat (map flat_attr as) @ CHR ''>'' # flat ts"
    obtain x u where x: "?rest = x # u" "\<not> name_char x"
      by (cases as) (auto simp: flat_attr_def)
    have "takeWhile name_char (n @ ?rest) = n \<and> dropWhile name_char (n @ ?rest) = ?rest"
      unfolding x(1) by (rule take_name [OF n(1) x(2)])
    moreover have "\<not> prefix ''/'' (n @ ?rest)"
      using n by (cases n) auto
    ultimately show ?thesis
      using IH lex_attrs_flat [OF as, of "flat ts"] by (simp add: Open lex_Cons)
  next
    case (Close n)
    with Cons.prems have "\<forall>c \<in> set n. name_char c" by (simp add: html_name_def)
    from take_name [OF this, of "CHR ''>''" "flat ts"] IH show ?thesis
      by (simp add: Close lex_Cons Let_def)
  next
    case (Text s)
    with Cons.prems have s: "s \<noteq> []" and nt: "case ts of [] \<Rightarrow> True | u # us \<Rightarrow> \<not> is_text u" and wf: "wf_tokens ts"
      by simp_all
    obtain c e where e: "html_escape s = c # e" using s by (cases "html_escape s") auto
    have esc: "\<forall>x \<in> set (html_escape s). x \<noteq> CHR ''<''" using escaped_chars by blast
    with e have c: "c \<noteq> CHR ''<''" "\<forall>x \<in> set e. x \<noteq> CHR ''<''" by auto
    have "takeWhile (\<lambda>x. x \<noteq> CHR ''<'') (c # e @ flat ts) = c # e \<and>
        dropWhile (\<lambda>x. x \<noteq> CHR ''<'') (e @ flat ts) = flat ts"
      using flat_not_text [OF wf nt]
    proof
      assume "flat ts = []"
      with c show ?thesis by (simp add: takeWhile_eq_all_conv [THEN iffD2] dropWhile_eq_Nil_conv [THEN iffD2])
    next
      assume "\<exists>r. flat ts = CHR ''<'' # r"
      then obtain r where "flat ts = CHR ''<'' # r" by blast
      with c show ?thesis by (simp add: takeWhile_append2 dropWhile_append2)
    qed
    then show ?thesis
      using IH c(1) unescape_escape [of s] by (simp add: Text e lex_Cons)
  qed
qed simp

end
