(* ===== verification/Widgets.thy ===== *)
theory Widgets
  imports Html AdminData
begin

text \<open>
  \<open>backend/src/services/widget_renderer.py\<close>: the form control of one catalog variable, by the
  dispatch on its type and hints, and the test whether a stored value is outside the catalog's
  constraints.

  A variable is the dict of the published catalog, which nothing has validated, so every
  operation on its entries keeps the exception it may raise. The current value is the string of
  the value resolution, or nothing. Matching a regular expression is the argument \<open>M\<close>
  (\<open>None\<close>: a malformed pattern).
\<close>

type_synonym var = "(string \<times> pyval) list"
type_synonym choice = "pyval \<times> string"

subsection \<open>Helpers\<close>

definition esc :: "ext \<Rightarrow> pyval \<Rightarrow> string" where
  "esc E v = html_escape (case v of PNone \<Rightarrow> [] | _ \<Rightarrow> py_str E v)"

text \<open>\<open>current if current is not None else ""\<close>, and \<open>str(current)\<close>.\<close>

definition cur_or_empty :: "string option \<Rightarrow> string" where
  "cur_or_empty current = (case current of None \<Rightarrow> [] | Some s \<Rightarrow> s)"

definition cur_str :: "string option \<Rightarrow> string" where
  "cur_str current = (case current of None \<Rightarrow> ''None'' | Some s \<Rightarrow> s)"

definition choice_of :: "ext \<Rightarrow> pyval \<Rightarrow> choice" where
  "choice_of E entry =
     (case entry of
        PDict d \<Rightarrow>
          (case (map_of d ''value'', map_of d ''label'') of
             (Some v, Some l) \<Rightarrow> (v, py_str E l)
           | _ \<Rightarrow> (entry, py_str E entry))
      | _ \<Rightarrow> (entry, py_str E entry))"

definition enum_choices :: "ext \<Rightarrow> var \<Rightarrow> choice list option res" where
  "enum_choices E var =
     (if truthy (dval var ''enum'')
      then bind_res (py_iter (dval var ''enum'')) (\<lambda>es. Inr (Some (map (choice_of E) es)))
      else if dval var ''type'' = PStr ''enum'' \<and> truthy (dval var ''values'')
      then bind_res (py_iter (dval var ''values'')) (\<lambda>vs. Inr (Some (map (\<lambda>v. (v, py_str E v)) vs)))
      else Inr None)"

definition effective_min :: "var \<Rightarrow> pyval" where
  "effective_min var =
     (if dval var ''min'' \<noteq> PNone then dval var ''min''
      else (case dval var ''range'' of PList (lo # _) \<Rightarrow> lo | _ \<Rightarrow> PNone))"

definition effective_max :: "var \<Rightarrow> pyval" where
  "effective_max var =
     (if dval var ''max'' \<noteq> PNone then dval var ''max''
      else (case dval var ''range'' of PList (_ # hi # _) \<Rightarrow> hi | _ \<Rightarrow> PNone))"

definition is_numeric :: "var \<Rightarrow> bool" where
  "is_numeric var \<longleftrightarrow> dval var ''type'' = PStr ''int'' \<or> dval var ''type'' = PStr ''float''"

text \<open>\<open>float(v)\<close>; \<open>None\<close> when it raises \<open>TypeError\<close> or \<open>ValueError\<close>.\<close>

definition py_to_float :: "pyval \<Rightarrow> rat option" where
  "py_to_float v =
     (case v of PInt i \<Rightarrow> Some (of_int i) | PBool b \<Rightarrow> Some (if b then 1 else 0) | PFloat r \<Rightarrow> Some r
      | PStr s \<Rightarrow> py_float s | PBytes s \<Rightarrow> py_float s | _ \<Rightarrow> None)"

definition float_res :: "pyval \<Rightarrow> rat res" where
  "float_res v =
     (case py_to_float v of
        Some r \<Rightarrow> Inr r
      | None \<Rightarrow> Inl (PyExn (case v of PStr _ \<Rightarrow> ''ValueError'' | PBytes _ \<Rightarrow> ''ValueError'' | _ \<Rightarrow> ''TypeError'')))"

subsection \<open>Values outside the constraints\<close>

definition above_max_length :: "var \<Rightarrow> string \<Rightarrow> bool res" where
  "above_max_length var s =
     (case dval var ''max_length'' of
        PNone \<Rightarrow> Inr False
      | PInt n \<Rightarrow> Inr (n < int (str_len s))
      | PBool b \<Rightarrow> Inr ((if b then 1 else 0) < str_len s)
      | PFloat r \<Rightarrow> Inr (r < of_nat (str_len s))
      | _ \<Rightarrow> Inl (PyExn ''TypeError''))"

definition fails_pattern :: "(string \<Rightarrow> string \<Rightarrow> bool option) \<Rightarrow> var \<Rightarrow> string \<Rightarrow> bool res" where
  "fails_pattern M var s =
     (case dval var ''pattern'' of
        PNone \<Rightarrow> Inr False
      | PStr p \<Rightarrow> Inr (M p s = Some False)
      | _ \<Rightarrow> Inl (PyExn ''TypeError''))"

definition is_off_spec ::
    "(string \<Rightarrow> string \<Rightarrow> bool option) \<Rightarrow> ext \<Rightarrow> var \<Rightarrow> string option \<Rightarrow> bool res" where
  "is_off_spec M E var current =
     (case current of None \<Rightarrow> Inr False
      | Some s \<Rightarrow>
     if s = [] then Inr False
     else
     bind_res (enum_choices E var) (\<lambda>choices.
     case choices of
       Some cs \<Rightarrow> Inr (PStr s \<notin> fst ` set cs \<and> s \<notin> (py_str E \<circ> fst) ` set cs)
     | None \<Rightarrow>
         if is_numeric var then
           (case py_to_float (PStr s) of
              None \<Rightarrow> Inr True
            | Some n \<Rightarrow>
                let lo = effective_min var; hi = effective_max var in
                bind_res (if lo \<noteq> PNone then bind_res (float_res lo) (\<lambda>l. Inr (n < l)) else Inr False) (\<lambda>low.
                if low then Inr True
                else if hi \<noteq> PNone then bind_res (float_res hi) (\<lambda>h. Inr (h < n)) else Inr False))
         else if dval var ''type'' = PStr ''string'' then
           bind_res (above_max_length var s) (\<lambda>long.
           if long then Inr True else fails_pattern M var s)
         else Inr False))"

subsection \<open>The renderers\<close>

definition write_only :: "var \<Rightarrow> bool" where
  "write_only var = truthy (dval var ''write_only'')"

definition common_attrs :: "string \<Rightarrow> string option \<Rightarrow> var \<Rightarrow> string" where
  \<open>common_attrs name current var =
     join '' ''
       ([attr ''name'' name, attr ''data-original'' (cur_or_empty current)]
        @ (if write_only var then [''data-write-only="true"''] else []))\<close>

definition help_text_attr :: "ext \<Rightarrow> var \<Rightarrow> string" where
  "help_text_attr E var =
     (let help_text = dval var ''help'' in
      if \<not> truthy help_text then []
      else '' '' @ attr ''title'' (strip (replace_all [NL] '' '' (py_str E help_text))))"

definition option_html :: "ext \<Rightarrow> string option \<Rightarrow> choice \<Rightarrow> string" where
  \<open>option_html E current = (\<lambda>(value, label).
     ''<option value="'' @ esc E value @ ''"''
     @ (if py_str E value = cur_str current then '' selected'' else [])
     @ ''>'' @ html_escape label @ ''</option>'')\<close>

definition render_select :: "ext \<Rightarrow> string \<Rightarrow> var \<Rightarrow> string option \<Rightarrow> choice list \<Rightarrow> string" where
  "render_select E name var current choices =
     ''<select '' @ common_attrs name current var @ help_text_attr E var @ ''>'' @ [NL]
     @ join [NL] (map (option_html E current) choices)
     @ [NL] @ ''</select>''"

definition radio_html :: "ext \<Rightarrow> string \<Rightarrow> var \<Rightarrow> string option \<Rightarrow> choice \<Rightarrow> string" where
  \<open>radio_html E name var current = (\<lambda>(value, label).
     ''<label class="radio-option"><input type="radio" name="'' @ html_escape name @ ''" value="'' @ esc E value @ ''"''
     @ (if py_str E value = cur_str current then '' checked'' else [])
     @ '' data-original="'' @ html_escape (cur_or_empty current) @ ''"''
     @ (if write_only var then '' data-write-only="true"'' else [])
     @ ''> '' @ html_escape label @ ''</label>'')\<close>

definition render_radio :: "ext \<Rightarrow> string \<Rightarrow> var \<Rightarrow> string option \<Rightarrow> choice list \<Rightarrow> string" where
  \<open>render_radio E name var current choices =
     ''<div class="radio-group" role="radiogroup">''
     @ concat (map (radio_html E name var current) choices) @ ''</div>''\<close>

definition render_number :: "ext \<Rightarrow> string \<Rightarrow> var \<Rightarrow> string option \<Rightarrow> string" where
  \<open>render_number E name var current =
     (let lo = effective_min var; hi = effective_max var; step = dval var ''step'' in
      join '' ''
        ([''<input type="number" '' @ common_attrs name current var]
         @ (if lo \<noteq> PNone then [attr ''min'' (py_str E lo)] else [])
         @ (if hi \<noteq> PNone then [attr ''max'' (py_str E hi)] else [])
         @ (if step \<noteq> PNone then [attr ''step'' (py_str E step)]
            else if dval var ''type'' = PStr ''float'' then [''step="any"''] else [])
         @ [attr ''value'' (cur_or_empty current)])
      @ help_text_attr E var @ ''>'')\<close>

text \<open>The value a slider shows: the current one, held within the bounds.\<close>

definition slider_value :: "ext \<Rightarrow> pyval \<Rightarrow> pyval \<Rightarrow> string option \<Rightarrow> string" where
  "slider_value E lo hi current =
     (case current of None \<Rightarrow> []
      | Some s \<Rightarrow>
     if s = [] then []
     else
     (case (py_to_float (PStr s), py_to_float lo) of
        (Some n, Some l) \<Rightarrow>
          if n < l then py_str E lo
          else (case py_to_float hi of
                  None \<Rightarrow> py_str E lo
                | Some h \<Rightarrow> if h < n then py_str E hi else s)
      | _ \<Rightarrow> py_str E lo))"

definition render_slider :: "ext \<Rightarrow> string \<Rightarrow> var \<Rightarrow> string option \<Rightarrow> string" where
  \<open>render_slider E name var current =
     (let lo = effective_min var; hi = effective_max var; step = dval var ''step'' in
      if lo = PNone \<or> hi = PNone then render_number E name var current
      else
        ''<input type="range" '' @ common_attrs name current var @ '' ''
        @ attr ''min'' (py_str E lo) @ '' '' @ attr ''max'' (py_str E hi)
        @ (if step \<noteq> PNone then '' '' @ attr ''step'' (py_str E step) else [])
        @ '' '' @ attr ''value'' (slider_value E lo hi current)
        @ help_text_attr E var @ ''>'')\<close>

definition max_length_attr :: "ext \<Rightarrow> var \<Rightarrow> string list" where
  "max_length_attr E var =
     (let max_len = dval var ''max_length'' in
      if max_len \<noteq> PNone then [attr ''maxlength'' (py_str E max_len)] else [])"

text \<open>What a write-only field shows is empty, whatever is stored.\<close>

definition shown :: "var \<Rightarrow> string option \<Rightarrow> string" where
  "shown var current = (if write_only var then [] else cur_or_empty current)"

definition render_textarea :: "ext \<Rightarrow> string \<Rightarrow> var \<Rightarrow> string option \<Rightarrow> string" where
  \<open>render_textarea E name var current =
     join '' '' ([''<textarea '' @ common_attrs name current var] @ max_length_attr E var @ [''rows="4"''])
     @ help_text_attr E var @ ''>'' @ html_escape (shown var current) @ ''</textarea>''\<close>

definition render_secret :: "ext \<Rightarrow> string \<Rightarrow> var \<Rightarrow> string option \<Rightarrow> string" where
  \<open>render_secret E name var current =
     join '' ''
       ([''<input type="password" '' @ common_attrs name current var,
         attr ''value'' (shown var current), ''autocomplete="new-password"'']
        @ max_length_attr E var)
     @ help_text_attr E var @ ''>''\<close>

definition render_text :: "ext \<Rightarrow> string \<Rightarrow> var \<Rightarrow> string option \<Rightarrow> string" where
  \<open>render_text E name var current =
     (let pattern = dval var ''pattern'' in
      join '' ''
        ([''<input type="text" '' @ common_attrs name current var, attr ''value'' (shown var current)]
         @ (if pattern \<noteq> PNone then [attr ''pattern'' (py_str E pattern)] else [])
         @ max_length_attr E var)
      @ help_text_attr E var @ ''>'')\<close>

definition bool_option :: "string \<Rightarrow> string \<Rightarrow> string" where
  \<open>bool_option cur value =
     ''<option value="'' @ value @ ''"'' @ (if cur = value then '' selected'' else [])
     @ ''>'' @ value @ ''</option>''\<close>

definition render_bool :: "ext \<Rightarrow> string \<Rightarrow> var \<Rightarrow> string option \<Rightarrow> string" where
  "render_bool E name var current =
     (let cur = (case current of None \<Rightarrow> [] | Some s \<Rightarrow> lower s) in
      ''<select '' @ common_attrs name current var @ help_text_attr E var @ ''>''
      @ concat (map (bool_option cur) [''true'', ''false'']) @ ''</select>'')"

text \<open>The dispatch.\<close>

definition bool_choices :: "choice list" where
  "bool_choices = [(PStr ''true'', ''true''), (PStr ''false'', ''false'')]"

definition render_enum :: "ext \<Rightarrow> string \<Rightarrow> var \<Rightarrow> string option \<Rightarrow> choice list \<Rightarrow> string" where
  "render_enum E name var current choices =
     (if dval var ''widget'' = PStr ''radio'' then render_radio E name var current choices
      else render_select E name var current choices)"

definition render_widget :: "ext \<Rightarrow> string \<Rightarrow> var \<Rightarrow> string option \<Rightarrow> string res" where
  "render_widget E name var current =
     bind_res (enum_choices E var) (\<lambda>choices.
     let var_type = dval var ''type''; widget = dval var ''widget'' in
     Inr (
       if var_type = PStr ''int'' then
         (case choices of
            Some cs \<Rightarrow> render_enum E name var current cs
          | None \<Rightarrow>
              if widget = PStr ''slider'' \<and> effective_min var \<noteq> PNone \<and> effective_max var \<noteq> PNone
              then render_slider E name var current
              else render_number E name var current)
       else if var_type = PStr ''float'' then
         (case choices of
            Some cs \<Rightarrow> render_enum E name var current cs
          | None \<Rightarrow> render_number E name var current)
       else if var_type = PStr ''bool'' then
         (if widget = PStr ''radio'' then render_radio E name var current bool_choices
          else render_bool E name var current)
       else if var_type = PStr ''string'' \<or> var_type = PStr ''enum'' then
         (case choices of
            Some cs \<Rightarrow> render_enum E name var current cs
          | None \<Rightarrow>
              if truthy (dval var ''multiline'') then render_textarea E name var current
              else if widget = PStr ''secret'' then render_secret E name var current
              else render_text E name var current)
       else render_text E name var current))"

subsection \<open>The markup of a control\<close>

type_synonym attrs = "(string \<times> string option) list"

definition common_as :: "string \<Rightarrow> string option \<Rightarrow> var \<Rightarrow> attrs" where
  "common_as name current var =
     [(''name'', Some name), (''data-original'', Some (cur_or_empty current))]
     @ (if write_only var then [(''data-write-only'', Some ''true'')] else [])"

definition help_as :: "ext \<Rightarrow> var \<Rightarrow> attrs" where
  "help_as E var =
     (if truthy (dval var ''help'')
      then [(''title'', Some (strip (replace_all [NL] '' '' (py_str E (dval var ''help'')))))] else [])"

definition text_tokens :: "string \<Rightarrow> token list" where
  "text_tokens s = (if s = [] then [] else [Text s])"

definition valued :: "(string \<times> string) list \<Rightarrow> attrs" where
  "valued ps = map (\<lambda>(n, v). (n, Some v)) ps"

text \<open>The tags and attributes the renderers may emit; none of them runs a script.\<close>

definition widget_tags :: "string list" where
  "widget_tags = [''select'', ''option'', ''input'', ''textarea'', ''label'', ''div'']"

definition control_tags :: "string list" where
  "control_tags = [''select'', ''input'', ''textarea'']"

definition widget_attrs :: "string list" where
  "widget_attrs = [''name'', ''data-original'', ''data-write-only'', ''title'', ''value'', ''selected'', ''checked'',
     ''type'', ''min'', ''max'', ''step'', ''maxlength'', ''rows'', ''autocomplete'', ''pattern'', ''class'', ''role'']"

text \<open>A control carries the name of its field and the raw current value.\<close>

fun widget_token :: "string \<Rightarrow> string option \<Rightarrow> token \<Rightarrow> bool" where
  "widget_token name current (Open n as) =
     (n \<in> set widget_tags \<and> fst ` set as \<subseteq> set widget_attrs \<and>
      (n \<in> set control_tags \<longrightarrow> map_of as ''name'' = Some (Some name) \<and>
         map_of as ''data-original'' = Some (Some (cur_or_empty current))))"
| "widget_token name current (Close n) = (n \<in> set widget_tags)"
| "widget_token name current (Text s) = True"

fun is_control :: "token \<Rightarrow> bool" where
  "is_control (Open n as) = (n \<in> set control_tags)"
| "is_control _ = False"

definition widget_markup :: "string \<Rightarrow> string option \<Rightarrow> string \<Rightarrow> bool" where
  "widget_markup name current html \<longleftrightarrow>
     (\<exists>ts. html = flat ts \<and> wf_tokens ts \<and> (\<forall>t \<in> set ts. widget_token name current t) \<and> (\<exists>t \<in> set ts. is_control t))"

lemmas widget_sets = widget_tags_def control_tags_def widget_attrs_def

lemma valued_simps [simp]:
  "valued [] = []" "valued ((n, v) # ps) = (n, Some v) # valued ps" "valued (ps @ qs) = valued ps @ valued qs"
  by (simp_all add: valued_def)

lemma attr_true: \<open>attr ''data-write-only'' ''true'' = ''data-write-only="true"''\<close>
  by (simp add: attr_def html_escape_Cons esc_char_def)

lemma flat_attr_simps [simp]: "flat_attr (n, Some v) = '' '' @ attr n v" "flat_attr (n, None) = '' '' @ n"
  by (simp_all add: flat_attr_def)

lemma flat_common [simp]: "concat (map flat_attr (common_as name current var)) = '' '' @ common_attrs name current var"
  by (simp add: common_as_def common_attrs_def attr_true)

lemma flat_help [simp]: "concat (map flat_attr (help_as E var)) = help_text_attr E var"
  by (simp add: help_as_def help_text_attr_def Let_def)

lemma flat_text [simp]: "flat (text_tokens s) = html_escape s"
  by (simp add: text_tokens_def)

lemma join_attrs: "join '' '' (x # map (\<lambda>(n, v). attr n v) ps) = x @ concat (map flat_attr (valued ps))"
proof (induction ps arbitrary: x)
  case (Cons p ps)
  obtain n v where "p = (n, v)" by force
  then show ?case using Cons [of "attr n v"] by simp
qed simp

lemma wf_tokens_append:
  "wf_tokens ts \<Longrightarrow> wf_tokens us \<Longrightarrow> ts = [] \<or> us = [] \<or> \<not> is_text (last ts) \<or> \<not> is_text (hd us) \<Longrightarrow>
   wf_tokens (ts @ us)"
proof (induction ts)
  case (Cons t ts)
  then show ?case by (cases ts; cases us) auto
qed simp

lemma wf_text_close [simp]: "wf_tokens (text_tokens s @ Close n # ts) \<longleftrightarrow> html_name n \<and> wf_tokens ts"
  by (simp add: text_tokens_def)

lemma widget_names: "list_all html_name (widget_attrs @ widget_tags)"
  by code_simp

lemma html_name_attr: "n \<in> set widget_attrs \<Longrightarrow> html_name n"
  and html_name_tag: "n \<in> set widget_tags \<Longrightarrow> html_name n"
  using widget_names by (auto simp: list_all_iff)

lemma wf_attrs: "fst ` set as \<subseteq> set widget_attrs \<Longrightarrow> \<forall>a \<in> set as. wf_attr a"
  using html_name_attr by (auto simp: wf_attr_def)

lemma name_mem [simp]:
  "''type'' \<in> set widget_attrs" "''value'' \<in> set widget_attrs" "''min'' \<in> set widget_attrs"
  "''max'' \<in> set widget_attrs" "''step'' \<in> set widget_attrs" "''maxlength'' \<in> set widget_attrs"
  "''rows'' \<in> set widget_attrs" "''autocomplete'' \<in> set widget_attrs" "''pattern'' \<in> set widget_attrs"
  "''class'' \<in> set widget_attrs" "''role'' \<in> set widget_attrs" "''selected'' \<in> set widget_attrs"
  "''checked'' \<in> set widget_attrs" "''name'' \<in> set widget_attrs" "''data-original'' \<in> set widget_attrs"
  "''data-write-only'' \<in> set widget_attrs"
  by (simp_all add: widget_attrs_def)

lemma tag_mem [simp]:
  "''select'' \<in> set widget_tags" "''option'' \<in> set widget_tags" "''input'' \<in> set widget_tags"
  "''textarea'' \<in> set widget_tags" "''label'' \<in> set widget_tags" "''div'' \<in> set widget_tags"
  by (simp_all add: widget_tags_def)

lemma control_mem [simp]:
  "''select'' \<in> set control_tags" "''input'' \<in> set control_tags" "''textarea'' \<in> set control_tags"
  "''option'' \<notin> set control_tags" "''label'' \<notin> set control_tags" "''div'' \<notin> set control_tags"
  by (simp_all add: control_tags_def)

lemma common_names: "fst ` set (common_as name current var) \<subseteq> set widget_attrs"
  "fst ` set (help_as E var) \<subseteq> set widget_attrs"
  by (auto simp: common_as_def help_as_def widget_attrs_def)

lemma common_map_of [simp]:
  "map_of (common_as name current var) ''name'' = Some (Some name)"
  "map_of (common_as name current var) ''data-original'' = Some (Some (cur_or_empty current))"
  by (simp_all add: common_as_def)

text \<open>A single tag with the common attributes, written by \<open>join\<close>.\<close>

lemma single_markup:
  assumes "html = ''<input type='' @ [CHR 0x22] @ kind @ [CHR 0x22] @ '' '' @ common_attrs name current var
      @ concat (map flat_attr (valued ps)) @ help_text_attr E var @ ''>''"
    and "\<forall>c \<in> set kind. esc_char c = [c]"
    and "fst ` set ps \<subseteq> set widget_attrs"
  shows "widget_markup name current html"
proof -
  let ?as = "(''type'', Some kind) # common_as name current var @ valued ps @ help_as E var"
  have k: "html_escape kind = kind" using assms(2) by (induction kind) (simp_all add: html_escape_Cons)
  have names: "fst ` set (valued ps) = fst ` set ps" by (force simp: valued_def)
  have "html = flat [Open ''input'' ?as]"
    by (simp add: assms(1)) (simp add: attr_def k)
  moreover have as: "fst ` set ?as \<subseteq> set widget_attrs"
    using common_names assms(3) names by (simp add: image_Un)
  moreover have "wf_token (Open ''input'' ?as)"
    using wf_attrs [OF as] html_name_tag [of "''input''"] by (simp add: widget_tags_def)
  moreover have "widget_token name current (Open ''input'' ?as)"
    using as by (simp add: widget_tags_def)
  ultimately show ?thesis
    unfolding widget_markup_def
    by (intro exI [of _ "[Open ''input'' ?as]"]) simp
qed

lemma markup_number: "widget_markup name current (render_number E name var current)"
proof (rule single_markup)
  let ?step = "dval var ''step''"
  let ?ps = "(if effective_min var \<noteq> PNone then [(''min'', py_str E (effective_min var))] else [])
    @ (if effective_max var \<noteq> PNone then [(''max'', py_str E (effective_max var))] else [])
    @ (if ?step \<noteq> PNone then [(''step'', py_str E ?step)]
       else if dval var ''type'' = PStr ''float'' then [(''step'', ''any'')] else [])
    @ [(''value'', cur_or_empty current)]"
  have any: \<open>attr ''step'' ''any'' = ''step="any"''\<close>
    by (simp add: attr_def html_escape_Cons esc_char_def)
  show "render_number E name var current = ''<input type='' @ [CHR 0x22] @ ''number'' @ [CHR 0x22] @ '' ''
      @ common_attrs name current var @ concat (map flat_attr (valued ?ps)) @ help_text_attr E var @ ''>''"
    using join_attrs [of "''<input type='' @ [CHR 0x22] @ ''number'' @ [CHR 0x22] @ '' '' @ common_attrs name current var" ?ps]
    by (simp add: render_number_def Let_def any split del: if_split) (simp add: any split: if_splits)
  show "fst ` set ?ps \<subseteq> set widget_attrs" by auto
qed (simp add: esc_char_def)

lemma markup_slider: "widget_markup name current (render_slider E name var current)"
proof (cases "effective_min var = PNone \<or> effective_max var = PNone")
  case True
  then show ?thesis using markup_number by (auto simp: render_slider_def Let_def)
next
  case False
  let ?step = "dval var ''step''" and ?lo = "effective_min var" and ?hi = "effective_max var"
  let ?ps = "[(''min'', py_str E ?lo), (''max'', py_str E ?hi)]
    @ (if ?step \<noteq> PNone then [(''step'', py_str E ?step)] else [])
    @ [(''value'', slider_value E ?lo ?hi current)]"
  show ?thesis
  proof (rule single_markup)
    show "render_slider E name var current = ''<input type='' @ [CHR 0x22] @ ''range'' @ [CHR 0x22] @ '' ''
        @ common_attrs name current var @ concat (map flat_attr (valued ?ps)) @ help_text_attr E var @ ''>''"
      using False by (simp add: render_slider_def Let_def)
    show "fst ` set ?ps \<subseteq> set widget_attrs" by auto
  qed (simp add: esc_char_def)
qed

lemma max_length_pairs:
  "max_length_attr E var = map (\<lambda>(n, v). attr n v)
     (if dval var ''max_length'' \<noteq> PNone then [(''maxlength'', py_str E (dval var ''max_length''))] else [])"
  by (simp add: max_length_attr_def Let_def)

lemma markup_secret: "widget_markup name current (render_secret E name var current)"
proof (rule single_markup)
  let ?ml = "if dval var ''max_length'' \<noteq> PNone then [(''maxlength'', py_str E (dval var ''max_length''))] else []"
  let ?ps = "[(''value'', shown var current), (''autocomplete'', ''new-password'')] @ ?ml"
  have ac: \<open>attr ''autocomplete'' ''new-password'' = ''autocomplete="new-password"''\<close>
    by (simp add: attr_def html_escape_Cons esc_char_def)
  show "render_secret E name var current = ''<input type='' @ [CHR 0x22] @ ''password'' @ [CHR 0x22] @ '' ''
      @ common_attrs name current var @ concat (map flat_attr (valued ?ps)) @ help_text_attr E var @ ''>''"
    using join_attrs [of "''<input type='' @ [CHR 0x22] @ ''password'' @ [CHR 0x22] @ '' '' @ common_attrs name current var" ?ps]
    by (simp add: render_secret_def max_length_pairs ac)
  show "fst ` set ?ps \<subseteq> set widget_attrs" by auto
qed (simp add: esc_char_def)

lemma markup_text: "widget_markup name current (render_text E name var current)"
proof (rule single_markup)
  let ?ml = "if dval var ''max_length'' \<noteq> PNone then [(''maxlength'', py_str E (dval var ''max_length''))] else []"
  let ?ps = "[(''value'', shown var current)]
    @ (if dval var ''pattern'' \<noteq> PNone then [(''pattern'', py_str E (dval var ''pattern''))] else []) @ ?ml"
  show "render_text E name var current = ''<input type='' @ [CHR 0x22] @ ''text'' @ [CHR 0x22] @ '' ''
      @ common_attrs name current var @ concat (map flat_attr (valued ?ps)) @ help_text_attr E var @ ''>''"
    using join_attrs [of "''<input type='' @ [CHR 0x22] @ ''text'' @ [CHR 0x22] @ '' '' @ common_attrs name current var" ?ps]
    by (simp add: render_text_def Let_def max_length_pairs)
  show "fst ` set ?ps \<subseteq> set widget_attrs" by auto
qed (simp add: esc_char_def)

lemma markup_textarea: "widget_markup name current (render_textarea E name var current)"
proof -
  let ?ml = "if dval var ''max_length'' \<noteq> PNone then [(''maxlength'', py_str E (dval var ''max_length''))] else []"
  let ?ps = "?ml @ [(''rows'', ''4'')]"
  let ?as = "common_as name current var @ valued ?ps @ help_as E var"
  let ?ts = "Open ''textarea'' ?as # text_tokens (shown var current) @ [Close ''textarea'']"
  have rows: \<open>attr ''rows'' ''4'' = ''rows="4"''\<close>
    by (simp add: attr_def html_escape_Cons esc_char_def)
  have "render_textarea E name var current = flat ?ts"
    using join_attrs [of "''<textarea '' @ common_attrs name current var" ?ps]
    by (simp add: render_textarea_def max_length_pairs rows)
  moreover have as: "fst ` set ?as \<subseteq> set widget_attrs"
    using common_names by (auto simp: image_Un)
  moreover have "wf_tokens ?ts"
    using wf_attrs [OF as] html_name_tag [of "''textarea''"] by (simp add: text_tokens_def)
  moreover have "\<forall>t \<in> set ?ts. widget_token name current t"
    using as by (auto simp: text_tokens_def)
  ultimately show ?thesis
    unfolding widget_markup_def by (intro exI [of _ ?ts]) simp
qed

subsubsection \<open>Controls with several tags\<close>

text \<open>A block of tokens stands between tags, so blocks can be put side by side.\<close>

definition block :: "token list \<Rightarrow> bool" where
  "block ts \<longleftrightarrow> wf_tokens ts \<and> ts \<noteq> [] \<and> \<not> is_text (hd ts) \<and> \<not> is_text (last ts)"

lemma wf_blocks: "\<forall>x \<in> set xs. block (f x) \<Longrightarrow> wf_tokens (concat (map f xs))"
proof (induction xs)
  case (Cons x xs)
  then show ?case by (auto simp: block_def intro: wf_tokens_append)
qed simp

lemma wf_blocks_between:
  assumes "\<forall>x \<in> set xs. block (f x)" and "wf_token (Open a as)" and "html_name b"
  shows "wf_tokens (Open a as # concat (map f xs) @ [Close b])"
  using assms wf_blocks [OF assms(1)] by (auto intro: wf_tokens_append)

definition option_tokens :: "ext \<Rightarrow> string option \<Rightarrow> choice \<Rightarrow> token list" where
  "option_tokens E current = (\<lambda>(value, label).
     Open ''option'' ((''value'', Some (case value of PNone \<Rightarrow> [] | _ \<Rightarrow> py_str E value))
       # (if py_str E value = cur_str current then [(''selected'', None)] else []))
     # text_tokens label @ [Close ''option''])"

lemma flat_option: "flat (option_tokens E current c) = option_html E current c"
  by (cases c) (simp add: option_tokens_def option_html_def attr_def esc_def)

lemma option_facts:
  "block (option_tokens E current c)" "\<forall>t \<in> set (option_tokens E current c). widget_token name cur t"
proof -
  obtain v l where c: "c = (v, l)" by force
  have "html_name ''option''" "html_name ''value''" "html_name ''selected''"
    by (auto intro: html_name_tag html_name_attr)
  then show "block (option_tokens E current c)"
    by (auto simp: c option_tokens_def block_def text_tokens_def wf_attr_def)
  show "\<forall>t \<in> set (option_tokens E current c). widget_token name cur t"
    by (auto simp: c option_tokens_def text_tokens_def)
qed

lemma join_after_lines: "xs \<noteq> [] \<Longrightarrow> [NL] @ join [NL] (map f xs) = concat (map (\<lambda>x. [NL] @ f x) xs)"
proof (induction xs)
  case (Cons x xs)
  then show ?case by (cases xs) auto
qed simp

lemma escape_NL [simp]: "html_escape [NL] = [NL]"
  by (simp add: html_escape_def esc_char_def NL_def)

lemma markup_select:
  assumes "choices \<noteq> []"
  shows "widget_markup name current (render_select E name var current choices)"
proof -
  let ?as = "common_as name current var @ help_as E var"
  let ?ots = "concat (map (\<lambda>c. Text [NL] # option_tokens E current c) choices)"
  let ?ts = "Open ''select'' ?as # ?ots @ [Text [NL], Close ''select'']"
  have flat_ots: "flat (concat (map (\<lambda>c. Text [NL] # option_tokens E current c) cs)) =
      concat (map (\<lambda>c. [NL] @ option_html E current c) cs)" for cs
    by (induction cs) (simp_all add: flat_option)
  have "render_select E name var current choices = flat ?ts"
    using join_after_lines [OF assms, of "option_html E current"] by (simp add: render_select_def flat_ots)
  moreover have as: "fst ` set ?as \<subseteq> set widget_attrs"
    using common_names by (auto simp: image_Un)
  moreover have "wf_tokens ?ts"
  proof -
    have o: "wf_tokens (Text [NL] # option_tokens E current c)" for c
      using option_facts(1) [of E current c] by (auto simp: block_def split: list.splits)
    have l: "\<not> is_text (last (Text [NL] # option_tokens E current c))" for c
      using option_facts(1) [of E current c] by (simp add: block_def)
    have "wf_tokens (concat (map (\<lambda>c. Text [NL] # option_tokens E current c) cs) @ [Text [NL], Close ''select''])" for cs
    proof (induction cs)
      case (Cons c cs)
      have "wf_tokens ((Text [NL] # option_tokens E current c)
          @ concat (map (\<lambda>c. Text [NL] # option_tokens E current c) cs) @ [Text [NL], Close ''select''])"
        using Cons o l by (blast intro: wf_tokens_append)
      then show ?case by simp
    qed (simp add: html_name_tag)
    with wf_attrs [OF as] html_name_tag [of "''select''"] show ?thesis by simp
  qed
  moreover have "\<forall>t \<in> set ?ts. widget_token name current t"
  proof -
    have "widget_token name current t" if "t \<in> set ?ots" for t
      using that option_facts(2) [of E current _ name current] by (auto split: if_splits)
    with as show ?thesis by (simp add: ball_Un)
  qed
  ultimately show ?thesis
    unfolding widget_markup_def by (intro exI [of _ ?ts]) simp
qed

definition bool_tokens :: "string \<Rightarrow> string \<Rightarrow> token list" where
  "bool_tokens cur value =
     [Open ''option'' ((''value'', Some value) # (if cur = value then [(''selected'', None)] else [])),
      Text value, Close ''option'']"

lemma bool_facts:
  assumes "v \<in> {''true'', ''false''}"
  shows "flat (bool_tokens cur v) = bool_option cur v" "block (bool_tokens cur v)"
    "\<forall>t \<in> set (bool_tokens cur v). widget_token name c t"
proof -
  show "flat (bool_tokens cur v) = bool_option cur v"
    using assms by (auto simp: bool_tokens_def bool_option_def attr_def html_escape_Cons esc_char_def)
  have "html_name ''option''" "html_name ''value''" "html_name ''selected''"
    by (auto intro: html_name_tag html_name_attr)
  then show "block (bool_tokens cur v)"
    using assms by (auto simp: bool_tokens_def block_def wf_attr_def)
  show "\<forall>t \<in> set (bool_tokens cur v). widget_token name c t"
    by (auto simp: bool_tokens_def)
qed

lemma markup_bool: "widget_markup name current (render_bool E name var current)"
proof -
  let ?as = "common_as name current var @ help_as E var"
  let ?cur = "case current of None \<Rightarrow> [] | Some s \<Rightarrow> lower s"
  let ?os = "concat (map (bool_tokens ?cur) [''true'', ''false''])"
  let ?ts = "Open ''select'' ?as # ?os @ [Close ''select'']"
  have "render_bool E name var current = flat ?ts"
    by (simp add: render_bool_def Let_def bool_facts(1))
  moreover have as: "fst ` set ?as \<subseteq> set widget_attrs"
    using common_names by (auto simp: image_Un)
  moreover have "wf_tokens ?ts"
    by (rule wf_blocks_between) (use wf_attrs [OF as] in \<open>auto simp: bool_facts(2) html_name_tag\<close>)
  moreover have "\<forall>t \<in> set ?ts. widget_token name current t"
    using as bool_facts(3) [of "''true''"] bool_facts(3) [of "''false''"] by (simp add: ball_Un)
  ultimately show ?thesis
    unfolding widget_markup_def by (intro exI [of _ ?ts]) simp
qed

definition radio_tokens :: "ext \<Rightarrow> string \<Rightarrow> var \<Rightarrow> string option \<Rightarrow> choice \<Rightarrow> token list" where
  "radio_tokens E name var current = (\<lambda>(value, label).
     [Open ''label'' [(''class'', Some ''radio-option'')],
      Open ''input'' ([(''type'', Some ''radio''), (''name'', Some name),
          (''value'', Some (case value of PNone \<Rightarrow> [] | _ \<Rightarrow> py_str E value))]
        @ (if py_str E value = cur_str current then [(''checked'', None)] else [])
        @ [(''data-original'', Some (cur_or_empty current))]
        @ (if write_only var then [(''data-write-only'', Some ''true'')] else [])),
      Text (CHR '' '' # label), Close ''label''])"

lemma attr_literals:
  \<open>attr ''class'' ''radio-option'' = ''class="radio-option"''\<close>
  \<open>attr ''type'' ''radio'' = ''type="radio"''\<close>
  \<open>attr ''class'' ''radio-group'' = ''class="radio-group"''\<close>
  \<open>attr ''role'' ''radiogroup'' = ''role="radiogroup"''\<close>
  by (simp_all add: attr_def html_escape_Cons esc_char_def)

lemma esc_space: "html_escape (CHR '' '' # s) = CHR '' '' # html_escape s"
  by (simp add: html_escape_Cons esc_char_def)

lemma flat_radio: "flat (radio_tokens E name var current c) = radio_html E name var current c"
proof -
  obtain v l where c: "c = (v, l)" by force
  show ?thesis
    by (simp add: c radio_tokens_def radio_html_def attr_literals attr_true esc_space)
      (simp add: attr_def esc_def)
qed

lemma radio_facts:
  "block (radio_tokens E name var current c)"
  "\<forall>t \<in> set (radio_tokens E name var current c). widget_token name current t"
  "\<exists>t \<in> set (radio_tokens E name var current c). is_control t"
proof -
  obtain v l where c: "c = (v, l)" by force
  have "html_name ''label''" "html_name ''input''" by (auto intro: html_name_tag)
  moreover have "\<forall>n \<in> {''class'', ''type'', ''name'', ''value'', ''checked'', ''data-original'', ''data-write-only''}. html_name n"
    by (auto intro: html_name_attr)
  ultimately show "block (radio_tokens E name var current c)"
    by (auto simp: c radio_tokens_def block_def wf_attr_def)
  show "\<forall>t \<in> set (radio_tokens E name var current c). widget_token name current t"
    by (auto simp: c radio_tokens_def)
  show "\<exists>t \<in> set (radio_tokens E name var current c). is_control t"
    by (simp add: c radio_tokens_def)
qed

lemma markup_radio:
  assumes "choices \<noteq> []"
  shows "widget_markup name current (render_radio E name var current choices)"
proof -
  let ?as = "[(''class'', Some ''radio-group''), (''role'', Some ''radiogroup'')]"
  let ?rs = "concat (map (radio_tokens E name var current) choices)"
  let ?ts = "Open ''div'' ?as # ?rs @ [Close ''div'']"
  have "flat (concat (map (radio_tokens E name var current) cs)) = concat (map (radio_html E name var current) cs)" for cs
    by (induction cs) (simp_all add: flat_radio)
  then have "render_radio E name var current choices = flat ?ts"
    by (simp add: render_radio_def attr_literals)
  moreover have as: "fst ` set ?as \<subseteq> set widget_attrs" by simp
  moreover have "wf_tokens ?ts"
    by (rule wf_blocks_between) (use wf_attrs [OF as] in \<open>auto simp: radio_facts(1) html_name_tag\<close>)
  moreover have "\<forall>t \<in> set ?ts. widget_token name current t"
  proof -
    have "widget_token name current t" if "t \<in> set ?rs" for t
      using that radio_facts(2) [of E name var current] by auto
    with as show ?thesis by (simp add: ball_Un)
  qed
  moreover have "\<exists>t \<in> set ?ts. is_control t"
    using assms radio_facts(3) [of E name var current "hd choices"] by (cases choices) auto
  ultimately show ?thesis
    unfolding widget_markup_def by blast
qed

subsubsection \<open>The dispatch\<close>

lemma py_iter_nonempty: "py_iter v = Inr xs \<Longrightarrow> truthy v \<Longrightarrow> xs \<noteq> []"
  by (cases v) (auto simp: py_iter_def)

lemma enum_choices_nonempty: "enum_choices E var = Inr (Some cs) \<Longrightarrow> cs \<noteq> []"
  by (auto simp: enum_choices_def bind_res_Inr_iff dest: py_iter_nonempty split: if_splits)

lemma markup_enum: "cs \<noteq> [] \<Longrightarrow> widget_markup name current (render_enum E name var current cs)"
  by (simp add: render_enum_def markup_radio markup_select)

lemma markup_widget:
  assumes "render_widget E name var current = Inr html"
  shows "widget_markup name current html"
proof -
  obtain choices where ch: "enum_choices E var = Inr choices"
    using assms by (auto simp: render_widget_def bind_res_Inr_iff)
  have ne: "cs \<noteq> []" if "choices = Some cs" for cs
    using enum_choices_nonempty that ch by blast
  have "bool_choices \<noteq> []" by (simp add: bool_choices_def)
  note markup = markup_radio [OF this] markup_bool markup_number markup_slider markup_textarea
    markup_secret markup_text markup_enum [OF ne]
  show ?thesis
    using assms ch markup
    by (auto simp: render_widget_def Let_def split: option.splits if_splits)
qed

text \<open>
  C30. No catalog and no stored value can break out of a form control. Whatever the name, the
  variable of the catalog and the current value are, the markup that \<open>render_widget\<close> returns
  reads back as tags and attributes of the fixed lists \<open>widget_tags\<close> and \<open>widget_attrs\<close> alone,
  there is a control among them, and every control carries exactly the name of its field and,
  as \<open>data-original\<close>, exactly the current value, also for a write-only field.
\<close>

theorem widget_markup_safe:
  assumes "render_widget E name var current = Inr html"
  shows "\<exists>ts. lex html = Some ts \<and> (\<forall>t \<in> set ts. widget_token name current t) \<and> (\<exists>t \<in> set ts. is_control t)"
proof -
  obtain ts where "html = flat ts" "wf_tokens ts" "\<forall>t \<in> set ts. widget_token name current t" "\<exists>t \<in> set ts. is_control t"
    using markup_widget [OF assms] by (auto simp: widget_markup_def)
  with lex_flat show ?thesis by blast
qed

theorem widget_markup_safe_witness:
  \<open>\<exists>html ts. render_widget ref_ext ''color'' [(''type'', PStr ''string''), (''write_only'', PBool True)] (Some ''"><script>'') = Inr html \<and>
    lex html = Some ts \<and> (\<forall>t \<in> set ts. widget_token ''color'' (Some ''"><script>'') t) \<and> (\<exists>t \<in> set ts. is_control t)\<close>
proof -
  obtain html where h: \<open>render_widget ref_ext ''color'' [(''type'', PStr ''string''), (''write_only'', PBool True)] (Some ''"><script>'') = Inr html\<close>
    by (simp add: render_widget_def enum_choices_def Let_def)
  from widget_markup_safe [OF h] h show ?thesis by blast
qed

end
