(* ===== verification/Pages.thy ===== *)
theory Pages
  imports Widgets
begin

text \<open>
  The customer page of a device: \<open>services/markdown_cache.py\<close>, \<open>services/page_renderer.py\<close> and
  the page handlers of \<open>backend/src/api/routes_app.py\<close>.

  The markdown sanitizer (markdown-it and bleach) is the argument \<open>S\<close> of source and application;
  the template and the landing page are static files and arguments too. The cache of rendered
  blocks is explicit state, which a page takes and returns.
\<close>

subsection \<open>The cache of markdown blocks\<close>

record md_cache =
  mc_entries :: "string \<times> string \<times> string \<rightharpoonup> string"
  mc_hits :: nat
  mc_misses :: nat

type_synonym sanitizer = "pyval \<Rightarrow> string \<Rightarrow> string res"

definition render_block ::
    "sanitizer \<Rightarrow> string \<Rightarrow> string \<Rightarrow> string \<Rightarrow> pyval \<Rightarrow> md_cache \<Rightarrow> string res \<times> md_cache" where
  "render_block S app publish_hash block_id source c =
     (let key = (app, publish_hash, block_id) in
      case mc_entries c key of
        Some cached \<Rightarrow> (Inr cached, c\<lparr>mc_hits := mc_hits c + 1\<rparr>)
      | None \<Rightarrow>
         (case S source app of
            Inl e \<Rightarrow> (Inl e, c)
          | Inr rendered \<Rightarrow>
             (Inr rendered, c\<lparr>mc_entries := (mc_entries c)(key \<mapsto> rendered), mc_misses := mc_misses c + 1\<rparr>)))"

definition clear_cache :: "md_cache \<Rightarrow> md_cache" where
  "clear_cache c = c\<lparr>mc_entries := Map.empty, mc_hits := 0, mc_misses := 0\<rparr>"

definition cache_stats :: "md_cache \<Rightarrow> (string \<times> nat) list" where
  "cache_stats c = [(''hits'', mc_hits c), (''misses'', mc_misses c)]"

definition empty_cache :: md_cache where
  "empty_cache = \<lparr>mc_entries = Map.empty, mc_hits = 0, mc_misses = 0\<rparr>"

subsection \<open>The parts of the page\<close>

text \<open>\<open>a or b\<close>\<close>

definition py_or :: "pyval \<Rightarrow> pyval \<Rightarrow> pyval" where
  "py_or a b = (if truthy a then a else b)"

definition compute_publish_hash :: "ext \<Rightarrow> (string \<times> pyval) list \<Rightarrow> string" where
  "compute_publish_hash E catalog = take 8 (to_hex (e_sha256 E (e_dumps_sorted E (PDict catalog))))"

text \<open>\<open>v.items()\<close>\<close>

definition py_items :: "pyval \<Rightarrow> (string \<times> pyval) list res" where
  "py_items v = (case v of PDict d \<Rightarrow> Inr d | _ \<Rightarrow> Inl (PyExn ''AttributeError''))"

definition customer_facing :: "string \<times> pyval \<Rightarrow> (string \<times> var) option" where
  "customer_facing = (\<lambda>(name, v).
     (case v of PDict var \<Rightarrow> if truthy (dval var ''label'') then Some (name, var) else None | _ \<Rightarrow> None))"

definition customer_facing_vars :: "(string \<times> pyval) list \<Rightarrow> (string \<times> var) list res" where
  "customer_facing_vars catalog =
     bind_res (py_items (py_or (dval catalog ''vars'') (PDict []))) (\<lambda>items.
     Inr (List.map_filter customer_facing items))"

definition render_chrome :: "ext \<Rightarrow> string \<Rightarrow> pyval \<Rightarrow> string res" where
  \<open>render_chrome E app theme =
     bind_res (dget_or theme ''logo_asset'' PNone) (\<lambda>logo_asset.
     bind_res (dget_or theme ''logo_alt'' PNone) (\<lambda>logo_alt.
     bind_res (dget_or theme ''product_name'' PNone) (\<lambda>product_name.
     Inr (
       ''<header class="catalog-app-chrome">''
       @ (if truthy logo_asset then
            ''<img class="catalog-logo" src="/app/'' @ html_escape app @ ''/_assets/'' @ esc E logo_asset
            @ ''" alt="'' @ esc E (py_or logo_alt (py_or product_name (PStr []))) @ ''">''
          else [])
       @ (if truthy product_name then
            ''<h1 class="catalog-product-name">'' @ esc E product_name @ ''</h1>''
          else [])
       @ ''</header>''))))\<close>

definition render_help ::
    "ext \<Rightarrow> sanitizer \<Rightarrow> var \<Rightarrow> string \<Rightarrow> string \<Rightarrow> string \<Rightarrow> md_cache \<Rightarrow> string res \<times> md_cache" where
  \<open>render_help E S var app publish_hash var_name c =
     (let plain = dval var ''help''; md = dval var ''help_markdown'';
          plain_html = (if truthy plain then ''<div class="setting-help">'' @ esc E plain @ ''</div>'' else []) in
      if \<not> truthy md then (Inr plain_html, c)
      else and_then (render_block S app publish_hash (''help.'' @ var_name) md c) (\<lambda>rendered c1.
        (Inr (plain_html @ ''<div class="setting-help-md">'' @ rendered @ ''</div>''), c1)))\<close>

definition render_off_spec_badge :: "string option \<Rightarrow> string" where
  \<open>render_off_spec_badge current =
     ''<span class="setting-warning" role="status"><strong>'' @ html_escape (cur_or_empty current)
     @ ''</strong> &mdash; not in current allowed values</span>''\<close>

text \<open>The identifier is spliced in after the first \<open>name="..."\<close> of the control.\<close>

definition with_id :: "string \<Rightarrow> bool \<Rightarrow> string \<Rightarrow> string" where
  \<open>with_id name from_default widget =
     (let id_attr = ''id="field-'' @ html_escape name @ ''"'';
          widget1 = replace_first (attr ''name'' name) (attr ''name'' name @ '' '' @ id_attr) widget in
      if from_default
      then replace_first id_attr (id_attr @ '' data-from-default="true"'') widget1
      else widget1)\<close>

definition render_setting_card ::
    "(string \<Rightarrow> string \<Rightarrow> bool option) \<Rightarrow> ext \<Rightarrow> sanitizer \<Rightarrow> string \<Rightarrow> var \<Rightarrow> string option \<Rightarrow> bool \<Rightarrow> string
      \<Rightarrow> string \<Rightarrow> md_cache \<Rightarrow> string res \<times> md_cache" where
  \<open>render_setting_card M E S name var current from_default app publish_hash c =
     (let label = py_or (dval var ''label'') (PStr name) in
      and_then (render_help E S var app publish_hash name c) (\<lambda>help c1.
      lift_res (is_off_spec M E var current) c1 (\<lambda>off_spec.
      lift_res (render_widget E name var current) c1 (\<lambda>widget.
      (Inr (
         ''<div class="setting-card" data-var="'' @ html_escape name @ ''">''
         @ ''<label class="setting-label" for="field-'' @ html_escape name @ ''">'' @ esc E label @ ''</label>''
         @ help
         @ (if off_spec then render_off_spec_badge current else [])
         @ with_id name from_default widget
         @ (if dval var ''widget'' = PStr ''secret'' \<and> \<not> write_only var
            then ''<button type="button" class="reveal-btn" data-var="'' @ html_escape name @ ''">Show</button>''
            else [])
         @ ''</div>''), c1)))))\<close>

text \<open>The cards of the form, in the order of the catalog.\<close>

fun render_cards ::
    "(string \<Rightarrow> string \<Rightarrow> bool option) \<Rightarrow> ext \<Rightarrow> sanitizer \<Rightarrow> (string \<rightharpoonup> resolved) \<Rightarrow> string \<Rightarrow> string
      \<Rightarrow> (string \<times> var) list \<Rightarrow> md_cache \<Rightarrow> string res \<times> md_cache" where
  "render_cards M E S values app publish_hash [] c = (Inr [], c)"
| "render_cards M E S values app publish_hash ((name, var) # vars) c =
     (let current = (case values name of None \<Rightarrow> None | Some rv \<Rightarrow> rv_value rv);
          from_default = (case values name of None \<Rightarrow> False | Some rv \<Rightarrow> rv_from_default rv) in
      and_then (render_setting_card M E S name var current from_default app publish_hash c) (\<lambda>card c1.
      and_then (render_cards M E S values app publish_hash vars c1) (\<lambda>cards c2.
      (Inr (card @ cards), c2))))"

text \<open>A markdown block of the \<open>ui\<close> entry, wrapped in a \<open>div\<close>; nothing when it is absent.\<close>

definition render_ui_block ::
    "sanitizer \<Rightarrow> string \<Rightarrow> string \<Rightarrow> pyval \<Rightarrow> string \<Rightarrow> string \<Rightarrow> string \<Rightarrow> md_cache \<Rightarrow> string res \<times> md_cache" where
  \<open>render_ui_block S app publish_hash ui block_id key cls c =
     lift_res (dget_or ui key PNone) c (\<lambda>md.
     if \<not> truthy md then (Inr [], c)
     else and_then (render_block S app publish_hash block_id md c) (\<lambda>rendered c1.
       (Inr (''<div class="'' @ cls @ ''">'' @ rendered @ ''</div>''), c1)))\<close>

definition render_page ::
    "(string \<Rightarrow> string \<Rightarrow> bool option) \<Rightarrow> ext \<Rightarrow> sanitizer \<Rightarrow> string \<Rightarrow> string \<Rightarrow> (string \<times> pyval) list
      \<Rightarrow> (string \<rightharpoonup> resolved) \<Rightarrow> md_cache \<Rightarrow> string res \<times> md_cache" where
  \<open>render_page M E S app device catalog values c =
     (let publish_hash = compute_publish_hash E catalog;
          theme = py_or (dval catalog ''theme'') (PDict []);
          ui = py_or (dval catalog ''ui'') (PDict []) in
      lift_res (render_chrome E app theme) c (\<lambda>chrome.
      and_then (render_ui_block S app publish_hash ui ''header'' ''header_markdown'' ''catalog-header-md'' c) (\<lambda>header c1.
      lift_res (customer_facing_vars catalog) c1 (\<lambda>vars.
      and_then (render_cards M E S values app publish_hash vars c1) (\<lambda>cards c2.
      and_then (render_ui_block S app publish_hash ui ''footer'' ''footer_markdown'' ''catalog-footer-md'' c2) (\<lambda>footer c3.
      (Inr (
         ''<section class="catalog-app">'' @ chrome @ header
         @ ''<form method="post" action="/app/'' @ html_escape app @ ''/'' @ html_escape device @ ''" class="catalog-form">''
         @ cards
         @ ''<div class="catalog-form-actions"><button type="submit" class="btn-primary">Save</button></div></form>''
         @ footer @ ''</section>''), c3)))))))\<close>

subsection \<open>The handlers\<close>

definition NO_CATALOG :: string where
  \<open>NO_CATALOG =
     ''<section class="catalog-app"><p class="hint">No catalog published for this app yet ''
     @ [CHR 0xE2, CHR 0x80, CHR 0x94]
     @ '' check back once your operator has run <code>stra2us catalog publish</code>.</p></section>''\<close>

definition resolve_values ::
    "'db redis \<Rightarrow> ext \<Rightarrow> string \<Rightarrow> string \<Rightarrow> (string \<times> var) list \<Rightarrow> 'db \<Rightarrow> string \<rightharpoonup> resolved" where
  "resolve_values R E app device vars d =
     map_of (map (\<lambda>(name, var). (name, resolve_value R E app device name var d)) vars)"

definition render_settings_section ::
    "(string \<Rightarrow> string \<Rightarrow> bool option) \<Rightarrow> 'db redis \<Rightarrow> ext \<Rightarrow> sanitizer \<Rightarrow> string \<Rightarrow> string
      \<Rightarrow> (string \<times> pyval) list option \<Rightarrow> 'db \<Rightarrow> md_cache \<Rightarrow> string res \<times> md_cache" where
  "render_settings_section M R E S app device catalog d c =
     (case catalog of
        None \<Rightarrow> (Inr NO_CATALOG, c)
      | Some cat \<Rightarrow>
         lift_res (customer_facing_vars cat) c (\<lambda>vars.
         render_page M E S app device cat (resolve_values R E app device vars d) c))"

text \<open>The placeholders of the template, replaced one after the other.\<close>

definition fill_template :: "string \<Rightarrow> (string \<times> string) list \<Rightarrow> string" where
  "fill_template template subs = fold (\<lambda>(old, new). replace_all old new) subs template"

definition render_device_page ::
    "(string \<Rightarrow> string \<Rightarrow> bool option) \<Rightarrow> 'db redis \<Rightarrow> ext \<Rightarrow> sanitizer \<Rightarrow> string \<Rightarrow> string \<Rightarrow> string
      \<Rightarrow> 'db \<Rightarrow> md_cache \<Rightarrow> response res \<times> md_cache" where
  "render_device_page M R E S template app device d c =
     (let catalog = load_catalog_dict R E app d;
          theme_hash = (case load_theme R E app d of None \<Rightarrow> [] | Some (_, h) \<Rightarrow> h) in
      and_then (render_settings_section M R E S app device catalog d c) (\<lambda>settings_html c1.
      lift_res (resolve_telemetry_topic app device catalog) c1 (\<lambda>telemetry_topic.
      (Inr \<lparr>rs_status = 200, rs_media = ''text/html; charset=utf-8'',
            rs_headers = [(''Cache-Control'', ''no-store'')],
            rs_body = fill_template template
              [(''{{APP}}'', app), (''{{DEVICE}}'', device), (''{{THEME_HASH}}'', theme_hash),
               (''{{SETTINGS_SECTION}}'', settings_html), (''{{TELEMETRY_TOPIC}}'', telemetry_topic),
               (''{{HEARTBEAT_SECONDS}}'', py_str E (resolve_heartbeat_seconds catalog)),
               (''{{FAVICON_HREF}}'', resolve_favicon_href app catalog)]\<rparr>, c1))))"

definition file_response :: "nat \<Rightarrow> string \<Rightarrow> response" where
  "file_response status content =
     \<lparr>rs_status = status, rs_media = ''text/html; charset=utf-8'', rs_headers = [], rs_body = content\<rparr>"

definition landing :: "string \<Rightarrow> response" where
  "landing landing_html = file_response 200 landing_html"

definition device_page ::
    "(string \<Rightarrow> string \<Rightarrow> bool option) \<Rightarrow> 'db redis \<Rightarrow> ext \<Rightarrow> sanitizer \<Rightarrow> string list \<Rightarrow> string option \<Rightarrow> string
      \<Rightarrow> string \<Rightarrow> string \<Rightarrow> string \<Rightarrow> 'db \<Rightarrow> md_cache \<Rightarrow> response res \<times> md_cache" where
  "device_page M R E S rescue admin_user landing_html template app device d c =
     lift_res (get_admin_context R E rescue admin_user d) c (\<lambda>ctx.
     (case check_acl ctx (''kv/'' @ app @ ''/'' @ device) WriteMode of
        Inl (HTTPException _ _) \<Rightarrow> (Inr (file_response 404 landing_html), c)
      | Inl e \<Rightarrow> (Inl e, c)
      | Inr _ \<Rightarrow> render_device_page M R E S template app device d c))"

subsection \<open>The cache does not show\<close>

text \<open>The markdown a catalog has for a block.\<close>

definition block_source :: "(string \<times> pyval) list \<Rightarrow> string \<Rightarrow> pyval \<Rightarrow> bool" where
  "block_source catalog block_id source \<longleftrightarrow>
     (let ui = py_or (dval catalog ''ui'') (PDict []) in
      (block_id = ''header'' \<and> dget_or ui ''header_markdown'' PNone = Inr source) \<or>
      (block_id = ''footer'' \<and> dget_or ui ''footer_markdown'' PNone = Inr source) \<or>
      (\<exists>vars name var. customer_facing_vars catalog = Inr vars \<and> (name, var) \<in> set vars \<and>
         block_id = ''help.'' @ name \<and> source = dval var ''help_markdown''))"

definition vars_distinct :: "(string \<times> pyval) list \<Rightarrow> bool" where
  "vars_distinct catalog \<longleftrightarrow> (\<forall>d. py_or (dval catalog ''vars'') (PDict []) = PDict d \<longrightarrow> distinct (map fst d))"

lemma map_filter_names: "fst ` set (List.map_filter customer_facing d) \<subseteq> fst ` set d"
  by (force simp: List.map_filter_def customer_facing_def split: pyval.splits if_splits)

lemma distinct_customer_facing:
  "distinct (map fst d) \<Longrightarrow> distinct (map fst (List.map_filter customer_facing d))"
proof (induction d)
  case Nil
  then show ?case by (simp add: List.map_filter_def)
next
  case (Cons x d)
  obtain n v where x: "x = (n, v)" by force
  have "n \<notin> fst ` set (List.map_filter customer_facing d)"
    using Cons.prems x map_filter_names [of d] by auto
  moreover have "fst y = n" if "customer_facing x = Some y" for y
    using that x by (auto simp: customer_facing_def split: pyval.splits if_splits)
  ultimately show ?case
    using Cons by (auto simp: List.map_filter_def split: option.splits)
qed

lemma block_source_unique:
  assumes "vars_distinct catalog" and "block_source catalog b s1" and "block_source catalog b s2"
  shows "s1 = s2"
proof -
  have d: "distinct (map fst vars)" if "customer_facing_vars catalog = Inr vars" for vars
    using that assms(1) distinct_customer_facing
    by (auto simp: customer_facing_vars_def bind_res_Inr_iff py_items_def vars_distinct_def split: pyval.splits)
  have u: "var1 = var2" if "customer_facing_vars catalog = Inr vars" "(n, var1) \<in> set vars" "(n, var2) \<in> set vars" for vars n var1 var2
    using d [OF that(1)] that(2,3) by (metis eq_key_imp_eq_value)
  from assms(2,3) show ?thesis unfolding block_source_def Let_def by (auto dest: u)
qed

text \<open>Every cached block is what the sanitizer makes of the block of a catalog that was shown.\<close>

definition coherent :: "ext \<Rightarrow> sanitizer \<Rightarrow> (string \<times> (string \<times> pyval) list) set \<Rightarrow> md_cache \<Rightarrow> bool" where
  "coherent E S T c \<longleftrightarrow>
     (\<forall>app ph b h. mc_entries c (app, ph, b) = Some h \<longrightarrow>
        (\<exists>cat src. (app, cat) \<in> T \<and> compute_publish_hash E cat = ph \<and> block_source cat b src \<and> S src app = Inr h))"

definition collision_free :: "ext \<Rightarrow> (string \<times> (string \<times> pyval) list) set \<Rightarrow> bool" where
  "collision_free E T \<longleftrightarrow>
     (\<forall>app c1 c2. (app, c1) \<in> T \<and> (app, c2) \<in> T \<and> compute_publish_hash E c1 = compute_publish_hash E c2 \<longrightarrow> c1 = c2)"

text \<open>A step whose result does not depend on which coherent cache it finds.\<close>

definition steady :: "('c \<Rightarrow> bool) \<Rightarrow> ('c \<Rightarrow> 'a res \<times> 'c) \<Rightarrow> bool" where
  "steady P f \<longleftrightarrow> (\<exists>r. \<forall>c. P c \<longrightarrow> fst (f c) = r \<and> P (snd (f c)))"

named_theorems steady_intros

lemma steady_return [steady_intros]: "steady P (\<lambda>c. (r, c))"
  by (simp add: steady_def)

lemma steady_lift [steady_intros]:
  assumes "\<And>x. m = Inr x \<Longrightarrow> steady P (\<lambda>c. g c x)"
  shows "steady P (\<lambda>c. lift_res m c (g c))"
  using assms by (cases m) (auto simp: steady_return)

lemma steady_and_then [steady_intros]:
  assumes "steady P f" and "\<And>x. steady P (g x)"
  shows "steady P (\<lambda>c. and_then (f c) g)"
proof -
  from assms(1) obtain r where r: "\<forall>c. P c \<longrightarrow> fst (f c) = r \<and> P (snd (f c))" by (auto simp: steady_def)
  show ?thesis
  proof (cases r)
    case (Inl e)
    with r show ?thesis
      unfolding steady_def by (intro exI [of _ "Inl e"]) (auto simp: and_then_def split: prod.splits)
  next
    case (Inr x)
    from assms(2) [of x] obtain s where "\<forall>c. P c \<longrightarrow> fst (g x c) = s \<and> P (snd (g x c))" by (auto simp: steady_def)
    with r Inr show ?thesis
      unfolding steady_def by (intro exI [of _ s]) (auto simp: and_then_def split: prod.splits)
  qed
qed

lemma steady_if [steady_intros]: "(b \<Longrightarrow> steady P f) \<Longrightarrow> (\<not> b \<Longrightarrow> steady P g) \<Longrightarrow> steady P (\<lambda>c. if b then f c else g c)"
  by (cases b) auto

lemma steady_block:
  assumes "collision_free E T" and "(app, catalog) \<in> T" and "vars_distinct catalog" and "block_source catalog b src"
  shows "steady (coherent E S T) (render_block S app (compute_publish_hash E catalog) b src)"
proof -
  have "fst (render_block S app (compute_publish_hash E catalog) b src c) = S src app \<and>
      coherent E S T (snd (render_block S app (compute_publish_hash E catalog) b src c))"
    if c: "coherent E S T c" for c
  proof (cases "mc_entries c (app, compute_publish_hash E catalog, b)")
    case None
    with c assms(2,4) show ?thesis
      by (auto simp: render_block_def coherent_def split: sum.splits)
  next
    case (Some h)
    with c obtain cat src' where "(app, cat) \<in> T" "compute_publish_hash E cat = compute_publish_hash E catalog"
      "block_source cat b src'" "S src' app = Inr h"
      unfolding coherent_def by blast
    with assms have "S src app = Inr h" unfolding collision_free_def by (metis block_source_unique)
    with Some c show ?thesis by (simp add: render_block_def coherent_def)
  qed
  then show ?thesis unfolding steady_def by blast
qed

text \<open>The parts of a page, each with the blocks of its own catalog.\<close>

lemma steady_ui_block:
  assumes "collision_free E T" and "(app, catalog) \<in> T" and "vars_distinct catalog"
    and "(b, key) \<in> {(''header'', ''header_markdown''), (''footer'', ''footer_markdown'')}"
  shows "steady (coherent E S T)
    (render_ui_block S app (compute_publish_hash E catalog) (py_or (dval catalog ''ui'') (PDict [])) b key cls)"
  unfolding render_ui_block_def
proof (intro steady_intros)
  fix md
  assume "dget_or (py_or (dval catalog ''ui'') (PDict [])) key PNone = Inr md"
  then have "block_source catalog b md" using assms(4) by (auto simp: block_source_def Let_def)
  with assms(1-3) show "steady (coherent E S T) (render_block S app (compute_publish_hash E catalog) b md)"
    by (rule steady_block)
qed

lemma steady_card:
  assumes "collision_free E T" and "(app, catalog) \<in> T" and "vars_distinct catalog"
    and "customer_facing_vars catalog = Inr vs" and "(name, var) \<in> set vs"
  shows "steady (coherent E S T) (render_setting_card M E S name var current fd app (compute_publish_hash E catalog))"
proof -
  have "block_source catalog (''help.'' @ name) (dval var ''help_markdown'')"
    using assms(4,5) unfolding block_source_def Let_def by blast
  note block = steady_block [OF assms(1-3) this]
  have "steady (coherent E S T) (render_help E S var app (compute_publish_hash E catalog) name)"
    unfolding render_help_def Let_def by (intro steady_intros block)
  then show ?thesis
    unfolding render_setting_card_def Let_def by (intro steady_intros)
qed

lemma steady_cards:
  assumes "collision_free E T" and "(app, catalog) \<in> T" and "vars_distinct catalog"
    and "customer_facing_vars catalog = Inr vs" and "set ws \<subseteq> set vs"
  shows "steady (coherent E S T) (render_cards M E S values app (compute_publish_hash E catalog) ws)"
  using assms(5)
proof (induction ws)
  case Nil
  then show ?case using steady_return by simp
next
  case (Cons x ws)
  obtain name var where x: "x = (name, var)" by force
  from Cons have rest: "steady (coherent E S T) (render_cards M E S values app (compute_publish_hash E catalog) ws)" by simp
  have card: "steady (coherent E S T) (render_setting_card M E S name var cur fd app (compute_publish_hash E catalog))" for cur fd
    by (rule steady_card [OF assms(1-4)]) (use Cons.prems x in auto)
  show ?case
    unfolding x render_cards.simps Let_def by (intro steady_intros card rest)
qed

lemma steady_page:
  assumes "collision_free E T" and "(app, catalog) \<in> T" and "vars_distinct catalog"
  shows "steady (coherent E S T) (render_page M E S app device catalog values)"
proof -
  have header: "steady (coherent E S T) (render_ui_block S app (compute_publish_hash E catalog)
        (py_or (dval catalog ''ui'') (PDict [])) ''header'' ''header_markdown'' cls)"
    and footer: "steady (coherent E S T) (render_ui_block S app (compute_publish_hash E catalog)
        (py_or (dval catalog ''ui'') (PDict [])) ''footer'' ''footer_markdown'' cls)" for cls
    by (rule steady_ui_block [OF assms]; simp)+
  have cards: "steady (coherent E S T) (render_cards M E S values app (compute_publish_hash E catalog) vs)"
    if "customer_facing_vars catalog = Inr vs" for vs
    by (rule steady_cards [OF assms that]) simp
  show ?thesis
    unfolding render_page_def Let_def by (intro steady_intros header footer cards)
qed

text \<open>A worker that serves one page after the other.\<close>

type_synonym page = "string \<times> string \<times> (string \<times> pyval) list \<times> (string \<rightharpoonup> resolved)"

fun serve_pages ::
    "(string \<Rightarrow> string \<Rightarrow> bool option) \<Rightarrow> ext \<Rightarrow> sanitizer \<Rightarrow> page list \<Rightarrow> md_cache \<Rightarrow> string res list" where
  "serve_pages M E S [] c = []"
| "serve_pages M E S ((app, device, catalog, values) # ps) c =
     (case render_page M E S app device catalog values c of (r, c1) \<Rightarrow> r # serve_pages M E S ps c1)"

definition shown_catalogs :: "page list \<Rightarrow> (string \<times> (string \<times> pyval) list) set" where
  "shown_catalogs ps = (\<lambda>(app, device, catalog, values). (app, catalog)) ` set ps"

lemma serve_pages_steady:
  assumes "collision_free E T" and "shown_catalogs ps \<subseteq> T" and "\<forall>(app, cat) \<in> T. vars_distinct cat"
    and "coherent E S T c" and "coherent E S T c0"
  shows "serve_pages M E S ps c = map (\<lambda>(app, device, catalog, values). fst (render_page M E S app device catalog values c0)) ps"
  using assms(2,4)
proof (induction ps arbitrary: c)
  case (Cons p ps)
  obtain app device catalog vals where p: "p = (app, device, catalog, vals)" by (metis prod_cases4)
  have "(app, catalog) \<in> T" using Cons.prems p by (auto simp: shown_catalogs_def)
  with assms(1,3) have "steady (coherent E S T) (render_page M E S app device catalog vals)"
    by (blast intro: steady_page)
  then obtain r where r: "\<forall>c. coherent E S T c \<longrightarrow> fst (render_page M E S app device catalog vals c) = r \<and>
      coherent E S T (snd (render_page M E S app device catalog vals c))"
    unfolding steady_def by blast
  with Cons assms(5) show ?case
    by (auto simp: p shown_catalogs_def split: prod.splits)
qed simp

text \<open>
  C31. The cache of markdown blocks does not show. However many pages of whatever applications
  and catalogs one worker serves, each is byte for byte the page (or the exception) an empty
  cache gives, as long as no two different catalogs shown of one application have the same
  publish hash; the variables of a catalog, a Python dict, have distinct names.
\<close>

theorem cached_pages_equal_uncached:
  assumes "collision_free E (shown_catalogs ps)" and "\<forall>(app, cat) \<in> shown_catalogs ps. vars_distinct cat"
  shows "serve_pages M E S ps empty_cache =
    map (\<lambda>(app, device, catalog, values). fst (render_page M E S app device catalog values empty_cache)) ps"
proof -
  have "coherent E S T empty_cache" for T by (simp add: coherent_def empty_cache_def)
  from serve_pages_steady [OF assms(1) subset_refl assms(2) this this] show ?thesis .
qed

definition ref_catalog :: "(string \<times> pyval) list" where
  "ref_catalog =
     [(''ui'', PDict [(''header_markdown'', PStr ''hello'')]),
      (''vars'', PDict [(''x'', PDict [(''label'', PStr ''X''), (''help_markdown'', PStr ''help'')])])]"

theorem cached_pages_equal_uncached_witness:
  "serve_pages (\<lambda>_ _. None) ref_ext (\<lambda>v _. Inr (py_str ref_ext v)) [(''app'', ''d1'', ref_catalog, Map.empty), (''app'', ''d2'', ref_catalog, Map.empty)] empty_cache =
   map (\<lambda>(app, device, catalog, values). fst (render_page (\<lambda>_ _. None) ref_ext (\<lambda>v _. Inr (py_str ref_ext v)) app device catalog values empty_cache))
     [(''app'', ''d1'', ref_catalog, Map.empty), (''app'', ''d2'', ref_catalog, Map.empty)]"
  by (rule cached_pages_equal_uncached)
    (auto simp: collision_free_def shown_catalogs_def vars_distinct_def ref_catalog_def py_or_def)

end
