(* ===== verification/OAuth.thy ===== *)
theory OAuth
  imports MainApp
begin

text \<open>
  Sign-in with Google: \<open>backend/src/core/oauth.py\<close> and \<open>backend/src/api/routes_oauth.py\<close>.

  Google's token endpoint and the verification of an ID token by \<open>google-auth\<close> are not part of
  the repository: they are the record \<open>google\<close>, of any behaviour, an argument of what uses them.
  The random state token is an argument. A reply is a response with the cookies it sets and the
  names of those it deletes. Logging is left out.
\<close>

subsection \<open>Configuration and errors\<close>

record oauth_config =
  oc_client_id :: "string option"      \<comment> \<open>\<open>STRA2US_GOOGLE_CLIENT_ID\<close>\<close>
  oc_client_secret :: "string option"  \<comment> \<open>\<open>STRA2US_GOOGLE_CLIENT_SECRET\<close>\<close>
  oc_redirect_uri :: "string option"   \<comment> \<open>\<open>STRA2US_OAUTH_REDIRECT_URI\<close>\<close>

datatype oauth_exn =
    OAuthError string
  | Unhandled exn

definition obind :: "oauth_exn + 'a \<Rightarrow> ('a \<Rightarrow> oauth_exn + 'b) \<Rightarrow> oauth_exn + 'b" where
  "obind m f = (case m of Inl e \<Rightarrow> Inl e | Inr x \<Rightarrow> f x)"

lemma obind_Inr_iff: "obind m f = Inr y \<longleftrightarrow> (\<exists>x. m = Inr x \<and> f x = Inr y)"
  by (cases m) (simp_all add: obind_def)

lemma obind_simps [simp]: "obind (Inl e) f = Inl e" "obind (Inr x) f = f x"
  by (simp_all add: obind_def)

definition required_env :: "string option \<Rightarrow> oauth_exn + string" where
  "required_env val =
     (case val of
        None \<Rightarrow> Inl (Unhandled (PyExn ''RuntimeError''))
      | Some v \<Rightarrow> if v = [] then Inl (Unhandled (PyExn ''RuntimeError'')) else Inr v)"

definition client_id :: "oauth_config \<Rightarrow> oauth_exn + string" where
  "client_id C = required_env (oc_client_id C)"

definition client_secret :: "oauth_config \<Rightarrow> oauth_exn + string" where
  "client_secret C = required_env (oc_client_secret C)"

definition redirect_uri :: "oauth_config \<Rightarrow> oauth_exn + string" where
  "redirect_uri C = required_env (oc_redirect_uri C)"

definition OAUTH_TEMP_COOKIE_TTL_SECONDS :: nat where
  "OAUTH_TEMP_COOKIE_TTL_SECONDS = 600"

definition COOKIE_OAUTH_STATE :: string where
  "COOKIE_OAUTH_STATE = ''oauth_state''"

definition COOKIE_OAUTH_REDIRECT_TO :: string where
  "COOKIE_OAUTH_REDIRECT_TO = ''oauth_redirect_to''"

definition GOOGLE_AUTHORIZE_URL :: string where
  "GOOGLE_AUTHORIZE_URL = ''https://accounts.google.com/o/oauth2/v2/auth''"

definition GOOGLE_SCOPE :: string where
  "GOOGLE_SCOPE = ''openid email''"

subsection \<open>State token, authorize URL\<close>

definition verify_state_token :: "string \<Rightarrow> string option \<Rightarrow> bool res" where
  "verify_state_token received stored =
     (case stored of
        None \<Rightarrow> Inr False
      | Some s \<Rightarrow> if received = [] \<or> s = [] then Inr False else compare_digest received s)"

definition build_authorize_url :: "oauth_config \<Rightarrow> string \<Rightarrow> oauth_exn + string" where
  "build_authorize_url C state =
     obind (client_id C) (\<lambda>cid.
     obind (redirect_uri C) (\<lambda>uri.
     Inr (GOOGLE_AUTHORIZE_URL @ ''?'' @ urlencode
       [(''client_id'', cid), (''redirect_uri'', uri), (''response_type'', ''code''), (''scope'', GOOGLE_SCOPE),
        (''state'', state), (''prompt'', ''select_account'')])))"

subsection \<open>Google\<close>

text \<open>
  The answer of the token endpoint: its status, the start of its text and its JSON, or the text of
  the \<open>ValueError\<close> that parsing raises. The claims hold what the code reads; \<open>email\<close> is a string
  where it is present, as OpenID Connect has it.
\<close>

record token_answer =
  ta_status :: nat
  ta_excerpt :: string               \<comment> \<open>\<open>r.text[:200]\<close>\<close>
  ta_json :: "string + pyval"

record id_claims =
  ic_iss :: pyval
  ic_email :: "string option"
  ic_email_verified :: pyval

datatype google_exn =
    GoogleValueError string
  | GoogleOther exn

record google =
  g_token :: "(string \<times> string) list \<Rightarrow> string + token_answer"   \<comment> \<open>\<open>Inl\<close>: \<open>RequestException\<close>\<close>
  g_verify :: "pyval \<Rightarrow> string \<Rightarrow> google_exn + id_claims"           \<comment> \<open>token and audience\<close>

definition token_request :: "oauth_config \<Rightarrow> string \<Rightarrow> oauth_exn + (string \<times> string) list" where
  "token_request C code =
     obind (client_id C) (\<lambda>cid.
     obind (client_secret C) (\<lambda>sec.
     obind (redirect_uri C) (\<lambda>uri.
     Inr [(''code'', code), (''client_id'', cid), (''client_secret'', sec), (''redirect_uri'', uri),
          (''grant_type'', ''authorization_code'')])))"

definition exchange_code_for_id_token :: "oauth_config \<Rightarrow> google \<Rightarrow> string \<Rightarrow> oauth_exn + pyval" where
  "exchange_code_for_id_token C G code =
     obind (token_request C code) (\<lambda>form.
     (case g_token G form of
        Inl e \<Rightarrow> Inl (OAuthError (''Token endpoint network error: '' @ e))
      | Inr r \<Rightarrow>
         if ta_status r \<noteq> 200
         then Inl (OAuthError (''Token exchange returned HTTP '' @ dec_nat (ta_status r) @ '': '' @ ta_excerpt r))
         else
         (case ta_json r of
            Inl e \<Rightarrow> Inl (OAuthError (''Token endpoint returned non-JSON: '' @ e))
          | Inr (PDict payload) \<Rightarrow>
             let id_tok = dval payload ''id_token'' in
             if \<not> truthy id_tok then Inl (OAuthError ''Token endpoint response missing id_token'') else Inr id_tok
          | Inr _ \<Rightarrow> Inl (Unhandled (PyExn ''AttributeError'')))))"

definition google_issuers :: "string list" where
  "google_issuers = [''accounts.google.com'', ''https://accounts.google.com'']"

text \<open>The verified e-mail address of the token, the only claim the callback goes on with.\<close>

definition validate_id_token :: "ext \<Rightarrow> oauth_config \<Rightarrow> google \<Rightarrow> pyval \<Rightarrow> oauth_exn + string" where
  "validate_id_token E C G raw_token =
     obind (client_id C) (\<lambda>cid.
     (case g_verify G raw_token cid of
        Inl (GoogleValueError e) \<Rightarrow> Inl (OAuthError (''ID token validation failed: '' @ e))
      | Inl (GoogleOther e) \<Rightarrow> Inl (Unhandled e)
      | Inr claims \<Rightarrow>
         if ic_iss claims \<notin> PStr ` set google_issuers
         then Inl (OAuthError (''ID token issuer is not Google: '' @ e_repr E (ic_iss claims)))
         else
         (case ic_email claims of
            None \<Rightarrow> Inl (OAuthError ''ID token has no email claim'')
          | Some email \<Rightarrow>
             if email = [] then Inl (OAuthError ''ID token has no email claim'')
             else if \<not> truthy (ic_email_verified claims) then Inl (OAuthError ''ID token email is not verified'')
             else Inr email)))"

subsection \<open>Pages\<close>

record oauth_reply =
  or_response :: response
  or_cookies :: "cookie list"
  or_deleted :: "string list"

definition html_reply :: "nat \<Rightarrow> string \<Rightarrow> oauth_reply" where
  "html_reply status body =
     \<lparr>or_response = \<lparr>rs_status = status, rs_media = ''text/html; charset=utf-8'', rs_headers = [], rs_body = body\<rparr>,
      or_cookies = [], or_deleted = []\<rparr>"

text \<open>\<open>replace\<close> of the two angle brackets.\<close>

definition escape_angles :: "string \<Rightarrow> string" where
  "escape_angles s = concat (map (\<lambda>c. if c = CHR ''<'' then ''&lt;'' else if c = CHR ''>'' then ''&gt;'' else [c]) s)"

definition text_lines :: "string list \<Rightarrow> string" where
  "text_lines ls = concat (map (\<lambda>l. l @ [NL]) ls)"

definition em_dash :: string where
  "em_dash = [CHR 0xE2, CHR 0x80, CHR 0x94]"

definition render_unauthorized_page :: "string \<Rightarrow> oauth_reply" where
  \<open>render_unauthorized_page email =
     (let safe_email = escape_angles email in
      html_reply 403 (text_lines
      [''<!doctype html>'',
      ''<html lang="en">'',
      ''<head>'',
      ''    <meta charset="utf-8">'',
      ''    <title>Not authorized</title>'',
      ''    <style>'',
      ''        body { font-family: system-ui, sans-serif; max-width: 480px;'',
      ''               margin: 80px auto; padding: 0 20px; line-height: 1.5;'',
      ''               color: #1a1a1c; }'',
      ''        h1 { font-size: 1.4rem; margin-bottom: 16px; }'',
      ''        .email { font-family: ui-monospace, monospace;'',
      ''                 background: #f0f0f2; padding: 2px 6px; border-radius: 4px; }'',
      ''        .hint { color: #6b6b70; font-size: 0.95rem; }'',
      ''        a.btn { display: inline-block; margin-top: 20px; padding: 10px 16px;'',
      ''                background: #2754c5; color: #fff; border-radius: 6px;'',
      ''                text-decoration: none; font-size: 0.95rem; }'',
      ''    </style>'',
      ''</head>'',
      ''<body>'',
      ''    <h1>You're signed in, but this account isn't authorized.</h1>'',
      ''    '' @ (if safe_email \<noteq> [] then ''<p>You signed in as <span class="email">'' @ safe_email @ ''</span>.</p>'' else []),
      ''    <p class="hint">'',
      ''        That Google account doesn't have access to anything in'',
      ''        stra2us. If this is a mistake '' @ em_dash @ '' for example, you have'',
      ''        multiple Google accounts and signed in with the wrong one '' @ em_dash,
      ''        sign out and try again with a different account.'',
      ''    </p>'',
      ''    <p class="hint">'',
      ''        Otherwise, contact your administrator. They'll need to add'',
      ''        your Google email to grant access.'',
      ''    </p>'',
      ''    <a class="btn" href="/oauth/google/login">Sign in with a different account</a>'',
      ''</body>'',
      ''</html>'']))\<close>

definition unauthorized_response :: "string \<Rightarrow> oauth_reply" where
  "unauthorized_response email =
     (render_unauthorized_page email)\<lparr>or_deleted := [COOKIE_OAUTH_STATE, COOKIE_OAUTH_REDIRECT_TO]\<rparr>"

definition error_page :: "nat \<Rightarrow> string \<Rightarrow> string \<Rightarrow> oauth_reply" where
  \<open>error_page status title detail =
     (let safe_detail = escape_angles detail in
      html_reply status (text_lines
      [''<!doctype html>'',
      ''<html lang="en">'',
      ''<head>'',
      ''    <meta charset="utf-8">'',
      ''    <title>Sign-in error</title>'',
      ''    <style>'',
      ''        body { font-family: system-ui, sans-serif; max-width: 480px;'',
      ''               margin: 80px auto; padding: 0 20px; line-height: 1.5;'',
      ''               color: #1a1a1c; }'',
      ''        h1 { font-size: 1.4rem; margin-bottom: 16px; }'',
      ''        .hint { color: #6b6b70; font-size: 0.95rem; }'',
      ''        .detail { font-family: ui-monospace, monospace; font-size: 0.85rem;'',
      ''                  background: #fdecea; color: #c53030; padding: 8px 12px;'',
      ''                  border-radius: 4px; margin-top: 16px; }'',
      ''        a.btn { display: inline-block; margin-top: 20px; padding: 10px 16px;'',
      ''                background: #2754c5; color: #fff; border-radius: 6px;'',
      ''                text-decoration: none; font-size: 0.95rem; }'',
      ''    </style>'',
      ''</head>'',
      ''<body>'',
      ''    <h1>'' @ title @ ''</h1>'',
      ''    <p class="hint">'' @ safe_detail @ ''</p>'',
      ''    <a class="btn" href="/oauth/google/login">Try again</a>'',
      ''</body>'',
      ''</html>'']))\<close>

subsection \<open>The handlers\<close>

text \<open>\<open>RedirectResponse\<close> percent-encodes what cannot stand in a URL.\<close>

definition redirect_reply :: "string \<Rightarrow> cookie list \<Rightarrow> string list \<Rightarrow> oauth_reply" where
  \<open>redirect_reply url cookies deleted =
     \<lparr>or_response = \<lparr>rs_status = 302, rs_media = [],
        rs_headers = [(''location'', quote (CHR 0x27 # '':/%#?=@[]!$&()*+,;'') url)], rs_body = []\<rparr>,
      or_cookies = cookies, or_deleted = deleted\<rparr>\<close>

definition oauth_cookie :: "app_config \<Rightarrow> string \<Rightarrow> string \<Rightarrow> nat \<Rightarrow> cookie" where
  "oauth_cookie cfg key v max_age =
     \<lparr>ck_key = key, ck_value = v, ck_max_age = max_age, ck_httponly = True, ck_secure = cookie_secure cfg,
      ck_samesite = ''lax'', ck_path = ''/''\<rparr>"

definition oauth_disabled :: exn where
  "oauth_disabled = HTTPException 503 ''Google OAuth is not enabled on this server.''"

definition unhandled_exn :: "oauth_exn \<Rightarrow> exn" where
  "unhandled_exn e = (case e of OAuthError _ \<Rightarrow> PyExn ''OAuthError'' | Unhandled x \<Rightarrow> x)"

definition oauth_login :: "app_config \<Rightarrow> oauth_config \<Rightarrow> string \<Rightarrow> string \<Rightarrow> oauth_reply res" where
  "oauth_login cfg C state next0 =
     (if \<not> oauth_is_enabled cfg then Inl oauth_disabled
      else
      (case build_authorize_url C state of
         Inl e \<Rightarrow> Inl (unhandled_exn e)
       | Inr auth_url \<Rightarrow>
          Inr (redirect_reply auth_url
            (oauth_cookie cfg COOKIE_OAUTH_STATE state OAUTH_TEMP_COOKIE_TTL_SECONDS
             # (if next0 \<noteq> [] \<and> prefix ''/'' next0 \<and> \<not> prefix ''//'' next0
                then [oauth_cookie cfg COOKIE_OAUTH_REDIRECT_TO next0 OAUTH_TEMP_COOKIE_TTL_SECONDS] else []))
            [])))"

definition callback_target :: "request \<Rightarrow> string" where
  "callback_target req =
     (let redirect_to = (case rq_cookies req COOKIE_OAUTH_REDIRECT_TO of
                           None \<Rightarrow> ''/admin/'' | Some t \<Rightarrow> if t = [] then ''/admin/'' else t)
      in if prefix ''/'' redirect_to then redirect_to else ''/admin/'')"

definition oauth_callback ::
    "'db redis \<Rightarrow> ext \<Rightarrow> app_config \<Rightarrow> oauth_config \<Rightarrow> google \<Rightarrow> int \<Rightarrow> request \<Rightarrow> string \<Rightarrow> string
      \<Rightarrow> 'db \<Rightarrow> oauth_reply res" where
  "oauth_callback R E cfg C G now req code state d =
     (if \<not> oauth_is_enabled cfg then Inl oauth_disabled
      else
      bind_res (verify_state_token state (rq_cookies req COOKIE_OAUTH_STATE)) (\<lambda>ok.
      if \<not> ok
      then Inr (error_page 400 ''Sign-in session expired or was forged.''
        ''Try signing in again. If you keep seeing this, make sure cookies are enabled.'')
      else if code = []
      then Inr (error_page 400 ''Sign-in canceled or rejected.''
        (''Google didn'' @ [CHR 0x27] @ ''t return an authorization code. Try again.''))
      else
      (case exchange_code_for_id_token C G code of
         Inl (OAuthError m) \<Rightarrow> Inr (error_page 502 (''Couldn'' @ [CHR 0x27] @ ''t reach Google to complete sign-in.'') m)
       | Inl (Unhandled e) \<Rightarrow> Inl e
       | Inr raw_id_token \<Rightarrow>
      (case validate_id_token E C G raw_id_token of
         Inl (OAuthError m) \<Rightarrow> Inr (error_page 401 ''Sign-in token validation failed.'' m)
       | Inl (Unhandled e) \<Rightarrow> Inl e
       | Inr email \<Rightarrow>
          if get_truthy R (admin_acl_key email) d = None then Inr (unauthorized_response email)
          else Inr (redirect_reply (callback_target req)
            [oauth_cookie cfg ''admin_session'' (generate_session_token E (cfg_session_secret cfg) now email)
               (7 * 24 * 60 * 60)]
            [COOKIE_OAUTH_STATE, COOKIE_OAUTH_REDIRECT_TO])))))"

subsection \<open>What the pages show\<close>

text \<open>No text put into a page can open or close a tag.\<close>

lemma escape_angles_text [simp]: "CHR ''<'' \<notin> set (escape_angles s)" "CHR ''>'' \<notin> set (escape_angles s)"
  by (auto simp: escape_angles_def split: if_splits)

lemma page_replies [simp]:
  "or_cookies (error_page n t m) = []" "or_cookies (unauthorized_response email) = []"
  by (simp_all add: error_page_def unauthorized_response_def render_unauthorized_page_def html_reply_def Let_def)

subsection \<open>Sign-in\<close>

lemma exchange_Inr:
  assumes "exchange_code_for_id_token C G code = Inr raw"
  shows "\<exists>form r payload. token_request C code = Inr form \<and> g_token G form = Inr r \<and> ta_status r = 200 \<and>
    ta_json r = Inr (PDict payload) \<and> raw = dval payload ''id_token'' \<and> truthy raw"
proof -
  from assms obtain form where f: "token_request C code = Inr form"
    by (auto simp: exchange_code_for_id_token_def obind_Inr_iff)
  with assms show ?thesis
    by (auto simp: exchange_code_for_id_token_def Let_def split: sum.splits if_splits pyval.splits)
qed

lemma required_env_Inr: "required_env val = Inr v \<longleftrightarrow> val = Some v \<and> v \<noteq> []"
  by (auto simp: required_env_def split: option.splits if_splits)

lemma validate_Inr:
  assumes "validate_id_token E C G raw = Inr email"
  shows "\<exists>cid claims. oc_client_id C = Some cid \<and> g_verify G raw cid = Inr claims \<and>
    ic_iss claims \<in> PStr ` set google_issuers \<and> ic_email claims = Some email \<and> email \<noteq> [] \<and> truthy (ic_email_verified claims)"
proof -
  from assms obtain cid where c: "client_id C = Inr cid"
    by (auto simp: validate_id_token_def obind_Inr_iff)
  then have "oc_client_id C = Some cid" by (simp add: client_id_def required_env_Inr)
  with assms c show ?thesis
    by (auto simp: validate_id_token_def
        split: sum.splits google_exn.splits if_splits option.splits)
qed

lemma verify_state_True:
  "verify_state_token received stored = Inr True \<Longrightarrow> stored = Some received \<and> received \<noteq> []"
  by (auto simp: verify_state_token_def compare_digest_def split: option.splits if_splits)

lemma token_nonempty:
  assumes "codec E"
  shows "generate_session_token E secret now user \<noteq> []"
proof
  assume "generate_session_token E secret now user = []"
  then obtain v where "b64encode (e_dumps E v) = b64encode []"
    by (auto simp: generate_session_token_def Let_def)
  then have "b64decode (b64encode (e_dumps E v)) = b64decode (b64encode [])" by simp
  then show False using codec.dumps_nonempty [OF assms] unfolding b64decode_encode by simp
qed

lemma callback_cookie:
  assumes "oauth_callback R E cfg C G now req code state d = Inr reply" and "ck \<in> set (or_cookies reply)"
  shows "\<exists>raw email. rq_cookies req COOKIE_OAUTH_STATE = Some state \<and> state \<noteq> [] \<and> code \<noteq> [] \<and>
    exchange_code_for_id_token C G code = Inr raw \<and> validate_id_token E C G raw = Inr email \<and>
    get_truthy R (admin_acl_key email) d \<noteq> None \<and>
    reply = redirect_reply (callback_target req) [ck] [COOKIE_OAUTH_STATE, COOKIE_OAUTH_REDIRECT_TO] \<and>
    ck = oauth_cookie cfg ''admin_session'' (generate_session_token E (cfg_session_secret cfg) now email) (7 * 24 * 60 * 60)"
  using assms
  by (auto simp: oauth_callback_def bind_res_Inr_iff redirect_reply_def
      split: if_splits sum.splits oauth_exn.splits dest: verify_state_True)

lemma quote_keeps_slash: "prefix ''/'' url \<Longrightarrow> CHR ''/'' \<in> set safe \<Longrightarrow> prefix ''/'' (quote safe url)"
  by (cases url) (auto simp: quote_def)

lemma callback_target_local: "prefix ''/'' (callback_target req)"
  by (simp add: callback_target_def Let_def)

text \<open>
  C34. Nobody gets a session by Google sign-in but a verified and provisioned user. The callback
  sets a cookie only when its \<open>state\<close> is the one in the browser's own state cookie, Google's token
  endpoint gave a token for the code, and that token verified for this application as issued by
  Google with a verified e-mail address, for which the store has an access list. The cookie is the
  session cookie; the gate accepts it as that address for 24 hours, though the cookie lasts seven
  days, and the browser is sent to a path of the same site.
\<close>

theorem oauth_session_sound:
  assumes "codec E" and "0 \<le> now"
    and "oauth_callback R E cfg C G now req code state d = Inr reply" and "ck \<in> set (or_cookies reply)"
  shows "\<exists>form answer payload raw cid claims email acl location.
    rq_cookies req ''oauth_state'' = Some state \<and> state \<noteq> [] \<and>
    token_request C code = Inr form \<and> g_token G form = Inr answer \<and> ta_status answer = 200 \<and>
    ta_json answer = Inr (PDict payload) \<and> dval payload ''id_token'' = raw \<and>
    oc_client_id C = Some cid \<and> g_verify G raw cid = Inr claims \<and>
    ic_iss claims \<in> {PStr ''accounts.google.com'', PStr ''https://accounts.google.com''} \<and>
    ic_email claims = Some email \<and> truthy (ic_email_verified claims) \<and>
    r_get R (admin_acl_key email) d = Some acl \<and> acl \<noteq> [] \<and>
    ck_key ck = ''admin_session'' \<and> ck_max_age ck = 604800 \<and>
    (utf8_valid email \<longrightarrow> (\<forall>later req2. rq_cookies req2 ''admin_session'' = Some (ck_value ck) \<longrightarrow>
      cookie_user cfg E later req2 = (if later \<le> now + 86400 then Some (PStr email) else None))) \<and>
    rs_headers (or_response reply) = [(''location'', location)] \<and> prefix ''/'' location"
proof -
  from callback_cookie [OF assms(3,4)] obtain raw email where c: "rq_cookies req COOKIE_OAUTH_STATE = Some state" "state \<noteq> []"
    "exchange_code_for_id_token C G code = Inr raw" "validate_id_token E C G raw = Inr email"
    "get_truthy R (admin_acl_key email) d \<noteq> None"
    "reply = redirect_reply (callback_target req) [ck] [COOKIE_OAUTH_STATE, COOKIE_OAUTH_REDIRECT_TO]"
    "ck = oauth_cookie cfg ''admin_session'' (generate_session_token E (cfg_session_secret cfg) now email) (7 * 24 * 60 * 60)"
    by blast
  note ex = exchange_Inr [OF c(3)]
  from validate_Inr [OF c(4)] obtain cid claims where v: "oc_client_id C = Some cid" "g_verify G raw cid = Inr claims"
    "ic_iss claims \<in> PStr ` set google_issuers" "ic_email claims = Some email" "email \<noteq> []" "truthy (ic_email_verified claims)"
    by blast
  have tok: "ck_value ck = generate_session_token E (cfg_session_secret cfg) now email" "ck_key ck = ''admin_session''"
    "ck_max_age ck = 604800" using c(7) by (simp_all add: oauth_cookie_def)
  have "cookie_user cfg E later req2 = (if later \<le> now + 86400 then Some (PStr email) else None)"
    if "utf8_valid email" "rq_cookies req2 ''admin_session'' = Some (ck_value ck)" for later req2
  proof -
    note verified = codec.verify_generated [OF assms(1) that(1) v(5) assms(2)]
    have "ck_value ck \<noteq> []"
      using tok(1) token_nonempty [OF assms(1)] by simp
    then show ?thesis using verified that(2) tok(1) v(5) by (simp add: cookie_user_def)
  qed
  moreover obtain acl where "r_get R (admin_acl_key email) d = Some acl" "acl \<noteq> []"
    using c(5) by (auto simp: get_truthy_def split: option.splits if_splits)
  moreover have "rs_headers (or_response reply) = [(''location'', quote (CHR 0x27 # '':/%#?=@[]!$&()*+,;'') (callback_target req))]"
    using c(6) by (simp add: redirect_reply_def)
  moreover have "prefix ''/'' (quote (CHR 0x27 # '':/%#?=@[]!$&()*+,;'') (callback_target req))"
    by (rule quote_keeps_slash [OF callback_target_local]) simp
  ultimately show ?thesis
    using c(1,2) ex v tok(2,3) unfolding COOKIE_OAUTH_STATE_def google_issuers_def by fastforce
qed

text \<open>A whole sign-in: the cookies of \<open>oauth_login\<close> come back with the callback.\<close>

definition ref_oauth :: oauth_config where
  "ref_oauth = \<lparr>oc_client_id = Some ''app'', oc_client_secret = Some ''sec'', oc_redirect_uri = Some ''https://ui.example/cb''\<rparr>"

definition ref_google :: google where
  "ref_google = \<lparr>g_token = (\<lambda>form. Inr \<lparr>ta_status = 200, ta_excerpt = [], ta_json = Inr (PDict [(''id_token'', PStr ''jwt'')])\<rparr>),
     g_verify = (\<lambda>raw cid. if raw = PStr ''jwt'' \<and> cid = ''app''
       then Inr \<lparr>ic_iss = PStr ''accounts.google.com'', ic_email = Some ''ann'', ic_email_verified = PBool True\<rparr>
       else Inl (GoogleValueError ''bad token''))\<rparr>"

definition with_cookies :: "oauth_reply res \<Rightarrow> request \<Rightarrow> request" where
  "with_cookies r req = req\<lparr>rq_cookies := map_of (case r of Inl _ \<Rightarrow> [] | Inr x \<Rightarrow> map (\<lambda>k. (ck_key k, ck_value k)) (or_cookies x))\<rparr>"

theorem oauth_session_sound_witness:
  "\<exists>reply ck. oauth_callback mem_redis ref_ext ref_cfg ref_oauth ref_google 0
      (with_cookies (oauth_login ref_cfg ref_oauth ''s1'' ''/app/x'') (admin_req ''GET'' Map.empty Map.empty)) ''c'' ''s1''
      (r_set mem_redis (admin_acl_key ''ann'') ''a'' []) = Inr reply \<and> or_cookies reply = [ck] \<and>
    cookie_user ref_cfg ref_ext 86400 (admin_req ''GET'' Map.empty [''admin_session'' \<mapsto> ck_value ck]) = Some (PStr ''ann'')"
proof -
  let ?req = "with_cookies (oauth_login ref_cfg ref_oauth ''s1'' ''/app/x'') (admin_req ''GET'' Map.empty Map.empty)"
  let ?d = "r_set mem_redis (admin_acl_key ''ann'') ''a'' []"
  have env: "oauth_is_enabled ref_cfg" by code_simp
  have st: "rq_cookies ?req COOKIE_OAUTH_STATE = Some ''s1''"
    using env by (simp add: with_cookies_def oauth_login_def build_authorize_url_def client_id_def redirect_uri_def
        required_env_def ref_oauth_def redirect_reply_def oauth_cookie_def COOKIE_OAUTH_STATE_def)
  have ok: "verify_state_token ''s1'' (Some ''s1'') = Inr True"
    by (simp add: verify_state_token_def compare_digest_def ascii_def)
  have x: "exchange_code_for_id_token ref_oauth ref_google ''c'' = Inr (PStr ''jwt'')"
    by (simp add: exchange_code_for_id_token_def token_request_def client_id_def client_secret_def redirect_uri_def
        required_env_def ref_oauth_def ref_google_def)
  have v: "validate_id_token ref_ext ref_oauth ref_google (PStr ''jwt'') = Inr ''ann''"
    by (simp add: validate_id_token_def client_id_def required_env_def ref_oauth_def ref_google_def google_issuers_def)
  have a: "get_truthy mem_redis (admin_acl_key ''ann'') ?d = Some ''a''" by (simp add: get_truthy_def mem_store.get_set)
  obtain reply ck where r: "oauth_callback mem_redis ref_ext ref_cfg ref_oauth ref_google 0 ?req ''c'' ''s1'' ?d = Inr reply"
    "or_cookies reply = [ck]"
    using env st ok x v a by (simp add: oauth_callback_def redirect_reply_def)
  from oauth_session_sound [OF ref_codec.codec_axioms _ r(1), of ck] r(2)
  obtain form answer payload raw cid claims email where e: "g_token ref_google form = Inr answer"
    "ta_json answer = Inr (PDict payload)" "dval payload ''id_token'' = raw" "oc_client_id ref_oauth = Some cid" "g_verify ref_google raw cid = Inr claims" "ic_email claims = Some email"
    "utf8_valid email \<Longrightarrow> rq_cookies req2 ''admin_session'' = Some (ck_value ck) \<Longrightarrow>
      cookie_user ref_cfg ref_ext 86400 req2 = Some (PStr email)" for req2
    by fastforce
  have "email = ''ann''" using e(1-6) by (auto simp: ref_google_def ref_oauth_def)
  with e(7) r show ?thesis by (auto simp: admin_req_def char_eval)
qed

end
