(* ===== verification/App.thy ===== *)
theory App
  imports AdminApi Pages OAuth
begin

text \<open>
  The application of \<open>backend/src/main.py\<close> as a whole: which route a request takes, what each
  endpoint does, and the stack of middlewares around them; with what a request without
  credentials, or one that another site makes a browser send, can do and see.

  The framework (FastAPI and Starlette) is the record \<open>web\<close>: matching a path against a template,
  decoding parameters, forms and bodies, encoding answers and cookies, static files, the CORS
  middleware. Of it only one law is used, the locale \<open>path_matcher\<close>: a path that matches a template
  is an instance of it. Middlewares and router read the same path. The page cache is an argument
  of the application; \<open>Pages\<close> shows that it does not affect what is served.
\<close>

subsection \<open>Path templates\<close>

text \<open>A piece is fixed text, \<open>{name}\<close> for one segment, or \<open>{name:path}\<close> for any text.\<close>

datatype piece = Lit string | Seg string | Rest string

type_synonym template = "piece list"
type_synonym bindings = "(string \<times> string) list"

fun fits :: "template \<Rightarrow> string \<Rightarrow> bindings \<Rightarrow> bool" where
  "fits [] path bs \<longleftrightarrow> path = [] \<and> bs = []"
| "fits (Lit l # t) path bs \<longleftrightarrow> prefix l path \<and> fits t (drop (length l) path) bs"
| "fits (Seg x # t) path bs \<longleftrightarrow>
     (case bs of [] \<Rightarrow> False
      | (y, v) # bs' \<Rightarrow> x = y \<and> v \<noteq> [] \<and> CHR ''/'' \<notin> set v \<and> prefix v path \<and> fits t (drop (length v) path) bs')"
| "fits (Rest x # t) path bs \<longleftrightarrow>
     (case bs of [] \<Rightarrow> False
      | (y, v) # bs' \<Rightarrow> x = y \<and> prefix v path \<and> fits t (drop (length v) path) bs')"

locale path_matcher =
  fixes path_match :: "template \<Rightarrow> string \<Rightarrow> bindings option"
  assumes match_fits: "path_match t path = Some bs \<Longrightarrow> fits t path bs"

text \<open>A matcher: segments up to the next slash, the rest of the path for \<open>{name:path}\<close>.\<close>

fun simple_match :: "template \<Rightarrow> string \<Rightarrow> bindings option" where
  "simple_match [] path = (if path = [] then Some [] else None)"
| "simple_match (Lit l # t) path = (if prefix l path then simple_match t (drop (length l) path) else None)"
| "simple_match (Seg x # t) path =
     (let v = takeWhile (\<lambda>c. c \<noteq> CHR ''/'') path in
      if v = [] then None else map_option ((#) (x, v)) (simple_match t (drop (length v) path)))"
| "simple_match (Rest x # t) path = (if t = [] then Some [(x, path)] else None)"

interpretation simple: path_matcher simple_match
proof unfold_locales
  fix t path bs
  assume "simple_match t path = Some bs"
  then show "fits t path bs"
  proof (induction t path arbitrary: bs rule: simple_match.induct)
    case (3 x t path)
    let ?v = "takeWhile (\<lambda>c. c \<noteq> CHR ''/'') path"
    have "CHR ''/'' \<notin> set ?v" by (auto dest: set_takeWhileD)
    moreover have "prefix ?v path" by (rule takeWhile_is_prefix)
    ultimately show ?case using 3 by (auto simp: Let_def split: if_splits)
  qed (auto split: if_splits)
qed

subsection \<open>Endpoints and routes\<close>

datatype endpoint =
    CspReport | Admin admin_op | PublishMessage | ConsumeMessage | WriteKv | ReadKv | DeleteKv
  | AdminLogout | AdminFiles | AppFiles | ServeAsset | ServeTheme | SubmitForm | Landing
  | DevicePage | LookupDevice | OauthLogin | OauthCallback | OauthUnauthorized | HealthCheck | ReadRoot

text \<open>A route has a method, or none for a mounted directory, which takes them all.\<close>

type_synonym route = "string option \<times> template \<times> endpoint"

text \<open>The decorators of \<open>routes_admin.py\<close>, in order.\<close>

definition admin_routes :: "string \<Rightarrow> route list" where
  "admin_routes pre = map (\<lambda>(op, t). (Some (admin_method op), Lit pre # t, Admin op))
    [(GetRelease, [Lit ''/release'']),
     (ListVisibleClients, [Lit ''/visible_clients'']),
     (ListKeys, [Lit ''/keys'']),
     (ListAdminsForDevice, [Lit ''/keys/'', Seg ''client_id'', Lit ''/admins'']),
     (CreateClient, [Lit ''/keys'']),
     (ProvisionDevice, [Lit ''/provision_device'']),
     (UpdateAcl, [Lit ''/keys/'', Seg ''client_id'', Lit ''/acl'']),
     (RevokeClient, [Lit ''/keys/'', Seg ''client_id'']),
     (ListAdminUsers, [Lit ''/admin_users'']),
     (UpdateAdminUserAcl, [Lit ''/admin_users/'', Seg ''username'', Lit ''/acl'']),
     (DeleteAdminUserAcl, [Lit ''/admin_users/'', Seg ''username'', Lit ''/acl'']),
     (SecurityWarnings, [Lit ''/security_warnings'']),
     (GetMe, [Lit ''/me'']),
     (GetStats, [Lit ''/stats'']),
     (PeekQueue, [Lit ''/peek/q/'', Rest ''topic'']),
     (ScanKv, [Lit ''/kv_scan'']),
     (ListCatalogDevices, [Lit ''/catalog/'', Seg ''app'', Lit ''/devices'']),
     (PeekKv, [Lit ''/peek/kv/'', Rest ''key'']),
     (SetKv, [Lit ''/kv/'', Rest ''key'']),
     (AdminDeleteKv, [Lit ''/kv/'', Rest ''key'']),
     (DeleteQueue, [Lit ''/q/'', Rest ''topic'']),
     (GetLogs, [Lit ''/logs'']),
     (BackupKeys, [Lit ''/keys/backup'']),
     (RestoreKeys, [Lit ''/keys/restore'']),
     (BackupWhole, [Lit ''/backup'']),
     (BackupPerApp, [Lit ''/backup/app/'', Seg ''app'']),
     (RestoreWhole, [Lit ''/restore'']),
     (RestorePerApp, [Lit ''/restore/app/'', Seg ''app'']),
     (GetPerfLog, [Lit ''/perf_log'']),
     (StreamMonitor, [Lit ''/stream/q/'', Rest ''topic'']),
     (DumpHeartbeats, [Lit ''/dump_heartbeats/'', Seg ''client_id''])]"

definition device_routes :: "route list" where
  "device_routes =
     [(Some ''POST'', [Lit ''/q/'', Rest ''topic''], PublishMessage),
      (Some ''GET'', [Lit ''/q/'', Rest ''topic''], ConsumeMessage),
      (Some ''POST'', [Lit ''/kv/'', Rest ''key''], WriteKv),
      (Some ''GET'', [Lit ''/kv/'', Rest ''key''], ReadKv),
      (Some ''DELETE'', [Lit ''/kv/'', Rest ''key''], DeleteKv)]"

definition app_routes :: "route list" where
  "app_routes =
     [(Some ''GET'', [Lit ''/app/''], Landing),
      (Some ''GET'', [Lit ''/app''], Landing),
      (Some ''GET'', [Lit ''/app/'', Seg ''app'', Lit ''/'', Seg ''device'', Lit ''/''], DevicePage),
      (Some ''GET'', [Lit ''/app/'', Seg ''app'', Lit ''/'', Seg ''device''], DevicePage),
      (Some ''GET'', [Lit ''/api/app/lookup_device''], LookupDevice)]"

definition oauth_routes :: "route list" where
  "oauth_routes =
     [(Some ''GET'', [Lit ''/oauth/google/login''], OauthLogin),
      (Some ''GET'', [Lit ''/oauth/google/callback''], OauthCallback),
      (Some ''GET'', [Lit ''/oauth/unauthorized''], OauthUnauthorized)]"

text \<open>The registrations of \<open>main.py\<close>, in order; the first that matches path and method wins.\<close>

definition main_routes :: "route list" where
  "main_routes =
     [(Some ''POST'', [Lit REPORT_PATH], CspReport)]
     @ admin_routes ''/api/admin''
     @ device_routes
     @ [(Some ''GET'', [Lit ''/admin/logout''], AdminLogout),
        (None, [Lit ''/admin/'', Rest ''path''], AdminFiles),
        (None, [Lit ''/app/_static/'', Rest ''path''], AppFiles),
        (Some ''GET'', [Lit ''/app/'', Seg ''app'', Lit ''/_assets/'', Seg ''filename''], ServeAsset),
        (Some ''GET'', [Lit ''/app/'', Seg ''app'', Lit ''/_theme.css''], ServeTheme),
        (Some ''POST'', [Lit ''/app/'', Seg ''app'', Lit ''/'', Seg ''device''], SubmitForm)]
     @ app_routes
     @ oauth_routes
     @ [(Some ''GET'', [Lit ''/health''], HealthCheck),
        (Some ''GET'', [Lit ''/''], ReadRoot)]"

datatype routed = Found endpoint bindings | WrongMethod | NoRoute

fun find_route :: "(template \<Rightarrow> string \<Rightarrow> bindings option) \<Rightarrow> string \<Rightarrow> string \<Rightarrow> bool \<Rightarrow> route list \<Rightarrow> routed" where
  "find_route m http_method path partial [] = (if partial then WrongMethod else NoRoute)"
| "find_route m http_method path partial ((ms, t, e) # rs) =
     (case m t path of
        None \<Rightarrow> find_route m http_method path partial rs
      | Some bs \<Rightarrow> if ms = None \<or> ms = Some http_method then Found e bs
                  else find_route m http_method path True rs)"

subsection \<open>The application\<close>

record web =
  w_match :: "template \<Rightarrow> string \<Rightarrow> bindings option"
  w_admin_args :: "admin_op \<Rightarrow> request \<Rightarrow> admin_args res"
  w_form :: "request \<Rightarrow> (string \<times> string) list"
  w_query :: "request \<Rightarrow> string \<Rightarrow> string res"     \<comment> \<open>a required or defaulted text parameter\<close>
  w_ttl :: "request \<Rightarrow> int res"
  w_envelope :: "request \<Rightarrow> bool res"
  w_no_header :: exn                           \<comment> \<open>\<open>APIKeyHeader\<close> without its header\<close>
  w_json_loads :: "string \<Rightarrow> pyval res"
  w_decode_replace :: "string \<Rightarrow> string"
  w_error :: "nat \<Rightarrow> string \<Rightarrow> response"
  w_unrouted :: "request \<Rightarrow> response"
  w_answer :: "answer \<Rightarrow> response"
  w_set_cookie :: "cookie \<Rightarrow> string"
  w_delete_cookie :: "string \<Rightarrow> string"
  w_files :: "string \<Rightarrow> request \<Rightarrow> response"
  w_preflight :: "string list \<Rightarrow> request \<Rightarrow> response option"
  w_cors :: "string list \<Rightarrow> request \<Rightarrow> response \<Rightarrow> response"

record 'db app =
  ap_server :: "'db server"
  ap_cfg :: app_config
  ap_web :: web
  ap_oauth :: oauth_config
  ap_google :: google
  ap_state_token :: string
  ap_catalog_model :: "pyval \<Rightarrow> pyval option"
  ap_catalog_lint :: "pyval \<Rightarrow> string list"
  ap_pattern :: "string \<Rightarrow> string \<Rightarrow> bool option"
  ap_sanitizer :: sanitizer
  ap_cache :: md_cache
  ap_landing_html :: string
  ap_template :: string
  ap_logout_html :: string
  ap_threshold_ms :: rat
  ap_total_ms :: rat
  ap_phases :: "(string \<times> rat) list"
  ap_peer :: "string option"

text \<open>The name of the user, as the handlers print it.\<close>

definition user_name :: "ext \<Rightarrow> pyval option \<Rightarrow> string option" where
  "user_name E u = map_option (py_str E) u"

definition with_cookie_headers :: "web \<Rightarrow> cookie list \<Rightarrow> string list \<Rightarrow> response \<Rightarrow> response" where
  "with_cookie_headers W cookies deleted r =
     r\<lparr>rs_headers := rs_headers r @ map (\<lambda>c. (''set-cookie'', w_set_cookie W c)) cookies
                     @ map (\<lambda>n. (''set-cookie'', w_delete_cookie W n)) deleted\<rparr>"

definition see_other :: "string \<Rightarrow> response" where
  "see_other url = \<lparr>rs_status = 303, rs_media = [], rs_headers = [(''location'', url)], rs_body = []\<rparr>"

text \<open>The two probes of \<open>main.py\<close>.\<close>

definition health_check :: pyval where
  "health_check = PDict [(''status'', PStr ''ok'')]"

definition read_root :: pyval where
  "read_root = PDict [(''status'', PStr ''IoT Telemetry Service is running. Access /admin for Management UI.'')]"

text \<open>An endpoint gives the \<open>kv_hit\<close> hint, the answer and the store; \<open>None\<close>: it does not return.\<close>

type_synonym 'db outcome = "(bool option \<times> response res \<times> 'db) option"

definition answered :: "('a \<Rightarrow> response) \<Rightarrow> 'a res \<Rightarrow> 'db \<Rightarrow> 'db outcome" where
  "answered f r d = Some (None, bind_res r (\<lambda>x. Inr (f x)), d)"

definition device_context :: "'db app \<Rightarrow> request \<Rightarrow> 'db \<Rightarrow> client_ctx res" where
  "device_context A req d =
     (case (rq_headers req ''x-client-id'', rq_headers req ''x-timestamp'', rq_headers req ''x-signature'') of
        (Some c, Some t, Some s) \<Rightarrow>
          verify_device_request (sv_redis (ap_server A)) (sv_ext (ap_server A)) (sv_now (ap_server A)) req c t s d
      | _ \<Rightarrow> Inl (w_no_header (ap_web A)))"

definition for_device :: "'db app \<Rightarrow> request \<Rightarrow> 'db \<Rightarrow> (client_ctx \<Rightarrow> 'db outcome) \<Rightarrow> 'db outcome" where
  "for_device A req d f = (case device_context A req d of Inl e \<Rightarrow> Some (None, Inl e, d) | Inr ctx \<Rightarrow> f ctx)"

definition param :: "bindings \<Rightarrow> string \<Rightarrow> string" where
  "param bs name = (case map_of bs name of None \<Rightarrow> [] | Some v \<Rightarrow> v)"

definition call_endpoint ::
    "'db app \<Rightarrow> endpoint \<Rightarrow> bindings \<Rightarrow> request \<Rightarrow> string option \<Rightarrow> 'db \<Rightarrow> 'db outcome" where
  "call_endpoint A e bs req u d =
     (let S = ap_server A; R = sv_redis S; E = sv_ext S; W = ap_web A; now = sv_now S; cfg = ap_cfg A;
          key = param bs ''key''; topic = param bs ''topic''; app = param bs ''app''; device = param bs ''device'';
          reply = (\<lambda>x. with_cookie_headers W (or_cookies x) (or_deleted x) (or_response x)) in
      case e of
        CspReport \<Rightarrow> answered snd (csp_report (w_json_loads W) (w_decode_replace W) req) d
      | Admin op \<Rightarrow>
          (case w_admin_args W op req of
             Inl x \<Rightarrow> Some (None, Inl x, d)
           | Inr a \<Rightarrow>
              (case run_admin S op (param bs) a u d of
                 None \<Rightarrow> None
               | Some (r, d') \<Rightarrow> answered (w_answer W) r d'))
      | PublishMessage \<Rightarrow> for_device A req d (\<lambda>ctx.
          (case w_ttl W req of
             Inl x \<Rightarrow> Some (None, Inl x, d)
           | Inr ttl \<Rightarrow> Some (None, publish_message R E now topic req ttl ctx d)))
      | ConsumeMessage \<Rightarrow> for_device A req d (\<lambda>ctx.
          (case w_envelope W req of
             Inl x \<Rightarrow> Some (None, Inl x, d)
           | Inr envelope \<Rightarrow> map_option (Pair None) (consume_message R E now topic req envelope ctx d)))
      | WriteKv \<Rightarrow> for_device A req d (\<lambda>ctx.
          Some (None, write_kv R E (ap_catalog_model A) (ap_catalog_lint A) now key req ctx d))
      | ReadKv \<Rightarrow> for_device A req d (\<lambda>ctx. Some (read_kv R E now key req ctx d))
      | DeleteKv \<Rightarrow> for_device A req d (\<lambda>ctx. Some (None, delete_kv R E now key req ctx d))
      | AdminLogout \<Rightarrow>
          answered (\<lambda>(r, deleted). with_cookie_headers W [] deleted r) (Inr (admin_logout cfg (ap_logout_html A) req)) d
      | AdminFiles \<Rightarrow> answered (\<lambda>r. r) (Inr (w_files W ''static'' req)) d
      | AppFiles \<Rightarrow> answered (\<lambda>r. r) (Inr (w_files W ''static/app'' req)) d
      | ServeAsset \<Rightarrow> answered (\<lambda>r. r) (serve_asset R E app (param bs ''filename'') d) d
      | ServeTheme \<Rightarrow> answered (\<lambda>r. r) (serve_theme R E app d) d
      | SubmitForm \<Rightarrow>
          (case submit_device_form R E (sv_rescue S) u app device (w_form W req) d of
             (r, d') \<Rightarrow> answered see_other r d')
      | Landing \<Rightarrow> answered (\<lambda>r. r) (Inr (landing (ap_landing_html A))) d
      | DevicePage \<Rightarrow>
          answered (\<lambda>r. r) (fst (device_page (ap_pattern A) R E (ap_sanitizer A) (sv_rescue S) u (ap_landing_html A)
            (ap_template A) app device d (ap_cache A))) d
      | LookupDevice \<Rightarrow>
          (case w_query W req ''name'' of
             Inl x \<Rightarrow> Some (None, Inl x, d)
           | Inr name \<Rightarrow>
              (case lookup_device R name d of
                 None \<Rightarrow> None
               | Some (r, d') \<Rightarrow> answered (\<lambda>a. w_answer W (Json (PDict [(''app'', PStr a)]))) r d'))
      | OauthLogin \<Rightarrow>
          answered reply (bind_res (w_query W req ''next'') (\<lambda>target. oauth_login cfg (ap_oauth A) (ap_state_token A) target)) d
      | OauthCallback \<Rightarrow>
          answered reply (bind_res (w_query W req ''code'') (\<lambda>code. bind_res (w_query W req ''state'') (\<lambda>state.
            oauth_callback R E cfg (ap_oauth A) (ap_google A) now req code state d))) d
      | OauthUnauthorized \<Rightarrow>
          answered reply (bind_res (w_query W req ''email'') (\<lambda>email. Inr (render_unauthorized_page email))) d
      | HealthCheck \<Rightarrow> answered (w_answer W) (Inr (Json health_check)) d
      | ReadRoot \<Rightarrow>
          answered (w_answer W) (Inr (Json read_root)) d)"

text \<open>
  The innermost application: the route, and HTTP errors as responses. An endpoint that does not
  return has no answer; it is given a mark of its own, which no exception of the code is.
\<close>

definition settle :: "web \<Rightarrow> response res \<Rightarrow> response res" where
  "settle W r = (case r of Inl (HTTPException status detail) \<Rightarrow> Inr (w_error W status detail) | _ \<Rightarrow> r)"

definition route_request :: "'db app \<Rightarrow> request \<Rightarrow> routed" where
  "route_request A req = find_route (w_match (ap_web A)) (rq_method req) (rq_path req) False main_routes"

definition dispatch :: "'db app \<Rightarrow> request \<Rightarrow> pyval option \<Rightarrow> 'db \<Rightarrow> bool option \<times> response res \<times> 'db" where
  "dispatch A req u d =
     (case route_request A req of
        Found e bs \<Rightarrow>
          (case call_endpoint A e bs req (user_name (sv_ext (ap_server A)) u) d of
             None \<Rightarrow> (None, Inl (PyExn ''no return''), d)
           | Some (hit, r, d') \<Rightarrow> (hit, settle (ap_web A) r, d'))
      | WrongMethod \<Rightarrow> (None, Inr (w_error (ap_web A) 405 ''Method Not Allowed''), d)
      | NoRoute \<Rightarrow> (None, Inr (w_unrouted (ap_web A) req), d))"

subsection \<open>The middlewares, from the inside out\<close>

text \<open>\<open>kv_hit\<close> on \<open>request.state\<close> travels with the store.\<close>

definition authenticated :: "'db app \<Rightarrow> request \<Rightarrow> 'db \<Rightarrow> bool option \<times> response res \<times> 'db" where
  "authenticated A req d =
     (case admin_auth_middleware (ap_cfg A) (sv_ext (ap_server A)) (sv_now (ap_server A)) req
             (\<lambda>u (d, _). case dispatch A req u d of (hit, r, d') \<Rightarrow> (r, (d', hit))) (d, None) of
        (out, (d', hit)) \<Rightarrow>
          (hit, bind_res out (\<lambda>(r, ck). Inr (with_cookie_headers (ap_web A) (case ck of None \<Rightarrow> [] | Some c \<Rightarrow> [c]) [] r)), d'))"

definition logged :: "'db app \<Rightarrow> request \<Rightarrow> 'db \<Rightarrow> response res \<times> 'db" where
  "logged A req d =
     activity_log_middleware (sv_redis (ap_server A)) (sv_now (ap_server A)) req (authenticated A req) d"

definition cache_controlled :: "'db app \<Rightarrow> request \<Rightarrow> 'db \<Rightarrow> response res \<times> 'db" where
  "cache_controlled A req d =
     (case logged A req d of (r, d') \<Rightarrow> (bind_res r (\<lambda>x. Inr (admin_cache_control req x)), d'))"

text \<open>Whom the performance log names: the user, the device, or the peer.\<close>

definition perf_client :: "'db app \<Rightarrow> request \<Rightarrow> string" where
  "perf_client A req =
     (let user = (case admin_auth_decide (ap_cfg A) (sv_ext (ap_server A)) (sv_now (ap_server A)) req of
                    Inr (Forward u _) \<Rightarrow> py_str (sv_ext (ap_server A)) u | _ \<Rightarrow> []);
          device = header req ''x-client-id'' []
      in if user \<noteq> [] then user else if device \<noteq> [] then device
         else (case ap_peer A of None \<Rightarrow> ''unknown'' | Some host \<Rightarrow> host))"

definition timed :: "'db app \<Rightarrow> request \<Rightarrow> 'db \<Rightarrow> response res \<times> 'db" where
  "timed A req d =
     perf_log_middleware (sv_redis (ap_server A)) (sv_ext (ap_server A)) (ap_threshold_ms A) (sv_now (ap_server A))
       (ap_total_ms A) (phase_breakdown (ap_phases A)) (perf_client A req) req (cache_controlled A req) d"

text \<open>CORS answers a preflight itself; the policy header is added outermost.\<close>

definition cors :: "'db app \<Rightarrow> request \<Rightarrow> 'db \<Rightarrow> response res \<times> 'db" where
  "cors A req d =
     (let origins = cors_allowed_origins (ap_cfg A) in
      case w_preflight (ap_web A) origins req of
        Some r \<Rightarrow> (Inr r, d)
      | None \<Rightarrow> (case timed A req d of (r, d') \<Rightarrow> (bind_res r (\<lambda>x. Inr (w_cors (ap_web A) origins req x)), d')))"

definition run_app :: "'db app \<Rightarrow> request \<Rightarrow> 'db \<Rightarrow> response res \<times> 'db" where
  "run_app A req d =
     (case cors A req d of (r, d') \<Rightarrow> (bind_res r (\<lambda>x. Inr (csp_dispatch main_csp req x)), d'))"

subsection \<open>What the routes promise\<close>

lemma find_route_Found:
  "find_route m http_method path partial rs = Found e bs \<Longrightarrow>
    \<exists>ms t. (ms, t, e) \<in> set rs \<and> m t path = Some bs \<and> (ms = None \<or> ms = Some http_method)"
proof (induction rs arbitrary: partial)
  case (Cons r rs)
  obtain ms t e' where r: "r = (ms, t, e')" by (metis prod_cases3)
  show ?case
  proof (cases "m t path")
    case None
    with Cons.prems have "find_route m http_method path partial rs = Found e bs" by (simp add: r)
    from Cons.IH [OF this] show ?thesis by auto
  next
    case (Some bs')
    show ?thesis
    proof (cases "ms = None \<or> ms = Some http_method")
      case True
      with Some Cons.prems have "e' = e" "bs' = bs" by (auto simp: r)
      with Some True show ?thesis by (auto simp: r)
    next
      case False
      with Some Cons.prems have "find_route m http_method path True rs = Found e bs" by (auto simp: r)
      from Cons.IH [OF this] show ?thesis by auto
    qed
  qed
qed (simp split: if_splits)

lemma admin_row:
  assumes "(ms, t, Admin op) \<in> set main_routes"
  shows "ms = Some (admin_method op) \<and> (\<exists>t'. t = Lit ''/api/admin'' # t')"
proof -
  have "(ms, t, Admin op) \<in> set (admin_routes ''/api/admin'')"
    using assms by (simp add: main_routes_def device_routes_def app_routes_def oauth_routes_def admin_routes_def)
  then show ?thesis unfolding admin_routes_def by (simp only: set_map) auto
qed

text \<open>What only an authenticated administrator or customer gets.\<close>

definition protected_endpoint :: "endpoint \<Rightarrow> bool" where
  "protected_endpoint e =
     (case e of Admin op \<Rightarrow> True | AdminFiles \<Rightarrow> True | SubmitForm \<Rightarrow> True | Landing \<Rightarrow> True | DevicePage \<Rightarrow> True
      | LookupDevice \<Rightarrow> True | _ \<Rightarrow> False)"

definition row_ok :: "route \<Rightarrow> bool" where
  "row_ok = (\<lambda>(ms, t, e).
     (e = LookupDevice \<longrightarrow> t = [Lit ''/api/app/lookup_device'']) \<and>
     (e \<in> {SubmitForm, PublishMessage, WriteKv} \<longrightarrow> ms = Some ''POST'') \<and>
     (protected_endpoint e \<longrightarrow> (case t of Lit l # _ \<Rightarrow> prefix ''/a'' l | _ \<Rightarrow> False)))"

lemma rows_ok: "list_all row_ok main_routes"
  by code_simp

lemma row_okD: "(ms, t, e) \<in> set main_routes \<Longrightarrow> row_ok (ms, t, e)"
  using rows_ok by (simp add: list_all_iff)

lemma lookup_row: "(ms, t, LookupDevice) \<in> set main_routes \<Longrightarrow> t = [Lit ''/api/app/lookup_device'']"
  by (drule row_okD) (simp add: row_ok_def)

lemma writing_row: "(ms, t, e) \<in> set main_routes \<Longrightarrow> e \<in> {SubmitForm, PublishMessage, WriteKv} \<Longrightarrow> ms = Some ''POST''"
  by (drule row_okD) (auto simp: row_ok_def)

lemma protected_row: "(ms, t, e) \<in> set main_routes \<Longrightarrow> protected_endpoint e \<Longrightarrow> \<exists>l t'. t = Lit (''/a'' @ l) # t'"
  by (drule row_okD) (auto simp: row_ok_def prefix_def split: list.splits piece.splits)

lemma method_not_changing: "admin_method op \<notin> set state_changing_methods \<Longrightarrow> admin_method op = ''GET''"
  by (cases op) (simp_all add: admin_method_def state_changing_methods_def)

text \<open>The store of an endpoint that runs for nobody.\<close>

lemma call_nobody:
  assumes "protected_endpoint e" and "e \<noteq> LookupDevice"
  shows "\<exists>h r. \<forall>d. call_endpoint A e bs req None d = Some (h, r, d)"
proof -
  have form: "submit_device_form R E resc None app device f d = (Inl no_session, d)" for R :: "'a redis" and E resc app device f d
    by (simp add: submit_device_form_def no_context)
  have page: "fst (device_page M R E Z resc None l t app device d c) = Inl no_session"
    for M and R :: "'a redis" and E Z resc l t app device d c
    by (simp add: device_page_def no_context)
  show ?thesis
  proof (cases e)
    case (Admin op)
    then show ?thesis
      by (cases "w_admin_args (ap_web A) op req") (simp_all add: call_endpoint_def Let_def answered_def no_session_refused)
  qed (use assms in \<open>simp_all add: protected_endpoint_def call_endpoint_def Let_def answered_def form page\<close>)
qed

lemma call_nobody_store:
  assumes "e \<noteq> LookupDevice" and "\<forall>ctx. device_context A req d \<noteq> Inr ctx"
    and "call_endpoint A e bs req None d = Some (h, r, d')"
  shows "d' = d"
proof (cases "protected_endpoint e")
  case True
  from call_nobody [OF True assms(1), of A bs req] assms(3) show ?thesis by auto
next
  case False
  from assms(2) obtain x where "device_context A req d = Inl x" by (metis sum.exhaust)
  with False assms(3) show ?thesis
    by (cases e) (auto simp: protected_endpoint_def call_endpoint_def Let_def answered_def for_device_def)
qed

text \<open>The store after an endpoint that only reads.\<close>

lemma call_reading_store:
  assumes "e \<notin> {LookupDevice, SubmitForm}" and "\<And>op. e = Admin op \<Longrightarrow> admin_method op = ''GET''"
    and "\<forall>ctx. device_context A req d \<noteq> Inr ctx" and "call_endpoint A e bs req u d = Some (h, r, d')"
  shows "d' = d"
proof (cases "\<exists>op. e = Admin op")
  case True
  then obtain op where e: "e = Admin op" by blast
  with assms(4) show ?thesis
    using get_requests_read [OF assms(2) [OF e]]
    by (auto simp: call_endpoint_def Let_def answered_def split: sum.splits option.splits prod.splits)
next
  case False
  from assms(3) obtain x where "device_context A req d = Inl x" by (metis sum.exhaust)
  with False assms(1,4) show ?thesis
    by (cases e) (auto simp: call_endpoint_def Let_def answered_def for_device_def)
qed

lemma lookup_store:
  assumes "redis_store (sv_redis (ap_server A)) entries" and "call_endpoint A LookupDevice bs req u d = Some (h, r, d')"
    and "\<forall>name. k \<noteq> device_to_app_key name"
  shows "r_get (sv_redis (ap_server A)) k d' = r_get (sv_redis (ap_server A)) k d \<and> entries k d' = entries k d"
  using assms(2,3)
  by (auto simp: call_endpoint_def Let_def answered_def lookup_device_def redis_store.get_set [OF assms(1)]
      redis_store.entries_set [OF assms(1)] split: sum.splits option.splits if_splits)

subsection \<open>What the middlewares add\<close>

text \<open>The gate runs the application at most once, for nobody exactly off the gated paths.\<close>

lemma auth_runs:
  fixes cn :: "pyval option \<Rightarrow> 's \<Rightarrow> response res \<times> 's"
  assumes "admin_auth_middleware cfg E now req cn s = (out, s')"
  obtains (idle) "s' = s"
    | (run) u where "s' = snd (cn u s)" and "u = None \<longleftrightarrow> \<not> path_needs_admin_auth (rq_path req)"
        and "rq_method req \<in> set state_changing_methods \<and> u \<noteq> None \<Longrightarrow> csrf_origin_ok cfg req = Inr True"
        and "u \<noteq> None \<Longrightarrow> cookie_user cfg E now req \<noteq> None \<or> basic_user cfg E req \<noteq> None"
proof (cases "admin_auth_decide cfg E now req")
  case (Inl e)
  with assms show ?thesis by (intro idle) (simp add: admin_auth_middleware_def)
next
  case (Inr dec)
  show ?thesis
  proof (cases dec)
    case (Forward u ck)
    have "path_needs_admin_auth (rq_path req)"
      and "rq_method req \<in> set state_changing_methods \<Longrightarrow> csrf_origin_ok cfg req = Inr True"
      and "cookie_user cfg E now req \<noteq> None \<or> basic_user cfg E req \<noteq> None"
      using Inr Forward by (auto simp: admin_auth_decide_def Let_def bind_res_Inr_iff split: if_splits option.splits)
    moreover have "s' = snd (cn (Some u) s)"
      using assms Inr Forward by (auto simp: admin_auth_middleware_def split: option.splits prod.splits sum.splits)
    ultimately show ?thesis by (intro run [of "Some u"]) auto
  next
    case PassThrough
    have "\<not> path_needs_admin_auth (rq_path req)"
      using Inr PassThrough by (auto simp: admin_auth_decide_def Let_def bind_res_Inr_iff split: if_splits option.splits)
    moreover have "s' = snd (cn None s)"
      using assms Inr PassThrough by (auto simp: admin_auth_middleware_def split: prod.splits)
    ultimately show ?thesis by (intro run [of None]) auto
  qed (use assms Inr in \<open>auto simp: admin_auth_middleware_def intro: idle\<close>)
qed

lemma dispatch_store:
  obtains (idle) "snd (snd (dispatch A req u d)) = d"
    | (call) e bs h r where "route_request A req = Found e bs"
        and "call_endpoint A e bs req (user_name (sv_ext (ap_server A)) u) d = Some (h, r, snd (snd (dispatch A req u d)))"
proof (cases "route_request A req")
  case (Found e bs)
  show ?thesis
  proof (cases "call_endpoint A e bs req (user_name (sv_ext (ap_server A)) u) d")
    case None
    with Found show ?thesis by (intro idle) (simp add: dispatch_def)
  next
    case (Some x)
    obtain h r d' where "x = (h, r, d')" by (metis prod_cases3)
    with Found Some show ?thesis by (intro call [of e bs h r]) (simp_all add: dispatch_def)
  qed
qed (auto intro: idle simp: dispatch_def)

text \<open>Outside the two logs the whole stack leaves what the gated application leaves.\<close>

context redis_store
begin

definition kept :: "string \<Rightarrow> 'db \<Rightarrow> 'db \<Rightarrow> bool" where
  "kept k d d' \<longleftrightarrow> r_get R k d' = r_get R k d \<and> entries k d' = entries k d"

lemma kept_refl [simp]: "kept k d d"
  by (simp add: kept_def)

lemma kept_trans: "kept k d1 d2 \<Longrightarrow> kept k d2 d3 \<Longrightarrow> kept k d1 d3"
  by (simp add: kept_def)

lemma kept_xadd: "r_xadd R k' t f d = Inr d' \<Longrightarrow> k \<noteq> k' \<Longrightarrow> kept k d d'"
  by (simp add: kept_def get_xadd entries_xadd_other)

lemma kept_xtrim: "k \<noteq> k' \<Longrightarrow> kept k d (r_xtrim R k' (dec_nat m) d)"
  by (simp add: kept_def get_xtrim entries_xtrim)

lemma activity_log_store:
  assumes "k \<noteq> ACTIVITY_LOG"
  shows "kept k (snd (snd (cn d))) (snd (activity_log_middleware R now req cn d))"
  using assms
  by (auto simp: activity_log_middleware_def case_prod_beta Let_def intro: kept_xadd split: sum.splits)

lemma perf_log_store:
  assumes "k \<noteq> PERF_LOG_STREAM" and "PERF_LOG_RETENTION_SEC \<le> now"
  shows "kept k (snd (cn d)) (snd (perf_log_middleware R E th now ms ph who req cn d))"
proof -
  have "dec_int ((now - PERF_LOG_RETENTION_SEC) * 1000) = dec_nat (nat ((now - PERF_LOG_RETENTION_SEC) * 1000))"
    using assms(2) by (simp add: dec_int_def)
  then have "kept k d1 (snd (write_perf_entry R E now m p ms st who ph d1))" for m p st d1
    using assms(1)
    by (auto simp: write_perf_entry_def Let_def intro: kept_trans kept_xadd kept_xtrim split: sum.splits)
  then show ?thesis by (simp add: perf_log_middleware_def case_prod_beta Let_def)
qed

lemma run_app_store:
  assumes A: "sv_redis (ap_server A) = R" and "PERF_LOG_RETENTION_SEC \<le> sv_now (ap_server A)"
    and "k \<notin> {ACTIVITY_LOG, PERF_LOG_STREAM}"
    and auth: "kept k d (snd (snd (authenticated A req d)))"
  shows "kept k d (snd (run_app A req d))"
proof -
  have "kept k d (snd (logged A req d))"
    unfolding logged_def A using assms(3) by (intro kept_trans [OF auth] activity_log_store) simp
  then have "kept k d (snd (cache_controlled A req d))" by (simp add: cache_controlled_def case_prod_beta)
  then have "kept k d (snd (timed A req d))"
    unfolding timed_def A using assms(2,3) by (intro kept_trans [OF _ perf_log_store]) simp_all
  then show ?thesis
    by (simp add: run_app_def cors_def case_prod_beta Let_def split: option.split)
qed

end

text \<open>The answer does not depend on the logs, off the paths of the devices.\<close>

lemma run_app_answer:
  assumes "\<not> prefix ''/q/'' (rq_path req)" and "\<not> prefix ''/kv/'' (rq_path req)"
    and "fst (snd (authenticated A req d)) = fst (snd (authenticated A req d2))"
  shows "fst (run_app A req d) = fst (run_app A req d2)"
proof -
  have "fst (logged A req d) = fst (logged A req d2)"
    using assms by (simp add: logged_def activity_log_middleware_def case_prod_beta Let_def)
  then have "fst (cache_controlled A req d) = fst (cache_controlled A req d2)"
    by (simp add: cache_controlled_def case_prod_beta)
  then have "fst (timed A req d) = fst (timed A req d2)"
    by (simp add: timed_def perf_log_middleware_def case_prod_beta Let_def)
  then show ?thesis
    by (simp add: run_app_def cors_def case_prod_beta Let_def split: option.split)
qed

lemma authenticated_store:
  obtains (idle) "snd (snd (authenticated A req d)) = d"
    | (run) u where "snd (snd (authenticated A req d)) = snd (snd (dispatch A req u d))"
        and "u = None \<longleftrightarrow> \<not> path_needs_admin_auth (rq_path req)"
        and "rq_method req \<in> set state_changing_methods \<and> u \<noteq> None \<Longrightarrow> csrf_origin_ok (ap_cfg A) req = Inr True"
        and "u \<noteq> None \<Longrightarrow> cookie_user (ap_cfg A) (sv_ext (ap_server A)) (sv_now (ap_server A)) req \<noteq> None \<or>
          basic_user (ap_cfg A) (sv_ext (ap_server A)) req \<noteq> None"
proof -
  let ?cn = "\<lambda>u (d, _ :: bool option). case dispatch A req u d of (hit, r, d') \<Rightarrow> (r, (d', hit))"
  obtain out d' hit where m: "admin_auth_middleware (ap_cfg A) (sv_ext (ap_server A)) (sv_now (ap_server A)) req ?cn (d, None) =
      (out, (d', hit))" by (metis surj_pair)
  have a: "snd (snd (authenticated A req d)) = d'" unfolding authenticated_def m by simp
  from m show ?thesis
  proof (cases rule: auth_runs)
    case idle
    then show ?thesis using that(1) a by simp
  next
    case (run u)
    have "d' = snd (snd (dispatch A req u d))" using run(1) by (auto simp: case_prod_beta)
    then show ?thesis using that(2) [of u] a run(2-4) by simp
  qed
qed

lemma auth_answer:
  assumes "path_needs_admin_auth (rq_path req)" and "cookie_user cfg E now req = None" and "basic_user cfg E req = None"
  shows "fst (admin_auth_middleware cfg E now req cn s) = fst (admin_auth_middleware cfg E now req cn s2)"
proof -
  have "admin_auth_decide cfg E now req \<in> Inl ` UNIV \<union> {Inr RejectOrigin, Inr NotAuthenticated}"
    using assms by (auto simp: admin_auth_decide_def Let_def bind_res_def split: sum.splits)
  then show ?thesis by (auto simp: admin_auth_middleware_def)
qed

lemma auth_pass:
  assumes "\<not> path_needs_admin_auth (rq_path req)"
  shows "fst (admin_auth_middleware cfg E now req cn s) = bind_res (fst (cn None s)) (\<lambda>x. Inr (x, None))"
  using assms by (simp add: admin_auth_middleware_def admin_auth_decide_def Let_def case_prod_beta)

context path_matcher
begin

lemma route_row:
  assumes "w_match (ap_web A) = path_match" and "route_request A req = Found e bs"
  obtains ms t where "(ms, t, e) \<in> set main_routes" "fits t (rq_path req) bs" "ms = None \<or> ms = Some (rq_method req)"
  using find_route_Found [of "w_match (ap_web A)" "rq_method req" "rq_path req" False main_routes e bs] assms match_fits
  unfolding route_request_def by blast

lemma lookup_path:
  assumes "w_match (ap_web A) = path_match" and "route_request A req = Found LookupDevice bs"
  shows "path_needs_admin_auth (rq_path req)"
proof -
  from route_row [OF assms] obtain ms t where "(ms, t, LookupDevice) \<in> set main_routes" "fits t (rq_path req) bs" by blast
  with lookup_row have "fits [Lit ''/api/app/lookup_device''] (rq_path req) bs" by blast
  then have "rq_path req = ''/api/app/lookup_device''" by (auto simp: prefix_def)
  then show ?thesis by (simp add: path_needs_admin_auth_def)
qed

lemma protected_path:
  assumes "w_match (ap_web A) = path_match" and "route_request A req = Found e bs" and "protected_endpoint e"
  shows "\<not> prefix ''/q/'' (rq_path req)" "\<not> prefix ''/kv/'' (rq_path req)"
proof -
  from route_row [OF assms(1,2)] obtain ms t where t: "(ms, t, e) \<in> set main_routes" "fits t (rq_path req) bs" by blast
  with protected_row [OF t(1) assms(3)] have "prefix ''/a'' (rq_path req)" by (auto simp: prefix_def)
  then show "\<not> prefix ''/q/'' (rq_path req)" "\<not> prefix ''/kv/'' (rq_path req)" by (auto simp: prefix_def)
qed

text \<open>Every route of the administrative API lies behind the gate.\<close>

lemma admin_path:
  assumes "w_match (ap_web A) = path_match" and "route_request A req = Found (Admin op) bs"
  shows "path_needs_admin_auth (rq_path req)" "rq_method req = admin_method op"
proof -
  from route_row [OF assms] obtain ms t where t: "(ms, t, Admin op) \<in> set main_routes"
    "fits t (rq_path req) bs" "ms = None \<or> ms = Some (rq_method req)" by blast
  from admin_row [OF t(1)] t(2,3) show "rq_method req = admin_method op" by auto
  from admin_row [OF t(1)] t(2) have "prefix ''/api/admin'' (rq_path req)" by auto
  then show "path_needs_admin_auth (rq_path req)" by (auto simp: path_needs_admin_auth_def prefix_def)
qed

lemma writing_method:
  assumes "w_match (ap_web A) = path_match" and "route_request A req = Found SubmitForm bs"
  shows "rq_method req = ''POST''"
proof -
  from route_row [OF assms] obtain ms t where "(ms, t, SubmitForm) \<in> set main_routes" "ms = None \<or> ms = Some (rq_method req)"
    by blast
  with writing_row [of ms t SubmitForm] show ?thesis by simp
qed

end

lemma foreign_origin_refused:
  assumes "rq_headers req ''origin'' = Some (''https://'' @ h)" and "plain_host h" and "h \<noteq> cfg_browser_host cfg"
    and "h \<notin> set (configured_extra_origins cfg)" and "browser_facing_host req \<noteq> Some h"
    and "\<forall>i \<in> set (configured_extra_origins cfg). \<not> sublist ''://'' i"
  shows "csrf_origin_ok cfg req \<noteq> Inr True"
proof -
  have "origin_hosts (configured_extra_origins cfg) = Inr (configured_extra_origins cfg)"
    using assms(6) by (intro origin_hosts_bare) (auto simp: configured_extra_origins_def)
  with assms(1,3-5) show ?thesis
    by (auto simp: csrf_origin_ok_def url_hostname_plain [OF assms(2), simplified] allowed_origin_hosts_def split: option.splits)
qed

subsection \<open>Requests without credentials, requests from other sites\<close>


text \<open>An application for the concrete runs.\<close>

definition ref_web :: web where
  "ref_web = \<lparr>w_match = simple_match, w_admin_args = (\<lambda>_ _. Inl (HTTPException 422 [])), w_form = (\<lambda>_. []),
     w_query = (\<lambda>_ _. Inr []), w_ttl = (\<lambda>_. Inr 3600), w_envelope = (\<lambda>_. Inr False), w_no_header = HTTPException 403 [],
     w_json_loads = (\<lambda>_. Inr PNone), w_decode_replace = (\<lambda>s. s),
     w_error = (\<lambda>n m. \<lparr>rs_status = n, rs_media = [], rs_headers = [], rs_body = m\<rparr>),
     w_unrouted = (\<lambda>_. \<lparr>rs_status = 404, rs_media = [], rs_headers = [], rs_body = []\<rparr>),
     w_answer = (\<lambda>_. \<lparr>rs_status = 200, rs_media = [], rs_headers = [], rs_body = []\<rparr>),
     w_set_cookie = ck_value, w_delete_cookie = (\<lambda>n. n),
     w_files = (\<lambda>_ _. \<lparr>rs_status = 200, rs_media = [], rs_headers = [], rs_body = []\<rparr>),
     w_preflight = (\<lambda>_ _. None), w_cors = (\<lambda>_ _ r. r)\<rparr>"

definition ref_app :: "mem app" where
  "ref_app = \<lparr>ap_server = ref_server, ap_cfg = ref_cfg, ap_web = ref_web, ap_oauth = ref_oauth, ap_google = ref_google,
     ap_state_token = ''t'', ap_catalog_model = Some, ap_catalog_lint = (\<lambda>_. []), ap_pattern = (\<lambda>_ _. None),
     ap_sanitizer = (\<lambda>_ _. Inr []), ap_cache = empty_cache, ap_landing_html = [], ap_template = [], ap_logout_html = [],
     ap_threshold_ms = 0, ap_total_ms = 1, ap_phases = [], ap_peer = None\<rparr>"

lemma ref_app_simps [simp]:
  "ap_server ref_app = ref_server" "ap_cfg ref_app = ref_cfg" "w_match (ap_web ref_app) = simple_match"
  "sv_redis ref_server = mem_redis" "sv_ext ref_server = ref_ext" "sv_now ref_server = 100000"
  by (simp_all add: ref_app_def ref_web_def ref_server_def)

lemma ref_no_device:
  "rq_headers req ''x-client-id'' = None \<Longrightarrow> device_context ref_app req d \<noteq> Inr ctx"
  by (simp add: device_context_def)


text \<open>
  C5. Another site cannot use the session of a logged-in administrator to change anything: for a
  request whose Origin is a foreign plain https host when its method is state-changing (a GET may
  come without), with any cookies and credentials but no device signature, no record of the store
  changes but the two logs and the index that the look-up of a device maintains.
\<close>

theorem cross_site_harmless:
  fixes A :: "'db app"
  assumes "redis_store (sv_redis (ap_server A)) entries" and "path_matcher (w_match (ap_web A))"
    and "PERF_LOG_RETENTION_SEC \<le> sv_now (ap_server A)"
    and "rq_method req \<in> set state_changing_methods \<Longrightarrow>
      rq_headers req ''origin'' = Some (''https://'' @ h) \<and> plain_host h \<and> h \<noteq> cfg_browser_host (ap_cfg A) \<and>
      h \<notin> set (configured_extra_origins (ap_cfg A)) \<and> browser_facing_host req \<noteq> Some h"
    and "\<forall>i \<in> set (configured_extra_origins (ap_cfg A)). \<not> sublist ''://'' i"
    and "\<forall>ctx. device_context A req d \<noteq> Inr ctx"
    and "k \<notin> {ACTIVITY_LOG, PERF_LOG_STREAM}" and "\<forall>name. k \<noteq> device_to_app_key name"
  shows "r_get (sv_redis (ap_server A)) k (snd (run_app A req d)) = r_get (sv_redis (ap_server A)) k d \<and>
    entries k (snd (run_app A req d)) = entries k d"
proof -
  have "redis_store.kept (sv_redis (ap_server A)) entries k d (snd (snd (authenticated A req d)))"
  proof (cases rule: authenticated_store [of A req d])
    case idle
    then show ?thesis by (simp add: redis_store.kept_refl [OF assms(1)])
  next
    case (run u)
    show ?thesis
    proof (cases rule: dispatch_store [of A req u d])
      case idle
      with run(1) show ?thesis by (simp add: redis_store.kept_refl [OF assms(1)])
    next
      case (call e bs h r)
      show ?thesis
      proof (cases "e = LookupDevice")
        case True
        with lookup_store [OF assms(1) _ assms(8)] call(2) run(1) show ?thesis
          by (simp add: redis_store.kept_def [OF assms(1)])
      next
        case False
        have "snd (snd (dispatch A req u d)) = d"
        proof (cases u)
          case None
          with call(2) show ?thesis unfolding user_name_def by (intro call_nobody_store [OF False assms(6)]) simp
        next
          case (Some v)
          have "rq_method req \<notin> set state_changing_methods"
            using foreign_origin_refused [OF _ _ _ _ _ assms(5)] assms(4) run(3) Some by blast
          then have "e \<noteq> SubmitForm" and "\<And>op. e = Admin op \<Longrightarrow> admin_method op = ''GET''"
            using path_matcher.writing_method [OF assms(2) refl, of req bs] path_matcher.admin_path(2) [OF assms(2) refl, of req]
              call(1) method_not_changing by (auto simp: state_changing_methods_def)
          with False show ?thesis by (intro call_reading_store [OF _ _ assms(6) call(2)]) auto
        qed
        with run(1) show ?thesis by (simp add: redis_store.kept_refl [OF assms(1)])
      qed
    qed
  qed
  from redis_store.run_app_store [OF assms(1) refl assms(3,7) this] show ?thesis
    by (simp add: redis_store.kept_def [OF assms(1)])
qed

theorem cross_site_harmless_witness:
  "r_get mem_redis ''client:dev:acl'' (snd (run_app ref_app
      (admin_req ''POST'' [''origin'' \<mapsto> ''https://evil.example''] [''admin_session'' \<mapsto> ''x'']) [(''client:dev:acl'', RString ''a'')])) =
    Some ''a''"
proof -
  let ?req = "admin_req ''POST'' [''origin'' \<mapsto> ''https://evil.example''] [''admin_session'' \<mapsto> ''x'']"
  have e: "configured_extra_origins ref_cfg = [''dev.example'']"
    by (simp add: configured_extra_origins_def ref_cfg_def string_eval)
  have b: "cfg_browser_host ref_cfg = ''ui.example''" by (simp add: ref_cfg_def)
  have "rq_headers ?req ''origin'' = Some (''https://'' @ ''evil.example'') \<and> plain_host ''evil.example'' \<and>
      ''evil.example'' \<noteq> cfg_browser_host ref_cfg \<and> ''evil.example'' \<notin> set (configured_extra_origins ref_cfg) \<and>
      browser_facing_host ?req \<noteq> Some ''evil.example''"
    using b by (simp add: e admin_req_def plain_host_def host_char_def is_digit_def browser_facing_host_def header_def)
  moreover have "\<forall>ctx. device_context ref_app ?req d \<noteq> Inr ctx" for d
    using ref_no_device [of ?req] by (simp add: admin_req_def)
  moreover have "PERF_LOG_RETENTION_SEC \<le> 100000" by (simp add: PERF_LOG_RETENTION_SEC_def)
  moreover have "\<forall>i \<in> set (configured_extra_origins ref_cfg). \<not> sublist ''://'' i"
    by (simp add: e sublist_Cons_right)
  moreover have "r_get mem_redis ''client:dev:acl'' [(''client:dev:acl'', RString ''a'')] = Some ''a''"
    by (simp add: mem_redis_def mem_get_def)
  moreover have "''client:dev:acl'' \<notin> {ACTIVITY_LOG, PERF_LOG_STREAM} \<and> (\<forall>name. ''client:dev:acl'' \<noteq> device_to_app_key name)"
    by (simp add: ACTIVITY_LOG_def PERF_LOG_STREAM_def device_to_app_key_def)
  ultimately show ?thesis
    using cross_site_harmless [of ref_app mem_entries ?req "''evil.example''" "[(''client:dev:acl'', RString ''a'')]" "''client:dev:acl''"]
      mem_store.redis_store_axioms simple.path_matcher_axioms
    by simp
qed

end
