(* ===== verification/Client.thy ===== *)
theory Client
  imports DeviceProps UrlParse
begin

text \<open>
  \<open>tools/stra2us_cli/client.py\<close>: the HMAC-signed HTTP client, and its composition with the
  server of \<open>DeviceRoutes\<close>.

  The network is a parameter (\<open>net\<close>): \<open>requests.request\<close> as a function of the method, the URI
  below \<open>base_url\<close>, the body and the headers on a world, and the clock. \<open>device_net\<close> is the
  network whose other end is the modelled server; it does what FastAPI does for the device
  routes (header dependencies, the percent-decoded path, the routes, an exception as a status).
\<close>

subsection \<open>The client\<close>

record stra2us_client =
  cl_client_id :: string
  cl_secret_hex :: string
  cl_verify_response :: bool

text \<open>One result of \<open>None\<close> stands for a \<open>RequestException\<close>.\<close>

record 'w net =
  n_now :: "'w \<Rightarrow> int"
  n_send :: "string \<Rightarrow> string \<Rightarrow> string \<Rightarrow> (string \<times> string) list \<Rightarrow> 'w \<Rightarrow> response option \<times> 'w"

definition CLOCK_DRIFT_SECONDS :: int where
  "CLOCK_DRIFT_SECONDS = 300"

abbreviation stra2us_error :: exn where
  "stra2us_error \<equiv> PyExn ''Stra2usError''"

text \<open>Response headers are looked up without regard to case.\<close>

definition header_get :: "(string \<times> string) list \<Rightarrow> string \<Rightarrow> string option" where
  "header_get hs name = map_of (map (\<lambda>(k, v). (lower k, v)) hs) (lower name)"

definition secret_bytes :: "stra2us_client \<Rightarrow> string res" where
  "secret_bytes c =
     (case from_hex (cl_secret_hex c) of None \<Rightarrow> Inl stra2us_error | Some b \<Rightarrow> Inr b)"

definition client_sign :: "ext \<Rightarrow> stra2us_client \<Rightarrow> string \<Rightarrow> string \<Rightarrow> int \<Rightarrow> string res" where
  "client_sign E c uri body ts =
     bind_res (secret_bytes c) (\<lambda>secret. Inr (to_hex (e_hmac E secret (uri @ body @ dec_int ts))))"

definition verify_resp ::
    "ext \<Rightarrow> stra2us_client \<Rightarrow> int \<Rightarrow> string \<Rightarrow> string \<Rightarrow> (string \<times> string) list \<Rightarrow> unit res" where
  "verify_resp E c now uri body headers =
     (if \<not> cl_verify_response c then Inr ()
      else
      (case (header_get headers ''X-Response-Timestamp'', header_get headers ''X-Response-Signature'') of
         (Some ts, Some sig) \<Rightarrow>
           if ts = [] \<or> sig = [] then Inl stra2us_error
           else
           (case py_int ts of
              None \<Rightarrow> Inl (PyExn ''ValueError'')
            | Some t \<Rightarrow>
                if CLOCK_DRIFT_SECONDS < \<bar>now - t\<bar> then Inl stra2us_error
                else
                bind_res (secret_bytes c) (\<lambda>secret.
                bind_res (compare_digest (to_hex (e_hmac E secret (uri @ body @ ts))) sig) (\<lambda>ok.
                if ok then Inr () else Inl stra2us_error)))
       | _ \<Rightarrow> Inl stra2us_error))"

definition status_ok :: "response \<Rightarrow> bool" where
  "status_ok r \<longleftrightarrow> 200 \<le> rs_status r \<and> rs_status r < 300"

definition client_request ::
    "'w net \<Rightarrow> ext \<Rightarrow> stra2us_client \<Rightarrow> string \<Rightarrow> string \<Rightarrow> string \<Rightarrow> string option
      \<Rightarrow> (string \<times> string) list \<Rightarrow> 'w \<Rightarrow> response res \<times> 'w" where
  "client_request N E c method uri body ctype extra_headers w =
     (let ts = n_now N w in
      lift_res (client_sign E c uri body ts) w (\<lambda>sig.
      let headers = [(''X-Client-ID'', cl_client_id c), (''X-Timestamp'', dec_int ts), (''X-Signature'', sig)]
            @ (case ctype of None \<Rightarrow> [] | Some t \<Rightarrow> if t = [] then [] else [(''Content-Type'', t)])
            @ extra_headers
      in (case n_send N method uri body headers w of
            (None, w1) \<Rightarrow> (Inl stra2us_error, w1)
          | (Some r, w1) \<Rightarrow>
              (if status_ok r
               then bind_res (verify_resp E c (n_now N w1) uri (rs_body r) (rs_headers r)) (\<lambda>_. Inr r)
               else Inr r, w1))))"

subsection \<open>The URI of a key\<close>

text \<open>Each segment is encoded with \<open>quote(p, safe="")\<close>, the slashes stay separators.\<close>

definition quote_path :: "string \<Rightarrow> string" where
  "quote_path key = join ''/'' (map (quote []) (split_on CHR ''/'' key))"

definition kv_uri :: "string \<Rightarrow> string" where
  "kv_uri key = ''/kv/'' @ quote_path key"

subsection \<open>The operations\<close>

definition client_put ::
    "'w net \<Rightarrow> ext \<Rightarrow> stra2us_client \<Rightarrow> string \<Rightarrow> pyval \<Rightarrow> bool \<Rightarrow> 'w \<Rightarrow> response res \<times> 'w" where
  "client_put N E c key value encrypted w =
     lift_res (packb_res E value) w (\<lambda>body.
     and_then (client_request N E c ''POST'' (kv_uri key) body (Some ''application/x-msgpack'')
         (if encrypted then [(''X-Encrypted'', ''1'')] else []) w) (\<lambda>r w1.
     (if status_ok r then Inr r else Inl stra2us_error, w1)))"

text \<open>The URI of a queue message; with a \<open>ttl\<close> the signed URI has a query.\<close>

definition queue_uri :: "string \<Rightarrow> int option \<Rightarrow> string" where
  "queue_uri topic ttl =
     ''/q/'' @ quote_path topic @ (case ttl of None \<Rightarrow> [] | Some n \<Rightarrow> ''?ttl='' @ dec_int n)"

definition client_post_queue ::
    "'w net \<Rightarrow> ext \<Rightarrow> stra2us_client \<Rightarrow> string \<Rightarrow> pyval \<Rightarrow> int option \<Rightarrow> 'w \<Rightarrow> response res \<times> 'w" where
  "client_post_queue N E c topic payload ttl w =
     lift_res (packb_res E payload) w (\<lambda>body.
     and_then (client_request N E c ''POST'' (queue_uri topic ttl) body (Some ''application/x-msgpack'') [] w)
       (\<lambda>r w1. (if status_ok r then Inr r else Inl stra2us_error, w1)))"

definition client_delete :: "'w net \<Rightarrow> ext \<Rightarrow> stra2us_client \<Rightarrow> string \<Rightarrow> 'w \<Rightarrow> unit res \<times> 'w" where
  "client_delete N E c key w =
     and_then (client_request N E c ''DELETE'' (kv_uri key) [] None [] w)
       (\<lambda>r w1. (if status_ok r then Inr () else Inl stra2us_error, w1))"

text \<open>The value of a response of \<open>get\<close>; Python's \<open>None\<close> is \<open>PNone\<close>.\<close>

definition decode_get :: "ext \<Rightarrow> stra2us_client \<Rightarrow> response \<Rightarrow> pyval res" where
  "decode_get E c r =
     (case e_unpackb E (rs_body r) of
        None \<Rightarrow> Inl stra2us_error
      | Some (PExt t data) \<Rightarrow>
          if t \<noteq> KVENC_EXT_TYPE then Inr (PExt t data)
          else
          (case header_get (rs_headers r) ''X-Response-Timestamp'' of
             None \<Rightarrow> Inl stra2us_error
           | Some ts_hdr \<Rightarrow>
               bind_res (secret_bytes c) (\<lambda>secret.
               (case py_int ts_hdr of
                  None \<Rightarrow> Inl (PyExn ''ValueError'')
                | Some nonce \<Rightarrow>
                    bind_res (client_kvenc_xor E secret nonce data) (\<lambda>plaintext.
                    Inr (if utf8_valid plaintext then PStr plaintext else PBytes plaintext)))))
      | Some (PDict kvs) \<Rightarrow> Inr (if dval kvs ''status'' = PStr ''not_found'' then PNone else PDict kvs)
      | Some v \<Rightarrow> Inr v)"

definition client_get :: "'w net \<Rightarrow> ext \<Rightarrow> stra2us_client \<Rightarrow> string \<Rightarrow> 'w \<Rightarrow> pyval res \<times> 'w" where
  "client_get N E c key w =
     and_then (client_request N E c ''GET'' (kv_uri key) [] None [] w)
       (\<lambda>r w1.
         (if rs_status r = 404 then Inr PNone
          else if \<not> status_ok r then Inl stra2us_error
          else decode_get E c r, w1))"

subsection \<open>The other end: the device routes behind FastAPI\<close>

fun unquote :: "string \<Rightarrow> string" where
  "unquote [] = []"
| "unquote (c # s) =
     (if c \<noteq> CHR ''%'' then c # unquote s
      else
      (case s of
         a # b # r \<Rightarrow>
           (case (hex_val a, hex_val b) of
              (Some h, Some l) \<Rightarrow> char_of (16 * h + l) # unquote r
            | _ \<Rightarrow> c # unquote s)
       | _ \<Rightarrow> c # unquote s))"

definition asgi_request :: "string \<Rightarrow> string \<Rightarrow> string \<Rightarrow> (string \<times> string) list \<Rightarrow> request" where
  "asgi_request method uri body headers =
     (let (raw_path, query) = (case split1 CHR ''?'' uri of None \<Rightarrow> (uri, []) | Some r \<Rightarrow> r) in
      \<lparr>rq_method = method, rq_path = unquote raw_path, rq_query = query,
       rq_headers = map_of (map (\<lambda>(k, v). (lower k, v)) headers),
       rq_cookies = Map.empty, rq_body = body, rq_hostname = None\<rparr>)"

definition error_response :: "nat \<Rightarrow> string \<Rightarrow> response" where
  "error_response status detail =
     \<lparr>rs_status = status, rs_media = ''application/json'', rs_headers = [], rs_body = detail\<rparr>"

definition http_response :: "response res \<Rightarrow> response" where
  "http_response r =
     (case r of Inr resp \<Rightarrow> resp | Inl (HTTPException n m) \<Rightarrow> error_response n m
      | Inl (PyExn m) \<Rightarrow> error_response 500 ''Internal Server Error'')"

definition ttl_of_query :: "string \<Rightarrow> int option" where
  "ttl_of_query q = (if q = [] then Some 3600 else if prefix ''ttl='' q then py_int (drop 4 q) else Some 3600)"

definition device_route ::
    "'db redis \<Rightarrow> ext \<Rightarrow> (pyval \<Rightarrow> 'cat option) \<Rightarrow> ('cat \<Rightarrow> 'issue list) \<Rightarrow> int \<Rightarrow> request \<Rightarrow> client_ctx
      \<Rightarrow> 'db \<Rightarrow> response res \<times> 'db" where
  "device_route R E mv lint now req ctx d =
     (if prefix ''/kv/'' (rq_path req) then
        (let key = drop 4 (rq_path req) in
         if rq_method req = ''POST'' then write_kv R E mv lint now key req ctx d
         else if rq_method req = ''GET'' then snd (read_kv R E now key req ctx d)
         else if rq_method req = ''DELETE'' then delete_kv R E now key req ctx d
         else (Inl (HTTPException 405 ''Method Not Allowed''), d))
      else if prefix ''/q/'' (rq_path req) \<and> rq_method req = ''POST'' then
        (case ttl_of_query (rq_query req) of
           None \<Rightarrow> (Inl (HTTPException 422 ''Unprocessable Entity''), d)
         | Some ttl \<Rightarrow> publish_message R E now (drop 3 (rq_path req)) req ttl ctx d)
      else (Inl (HTTPException 404 ''Not Found''), d))"

definition serve_device ::
    "'db redis \<Rightarrow> ext \<Rightarrow> (pyval \<Rightarrow> 'cat option) \<Rightarrow> ('cat \<Rightarrow> 'issue list) \<Rightarrow> int \<Rightarrow> request
      \<Rightarrow> 'db \<Rightarrow> response \<times> 'db" where
  "serve_device R E mv lint now req d =
     (case (rq_headers req ''x-client-id'', rq_headers req ''x-timestamp'', rq_headers req ''x-signature'') of
        (Some cid, Some ts, Some sig) \<Rightarrow>
          (case verify_device_request R E now req cid ts sig d of
             Inl e \<Rightarrow> (http_response (Inl e), d)
           | Inr ctx \<Rightarrow> (case device_route R E mv lint now req ctx d of (r, d') \<Rightarrow> (http_response r, d')))
      | _ \<Rightarrow> (error_response 403 ''Not authenticated'', d))"

text \<open>A world is the store, the clock of the server and the clock of the client.\<close>

type_synonym 'db world = "'db \<times> int \<times> int"

definition device_net ::
    "'db redis \<Rightarrow> ext \<Rightarrow> (pyval \<Rightarrow> 'cat option) \<Rightarrow> ('cat \<Rightarrow> 'issue list) \<Rightarrow> 'db world net" where
  "device_net R E mv lint =
     \<lparr>n_now = (\<lambda>(d, ts, tc). tc),
      n_send = (\<lambda>method uri body headers (d, ts, tc).
        (case serve_device R E mv lint ts (asgi_request method uri body headers) d of
           (r, d') \<Rightarrow> (Some r, (d', ts, tc))))\<rparr>"

subsection \<open>Percent encoding is undone by the server\<close>

lemma unquote_plain: "c \<noteq> CHR ''%'' \<Longrightarrow> unquote (c # s) = c # unquote s"
  by simp

lemma unquote_quote_append: "unquote (quote [] s @ t) = s @ unquote t"
proof (induction s)
  case (Cons c s)
  have "unquote (pct c @ r) = c # unquote r" for r
    using pct_high [of c] by (simp add: pct_def)
  with Cons show ?case by (simp add: quote_def unreserved_facts unquote_plain)
qed (simp add: quote_def)

lemma unquote_join: "unquote (join ''/'' (map (quote []) ws) @ t) = join ''/'' ws @ unquote t"
proof (induction ws)
  case (Cons w ws)
  then show ?case
    by (cases ws) (simp_all add: unquote_quote_append unquote_plain)
qed simp

text \<open>The key the server reads is the key the client was given, whatever its characters.\<close>

lemma unquote_quote_path [simp]: "unquote (quote_path key) = key"
  using unquote_join [of "split_on CHR ''/'' key" "[]"] by (simp add: quote_path_def join_split_on)

lemma unquote_kv_uri [simp]: "unquote (kv_uri key) = ''/kv/'' @ key"
  by (simp add: kv_uri_def unquote_plain)

definition plain_key :: "string \<Rightarrow> bool" where
  "plain_key key \<longleftrightarrow> (\<forall>c \<in> set key. unreserved c \<or> c = CHR ''/'')"

lemma quote_path_plain:
  assumes "plain_key key"
  shows "quote_path key = key"
proof -
  have "set (split_on c s) \<subseteq> {w. set w \<subseteq> set s - {c}}" for c s
    by (induction s) (auto split: list.splits)
  then have "\<forall>w \<in> set (split_on CHR ''/'' key). quote [] w = w"
    using assms by (fastforce simp: plain_key_def intro!: quote_id)
  then show ?thesis by (simp add: quote_path_def join_split_on cong: map_cong)
qed

lemma quote_chars: "c \<in> set (quote [] s) \<Longrightarrow> unreserved c \<or> c = CHR ''%''"
proof -
  have "unreserved (upper_hex n)" if "n < 16" for n
    using that by (drule_tac less_16_cases) (auto simp: upper_hex_def unreserved_eval)
  then show "c \<in> set (quote [] s) \<Longrightarrow> unreserved c \<or> c = CHR ''%''"
    using pct_high by (auto simp: quote_def pct_def split: if_splits)
qed

lemma no_query_quote_path [simp]: "CHR ''?'' \<notin> set (quote_path key)"
proof -
  have "CHR ''?'' \<notin> set (join ''/'' (map (quote []) ws))" for ws
  proof (induction ws)
    case (Cons w ws)
    then show ?case
      using quote_chars [of "CHR ''?''" w] by (cases ws) (auto simp: unreserved_eval)
  qed simp
  then show ?thesis by (simp add: quote_path_def)
qed

lemma no_query_kv_uri [simp]: "CHR ''?'' \<notin> set (kv_uri key)"
  by (simp add: kv_uri_def)

subsection \<open>A signed request is accepted, a signed response too\<close>

definition client_known :: "'db redis \<Rightarrow> ext \<Rightarrow> stra2us_client \<Rightarrow> string \<Rightarrow> pyval \<Rightarrow> 'db \<Rightarrow> bool" where
  "client_known R E c secret acl d \<longleftrightarrow>
     from_hex (cl_secret_hex c) = Some secret \<and> cl_secret_hex c \<noteq> [] \<and> utf8_valid (cl_secret_hex c) \<and>
     r_get R (client_secret_key (cl_client_id c)) d = Some (cl_secret_hex c) \<and>
     (\<exists>j. r_get R (client_acl_key (cl_client_id c)) d = Some j \<and> j \<noteq> [] \<and> e_loads E j = Some acl)"

definition ctx_of :: "stra2us_client \<Rightarrow> pyval \<Rightarrow> client_ctx" where
  "ctx_of c acl = \<lparr>ctx_client_id = cl_client_id c, ctx_secret_hex = cl_secret_hex c, ctx_acl = acl\<rparr>"

lemma ctx_of_simps [simp]:
  "ctx_client_id (ctx_of c acl) = cl_client_id c" "ctx_secret_hex (ctx_of c acl) = cl_secret_hex c"
  "ctx_acl (ctx_of c acl) = acl"
  by (simp_all add: ctx_of_def)

lemma header_get_names [simp]:
  "header_get [(''X-Response-Timestamp'', t), (''X-Response-Signature'', s)] ''X-Response-Timestamp'' = Some t"
  "header_get [(''X-Response-Timestamp'', t), (''X-Response-Signature'', s)] ''X-Response-Signature'' = Some s"
  by (simp_all add: header_get_def lower_def char_eval)

lemma to_hex_eq_nil [simp]: "to_hex b = [] \<longleftrightarrow> b = []"
  by (cases b) (simp_all add: to_hex_def)

lemma asgi_simps [simp]:
  "rq_method (asgi_request m uri body hs) = m" "rq_body (asgi_request m uri body hs) = body"
  "rq_headers (asgi_request m uri body hs) = map_of (map (\<lambda>(k, v). (lower k, v)) hs)"
  by (simp_all add: asgi_request_def split: option.splits prod.splits)

lemma asgi_path: "CHR ''?'' \<notin> set uri \<Longrightarrow> rq_path (asgi_request m uri body hs) = unquote uri"
  using split1_None_iff [of "CHR ''?''" uri] by (simp add: asgi_request_def)

text \<open>The headers a request of the client carries.\<close>

definition request_headers ::
    "stra2us_client \<Rightarrow> int \<Rightarrow> string \<Rightarrow> string option \<Rightarrow> (string \<times> string) list \<Rightarrow> (string \<times> string) list" where
  "request_headers c ts sig ctype extra_headers =
     [(''X-Client-ID'', cl_client_id c), (''X-Timestamp'', dec_int ts), (''X-Signature'', sig)]
     @ (case ctype of None \<Rightarrow> [] | Some t \<Rightarrow> if t = [] then [] else [(''Content-Type'', t)]) @ extra_headers"

lemma lower_names [simp]:
  "lower ''X-Client-ID'' = ''x-client-id''" "lower ''X-Timestamp'' = ''x-timestamp''"
  "lower ''X-Signature'' = ''x-signature''" "lower ''X-Encrypted'' = ''x-encrypted''"
  "lower ''Content-Type'' = ''content-type''"
  by code_simp+

lemma request_headers_auth [simp]:
  "map_of (map (\<lambda>(k, v). (lower k, v)) (request_headers c ts sig ct ex)) ''x-client-id'' = Some (cl_client_id c)"
  "map_of (map (\<lambda>(k, v). (lower k, v)) (request_headers c ts sig ct ex)) ''x-timestamp'' = Some (dec_int ts)"
  "map_of (map (\<lambda>(k, v). (lower k, v)) (request_headers c ts sig ct ex)) ''x-signature'' = Some sig"
  by (simp_all add: request_headers_def)

context backend
begin

lemma hmac_nonempty [simp]: "e_hmac E k m \<noteq> []"
  using hmac_len [of k m] by auto

lemma verify_known:
  assumes "client_known R E c secret acl d" and "\<bar>now - t\<bar> \<le> 300"
  shows "verify_device_request R E now req (cl_client_id c) (dec_int t)
      (to_hex (e_hmac E secret (uri @ rq_body req @ dec_int t))) d =
    (if e_hmac E secret (rq_path req @ rq_body req @ dec_int t) = e_hmac E secret (uri @ rq_body req @ dec_int t)
     then Inr (ctx_of c acl) else Inl (HTTPException 401 ''Invalid Signature''))"
proof -
  have inj: "to_hex a = to_hex b \<longleftrightarrow> a = b" for a b by (metis from_hex_to_hex option.inject)
  from assms show ?thesis
    by (auto simp: client_known_def verify_device_request_def get_truthy_def verify_timestamp_def decode_utf8_def
        verify_signature_def sign_payload_def calculate_signature_def from_hex_res_def compare_digest_def inj
        loads_res_def ctx_of_def)
qed

lemma client_request_unfold:
  assumes "client_known R E c secret acl d"
  shows "client_request (device_net R E mv lint) E c m uri body ct ex (d, ts, tc) =
    (let sig = to_hex (e_hmac E secret (uri @ body @ dec_int tc));
         (r, d') = serve_device R E mv lint ts (asgi_request m uri body (request_headers c tc sig ct ex)) d
     in (if status_ok r then bind_res (verify_resp E c tc uri (rs_body r) (rs_headers r)) (\<lambda>_. Inr r)
         else Inr r, (d', ts, tc)))"
  using assms
  by (auto simp: client_request_def client_sign_def secret_bytes_def client_known_def device_net_def
      request_headers_def Let_def split: prod.splits)

text \<open>A request whose URI the server sees as the client wrote it reaches its handler.\<close>

lemma client_request_served:
  assumes known: "client_known R E c secret acl d" and drift: "\<bar>ts - tc\<bar> \<le> 300"
    and uri: "CHR ''?'' \<notin> set uri" "unquote uri = uri"
    and req: "req = asgi_request m uri body
      (request_headers c tc (to_hex (e_hmac E secret (uri @ body @ dec_int tc))) ct ex)"
    and route: "device_route R E mv lint ts req (ctx_of c acl) d = (Inr r, d')"
    and ok: "verify_resp E c tc uri (rs_body r) (rs_headers r) = Inr ()"
  shows "client_request (device_net R E mv lint) E c m uri body ct ex (d, ts, tc) = (Inr r, (d', ts, tc))"
proof -
  have path: "rq_path req = uri" using req uri by (simp add: asgi_path)
  have "serve_device R E mv lint ts req d = (r, d')"
    using verify_known [OF known, of ts tc req uri] drift path route
    by (simp add: serve_device_def req http_response_def)
  with known req ok show ?thesis by (simp add: client_request_unfold Let_def)
qed

text \<open>One whose decoded path differs from the signed text is refused, unless the digests collide.\<close>

lemma client_request_refused:
  assumes known: "client_known R E c secret acl d" and drift: "\<bar>ts - tc\<bar> \<le> 300"
    and path: "e_hmac E secret (rq_path (asgi_request m uri body hs) @ body @ dec_int tc)
        \<noteq> e_hmac E secret (uri @ body @ dec_int tc)"
    and hs: "hs = request_headers c tc (to_hex (e_hmac E secret (uri @ body @ dec_int tc))) ct ex"
  shows "client_request (device_net R E mv lint) E c m uri body ct ex (d, ts, tc) =
    (Inr (error_response 401 ''Invalid Signature''), (d, ts, tc))"
proof -
  have "serve_device R E mv lint ts (asgi_request m uri body hs) d =
      (error_response 401 ''Invalid Signature'', d)"
    using verify_known [OF known, of ts tc "asgi_request m uri body hs" uri] drift path hs
    by (simp add: serve_device_def http_response_def)
  with known hs show ?thesis
    by (simp add: client_request_unfold Let_def status_ok_def error_response_def)
qed

lemma verify_resp_signed:
  assumes "sign_payload E (cl_secret_hex c) uri body t = Inr sig" and "\<bar>tc - t\<bar> \<le> 300"
  shows "verify_resp E c tc uri body [(''X-Response-Timestamp'', dec_int t), (''X-Response-Signature'', sig)] = Inr ()"
proof -
  have "dec_int t \<noteq> []" by (simp add: dec_int_def)
  with assms show ?thesis
    by (auto simp: verify_resp_def sign_payload_Inr secret_bytes_def CLOCK_DRIFT_SECONDS_def compare_digest_def)
qed

lemma signed_response_checked:
  assumes "signed_response E ts ctx req body st = Inr r" and "ctx_secret_hex ctx = cl_secret_hex c"
    and "\<bar>tc - ts\<bar> \<le> 300"
  shows "verify_resp E c tc (rq_path req) (rs_body r) (rs_headers r) = Inr ()"
  using assms by (auto simp: signed_response_Inr verify_resp_signed)


end

subsection \<open>End to end\<close>

lemma msgpack_not_text: "\<not> sublist ''text/plain'' ''application/x-msgpack''"
  by (simp add: sublist_Cons_right)

lemma plain_uri:
  assumes "plain_key key"
  shows "kv_uri key = ''/kv/'' @ key" "unquote (kv_uri key) = kv_uri key"
  using assms unquote_kv_uri [of key] by (simp_all add: kv_uri_def quote_path_plain)

definition put_headers :: "bool \<Rightarrow> (string \<times> string) list" where
  "put_headers encrypted = (if encrypted then [(''X-Encrypted'', ''1'')] else [])"

lemma put_headers_simps [simp]:
  "map_of (map (\<lambda>(k, v). (lower k, v))
      (request_headers c ts sig (Some ''application/x-msgpack'') (put_headers enc))) ''content-type'' =
    Some ''application/x-msgpack''"
  "map_of (map (\<lambda>(k, v). (lower k, v))
      (request_headers c ts sig (Some ''application/x-msgpack'') (put_headers enc))) ''x-encrypted'' =
    (if enc then Some ''1'' else None)"
  by (simp_all add: request_headers_def put_headers_def)

text \<open>Permission to write a key is permission to read it.\<close>

lemma check_perms_write_read:
  "check_perms cs WriteMode ps = Inr () \<Longrightarrow> check_perms cs ReadMode ps = Inr ()"
proof (induction ps)
  case (Cons p ps)
  from Cons.prems obtain pre acc m where
    h: "dget_or p ''prefix'' (PStr []) = Inr pre" "dget_or p ''access'' (PStr ''r'') = Inr acc"
      "any_match pre cs = Inr m" "\<not> m \<longrightarrow> check_perms cs WriteMode ps = Inr ()"
    unfolding check_perms.simps bind_res_Inr_iff by (metis (full_types))
  then show ?case using Cons.IH by (cases m) simp_all
qed simp

lemma check_acl_write_read: "check_acl ctx res WriteMode = Inr () \<Longrightarrow> check_acl ctx res ReadMode = Inr ()"
  unfolding check_acl_def Let_def bind_res_Inr_iff using check_perms_write_read by blast

text \<open>What a plain value must not be: a cipher object, or the server's answer for a missing key.\<close>

definition transparent :: "pyval \<Rightarrow> bool" where
  "transparent v =
     (case v of PExt t _ \<Rightarrow> t \<noteq> KVENC_EXT_TYPE | PDict kvs \<Rightarrow> dval kvs ''status'' \<noteq> PStr ''not_found''
      | _ \<Rightarrow> True)"

context backend
begin

lemma client_known_put:
  assumes "client_known R E c secret acl d"
  shows "client_known R E c secret acl (set_enc_flag R key enc (r_set R (kv_key key) b d))"
  using assms by (auto simp: client_known_def get_set_enc_flag get_set)

lemma put_served:
  assumes known: "client_known R E c secret acl d" and drift: "\<bar>ts - tc\<bar> \<le> 300"
    and key: "plain_key key" "\<not> is_catalog_yaml_key key"
    and may: "check_acl (ctx_of c acl) (''kv/'' @ key) WriteMode = Inr ()"
    and b: "e_packb E v = Some b"
  shows "\<exists>r. client_put (device_net R E mv lint) E c key v enc (d, ts, tc) =
    (Inr r, (set_enc_flag R key enc (r_set R (kv_key key) b d), ts, tc))"
proof -
  define uri where "uri = kv_uri key"
  define d' where "d' = set_enc_flag R key enc (r_set R (kv_key key) b d)"
  define hs where "hs = request_headers c tc (to_hex (e_hmac E secret (uri @ b @ dec_int tc)))
    (Some ''application/x-msgpack'') (put_headers enc)"
  define req where "req = asgi_request ''POST'' uri b hs"
  have uri: "uri = ''/kv/'' @ key" using key(1) by (simp add: uri_def plain_uri)
  have uq: "CHR ''?'' \<notin> set uri" "unquote uri = uri"
    using plain_uri(2) key by (auto simp: uri_def simp del: unquote_kv_uri)
  have path: "rq_path req = ''/kv/'' @ key" using uq uri by (simp add: req_def asgi_path)
  have hdr: "rq_headers req ''content-type'' = Some ''application/x-msgpack''"
    "rq_headers req ''x-encrypted'' = Some ''1'' \<longleftrightarrow> enc" "rq_body req = b" "rq_method req = ''POST''"
    by (simp_all add: req_def hs_def)
  obtain doc where doc: "e_packb E (status_doc ''ok'') = Some doc"
    using packb_ok [of "status_doc ''ok''"] by (auto simp: status_doc_def char_eval)
  have sec: "from_hex (cl_secret_hex c) = Some secret" using known by (simp add: client_known_def)
  have body: "prepare_body E req = Inr b"
    using unpackb_packb [OF b] msgpack_not_text hdr by (simp add: prepare_body_def content_type_def)
  obtain r where r: "signed_response E ts (ctx_of c acl) req doc 200 = Inr r" "rs_status r = 200"
    by (auto simp: signed_response_Inr sign_payload_Inr sec)
  have "write_kv R E mv lint ts key req (ctx_of c acl) d = (Inr r, d')"
    using may key(2) body doc r hdr by (simp add: write_kv_def signed_msgpack_def packb_res_def d'_def)
  then have route: "device_route R E mv lint ts req (ctx_of c acl) d = (Inr r, d')"
    using hdr by (simp add: device_route_def path)
  have "verify_resp E c tc uri (rs_body r) (rs_headers r) = Inr ()"
    using signed_response_checked [OF r(1)] drift path uri by simp
  from client_request_served [OF known drift uq req_def [unfolded hs_def] route this]
  have "client_request (device_net R E mv lint) E c ''POST'' uri b (Some ''application/x-msgpack'')
      (put_headers enc) (d, ts, tc) = (Inr r, (d', ts, tc))" .
  with b r(2) show ?thesis
    unfolding uri_def d'_def by (auto simp: client_put_def packb_res_def put_headers_def status_ok_def)
qed

lemma get_served:
  assumes known: "client_known R E c secret acl d" and key: "plain_key key" and drift: "\<bar>ts - tc\<bar> \<le> 300"
    and read: "\<And>req. rq_path req = ''/kv/'' @ key \<Longrightarrow>
      \<exists>r. snd (read_kv R E ts key req (ctx_of c acl) d) = (Inr r, d') \<and>
        rs_status r = 200 \<and> decode_get E c r = v \<and>
        verify_resp E c tc (rq_path req) (rs_body r) (rs_headers r) = Inr ()"
  shows "client_get (device_net R E mv lint) E c key (d, ts, tc) = (v, (d', ts, tc))"
proof -
  define uri where "uri = kv_uri key"
  define hs where "hs = request_headers c tc (to_hex (e_hmac E secret (uri @ [] @ dec_int tc))) None []"
  define req where "req = asgi_request ''GET'' uri [] hs"
  have uri: "uri = ''/kv/'' @ key" using key by (simp add: uri_def plain_uri)
  have uq: "CHR ''?'' \<notin> set uri" "unquote uri = uri"
    using plain_uri(2) key by (auto simp: uri_def simp del: unquote_kv_uri)
  have path: "rq_path req = ''/kv/'' @ key" using uq uri by (simp add: req_def asgi_path)
  obtain r where q: "snd (read_kv R E ts key req (ctx_of c acl) d) = (Inr r, d')"
    "rs_status r = 200" "decode_get E c r = v"
    "verify_resp E c tc (rq_path req) (rs_body r) (rs_headers r) = Inr ()"
    using read [OF path] by blast
  have m: "rq_method req = ''GET''" by (simp add: req_def)
  from q m have route: "device_route R E mv lint ts req (ctx_of c acl) d = (Inr r, d')"
    by (simp add: device_route_def path)
  have "verify_resp E c tc uri (rs_body r) (rs_headers r) = Inr ()"
    using q path uri by simp
  from client_request_served [OF known drift uq req_def [unfolded hs_def] route this] q
  show ?thesis by (simp add: client_get_def status_ok_def uri_def [symmetric])
qed

lemma decode_get_plain:
  assumes "e_unpackb E (rs_body r) = Some v" and "transparent v"
  shows "decode_get E c r = Inr v"
  using assms by (cases v) (simp_all add: decode_get_def transparent_def)

lemma decode_get_encrypted:
  assumes "e_unpackb E (rs_body r) = Some (PExt KVENC_EXT_TYPE ct)"
    and "header_get (rs_headers r) ''X-Response-Timestamp'' = Some (dec_int n)"
    and "from_hex (cl_secret_hex c) = Some secret" and "client_kvenc_xor E secret n ct = Inr s" and "utf8_valid s"
  shows "decode_get E c r = Inr (PStr s)"
  using assms by (simp add: decode_get_def secret_bytes_def)

lemma signed_encrypted_checked:
  assumes "signed_encrypted_response E ctx req s n = Inr r" and "ctx_secret_hex ctx = cl_secret_hex c"
    and "\<bar>tc - n\<bar> \<le> 300"
  shows "verify_resp E c tc (rq_path req) (rs_body r) (rs_headers r) = Inr ()"
    and "rs_status r = 200" and "header_get (rs_headers r) ''X-Response-Timestamp'' = Some (dec_int n)"
  using assms by (auto simp: signed_encrypted_response_def bind_res_Inr_iff verify_resp_signed)

lemma get_plain:
  assumes known: "client_known R E c secret acl d" and key: "plain_key key" and drift: "\<bar>ts - tc\<bar> \<le> 300"
    and may: "check_acl (ctx_of c acl) (''kv/'' @ key) ReadMode = Inr ()"
    and val: "r_get R (kv_key key) d = Some b" "r_get R (enc_key key) d = None"
    and b: "e_unpackb E b = Some v" "transparent v"
  shows "client_get (device_net R E mv lint) E c key (d, ts, tc) = (Inr v, (d, ts, tc))"
proof (rule get_served [OF known key drift])
  fix req :: request
  assume "rq_path req = ''/kv/'' @ key"
  have "from_hex (cl_secret_hex c) = Some secret" using known by (simp add: client_known_def)
  then obtain r where r: "signed_response E ts (ctx_of c acl) req b 200 = Inr r" "rs_body r = b" "rs_status r = 200"
    by (auto simp: signed_response_Inr sign_payload_Inr)
  then show "\<exists>r. snd (read_kv R E ts key req (ctx_of c acl) d) = (Inr r, d) \<and> rs_status r = 200 \<and>
      decode_get E c r = Inr v \<and> verify_resp E c tc (rq_path req) (rs_body r) (rs_headers r) = Inr ()"
    using read_kv_plain [OF may val] signed_response_checked [OF r(1)] drift b by (simp add: decode_get_plain)
qed

lemma get_encrypted:
  assumes known: "client_known R E c secret acl d" and key: "plain_key key" and drift: "\<bar>ts - tc\<bar> \<le> 300"
    and may: "check_acl (ctx_of c acl) (''kv/'' @ key) ReadMode = Inr ()"
    and val: "r_get R (kv_key key) d = Some b" "r_get R (enc_key key) d = Some ''1''"
    and b: "e_packb E (PStr s) = Some b" and s: "utf8_valid s" "length s \<le> 8160"
    and n: "next_kvenc_nonce R ts (cl_client_id c) d = (Inr n, d')" "0 \<le> n" "n < 2 ^ 32" "\<bar>tc - n\<bar> \<le> 300"
  shows "client_get (device_net R E mv lint) E c key (d, ts, tc) = (Inr (PStr s), (d', ts, tc))"
proof (rule get_served [OF known key drift])
  fix req :: request
  assume "rq_path req = ''/kv/'' @ key"
  have sec: "from_hex (cl_secret_hex c) = Some secret" using known by (simp add: client_known_def)
  then obtain r ct where r: "signed_encrypted_response E (ctx_of c acl) req s n = Inr r"
    and ct: "e_unpackb E (rs_body r) = Some (PExt KVENC_EXT_TYPE ct)" "client_kvenc_xor E secret n ct = Inr s"
    using signed_encrypted_ok [of "ctx_of c acl" secret n s req] n s by auto
  note checked = signed_encrypted_checked [OF r ctx_of_simps(2) n(4)]
  have "snd (read_kv R E ts key req (ctx_of c acl) d) = (Inr r, d')"
    using read_kv_encrypted [OF may val raw_packb_str [OF b], of ts n d' req] n(1) r by simp
  with checked decode_get_encrypted [OF ct(1) checked(3) sec ct(2) s(1)]
  show "\<exists>r. snd (read_kv R E ts key req (ctx_of c acl) d) = (Inr r, d') \<and> rs_status r = 200 \<and>
      decode_get E c r = Inr (PStr s) \<and> verify_resp E c tc (rq_path req) (rs_body r) (rs_headers r) = Inr ()"
    by blast
qed

text \<open>The nonce depends on the counter of the client only.\<close>

lemma next_nonce_cong:
  assumes "r_get R (nonce_key cid) d1 = r_get R (nonce_key cid) d" and "fst (next_kvenc_nonce R now cid d) = Inr n"
  shows "\<exists>d2. next_kvenc_nonce R now cid d1 = (Inr n, d2)"
  using assms by (auto simp: next_kvenc_nonce_def kvenc_nonce_lua_def Let_def split: option.splits)

lemma next_nonce_frame:
  "next_kvenc_nonce R now cid d = (Inr n, d') \<Longrightarrow> k \<noteq> nonce_key cid \<Longrightarrow> r_get R k d' = r_get R k d"
  by (auto simp: next_kvenc_nonce_def kvenc_nonce_lua_def Let_def get_set split: option.splits if_splits)

text \<open>The store after a \<open>put\<close>; reading it back moves at most the counter of the client.\<close>

lemma put_then_get_store:
  assumes known: "client_known R E c secret acl d"
    and key: "plain_key key" "\<not> is_catalog_yaml_key key"
    and may: "check_acl (ctx_of c acl) (''kv/'' @ key) WriteMode = Inr ()"
    and v: "mp_ok v" "transparent v"
    and drift: "\<bar>ts - tc\<bar> \<le> 300" "\<bar>ts2 - tc2\<bar> \<le> 300"
    and enc: "enc \<Longrightarrow> \<exists>s. v = PStr s \<and> length s \<le> 8160"
    and nonce: "enc \<Longrightarrow> fst (next_kvenc_nonce R ts2 (cl_client_id c) d) = Inr n \<and> 0 \<le> n \<and> n < 2 ^ 32 \<and> \<bar>tc2 - n\<bar> \<le> 300"
  obtains b d1 d2 where "e_packb E v = Some b" "d1 = set_enc_flag R key enc (r_set R (kv_key key) b d)"
    "\<exists>r. client_put (device_net R E mv lint) E c key v enc (d, ts, tc) = (Inr r, (d1, ts, tc))"
    "client_get (device_net R E mv lint) E c key (d1, ts2, tc2) = (Inr v, (d2, ts2, tc2))"
    "\<And>k. k \<noteq> nonce_key (cl_client_id c) \<Longrightarrow> r_get R k d2 = r_get R k d1"
proof -
  obtain b where b: "e_packb E v = Some b" using packb_ok [OF v(1)] by blast
  define d1 where "d1 = set_enc_flag R key enc (r_set R (kv_key key) b d)"
  have put: "\<exists>r. client_put (device_net R E mv lint) E c key v enc (d, ts, tc) = (Inr r, (d1, ts, tc))"
    using put_served [OF known drift(1) key may b] by (simp add: d1_def)
  have known1: "client_known R E c secret acl d1" using client_known_put [OF known] by (simp add: d1_def)
  have val: "r_get R (kv_key key) d1 = Some b" "r_get R (enc_key key) d1 = (if enc then Some ''1'' else None)"
    and nk: "r_get R (nonce_key cid) d1 = r_get R (nonce_key cid) d" for cid
    by (simp_all add: d1_def get_set_enc_flag)
  note may_read = check_acl_write_read [OF may]
  show thesis
  proof (cases enc)
    case True
    with enc v(1) obtain s where s: "v = PStr s" "length s \<le> 8160" "utf8_valid s" by auto
    from next_nonce_cong [OF nk] nonce [OF True] obtain d2 where
      d2: "next_kvenc_nonce R ts2 (cl_client_id c) d1 = (Inr n, d2)" by blast
    from get_encrypted [OF known1 key(1) drift(2) may_read val(1) _ _ s(3,2) d2] True val b s nonce
    have "client_get (device_net R E mv lint) E c key (d1, ts2, tc2) = (Inr v, (d2, ts2, tc2))" by auto
    from that [OF b d1_def put this next_nonce_frame [OF d2]] show thesis .
  next
    case False
    with get_plain [OF known1 key(1) drift(2) may_read val(1) _ unpackb_packb [OF b] v(2)] val
    have "client_get (device_net R E mv lint) E c key (d1, ts2, tc2) = (Inr v, (d1, ts2, tc2))" by auto
    from that [OF b d1_def put this refl] show thesis .
  qed
qed

lemma put_then_get:
  assumes "client_known R E c secret acl d" and "plain_key key" and "\<not> is_catalog_yaml_key key"
    and "check_acl (ctx_of c acl) (''kv/'' @ key) WriteMode = Inr ()"
    and "mp_ok v" and "transparent v" and "\<bar>ts - tc\<bar> \<le> 300" and "\<bar>ts2 - tc2\<bar> \<le> 300"
    and "enc \<Longrightarrow> \<exists>s. v = PStr s \<and> length s \<le> 8160"
    and "enc \<Longrightarrow> fst (next_kvenc_nonce R ts2 (cl_client_id c) d) = Inr n \<and> 0 \<le> n \<and> n < 2 ^ 32 \<and> \<bar>tc2 - n\<bar> \<le> 300"
  shows "\<exists>r d1 d2. client_put (device_net R E mv lint) E c key v enc (d, ts, tc) = (Inr r, (d1, ts, tc)) \<and>
    client_get (device_net R E mv lint) E c key (d1, ts2, tc2) = (Inr v, (d2, ts2, tc2))"
  using put_then_get_store [where enc = enc and mv = mv and lint = lint, OF assms] by metis

lemma queue_path:
  "rq_path (asgi_request m (queue_uri topic ttl) body hs) = ''/q/'' @ topic"
  "rq_query (asgi_request m (queue_uri topic ttl) body hs) = (case ttl of None \<Rightarrow> [] | Some n \<Rightarrow> ''ttl='' @ dec_int n)"
proof -
  have n: "CHR ''?'' \<notin> set (''/q/'' @ quote_path topic)" by simp
  have u: "unquote (''/q/'' @ quote_path topic) = ''/q/'' @ topic" by (simp add: unquote_plain)
  have s: "split1 CHR ''?'' (queue_uri topic ttl) =
      (case ttl of None \<Rightarrow> None | Some k \<Rightarrow> Some (''/q/'' @ quote_path topic, ''ttl='' @ dec_int k))"
    using n split1_append [OF n] split1_None_iff [of "CHR ''?''" "queue_uri topic ttl"]
    by (cases ttl) (auto simp: queue_uri_def)
  show "rq_path (asgi_request m (queue_uri topic ttl) body hs) = ''/q/'' @ topic"
    "rq_query (asgi_request m (queue_uri topic ttl) body hs) = (case ttl of None \<Rightarrow> [] | Some n \<Rightarrow> ''ttl='' @ dec_int n)"
    using u s by (cases ttl; simp add: asgi_request_def queue_uri_def)+
qed

lemma post_queue_ttl:
  assumes known: "client_known R E c secret acl d" and drift: "\<bar>ts - tc\<bar> \<le> 300"
    and b: "e_packb E payload = Some b"
    and digest: "e_hmac E secret (''/q/'' @ topic @ b @ dec_int tc)
        \<noteq> e_hmac E secret (queue_uri topic (Some ttl) @ b @ dec_int tc)"
  shows "client_post_queue (device_net R E mv lint) E c topic payload (Some ttl) (d, ts, tc) =
    (Inl stra2us_error, (d, ts, tc))"
proof -
  have "client_request (device_net R E mv lint) E c ''POST'' (queue_uri topic (Some ttl)) b
      (Some ''application/x-msgpack'') [] (d, ts, tc) = (Inr (error_response 401 ''Invalid Signature''), (d, ts, tc))"
    by (rule client_request_refused [OF known drift _ refl]) (use digest in \<open>simp add: queue_path\<close>)
  then show ?thesis
    using b by (simp add: client_post_queue_def packb_res_def status_ok_def error_response_def)
qed

lemma post_queue_plain:
  assumes known: "client_known R E c secret acl d" and drift: "\<bar>ts - tc\<bar> \<le> 300"
    and key: "plain_key topic" and b: "e_packb E payload = Some b"
    and may: "check_acl (ctx_of c acl) (''q/'' @ topic) WriteMode = Inr ()"
  shows "\<exists>r d' i. client_post_queue (device_net R E mv lint) E c topic payload None (d, ts, tc) = (Inr r, (d', ts, tc)) \<and>
    entries (q_key topic) d' = entries (q_key topic) d @ [(i, queue_entry ts 3600 b (ctx_of c acl))]"
proof -
  define uri where "uri = queue_uri topic None"
  define hs where "hs = request_headers c tc (to_hex (e_hmac E secret (uri @ b @ dec_int tc)))
    (Some ''application/x-msgpack'') (put_headers False)"
  define req where "req = asgi_request ''POST'' uri b hs"
  have uri: "uri = ''/q/'' @ topic" using key by (simp add: uri_def queue_uri_def quote_path_plain)
  have uq: "CHR ''?'' \<notin> set uri" "unquote uri = uri"
    using unquote_quote_path [of topic] key
    by (simp_all add: uri_def queue_uri_def unquote_plain) (simp add: quote_path_plain)
  have hdr: "rq_headers req ''content-type'' = Some ''application/x-msgpack''"
    "rq_body req = b" "rq_method req = ''POST''"
    unfolding req_def hs_def by simp_all
  have path: "rq_path req = ''/q/'' @ topic" "rq_query req = []"
    by (simp_all add: req_def uri_def queue_path)
  obtain doc where doc: "e_packb E (status_doc ''ok'') = Some doc"
    using packb_ok [of "status_doc ''ok''"] by (auto simp: status_doc_def char_eval)
  have sec: "from_hex (cl_secret_hex c) = Some secret" using known by (simp add: client_known_def)
  have body: "prepare_body E req = Inr b"
    using unpackb_packb [OF b] msgpack_not_text hdr by (simp add: prepare_body_def content_type_def)
  obtain r where r: "signed_response E ts (ctx_of c acl) req doc 200 = Inr r" "rs_status r = 200"
    by (auto simp: signed_response_Inr sign_payload_Inr sec)
  obtain d0 i where add: "r_xadd R (q_key topic) None (queue_entry ts 3600 b (ctx_of c acl)) d = Inr d0"
    "entries (q_key topic) d0 = entries (q_key topic) d @ [(i, queue_entry ts 3600 b (ctx_of c acl))]"
    using xadd_auto [OF queue_entry_nonempty] by blast
  define d' where "d' = r_expire R (q_key topic) 604800 d0"
  have "publish_message R E ts topic req 3600 (ctx_of c acl) d = (Inr r, d')"
    using may body doc r add(1)
    by (simp add: publish_message_def signed_msgpack_def packb_res_def queue_entry_def d'_def)
  then have route: "device_route R E mv lint ts req (ctx_of c acl) d = (Inr r, d')"
    using hdr path by (simp add: device_route_def ttl_of_query_def)
  have "verify_resp E c tc uri (rs_body r) (rs_headers r) = Inr ()"
    using signed_response_checked [OF r(1)] drift path uri by simp
  from client_request_served [OF known drift uq req_def [unfolded hs_def] route this]
  have "client_request (device_net R E mv lint) E c ''POST'' uri b (Some ''application/x-msgpack'')
      [] (d, ts, tc) = (Inr r, (d', ts, tc))" by (simp add: put_headers_def)
  with b r(2) add(2) show ?thesis
    unfolding uri_def by (auto simp: client_post_queue_def packb_res_def status_ok_def d'_def entries_expire)
qed

end

text \<open>
  What the client puts, any later \<open>get\<close> returns. For a client whose credentials the server
  holds and whose access list lets it write the key, a \<open>put\<close> of any value msgpack can carry is
  accepted, and a later \<open>get\<close>, with both clocks anywhere within the allowed drift of each other,
  verifies the signed response and returns the same value; so it does for a text put with
  \<open>encrypted=True\<close>, whose bytes travel back only as a cipher text, when the nonce the server
  hands out is within the drift too. The key is of URL-safe characters, is not a catalog, and
  the value is not one of the two shapes the client gives another meaning.
\<close>

lemma client_put_get:
  assumes "backend R entries E" and "client_known R E c secret acl d"
    and "plain_key key" and "\<not> is_catalog_yaml_key key"
    and "check_acl (ctx_of c acl) (''kv/'' @ key) WriteMode = Inr ()"
    and "mp_ok v" and "transparent v"
    and "\<bar>ts - tc\<bar> \<le> 300" and "\<bar>ts2 - tc2\<bar> \<le> 300"
    and "enc \<Longrightarrow> \<exists>s. v = PStr s \<and> length s \<le> 8160"
    and "enc \<Longrightarrow> fst (next_kvenc_nonce R ts2 (cl_client_id c) d) = Inr n \<and> 0 \<le> n \<and> n < 2 ^ 32 \<and> \<bar>tc2 - n\<bar> \<le> 300"
  shows "\<exists>r d1 d2. client_put (device_net R E mv lint) E c key v enc (d, ts, tc) = (Inr r, (d1, ts, tc)) \<and>
    client_get (device_net R E mv lint) E c key (d1, ts2, tc2) = (Inr v, (d2, ts2, tc2))"
  using assms by (rule backend.put_then_get)

text \<open>A store that knows one client with full access.\<close>

definition ref_client :: stra2us_client where
  "ref_client = \<lparr>cl_client_id = ''dev'', cl_secret_hex = ''0a'', cl_verify_response = True\<rparr>"

definition ref_acl :: pyval where
  "ref_acl = acl_doc [Perm ''*'' ''rw'']"

definition ref_known :: mem where
  "ref_known = r_set mem_redis (client_acl_key ''dev'') (unary ref_acl)
     (r_set mem_redis (client_secret_key ''dev'') ''0a'' [])"

lemma ref_client_known: "client_known mem_redis ref_ext ref_client [char_of (10::nat)] ref_acl ref_known"
proof -
  have "e_loads ref_ext (unary ref_acl) = Some ref_acl" by (simp add: ref_ext_def)
  then show ?thesis
    by (simp add: client_known_def ref_client_def ref_known_def ref_secret mem_store.get_set char_eval
        del: from_hex.simps)
qed

lemma ref_client_may: "check_acl (ctx_of ref_client ref_acl) res mode = Inr ()"
proof -
  have "ctx_of ref_client ref_acl = ref_ctx" by (simp add: ctx_of_def ref_client_def ref_acl_def ref_ctx_def)
  then show ?thesis by simp
qed

text \<open>
  C29. A queue message with a \<open>ttl\<close> is never stored. \<open>post_queue\<close> signs the URI with its query
  while the server signs the path alone, so, unless the two digests collide, the message is
  refused with 401, \<open>post_queue\<close> raises and the store stays as it was; the same message without
  a \<open>ttl\<close> is accepted and appended, with the server's default of 3600 seconds.
\<close>

theorem post_queue_ttl_refused:
  assumes "backend R entries E" and "client_known R E c secret acl d" and "\<bar>ts - tc\<bar> \<le> 300"
    and "e_packb E payload = Some b" and "plain_key topic"
    and "check_acl (ctx_of c acl) (''q/'' @ topic) WriteMode = Inr ()"
    and "e_hmac E secret (''/q/'' @ topic @ b @ dec_int tc)
        \<noteq> e_hmac E secret (queue_uri topic (Some ttl) @ b @ dec_int tc)"
  shows "client_post_queue (device_net R E mv lint) E c topic payload (Some ttl) (d, ts, tc) =
      (Inl (PyExn ''Stra2usError''), (d, ts, tc)) \<and>
    (\<exists>r d' i. client_post_queue (device_net R E mv lint) E c topic payload None (d, ts, tc) = (Inr r, (d', ts, tc)) \<and>
      entries (q_key topic) d' = entries (q_key topic) d @ [(i, queue_entry ts 3600 b (ctx_of c acl))])"
  using backend.post_queue_ttl [OF assms(1-4,7)] backend.post_queue_plain [OF assms(1-3,5,4,6)] by blast

theorem post_queue_ttl_refused_witness:
  "client_post_queue (device_net mem_redis ref_ext (\<lambda>_. None :: unit option) (\<lambda>_. [()])) ref_ext ref_client
      ''t'' (PInt 1) (Some 5) (ref_known, 100, 110) = (Inl (PyExn ''Stra2usError''), (ref_known, 100, 110))"
proof -
  have q: "quote_path ''t'' = ''t''" by (simp add: quote_path_plain plain_key_def unreserved_eval)
  have "e_hmac ref_ext [char_of (10::nat)] (''/q/'' @ ''t'' @ unary (PInt 1) @ dec_int 110)
      \<noteq> e_hmac ref_ext [char_of (10::nat)] (queue_uri ''t'' (Some 5) @ unary (PInt 1) @ dec_int 110)"
    by (simp add: ref_ext_def queue_uri_def q unary_def)
  from post_queue_ttl_refused [OF ref_backend.backend_axioms ref_client_known _ _ _ ref_client_may this,
      where ts = 100 and payload = "PInt 1" and mv = "\<lambda>_. None :: unit option" and lint = "\<lambda>_. [()]"]
  show ?thesis by (simp add: plain_key_def unreserved_eval)
qed

end
