(* ===== verification/AppClient.thy ===== *)
theory AppClient
  imports App Client
begin

text \<open>
  The client against the whole application. \<open>Client\<close> joins it to the device handlers alone
  (\<open>device_net\<close>); here the other end of the network is \<open>run_app\<close>: the routing table, the gate,
  the log, cache, performance, CORS and policy middlewares. The refinement says that for the
  key-value operations the client cannot tell the two apart, and that the stores they leave differ
  at most in the two logs.

  The locale \<open>device_web\<close> states what is used of the framework beyond \<open>path_matcher\<close>: \<open>{name:path}\<close>
  takes the rest of a path without line breaks; an error has its status; CORS answers only
  \<open>OPTIONS\<close> itself and keeps status, body and the two headers of a response it did not set.
\<close>

subsection \<open>The network\<close>

text \<open>The application at a reading of the server's clock.\<close>

definition app_at :: "'db app \<Rightarrow> int \<Rightarrow> 'db app" where
  "app_at A ts = A\<lparr>ap_server := (ap_server A)\<lparr>sv_now := ts\<rparr>\<rparr>"

text \<open>An exception that reaches the server is a plain 500.\<close>

definition app_net :: "'db app \<Rightarrow> 'db world net" where
  "app_net A =
     \<lparr>n_now = (\<lambda>(d, ts, tc). tc),
      n_send = (\<lambda>http_method uri body headers (d, ts, tc).
        (case run_app (app_at A ts) (asgi_request http_method uri body headers) d of
           (r, d') \<Rightarrow> (Some (http_response r), (d', ts, tc))))\<rparr>"

lemma app_at_simps [simp]:
  "ap_cfg (app_at A ts) = ap_cfg A" "ap_web (app_at A ts) = ap_web A"
  "ap_catalog_model (app_at A ts) = ap_catalog_model A" "ap_catalog_lint (app_at A ts) = ap_catalog_lint A"
  "sv_redis (ap_server (app_at A ts)) = sv_redis (ap_server A)" "sv_ext (ap_server (app_at A ts)) = sv_ext (ap_server A)"
  "sv_now (ap_server (app_at A ts)) = ts"
  by (simp_all add: app_at_def)

subsection \<open>What is used of the framework\<close>

definition RESPONSE_HEADERS :: "string list" where
  "RESPONSE_HEADERS = [''X-Response-Timestamp'', ''X-Response-Signature'']"

locale device_web = path_matcher "w_match W" for W :: web +
  assumes rest_match: "NL \<notin> set v \<Longrightarrow> w_match W [Lit l, Rest x] (l @ v) = Some [(x, v)]"
    and error_status: "rs_status (w_error W n m) = n"
    and preflight_options: "rq_method req \<noteq> ''OPTIONS'' \<Longrightarrow> w_preflight W origins req = None"
    and cors_status: "rs_status (w_cors W origins req r) = rs_status r"
    and cors_body: "rs_body (w_cors W origins req r) = rs_body r"
    and cors_headers: "h \<in> set RESPONSE_HEADERS \<Longrightarrow>
      header_get (rs_headers (w_cors W origins req r)) h = header_get (rs_headers r) h"

interpretation ref_stack: device_web ref_web
  by unfold_locales (auto simp: ref_web_def dest: simple.match_fits)

subsection \<open>Errors are not successes\<close>

definition decent :: "'a res \<Rightarrow> bool" where
  "decent r \<longleftrightarrow> (case r of Inl (HTTPException n m) \<Rightarrow> 400 \<le> n | _ \<Rightarrow> True)"

lemma decent_simps [simp]:
  "decent (Inr x)" "decent (Inl (PyExn e))" "decent (Inl (HTTPException n m)) \<longleftrightarrow> 400 \<le> n"
  by (simp_all add: decent_def)

lemma decent_Inl: "decent (Inl e) \<longleftrightarrow> (case e of HTTPException n m \<Rightarrow> 400 \<le> n | _ \<Rightarrow> True)"
  by (simp add: decent_def)

lemma decent_bind: "decent m \<Longrightarrow> (\<And>v. m = Inr v \<Longrightarrow> decent (f v)) \<Longrightarrow> decent (bind_res m f)"
  by (cases m) (auto simp: decent_def bind_res_def)

lemma decent_lift: "decent m \<Longrightarrow> (\<And>v. m = Inr v \<Longrightarrow> decent (fst (f v))) \<Longrightarrow> decent (fst (lift_res m d f))"
  by (cases m) (auto simp: decent_def)

lemma decent_plain: "(\<And>n m. r \<noteq> Inl (HTTPException n m)) \<Longrightarrow> decent r"
  by (auto simp: decent_def split: sum.splits exn.splits)

lemma decent_dget [simp]: "decent (dget_or v k dflt)"
  by (cases v) (simp_all add: dget_or_def)

lemma decent_iter [simp]: "decent (py_iter v)"
  by (cases v) (simp_all add: py_iter_def)

lemma decent_match [simp]: "decent (any_match pre ps)"
  by (induction pre ps rule: any_match.induct) (auto simp: prefix_matches_def intro!: decent_bind split: pyval.splits)

lemma decent_perms [simp]: "decent (check_perms cs mode ps)"
  by (induction ps) (auto intro!: decent_bind)

lemma decent_acl [simp]: "decent (check_acl ctx res mode)"
  unfolding check_acl_def Let_def by (intro decent_bind) simp_all


lemma decent_http [simp]: "decent (verify_device_request R E now req c t s d)"
  unfolding verify_device_request_def
  by (auto intro!: decent_bind decent_plain
      simp: decode_utf8_def verify_signature_def sign_payload_def calculate_signature_def from_hex_res_def compare_digest_def
        loads_res_def bind_res_def split: option.splits sum.splits if_splits)

lemma decent_prepare [simp]: "decent (prepare_body E req)"
  by (simp add: prepare_body_def Let_def split: option.split)

lemma decent_validate [simp]: "decent (validate_catalog_yaml_upload E mv lint b)"
  by (simp add: validate_catalog_yaml_upload_def split: option.split pyval.split)

lemma decent_hex [simp]: "decent (from_hex_res s)" "decent (to_bytes4 n)"
  by (simp_all add: from_hex_res_def to_bytes4_def split: option.split)

lemma decent_loop: "decent (ks_loop E secret nb len counter out)"
  by (induction E secret nb len counter out rule: ks_loop.induct) (subst ks_loop.simps, simp)

lemma decent_xor [simp]: "decent (kvenc_xor E s n b)"
  unfolding kvenc_xor_def kvenc_keystream_def by (intro decent_bind decent_loop) simp_all

lemma decent_pack [simp]: "decent (packb_res E v)" "decent (sign_payload E sk u b n)"
  by (auto simp: packb_res_def sign_payload_def calculate_signature_def intro!: decent_bind split: option.split)

lemma decent_signed [simp]:
  "decent (signed_response E ts ctx req b n)" "decent (signed_msgpack E ts ctx req v)"
  "decent (signed_encrypted_response E ctx req s m)"
  by (auto intro!: decent_bind simp: signed_response_def signed_msgpack_def signed_encrypted_response_def)

lemma decent_nonce [simp]: "decent (fst (next_kvenc_nonce R now c d))"
  by (simp add: next_kvenc_nonce_def kvenc_nonce_lua_def Let_def split: option.split)

lemma decent_change [simp]:
  "decent (fst (write_kv R E mv lint now key req ctx d))" "decent (fst (delete_kv R E now key req ctx d))"
  by (auto intro!: decent_lift simp: write_kv_def delete_kv_def Let_def)

lemma decent_read [simp]: "decent (fst (snd (read_kv R E now key req ctx d)))"
proof (cases "check_acl ctx (''kv/'' @ key) ReadMode")
  case (Inl e)
  then have "decent (Inl e :: unit res)" by (metis decent_acl)
  with Inl show ?thesis by (simp add: read_kv_def decent_def)
next
  case (Inr u)
  have "decent (fst (case next_kvenc_nonce R now (ctx_client_id ctx) d of
      (Inl e, d1) \<Rightarrow> (Inl e, d1) | (Inr nonce, d1) \<Rightarrow> (signed_encrypted_response E ctx req v nonce, d1)))" for v
  proof (cases "next_kvenc_nonce R now (ctx_client_id ctx) d")
    case (Pair n d1)
    with decent_nonce [of R now "ctx_client_id ctx" d] show ?thesis by (cases n) (simp_all add: decent_Inl)
  qed
  with Inr show ?thesis
    by (auto intro!: decent_lift simp: read_kv_def split: option.split pyval.split)
qed


subsection \<open>The route of a value\<close>

lemma find_route_skip:
  assumes "\<forall>r \<in> set rs. m (fst (snd r)) path = None"
  shows "find_route m http_method path p (rs @ rs') = find_route m http_method path p rs'"
  using assms by (induction rs) auto

text \<open>The rows before those of the values begin with another text.\<close>

definition rows_before :: "route list" where
  "rows_before = [(Some ''POST'', [Lit REPORT_PATH], CspReport)] @ admin_routes ''/api/admin'' @ take 2 device_routes"

definition not_kv :: "template \<Rightarrow> bool" where
  "not_kv t = (case t of Lit l # _ \<Rightarrow> \<not> prefix l ''/kv/'' \<and> \<not> prefix ''/kv/'' l | _ \<Rightarrow> False)"

lemma rows_before: "list_all (\<lambda>(ms, t, e). not_kv t) rows_before"
  by code_simp

lemma main_routes_split: "\<exists>rest. main_routes = rows_before @
    [(Some ''POST'', [Lit ''/kv/'', Rest ''key''], WriteKv),
     (Some ''GET'', [Lit ''/kv/'', Rest ''key''], ReadKv),
     (Some ''DELETE'', [Lit ''/kv/'', Rest ''key''], DeleteKv)] @ rest"
  by (simp add: main_routes_def rows_before_def device_routes_def)

lemma not_kv_fits: "not_kv t \<Longrightarrow> \<not> fits t (''/kv/'' @ key) bs"
proof -
  assume "not_kv t"
  then obtain l t' where t: "t = Lit l # t'" "\<not> prefix l ''/kv/''" "\<not> prefix ''/kv/'' l"
    by (auto simp: not_kv_def split: list.splits piece.splits)
  have "\<not> prefix l (''/kv/'' @ key)"
    using t(2,3) by (metis prefix_same_cases prefixI)
  with t(1) show ?thesis by simp
qed

definition kv_endpoints :: "(string \<times> endpoint) list" where
  "kv_endpoints = [(''POST'', WriteKv), (''GET'', ReadKv), (''DELETE'', DeleteKv)]"

context device_web
begin

lemma kv_route:
  assumes W: "ap_web A = W" and path: "rq_path req = ''/kv/'' @ key" "NL \<notin> set key"
    and e: "(rq_method req, e) \<in> set kv_endpoints"
  shows "route_request A req = Found e [(''key'', key)]"
proof -
  obtain rest where rest: "main_routes = rows_before @
    [(Some ''POST'', [Lit ''/kv/'', Rest ''key''], WriteKv),
     (Some ''GET'', [Lit ''/kv/'', Rest ''key''], ReadKv),
     (Some ''DELETE'', [Lit ''/kv/'', Rest ''key''], DeleteKv)] @ rest"
    using main_routes_split by blast
  have "\<forall>r \<in> set rows_before. w_match W (fst (snd r)) (''/kv/'' @ key) = None"
  proof
    fix r assume "r \<in> set rows_before"
    with rows_before have "not_kv (fst (snd r))" by (auto simp: list_all_iff)
    with not_kv_fits match_fits [of "fst (snd r)" "''/kv/'' @ key"] show "w_match W (fst (snd r)) (''/kv/'' @ key) = None"
      by (cases "w_match W (fst (snd r)) (''/kv/'' @ key)") blast+
  qed
  note skip = find_route_skip [where m = "w_match W" and path = "''/kv/'' @ key" and rs = rows_before, OF this]
  from e consider "rq_method req = ''POST''" "e = WriteKv" | "rq_method req = ''GET''" "e = ReadKv"
    | "rq_method req = ''DELETE''" "e = DeleteKv"
    by (auto simp: kv_endpoints_def)
  then show ?thesis
    unfolding route_request_def W path(1) rest skip
    using rest_match [OF path(2), of "''/kv/''" "''key''"] by cases simp_all
qed

end

subsection \<open>A device request through the whole stack\<close>

text \<open>What the client reads of an answer.\<close>

definition same_reply :: "response \<Rightarrow> response \<Rightarrow> bool" where
  "same_reply r r' \<longleftrightarrow> rs_status r' = rs_status r \<and>
     (status_ok r \<longrightarrow> rs_body r' = rs_body r \<and>
       (\<forall>h \<in> set RESPONSE_HEADERS. header_get (rs_headers r') h = header_get (rs_headers r) h))"

lemma same_reply_trans: "same_reply x y \<Longrightarrow> same_reply y z \<Longrightarrow> same_reply x z"
  by (simp add: same_reply_def status_ok_def)

lemma header_get_set_header:
  "lower n \<noteq> lower m \<Longrightarrow> header_get (set_header n v hs) m = header_get hs m"
proof (induction hs)
  case (Cons p hs)
  have "map_of (map (\<lambda>(k, v). (lower k, v)) (filter (\<lambda>(k, _). lower k \<noteq> lower n) xs)) (lower m) =
      map_of (map (\<lambda>(k, v). (lower k, v)) xs) (lower m)" for xs :: "(string \<times> string) list"
    using Cons.prems by (induction xs) auto
  with Cons show ?case by (cases p) (auto simp: header_get_def)
qed (simp add: header_get_def)

lemma same_reply_add_header:
  assumes "lower n \<notin> lower ` set RESPONSE_HEADERS"
  shows "same_reply r (add_header n v r)"
  using assms header_get_set_header unfolding same_reply_def add_header_def by fastforce

lemma same_reply_csp: "same_reply r (csp_dispatch main_csp req r)"
proof -
  have "lower ''Reporting-Endpoints'' \<notin> lower ` set RESPONSE_HEADERS"
    "lower ''Content-Security-Policy'' \<notin> lower ` set RESPONSE_HEADERS"
    by code_simp+
  then show ?thesis
    unfolding csp_dispatch_def by (intro same_reply_trans [OF same_reply_add_header same_reply_add_header])
      (simp_all add: csp_header_name_def main_csp_def)
qed


text \<open>The middlewares around the gate, for a path of the devices' values.\<close>

lemma kv_path: "path_needs_admin_auth (''/kv/'' @ key) = False"
  by (simp add: path_needs_admin_auth_def)

lemma no_cookies [simp]: "with_cookie_headers W [] [] r = r"
  by (simp add: with_cookie_headers_def)

lemma ungated:
  assumes "\<not> path_needs_admin_auth (rq_path req)" and "dispatch A req None d = (hit, r, d1)"
  shows "authenticated A req d = (hit, r, d1)"
  using assms
  by (cases r) (simp_all add: authenticated_def admin_auth_middleware_def admin_auth_decide_def bind_res_def)

context redis_store
begin

lemma logged_reply:
  assumes "sv_redis (ap_server A) = R" and "authenticated A req d = (hit, r, d1)"
  obtains d2 where "logged A req d = (r, d2)" "\<And>k. k \<noteq> ACTIVITY_LOG \<Longrightarrow> kept k d1 d2"
proof (cases "prefix ''/q/'' (rq_path req) \<or> prefix ''/kv/'' (rq_path req)")
  case True
  obtain d2 i where x: "r_xadd R ACTIVITY_LOG None (activity_entry (sv_now (ap_server A)) req hit r) d1 = Inr d2"
    using xadd_auto [OF activity_entry_nonempty] by blast
  show thesis
  proof (rule that [of d2])
    show "logged A req d = (r, d2)"
      using True assms(2) x unfolding logged_def activity_log_middleware_def assms(1) by auto
  qed (rule kept_xadd [OF x])
qed (use assms that in \<open>auto simp: logged_def activity_log_middleware_def\<close>)

lemma timed_reply:
  assumes "sv_redis (ap_server A) = R" and "PERF_LOG_RETENTION_SEC \<le> sv_now (ap_server A)"
    and "cache_controlled A req d = (r, d1)"
  obtains d2 where "timed A req d = (r, d2)" "\<And>k. k \<noteq> PERF_LOG_STREAM \<Longrightarrow> kept k d1 d2"
proof
  show "timed A req d = (r, snd (timed A req d))"
    using assms(3) by (simp add: timed_def perf_log_middleware_def case_prod_beta Let_def prod_eq_iff)
  show "kept k d1 (snd (timed A req d))" if "k \<noteq> PERF_LOG_STREAM" for k
    using perf_log_store [where cn = "cache_controlled A req" and d = d, OF that assms(2)] assms(3)
    unfolding timed_def assms(1) by simp
qed

lemma stack_reply:
  assumes A: "sv_redis (ap_server A) = R" and ret: "PERF_LOG_RETENTION_SEC \<le> sv_now (ap_server A)"
    and path: "rq_path req = ''/kv/'' @ key" and pre: "w_preflight (ap_web A) (cors_allowed_origins (ap_cfg A)) req = None"
    and auth: "authenticated A req d = (hit, r, d1)"
  shows "\<exists>d2. (\<forall>k. k \<notin> {ACTIVITY_LOG, PERF_LOG_STREAM} \<longrightarrow> kept k d1 d2) \<and> run_app A req d =
      (bind_res r (\<lambda>x. Inr (csp_dispatch main_csp req (w_cors (ap_web A) (cors_allowed_origins (ap_cfg A)) req x))), d2)"
proof -
  obtain d2 where d2: "logged A req d = (r, d2)" "\<And>k. k \<noteq> ACTIVITY_LOG \<Longrightarrow> kept k d1 d2"
    using logged_reply [OF A auth] by metis
  have "cache_controlled A req d = (r, d2)"
    by (cases r) (simp_all add: cache_controlled_def d2(1) admin_cache_control_def path bind_res_def)
  from timed_reply [OF A ret this] obtain d3
    where d3: "timed A req d = (r, d3)" "\<And>k. k \<noteq> PERF_LOG_STREAM \<Longrightarrow> kept k d2 d3" by metis
  have "run_app A req d =
      (bind_res r (\<lambda>x. Inr (csp_dispatch main_csp req (w_cors (ap_web A) (cors_allowed_origins (ap_cfg A)) req x))), d3)"
    by (cases r) (simp_all add: run_app_def cors_def d3(1) pre bind_res_def)
  moreover have "kept k d1 d3" if "k \<notin> {ACTIVITY_LOG, PERF_LOG_STREAM}" for k
    using that by (intro kept_trans [OF d2(2) d3(2)]) simp_all
  ultimately show ?thesis by blast
qed

end

text \<open>The endpoint does what the device network does.\<close>

lemma kv_endpoint:
  assumes path: "rq_path req = ''/kv/'' @ key" and e: "(rq_method req, e) \<in> set kv_endpoints"
    and hs: "rq_headers req ''x-client-id'' = Some cid" "rq_headers req ''x-timestamp'' = Some t"
      "rq_headers req ''x-signature'' = Some s"
    and serve: "serve_device (sv_redis (ap_server A)) (sv_ext (ap_server A)) (ap_catalog_model A) (ap_catalog_lint A)
      (sv_now (ap_server A)) req d = (r, d1)"
  obtains hit res where "call_endpoint A e [(''key'', key)] req None d = Some (hit, res, d1)"
    "r = http_response res" "decent res"
proof -
  let ?R = "sv_redis (ap_server A)" and ?E = "sv_ext (ap_server A)" and ?now = "sv_now (ap_server A)"
  have dc: "device_context A req d = verify_device_request ?R ?E ?now req cid t s d"
    by (simp add: device_context_def hs)
  have key: "param [(''key'', key)] ''key'' = key" by (simp add: param_def)
  show thesis
  proof (cases "verify_device_request ?R ?E ?now req cid t s d")
    case (Inl x)
    then have "decent (Inl x :: client_ctx res)" by (metis decent_http)
    moreover have "e \<in> {WriteKv, ReadKv, DeleteKv}" using e by (auto simp: kv_endpoints_def)
    ultimately show thesis using Inl serve
      by (intro that [of None "Inl x"]) (auto simp: call_endpoint_def Let_def for_device_def device_context_def serve_device_def hs decent_Inl)
  next
    case (Inr ctx)
    then have route: "device_route ?R ?E (ap_catalog_model A) (ap_catalog_lint A) ?now req ctx d =
        (fst (device_route ?R ?E (ap_catalog_model A) (ap_catalog_lint A) ?now req ctx d), d1)"
      and r: "r = http_response (fst (device_route ?R ?E (ap_catalog_model A) (ap_catalog_lint A) ?now req ctx d))"
      using serve by (auto simp: serve_device_def hs split: prod.splits)
    from e consider "rq_method req = ''POST''" "e = WriteKv" | "rq_method req = ''GET''" "e = ReadKv"
      | "rq_method req = ''DELETE''" "e = DeleteKv"
      by (auto simp: kv_endpoints_def)
    then show thesis
    proof cases
      case 1
      with route r show thesis
        by (intro that [of None "fst (write_kv ?R ?E (ap_catalog_model A) (ap_catalog_lint A) ?now key req ctx d)"])
          (simp_all add: call_endpoint_def Let_def for_device_def dc Inr key device_route_def path)
    next
      case 2
      with route r show thesis
        by (intro that [of "fst (read_kv ?R ?E ?now key req ctx d)" "fst (snd (read_kv ?R ?E ?now key req ctx d))"])
          (simp_all add: call_endpoint_def Let_def for_device_def dc Inr key device_route_def path prod_eq_iff)
    next
      case 3
      with route r show thesis
        by (intro that [of None "fst (delete_kv ?R ?E ?now key req ctx d)"])
          (simp_all add: call_endpoint_def Let_def for_device_def dc Inr key device_route_def path)
    qed
  qed
qed


lemma app_serves:
  fixes A :: "'db app"
  assumes rs: "redis_store (sv_redis (ap_server A)) entries" and web: "device_web (ap_web A)"
    and ret: "PERF_LOG_RETENTION_SEC \<le> sv_now (ap_server A)"
    and path: "rq_path req = ''/kv/'' @ key" "NL \<notin> set key" and e: "(rq_method req, e) \<in> set kv_endpoints"
    and hs: "rq_headers req ''x-client-id'' = Some cid" "rq_headers req ''x-timestamp'' = Some t"
      "rq_headers req ''x-signature'' = Some s"
    and serve: "serve_device (sv_redis (ap_server A)) (sv_ext (ap_server A)) (ap_catalog_model A) (ap_catalog_lint A)
      (sv_now (ap_server A)) req d = (r, d1)"
  shows "same_reply r (http_response (fst (run_app A req d))) \<and>
    (\<forall>k. k \<notin> {ACTIVITY_LOG, PERF_LOG_STREAM} \<longrightarrow>
      redis_store.kept (sv_redis (ap_server A)) entries k d1 (snd (run_app A req d)))"
proof -
  let ?W = "ap_web A" and ?origins = "cors_allowed_origins (ap_cfg A)"
  obtain hit res where call: "call_endpoint A e [(''key'', key)] req None d = Some (hit, res, d1)"
    "r = http_response res" "decent res"
    using kv_endpoint [OF path(1) e hs serve] by blast
  have "dispatch A req None d = (hit, settle ?W res, d1)"
    using device_web.kv_route [OF web refl path e] call(1) by (simp add: dispatch_def user_name_def)
  then have auth: "authenticated A req d = (hit, settle ?W res, d1)"
    by (intro ungated) (simp_all only: path kv_path not_False_eq_True)
  have pre: "w_preflight ?W ?origins req = None"
    using e by (intro device_web.preflight_options [OF web]) (auto simp: kv_endpoints_def)
  obtain d2 where d2: "\<forall>k. k \<notin> {ACTIVITY_LOG, PERF_LOG_STREAM} \<longrightarrow> redis_store.kept (sv_redis (ap_server A)) entries k d1 d2"
    and run: "run_app A req d =
      (bind_res (settle ?W res) (\<lambda>x. Inr (csp_dispatch main_csp req (w_cors ?W ?origins req x))), d2)"
    using redis_store.stack_reply [OF rs refl ret path(1) pre auth] by blast
  have out: "same_reply x (csp_dispatch main_csp req (w_cors ?W ?origins req x))" for x
    by (rule same_reply_trans [OF _ same_reply_csp])
      (simp add: same_reply_def device_web.cors_status [OF web] device_web.cors_body [OF web] device_web.cors_headers [OF web])
  have "same_reply r (http_response (fst (run_app A req d)))"
  proof (cases res)
    case (Inr x)
    with out [of x] show ?thesis by (simp add: run call(2) settle_def http_response_def)
  next
    case (Inl x)
    show ?thesis
    proof (cases x)
      case (HTTPException n m)
      with out [of "w_error ?W n m"] call(3) Inl show ?thesis
        by (simp add: run call(2) settle_def http_response_def same_reply_def error_response_def status_ok_def
            device_web.error_status [OF web])
    next
      case (PyExn m)
      with Inl show ?thesis by (simp add: run call(2) settle_def http_response_def bind_res_def same_reply_def)
    qed
  qed
  with d2 show ?thesis by (simp add: run)
qed


subsection \<open>The client cannot tell the two networks apart\<close>

text \<open>The network of \<open>Client\<close> whose other end are the device handlers of the application.\<close>

definition handlers_net :: "'db app \<Rightarrow> 'db world net" where
  "handlers_net A =
     device_net (sv_redis (ap_server A)) (sv_ext (ap_server A)) (ap_catalog_model A) (ap_catalog_lint A)"

definition same_result :: "response res \<Rightarrow> response res \<Rightarrow> bool" where
  "same_result x y \<longleftrightarrow>
     (case (x, y) of (Inl e, Inl e') \<Rightarrow> e = e' | (Inr r, Inr r') \<Rightarrow> same_reply r r' | _ \<Rightarrow> False)"

lemma same_result_simps [simp]:
  "same_result (Inr r) y \<longleftrightarrow> (\<exists>r'. y = Inr r' \<and> same_reply r r')"
  "same_result (Inl e) y \<longleftrightarrow> y = Inl e"
  by (cases y; auto simp: same_result_def)+

lemma same_reply_status: "same_reply r r' \<Longrightarrow> rs_status r' = rs_status r"
  by (simp add: same_reply_def)

lemma same_reply_ok: "same_reply r r' \<Longrightarrow> status_ok r' \<longleftrightarrow> status_ok r"
  by (simp add: same_reply_def status_ok_def)

lemma same_reply_verify:
  assumes "same_reply r r'" and "status_ok r"
  shows "verify_resp E c now uri (rs_body r') (rs_headers r') = verify_resp E c now uri (rs_body r) (rs_headers r)"
    and "decode_get E c r' = decode_get E c r"
proof -
  have h: "rs_body r' = rs_body r" "header_get (rs_headers r') ''X-Response-Timestamp'' = header_get (rs_headers r) ''X-Response-Timestamp''"
    "header_get (rs_headers r') ''X-Response-Signature'' = header_get (rs_headers r) ''X-Response-Signature''"
    using assms by (simp_all add: same_reply_def RESPONSE_HEADERS_def)
  show "verify_resp E c now uri (rs_body r') (rs_headers r') = verify_resp E c now uri (rs_body r) (rs_headers r)"
    "decode_get E c r' = decode_get E c r"
    unfolding verify_resp_def decode_get_def h by (rule refl)+
qed

text \<open>Two worlds agree on the clocks and on all records but the two logs.\<close>

definition agree :: "'db redis \<Rightarrow> (string \<Rightarrow> 'db \<Rightarrow> (stream_id \<times> fields) list) \<Rightarrow> 'db world \<Rightarrow> 'db world \<Rightarrow> bool" where
  "agree R entries w w' \<longleftrightarrow> snd w' = snd w \<and>
     (\<forall>k. k \<notin> {ACTIVITY_LOG, PERF_LOG_STREAM} \<longrightarrow>
        r_get R k (fst w') = r_get R k (fst w) \<and> entries k (fst w') = entries k (fst w))"

lemma agree_refl [simp]: "agree R entries w w"
  by (simp add: agree_def)

lemma client_request_sent:
  assumes "client_sign E c uri body (n_now N w) = Inr sig"
    and "n_send N m uri body (request_headers c (n_now N w) sig ct ex) w = (Some r, w1)"
  shows "client_request N E c m uri body ct ex w =
    (if status_ok r then bind_res (verify_resp E c (n_now N w1) uri (rs_body r) (rs_headers r)) (\<lambda>_. Inr r) else Inr r, w1)"
  using assms unfolding client_request_def request_headers_def lift_res_def Let_def by simp

lemma net_simps [simp]:
  "n_now (handlers_net A) (d, ts, tc) = tc" "n_now (app_net A) (d, ts, tc) = tc"
  by (simp_all add: handlers_net_def device_net_def app_net_def)

lemma request_refines:
  fixes A :: "'db app"
  assumes rs: "redis_store (sv_redis (ap_server A)) entries" and web: "device_web (ap_web A)"
    and ret: "PERF_LOG_RETENTION_SEC \<le> ts" and key: "NL \<notin> set key" and e: "(m, e) \<in> set kv_endpoints"
    and dev: "client_request (handlers_net A) E c m (kv_uri key) body ct ex (d, ts, tc) = (x, w)"
    and app: "client_request (app_net A) E c m (kv_uri key) body ct ex (d, ts, tc) = (x', w')"
  shows "same_result x x' \<and> agree (sv_redis (ap_server A)) entries w w'"
proof (cases "client_sign E c (kv_uri key) body tc")
  case (Inl err)
  with dev app show ?thesis by (auto simp: client_request_def lift_res_def Let_def)
next
  case (Inr sig)
  define req where "req = asgi_request m (kv_uri key) body (request_headers c tc sig ct ex)"
  have path: "rq_path req = ''/kv/'' @ key" by (simp add: req_def asgi_path)
  have e': "(rq_method req, e) \<in> set kv_endpoints" using e by (simp add: req_def)
  have hs: "rq_headers req ''x-client-id'' = Some (cl_client_id c)" "rq_headers req ''x-timestamp'' = Some (dec_int tc)"
    "rq_headers req ''x-signature'' = Some sig"
    by (simp_all add: req_def)
  obtain r d1 where serve: "serve_device (sv_redis (ap_server A)) (sv_ext (ap_server A)) (ap_catalog_model A)
      (ap_catalog_lint A) ts req d = (r, d1)" by fastforce
  obtain y d2 where run: "run_app (app_at A ts) req d = (y, d2)" by fastforce
  have "same_reply r (http_response y)"
    and kept: "\<forall>k. k \<notin> {ACTIVITY_LOG, PERF_LOG_STREAM} \<longrightarrow> redis_store.kept (sv_redis (ap_server A)) entries k d1 d2"
    using app_serves [of "app_at A ts" entries req key e, unfolded app_at_simps, OF rs web ret path key e' hs serve]
    by (simp_all add: run)
  moreover have "(x, w) = (if status_ok r
        then bind_res (verify_resp E c tc (kv_uri key) (rs_body r) (rs_headers r)) (\<lambda>_. Inr r) else Inr r, (d1, ts, tc))"
    using client_request_sent [of E c "kv_uri key" body "handlers_net A" "(d, ts, tc)" sig m ct ex r "(d1, ts, tc)"] dev Inr serve
    by (simp add: req_def) (simp add: handlers_net_def device_net_def)
  moreover have "(x', w') = (if status_ok (http_response y)
        then bind_res (verify_resp E c tc (kv_uri key) (rs_body (http_response y)) (rs_headers (http_response y)))
          (\<lambda>_. Inr (http_response y)) else Inr (http_response y), (d2, ts, tc))"
    using client_request_sent [of E c "kv_uri key" body "app_net A" "(d, ts, tc)" sig m ct ex "http_response y" "(d2, ts, tc)"]
      app Inr run
    by (simp add: req_def) (simp add: app_net_def)
  moreover have "agree (sv_redis (ap_server A)) entries (d1, ts, tc) (d2, ts, tc)"
    using kept by (simp add: agree_def redis_store.kept_def [OF rs])
  ultimately show ?thesis
    by (cases "verify_resp E c tc (kv_uri key) (rs_body r) (rs_headers r)")
      (auto simp: same_reply_ok same_reply_verify bind_res_def)
qed

lemma get_refines:
  fixes A :: "'db app"
  assumes "redis_store (sv_redis (ap_server A)) entries" and "device_web (ap_web A)"
    and "PERF_LOG_RETENTION_SEC \<le> ts" and "NL \<notin> set key"
    and "client_get (handlers_net A) E c key (d, ts, tc) = (x, w)"
  shows "\<exists>w'. client_get (app_net A) E c key (d, ts, tc) = (x, w') \<and> agree (sv_redis (ap_server A)) entries w w'"
proof -
  obtain y v where dev: "client_request (handlers_net A) E c ''GET'' (kv_uri key) [] None [] (d, ts, tc) = (y, v)" by (metis surj_pair)
  obtain y' v' where app: "client_request (app_net A) E c ''GET'' (kv_uri key) [] None [] (d, ts, tc) = (y', v')" by (metis surj_pair)
  have "(''GET'', ReadKv) \<in> set kv_endpoints" by (simp add: kv_endpoints_def)
  from request_refines [OF assms(1-4) this dev app] have y: "same_result y y'" and v: "agree (sv_redis (ap_server A)) entries v v'"
    by blast+
  have "w = v" using assms(5) dev by (cases y) (auto simp: client_get_def)
  moreover have "client_get (app_net A) E c key (d, ts, tc) = (x, v')"
    using assms(5) dev app y
    by (cases y) (auto simp: client_get_def same_reply_ok same_reply_verify same_reply_status)
  ultimately show ?thesis using v by blast
qed

lemma put_refines:
  fixes A :: "'db app"
  assumes "redis_store (sv_redis (ap_server A)) entries" and "device_web (ap_web A)"
    and "PERF_LOG_RETENTION_SEC \<le> ts" and "NL \<notin> set key"
    and "client_put (handlers_net A) E c key value enc (d, ts, tc) = (x, w)"
  shows "\<exists>x' w'. client_put (app_net A) E c key value enc (d, ts, tc) = (x', w') \<and> same_result x x' \<and>
    agree (sv_redis (ap_server A)) entries w w'"
proof (cases "packb_res E value")
  case (Inl err)
  with assms(5) show ?thesis by (auto simp: client_put_def lift_res_def)
next
  case (Inr body)
  let ?hs = "if enc then [(''X-Encrypted'', ''1'')] else []" and ?ct = "Some ''application/x-msgpack''"
  obtain y v where dev: "client_request (handlers_net A) E c ''POST'' (kv_uri key) body ?ct ?hs (d, ts, tc) = (y, v)" by (metis surj_pair)
  obtain y' v' where app: "client_request (app_net A) E c ''POST'' (kv_uri key) body ?ct ?hs (d, ts, tc) = (y', v')" by (metis surj_pair)
  have "(''POST'', WriteKv) \<in> set kv_endpoints" by (simp add: kv_endpoints_def)
  from request_refines [OF assms(1-4) this dev app] have y: "same_result y y'" and v: "agree (sv_redis (ap_server A)) entries v v'"
    by blast+
  have "w = v" using assms(5) dev Inr by (cases y) (auto simp: client_put_def lift_res_def)
  moreover have "\<exists>x'. client_put (app_net A) E c key value enc (d, ts, tc) = (x', v') \<and> same_result x x'"
    using assms(5) dev app y Inr by (cases y) (auto simp: client_put_def lift_res_def same_reply_ok)
  ultimately show ?thesis using v by blast
qed

lemma delete_refines:
  fixes A :: "'db app"
  assumes "redis_store (sv_redis (ap_server A)) entries" and "device_web (ap_web A)"
    and "PERF_LOG_RETENTION_SEC \<le> ts" and "NL \<notin> set key"
    and "client_delete (handlers_net A) E c key (d, ts, tc) = (x, w)"
  shows "\<exists>w'. client_delete (app_net A) E c key (d, ts, tc) = (x, w') \<and> agree (sv_redis (ap_server A)) entries w w'"
proof -
  obtain y v where dev: "client_request (handlers_net A) E c ''DELETE'' (kv_uri key) [] None [] (d, ts, tc) = (y, v)" by (metis surj_pair)
  obtain y' v' where app: "client_request (app_net A) E c ''DELETE'' (kv_uri key) [] None [] (d, ts, tc) = (y', v')" by (metis surj_pair)
  have "(''DELETE'', DeleteKv) \<in> set kv_endpoints" by (simp add: kv_endpoints_def)
  from request_refines [OF assms(1-4) this dev app] have y: "same_result y y'" and v: "agree (sv_redis (ap_server A)) entries v v'"
    by blast+
  have "w = v" using assms(5) dev by (cases y) (auto simp: client_delete_def)
  moreover have "client_delete (app_net A) E c key (d, ts, tc) = (x, v')"
    using assms(5) dev app y by (cases y) (auto simp: client_delete_def same_reply_ok)
  ultimately show ?thesis using v by blast
qed


subsection \<open>Round trip through the whole application\<close>

lemma log_key_neq [simp]:
  "kv_key k \<noteq> ACTIVITY_LOG" "enc_key k \<noteq> ACTIVITY_LOG" "nonce_key k \<noteq> ACTIVITY_LOG"
  "client_secret_key k \<noteq> ACTIVITY_LOG" "client_acl_key k \<noteq> ACTIVITY_LOG"
  "kv_key k \<noteq> PERF_LOG_STREAM" "enc_key k \<noteq> PERF_LOG_STREAM" "nonce_key k \<noteq> PERF_LOG_STREAM"
  "client_secret_key k \<noteq> PERF_LOG_STREAM" "client_acl_key k \<noteq> PERF_LOG_STREAM"
  by (simp_all add: ACTIVITY_LOG_def PERF_LOG_STREAM_def kv_key_def enc_key_def nonce_key_def client_secret_key_def
      client_acl_key_def)

lemma plain_key_line: "plain_key key \<Longrightarrow> NL \<notin> set key"
proof -
  have "\<not> (unreserved NL \<or> NL = CHR ''/'')" by code_simp
  then show "plain_key key \<Longrightarrow> NL \<notin> set key" by (auto simp: plain_key_def)
qed

lemma agree_get:
  assumes "agree R entries (d, t) (d', t')" and "k \<notin> {ACTIVITY_LOG, PERF_LOG_STREAM}"
  shows "r_get R k d' = r_get R k d"
  using assms by (simp add: agree_def)

lemma agree_world: "agree R entries (d, t) w \<Longrightarrow> \<exists>d'. w = (d', t)"
  by (cases w) (simp add: agree_def)

lemma agree_known:
  assumes "client_known R E c secret acl d" and "agree R entries (d, t) (d', t')"
  shows "client_known R E c secret acl d'"
  using assms by (simp add: client_known_def agree_get)

text \<open>One read of a value the store holds, by either network.\<close>

context backend
begin

lemma get_stored:
  assumes known: "client_known R E c secret acl d" and key: "plain_key key" and drift: "\<bar>ts - tc\<bar> \<le> 300"
    and may: "check_acl (ctx_of c acl) (''kv/'' @ key) ReadMode = Inr ()"
    and val: "r_get R (kv_key key) d = Some b" "r_get R (enc_key key) d = (if enc then Some ''1'' else None)"
    and v: "e_packb E v = Some b" "mp_ok v" "transparent v" "enc \<Longrightarrow> \<exists>s. v = PStr s \<and> length s \<le> 8160"
    and nonce: "enc \<Longrightarrow> fst (next_kvenc_nonce R ts (cl_client_id c) d) = Inr n \<and> 0 \<le> n \<and> n < 2 ^ 32 \<and> \<bar>tc - n\<bar> \<le> 300"
  shows "\<exists>d'. client_get (device_net R E mv lint) E c key (d, ts, tc) = (Inr v, (d', ts, tc)) \<and>
    (\<forall>k. k \<noteq> nonce_key (cl_client_id c) \<longrightarrow> r_get R k d' = r_get R k d)"
proof (cases enc)
  case True
  with v obtain s where s: "v = PStr s" "length s \<le> 8160" "utf8_valid s" by auto
  from nonce [OF True] obtain d' where d': "next_kvenc_nonce R ts (cl_client_id c) d = (Inr n, d')"
    by (metis prod.collapse)
  have "client_get (device_net R E mv lint) E c key (d, ts, tc) = (Inr (PStr s), (d', ts, tc))"
    using get_encrypted [OF known key drift may val(1) _ _ s(3,2) d'] True val v(1) s(1) nonce by auto
  with next_nonce_frame [OF d'] s(1) show ?thesis by blast
next
  case False
  have "client_get (device_net R E mv lint) E c key (d, ts, tc) = (Inr v, (d, ts, tc))"
    using get_plain [OF known key drift may val(1) _ unpackb_packb [OF v(1)] v(3)] val(2) False by simp
  then show ?thesis by blast
qed

end

text \<open>
  C4. What the client puts through the application any later \<open>get\<close> through the application
  returns. The other end of the network is the whole of \<open>main.py\<close>: routing table, gate, logs,
  CORS and policy headers. For a client whose credentials the server holds and whose access list
  lets it write the key, a \<open>put\<close> of any value msgpack can carry is accepted, and a later \<open>get\<close>,
  with both clocks anywhere within the allowed drift of each other, verifies the signed response
  and returns the same value; so it does for a text put with \<open>encrypted=True\<close>, whose bytes travel
  back only as a cipher text, when the nonce the server hands out is within the drift too. Apart
  from the value, its flag, the counter of the client and the two logs no record has changed. The
  key is of URL-safe characters, is not a catalog, and the value is not one of the two shapes the
  client gives another meaning.
\<close>

theorem app_put_get:
  fixes A :: "'db app"
  assumes "backend (sv_redis (ap_server A)) entries (sv_ext (ap_server A))" and "device_web (ap_web A)"
    and "client_known (sv_redis (ap_server A)) (sv_ext (ap_server A)) c secret acl d"
    and "plain_key key" and "\<not> is_catalog_yaml_key key"
    and "check_acl (ctx_of c acl) (''kv/'' @ key) WriteMode = Inr ()"
    and "mp_ok v" and "transparent v"
    and "\<bar>ts - tc\<bar> \<le> 300" and "\<bar>ts2 - tc2\<bar> \<le> 300"
    and "PERF_LOG_RETENTION_SEC \<le> ts" and "PERF_LOG_RETENTION_SEC \<le> ts2"
    and "enc \<Longrightarrow> \<exists>s. v = PStr s \<and> length s \<le> 8160"
    and "enc \<Longrightarrow> fst (next_kvenc_nonce (sv_redis (ap_server A)) ts2 (cl_client_id c) d) = Inr n \<and> 0 \<le> n \<and> n < 2 ^ 32 \<and> \<bar>tc2 - n\<bar> \<le> 300"
  shows "\<exists>r d1 d2.
    client_put (app_net A) (sv_ext (ap_server A)) c key v enc (d, ts, tc) = (Inr r, (d1, ts, tc)) \<and>
    client_get (app_net A) (sv_ext (ap_server A)) c key (d1, ts2, tc2) = (Inr v, (d2, ts2, tc2)) \<and>
    (\<forall>k. k \<notin> {kv_key key, enc_key key, nonce_key (cl_client_id c), ACTIVITY_LOG, PERF_LOG_STREAM} \<longrightarrow>
      r_get (sv_redis (ap_server A)) k d2 = r_get (sv_redis (ap_server A)) k d)"
proof -
  define R E where RE: "R = sv_redis (ap_server A)" "E = sv_ext (ap_server A)"
  note be = assms(1) [folded RE]
  note rs = backend.axioms(1) [OF be]
  have nl: "NL \<notin> set key" using plain_key_line [OF assms(4)] .
  obtain b where b: "e_packb E v = Some b"
    using codec.packb_ok [OF backend.axioms(2) [OF be] assms(7)] by blast
  let ?d1 = "set_enc_flag R key enc (r_set R (kv_key key) b d)"
  obtain r where "client_put (handlers_net A) E c key v enc (d, ts, tc) = (Inr r, (?d1, ts, tc))"
    using backend.put_served [OF be assms(3) [folded RE] assms(9,4,5,6) b] unfolding handlers_net_def RE by blast
  from put_refines [OF rs [unfolded RE] assms(2,11) nl this] obtain r' w
    where "client_put (app_net A) E c key v enc (d, ts, tc) = (Inr r', w)"
      and "agree R entries (?d1, ts, tc) w"
    unfolding RE same_result_simps by blast
  with agree_world obtain d1
    where put: "client_put (app_net A) E c key v enc (d, ts, tc) = (Inr r', (d1, ts, tc))"
      and ag: "agree R entries (?d1, ts, tc) (d1, ts, tc)"
    by metis
  note g = agree_get [OF ag] backend.get_set_enc_flag [OF be] redis_store.get_set [OF rs]
  have known: "client_known R E c secret acl d1"
    using agree_known [OF backend.client_known_put [OF be assms(3) [folded RE]] ag] .
  have nonce: "fst (next_kvenc_nonce R ts2 (cl_client_id c) d1) = Inr n \<and> 0 \<le> n \<and> n < 2 ^ 32 \<and> \<bar>tc2 - n\<bar> \<le> 300" if enc
    using backend.next_nonce_cong [OF be, of "cl_client_id c" d1 d ts2 n] assms(14) [OF that, folded RE] by (auto simp: g)
  obtain d2 where got: "client_get (handlers_net A) E c key (d1, ts2, tc2) = (Inr v, (d2, ts2, tc2))"
    and fr: "\<And>k. k \<noteq> nonce_key (cl_client_id c) \<Longrightarrow> r_get R k d2 = r_get R k d1"
    using backend.get_stored [OF be known assms(4,10) check_acl_write_read [OF assms(6)] _ _ b assms(7,8,13) nonce,
        where mv = "ap_catalog_model A" and lint = "ap_catalog_lint A"]
    unfolding handlers_net_def RE [symmetric] by (auto simp: g)
  from get_refines [OF rs [unfolded RE] assms(2,12) nl got] obtain d3
    where get: "client_get (app_net A) E c key (d1, ts2, tc2) = (Inr v, (d3, ts2, tc2))"
      and ag2: "agree R entries (d2, ts2, tc2) (d3, ts2, tc2)"
    unfolding RE using agree_world by metis
  show ?thesis
    using put get unfolding RE [symmetric]
    by (intro exI [of _ r'] exI [of _ d1] exI [of _ d3]) (simp add: agree_get [OF ag2] fr g)
qed

text \<open>The concrete application knows one client.\<close>

theorem app_put_get_witness:
  "\<exists>r d1 d2. client_put (app_net ref_app) ref_ext ref_client ''app/k'' (PStr ''on'') True (ref_known, 100000, 100010) =
      (Inr r, (d1, 100000, 100010)) \<and>
    client_get (app_net ref_app) ref_ext ref_client ''app/k'' (d1, 100500, 100490) = (Inr (PStr ''on''), (d2, 100500, 100490))"
proof -
  have n: "fst (next_kvenc_nonce mem_redis 100500 (cl_client_id ref_client) ref_known) = Inr 100500"
    by (simp add: ref_client_def ref_known_def next_kvenc_nonce_def kvenc_nonce_lua_def mem_store.get_set
        nonce_key_def client_acl_key_def client_secret_key_def)
  have "backend (sv_redis (ap_server ref_app)) mem_entries (sv_ext (ap_server ref_app))"
    by (simp add: ref_backend.backend_axioms)
  moreover have "device_web (ap_web ref_app)" by (simp add: ref_app_def ref_stack.device_web_axioms)
  moreover have "client_known (sv_redis (ap_server ref_app)) (sv_ext (ap_server ref_app)) ref_client [char_of (10::nat)] ref_acl ref_known"
    by (simp add: ref_client_known)
  moreover have "plain_key ''app/k''" "\<not> is_catalog_yaml_key ''app/k''"
    by (simp_all add: plain_key_def unreserved_eval is_catalog_yaml_key_def)
  ultimately show ?thesis
    using app_put_get [of ref_app mem_entries ref_client "[char_of (10::nat)]" ref_acl ref_known "''app/k''" "PStr ''on''"
        100000 100010 100500 100490 True 100500] n ref_client_may
    by (simp add: transparent_def char_eval PERF_LOG_RETENTION_SEC_def) blast
qed

end
