(* ===== verification/DeviceTrace.thy ===== *)
theory DeviceTrace
  imports DeviceProps
begin

text \<open>
  The device API as a transition system over the store: a step is one whole call of a handler,
  by any client, with any arguments and any clock reading. Its label is the nonce that the call
  handed out: the client and the number in the header of an encrypted response. The invariant is
  that the stored counter of a client is at least every nonce the client was given.
\<close>

subsection \<open>Steps and runs\<close>

definition nonce_event :: "'db redis \<Rightarrow> string \<Rightarrow> client_ctx \<Rightarrow> 'db \<Rightarrow> response res \<Rightarrow> (string \<times> int) list" where
  "nonce_event R key ctx d res =
     (case res of
        Inl _ \<Rightarrow> []
      | Inr r \<Rightarrow>
         if get_truthy R (enc_key key) d \<noteq> None \<and> r_get R (kv_key key) d \<noteq> None
         then (case Option.bind (map_of (rs_headers r) ''X-Response-Timestamp'') py_int of
                 None \<Rightarrow> [] | Some n \<Rightarrow> [(ctx_client_id ctx, n)])
         else [])"

inductive api_step ::
    "'db redis \<Rightarrow> ext \<Rightarrow> (pyval \<Rightarrow> 'cat option) \<Rightarrow> ('cat \<Rightarrow> 'issue list)
      \<Rightarrow> 'db \<Rightarrow> (string \<times> int) list \<Rightarrow> 'db \<Rightarrow> bool"
  for R E mv lint where
  step_write: "write_kv R E mv lint now key req ctx d = (res, d') \<Longrightarrow> api_step R E mv lint d [] d'"
| step_delete: "delete_kv R E now key req ctx d = (res, d') \<Longrightarrow> api_step R E mv lint d [] d'"
| step_read: "read_kv R E now key req ctx d = (hit, res, d') \<Longrightarrow>
    api_step R E mv lint d (nonce_event R key ctx d res) d'"
| step_publish: "publish_message R E now topic req ttl ctx d = (res, d') \<Longrightarrow> api_step R E mv lint d [] d'"
| step_consume: "consume_message R E now topic req envelope ctx d = Some (res, d') \<Longrightarrow>
    api_step R E mv lint d [] d'"

inductive api_run ::
    "'db redis \<Rightarrow> ext \<Rightarrow> (pyval \<Rightarrow> 'cat option) \<Rightarrow> ('cat \<Rightarrow> 'issue list)
      \<Rightarrow> 'db \<Rightarrow> (string \<times> int) list \<Rightarrow> 'db \<Rightarrow> bool"
  for R E mv lint where
  run_nil: "api_run R E mv lint d [] d"
| run_step: "api_run R E mv lint d evs d' \<Longrightarrow> api_step R E mv lint d' ev d'' \<Longrightarrow>
    api_run R E mv lint d (evs @ ev) d''"

inductive_cases api_stepE: "api_step R E mv lint d ev d'"

definition nonces_of :: "string \<Rightarrow> (string \<times> int) list \<Rightarrow> int list" where
  "nonces_of cid evs = map snd (filter (\<lambda>e. fst e = cid) evs)"

lemma nonces_of_simps [simp]:
  "nonces_of cid [] = []"
  "nonces_of cid (xs @ ys) = nonces_of cid xs @ nonces_of cid ys"
  "nonces_of cid [(c, n)] = (if c = cid then [n] else [])"
  by (simp_all add: nonces_of_def)

subsection \<open>What a call does to the counters\<close>

definition nonce_counter :: "'db redis \<Rightarrow> string \<Rightarrow> 'db \<Rightarrow> int option" where
  "nonce_counter R cid d = py_int (case r_get R (nonce_key cid) d of None \<Rightarrow> ''0'' | Some v \<Rightarrow> v)"

lemma consume_loop_frame_gen:
  assumes "consume_loop R E now topic req envelope ctx li d = Some r"
  shows "(\<forall>k' v d. k \<noteq> k' \<longrightarrow> r_get R k (r_set R k' v d) = r_get R k d) \<longrightarrow>
    k \<noteq> cursor_key (ctx_client_id ctx) topic \<longrightarrow> r_get R k (snd r) = r_get R k d"
  using assms
proof (rule consume_loop.raw_induct [where P =
      "\<lambda>R E now topic req envelope ctx li d r.
        (\<forall>k' v d. k \<noteq> k' \<longrightarrow> r_get R k (r_set R k' v d) = r_get R k d) \<longrightarrow>
        k \<noteq> cursor_key (ctx_client_id ctx) topic \<longrightarrow> r_get R k (snd r) = r_get R k d", rotated], goal_cases)
  case (1 loop R E now topic req envelope ctx li d r)
  from 1(2) show ?case
    by (auto split: if_splits sum.splits option.splits simp: Let_def dest!: 1(1))
qed

context backend
begin

lemma consume_frame:
  assumes "consume_message R E now topic req envelope ctx d = Some (res, d')"
    and "k \<noteq> cursor_key (ctx_client_id ctx) topic"
  shows "r_get R k d' = r_get R k d"
proof -
  from assms(1) have "d' = d \<or> (\<exists>li. consume_loop R E now topic req envelope ctx li d = Some (res, d'))"
    by (auto simp: consume_message_def split: sum.splits)
  with assms(2) show ?thesis
    using consume_loop_frame_gen [of R E now topic req envelope ctx _ d "(res, d')" k] by auto
qed

lemma publish_frame:
  assumes "publish_message R E now topic req ttl ctx d = (res, d')" and "k \<noteq> q_key topic"
  shows "r_get R k d' = r_get R k d"
  using assms by (auto simp: publish_message_def lift_res_cases Let_def get_expire get_xadd)

lemma read_nonce_event:
  assumes "read_kv R E now key req ctx d = (hit, res, d')"
  obtains (same) "d' = d" "nonce_event R key ctx d res = []"
  | (alloc) n where "next_kvenc_nonce R now (ctx_client_id ctx) d = (Inr n, d')"
      "nonce_event R key ctx d res = [] \<or> nonce_event R key ctx d res = [(ctx_client_id ctx, n)]"
proof (cases "get_truthy R (enc_key key) d \<noteq> None \<and> r_get R (kv_key key) d \<noteq> None \<and>
    check_acl ctx (''kv/'' @ key) ReadMode = Inr ()")
  case False
  with assms have "d' = d"
    by (auto simp: read_kv_def split: sum.splits option.splits)
  moreover from False assms have "nonce_event R key ctx d res = []"
    by (auto simp: nonce_event_def read_kv_def split: sum.splits option.splits)
  ultimately show thesis by (rule same)
next
  case True
  then obtain val where v: "r_get R (kv_key key) d = Some val" by auto
  show thesis
  proof (cases "next_kvenc_nonce R now (ctx_client_id ctx) d")
    case (Pair m d1)
    show thesis
    proof (cases "d' = d \<and> (\<exists>e. res = Inl e)")
      case True
      then show thesis by (auto intro!: same simp: nonce_event_def)
    next
      case False
      with True v assms Pair obtain n pt where "m = Inr n" "d' = d1"
        and res: "res = signed_encrypted_response E ctx req pt n"
        by (auto simp: read_kv_def lift_res_cases kvenc_nonce_lua_def next_kvenc_nonce_def Let_def
            split: sum.splits option.splits pyval.splits)
      then show thesis using Pair
        by (intro alloc [of n])
          (auto simp: nonce_event_def signed_encrypted_response_def bind_res_Inr_iff split: sum.splits)
    qed
  qed
qed

text \<open>
  A step either leaves the counter of a client and hands it nothing, or moves the counter up to
  a number it may have handed out.
\<close>

lemma step_nonces:
  assumes "api_step R E mv lint d ev d'"
  shows "(nonces_of cid ev = [] \<and> nonce_counter R cid d' = nonce_counter R cid d) \<or>
    (\<exists>m n. nonce_counter R cid d = Some m \<and> m < n \<and> nonce_counter R cid d' = Some n \<and>
      (nonces_of cid ev = [] \<or> nonces_of cid ev = [n]))"
  using assms
proof (cases rule: api_step.cases)
  case (step_read now key req ctx hit res)
  from step_read(2) show ?thesis
  proof (cases rule: read_nonce_event)
    case same
    with step_read(1) show ?thesis by simp
  next
    case (alloc n)
    from alloc(1) obtain m where m: "nonce_counter R (ctx_client_id ctx) d = Some m" "n = max now (m + 1)"
      "d' = r_set R (nonce_key (ctx_client_id ctx)) (dec_int n) d"
      by (auto simp: nonce_counter_def elim: next_kvenc_nonce_Inr)
    show ?thesis
    proof (cases "cid = ctx_client_id ctx")
      case True
      with m alloc(2) step_read(1) show ?thesis by (auto simp: nonce_counter_def)
    next
      case False
      with m alloc(2) step_read(1) show ?thesis by (auto simp: nonce_counter_def)
    qed
  qed
qed (auto simp: nonce_counter_def dest: write_kv_frame [where k = "nonce_key cid"]
    delete_kv_frame [where k = "nonce_key cid"] publish_frame [where k = "nonce_key cid"]
    consume_frame [where k = "nonce_key cid"])

lemma run_nonces:
  assumes "api_run R E mv lint d evs d'"
  shows "sorted_wrt (<) (nonces_of cid evs) \<and>
    (\<forall>n \<in> set (nonces_of cid evs). \<exists>m. nonce_counter R cid d' = Some m \<and> n \<le> m)"
  using assms
proof (induction rule: api_run.induct)
  case (run_nil d)
  then show ?case by simp
next
  case (run_step d evs d' ev d'')
  from step_nonces [OF run_step.hyps(2), of cid] show ?case
  proof (elim disjE exE conjE)
    fix m n
    assume mn: "nonce_counter R cid d' = Some m" "m < n" "nonce_counter R cid d'' = Some n"
    with run_step.IH have "\<forall>k \<in> set (nonces_of cid evs). k < n" by fastforce
    then show ?thesis if "nonces_of cid ev = []"
      using that mn run_step.IH by fastforce
    show ?thesis if "nonces_of cid ev = [n]"
      using that mn run_step.IH \<open>\<forall>k \<in> set (nonces_of cid evs). k < n\<close>
      by (auto simp: sorted_wrt_append intro: less_imp_le)
  qed (use run_step.IH in simp)
qed

end

text \<open>
  No nonce is handed out twice: in any run of the device API, whatever calls by whatever
  clients are interleaved and whatever the clock does, the nonces of the encrypted responses to
  one client strictly increase. Distinct nonces have distinct four-byte encodings, so no two
  encrypted responses to a client share the input of a keystream block.
\<close>

lemma nonces_increase:
  assumes "backend R entries E" and "api_run R E mv lint d evs d'"
  shows "sorted_wrt (<) (nonces_of cid evs) \<and>
    (\<forall>i j b. i < j \<and> j < length (nonces_of cid evs) \<longrightarrow>
      \<not> (to_bytes4 (nonces_of cid evs ! i) = Inr b \<and> to_bytes4 (nonces_of cid evs ! j) = Inr b))"
proof -
  have s: "sorted_wrt (<) (nonces_of cid evs)"
    using backend.run_nonces [OF assms] by blast
  then have "nonces_of cid evs ! i \<noteq> nonces_of cid evs ! j" if "i < j" "j < length (nonces_of cid evs)" for i j
    using sorted_wrt_nth_less [OF s that] by simp
  with s show ?thesis by (blast dest: to_bytes4_inj)
qed

lemma ref_read:
  assumes "r_get mem_redis (kv_key ''app/k'') d = Some (unary (PStr ''on''))"
    and "r_get mem_redis (enc_key ''app/k'') d = Some ''1''"
    and "nonce_counter mem_redis ''dev'' d = Some m" and "0 \<le> m" and "m < 300"
  obtains d' res where "r_get mem_redis (kv_key ''app/k'') d' = Some (unary (PStr ''on''))"
    "r_get mem_redis (enc_key ''app/k'') d' = Some ''1''"
    "nonce_counter mem_redis ''dev'' d' = Some (max 200 (m + 1))"
    "api_step mem_redis ref_ext mv lint d [(''dev'', max 200 (m + 1))] d'"
proof -
  let ?n = "max 200 (m + 1)" and ?req = "ref_req Map.empty []"
  let ?d = "r_set mem_redis (nonce_key ''dev'') (dec_int ?n) d"
  have n: "next_kvenc_nonce mem_redis 200 (ctx_client_id ref_ctx) d = (Inr ?n, ?d)"
  proof -
    have "?n = (if 200 \<le> m then m + 1 else 200)" by simp
    with assms(3) show ?thesis
      by (simp only: nonce_counter_def next_kvenc_nonce_def kvenc_nonce_lua_def Let_def) simp
  qed
  have raw: "e_unpackb_raw ref_ext (unary (PStr ''on'')) = Some (PBytes ''on'')"
    by (simp add: ref_ext_def raw_of_def)
  have read: "read_kv mem_redis ref_ext 200 ''app/k'' ?req ref_ctx d =
      (Some True, signed_encrypted_response ref_ext ref_ctx ?req ''on'' ?n, ?d)"
    by (rule ref_backend.read_kv_encrypted) (use assms raw n in simp_all)
  have "0 \<le> ?n" using assms(4) by linarith
  then obtain r where r: "signed_encrypted_response ref_ext ref_ctx ?req ''on'' ?n = Inr r"
    "map_of (rs_headers r) ''X-Response-Timestamp'' = Some (dec_int ?n)"
    using ref_backend.signed_encrypted_ok [of ref_ctx "[char_of (10::nat)]" ?n "''on''" ?req] assms(4,5)
    by (auto simp: ref_secret simp del: from_hex.simps)
  have "nonce_event mem_redis ''app/k'' ref_ctx d (Inr r) = [(''dev'', ?n)]"
    using assms r by (simp add: nonce_event_def get_truthy_def)
  with step_read [OF read, of mv lint] r(1) have "api_step mem_redis ref_ext mv lint d [(''dev'', ?n)] ?d" by simp
  with assms show thesis
    by (intro that [of ?d]) (simp_all add: nonce_counter_def mem_store.get_set)
qed

end
