(* ===== verification/AppTrace.thy ===== *)
theory AppTrace
  imports AppClient DeviceTrace
begin

text \<open>
  What a request may change through the whole application, and what any history of requests can
  do to the credentials. \<open>may_change\<close> says when a request is entitled to change the record at a
  key: by the user the gate establishes, by the device its signature establishes, and by their
  access lists in the store the request meets. A history is a list of requests, each with the
  application as it is configured at that moment (clock, random bytes, settings).
\<close>

subsection \<open>Who makes a request, and what it may change\<close>

definition request_user :: "'db app \<Rightarrow> request \<Rightarrow> string option" where
  "request_user A req =
     user_name (sv_ext (ap_server A))
       (case admin_auth_decide (ap_cfg A) (sv_ext (ap_server A)) (sv_now (ap_server A)) req of
          Inr (Forward u _) \<Rightarrow> Some u | _ \<Rightarrow> None)"

definition by_superuser :: "'db app \<Rightarrow> request \<Rightarrow> 'db \<Rightarrow> bool" where
  "by_superuser A req d \<longleftrightarrow>
     is_ok (require_admin_superuser (sv_redis (ap_server A)) (sv_ext (ap_server A)) (sv_rescue (ap_server A))
       (request_user A req) d)"

text \<open>A form writes below the device that the access list names; the cursor and the counter are the device's own.\<close>

definition form_writable :: "client_ctx \<Rightarrow> string \<Rightarrow> bool" where
  "form_writable ctx k \<longleftrightarrow>
     (\<exists>app device name. check_acl ctx (''kv/'' @ app @ ''/'' @ device) WriteMode = Inr () \<and> field_ok name \<and>
        k \<in> {kv_key (field_key app device name), enc_key (field_key app device name)})"

definition device_writable :: "client_ctx \<Rightarrow> string \<Rightarrow> bool" where
  "device_writable ctx k \<longleftrightarrow>
     writable ctx k \<or>
     (\<exists>key. check_acl ctx (''kv/'' @ key) ReadMode = Inr () \<and> k = nonce_key (ctx_client_id ctx)) \<or>
     (\<exists>topic. check_acl ctx (''q/'' @ topic) ReadMode = Inr () \<and> k = cursor_key (ctx_client_id ctx) topic)"

definition may_change :: "'db app \<Rightarrow> request \<Rightarrow> 'db \<Rightarrow> string \<Rightarrow> bool" where
  "may_change A req d k \<longleftrightarrow>
     by_superuser A req d \<or>
     (\<exists>ctx. get_admin_context (sv_redis (ap_server A)) (sv_ext (ap_server A)) (sv_rescue (ap_server A))
          (request_user A req) d = Inr ctx \<and> (writable ctx k \<or> form_writable ctx k)) \<or>
     (\<exists>ctx. device_context A req d = Inr ctx \<and> device_writable ctx k) \<or>
     (\<exists>user name. request_user A req = Some user \<and> k = device_to_app_key name)"

subsection \<open>What the handlers of the devices change\<close>

lemma consume_loop_kept:
  assumes "consume_loop R E now topic req envelope ctx li d = Some r"
  shows "(\<forall>k' v d. k \<noteq> k' \<longrightarrow> redis_store.kept R en k d (r_set R k' v d)) \<longrightarrow> redis_store R en \<longrightarrow>
    k \<noteq> cursor_key (ctx_client_id ctx) topic \<longrightarrow> redis_store.kept R en k d (snd r)"
  using assms
proof (rule consume_loop.raw_induct [where P =
      "\<lambda>R E now topic req envelope ctx li d r.
        (\<forall>k' v d. k \<noteq> k' \<longrightarrow> redis_store.kept R en k d (r_set R k' v d)) \<longrightarrow> redis_store R en \<longrightarrow>
        k \<noteq> cursor_key (ctx_client_id ctx) topic \<longrightarrow> redis_store.kept R en k d (snd r)", rotated], goal_cases)
  case (1 loop R E now topic req envelope ctx li d r)
  from 1(2) show ?case
    by (auto split: if_splits sum.splits option.splits simp: Let_def redis_store.kept_refl
        intro: redis_store.kept_trans dest!: 1(1))
qed

context redis_store
begin

lemma kept_set: "k \<noteq> k' \<Longrightarrow> kept k d (r_set R k' v d)"
  by (simp add: kept_def get_set entries_set)

lemma kept_del: "k \<noteq> k' \<Longrightarrow> kept k d (r_del R k' d)"
  by (simp add: kept_def get_del entries_del)

lemma kept_expire: "kept k d (r_expire R k' secs d)"
  by (simp add: kept_def get_expire entries_expire)

lemma kept_enc_flag: "k \<noteq> enc_key key \<Longrightarrow> kept k d (set_enc_flag R key b d)"
  by (simp add: kept_def enc_flag_frame)

lemma kept_value: "k \<noteq> kv_key key \<Longrightarrow> k \<noteq> enc_key key \<Longrightarrow> kept k d (set_enc_flag R key b (r_set R (kv_key key) v d))"
  by (rule kept_trans [OF kept_set kept_enc_flag])

lemma publish_changes:
  assumes "publish_message R E now topic req ttl ctx d = (res, d')" and "\<not> kept k d d'"
  shows "check_acl ctx (''q/'' @ topic) WriteMode = Inr () \<and> k = q_key topic"
  using assms
  by (auto simp: publish_message_def lift_res_cases Let_def
      dest: kept_trans [OF kept_xadd kept_expire])

lemma consume_changes:
  assumes "consume_message R E now topic req envelope ctx d = Some (res, d')" and "\<not> kept k d d'"
  shows "check_acl ctx (''q/'' @ topic) ReadMode = Inr () \<and> k = cursor_key (ctx_client_id ctx) topic"
proof -
  from assms(1) have "d' = d \<or> check_acl ctx (''q/'' @ topic) ReadMode = Inr () \<and>
      (\<exists>li. consume_loop R E now topic req envelope ctx li d = Some (res, d'))"
    by (auto simp: consume_message_def split: sum.splits)
  with assms(2) show ?thesis
    using consume_loop_kept [of R E now topic req envelope ctx _ d "(res, d')" k entries] redis_store_axioms kept_set
    by auto
qed

lemma write_kv_changes:
  assumes "write_kv R E mv lint now key req ctx d = (res, d')" and "\<not> kept k d d'"
  shows "check_acl ctx (''kv/'' @ key) WriteMode = Inr () \<and> k \<in> {kv_key key, enc_key key}"
proof -
  from assms(1) have "d' = d \<or> check_acl ctx (''kv/'' @ key) WriteMode = Inr () \<and>
      (\<exists>b v. d' = set_enc_flag R key b (r_set R (kv_key key) v d))"
    by (auto simp: write_kv_def lift_res_cases Let_def)
  then show ?thesis using assms(2) kept_value [of k key d] kept_refl [of k d] by (cases "k = kv_key key \<or> k = enc_key key") auto
qed

lemma delete_kv_changes:
  assumes "delete_kv R E now key req ctx d = (res, d')" and "\<not> kept k d d'"
  shows "check_acl ctx (''kv/'' @ key) WriteMode = Inr () \<and> k \<in> {kv_key key, enc_key key}"
  using assms kept_trans [OF kept_del kept_del] by (auto simp: delete_kv_def lift_res_cases)

lemma read_kv_changes:
  assumes "read_kv R E now key req ctx d = (hit, res, d')" and "\<not> kept k d d'"
  shows "check_acl ctx (''kv/'' @ key) ReadMode = Inr () \<and> k = nonce_key (ctx_client_id ctx)"
proof -
  have ne: "d' \<noteq> d" using assms(2) by auto
  then have "check_acl ctx (''kv/'' @ key) ReadMode = Inr ()"
    using assms(1) by (auto simp: read_kv_def split: sum.splits)
  moreover have "d' = d \<or> (\<exists>v. d' = r_set R (nonce_key (ctx_client_id ctx)) v d)"
    using assms(1)
    by (auto simp: read_kv_def lift_res_cases next_kvenc_nonce_def kvenc_nonce_lua_def Let_def
        split: sum.splits option.splits if_splits prod.splits pyval.splits)
  with assms(2) ne have "k = nonce_key (ctx_client_id ctx)" using kept_set by blast
  ultimately show ?thesis by blast
qed

text \<open>A device, or no device: what the five device endpoints change.\<close>

lemma for_device_changes:
  assumes "for_device A req d f = Some (h, r, d')" and "\<not> kept k d d'"
  obtains ctx where "device_context A req d = Inr ctx" "f ctx = Some (h, r, d')"
  using assms by (auto simp: for_device_def split: sum.splits)

lemma device_changes:
  assumes A: "sv_redis (ap_server A) = R" and e: "e \<in> {PublishMessage, ConsumeMessage, WriteKv, ReadKv, DeleteKv}"
    and call: "call_endpoint A e bs req u d = Some (h, r, d')" and ch: "\<not> kept k d d'"
  shows "\<exists>ctx. device_context A req d = Inr ctx \<and> device_writable ctx k"
proof -
  note ch' = for_device_changes [OF _ ch, of A req]
  from e consider "e = PublishMessage" | "e = ConsumeMessage" | "e = WriteKv" | "e = ReadKv" | "e = DeleteKv" by blast
  then show ?thesis
  proof cases
    case 1
    with call obtain ctx ttl x where "device_context A req d = Inr ctx"
      "publish_message R (sv_ext (ap_server A)) (sv_now (ap_server A)) (param bs ''topic'') req ttl ctx d = (x, d')"
      using ch by (auto simp: call_endpoint_def Let_def A elim!: ch' split: sum.splits)
    with publish_changes [OF _ ch] show ?thesis unfolding device_writable_def writable_def by blast
  next
    case 2
    with call obtain ctx envelope x where "device_context A req d = Inr ctx"
      "consume_message R (sv_ext (ap_server A)) (sv_now (ap_server A)) (param bs ''topic'') req envelope ctx d = Some (x, d')"
      using ch by (auto simp: call_endpoint_def Let_def A elim!: ch' split: sum.splits)
    with consume_changes [OF _ ch] show ?thesis unfolding device_writable_def by blast
  next
    case 3
    with call obtain ctx x where "device_context A req d = Inr ctx"
      "write_kv R (sv_ext (ap_server A)) (ap_catalog_model A) (ap_catalog_lint A) (sv_now (ap_server A)) (param bs ''key'') req ctx d = (x, d')"
      by (auto simp: call_endpoint_def Let_def A elim!: ch')
    with write_kv_changes [OF _ ch] show ?thesis unfolding device_writable_def writable_def by blast
  next
    case 4
    with call obtain ctx y x where "device_context A req d = Inr ctx"
      "read_kv R (sv_ext (ap_server A)) (sv_now (ap_server A)) (param bs ''key'') req ctx d = (y, x, d')"
      by (auto simp: call_endpoint_def Let_def A elim!: ch')
    with read_kv_changes [OF _ ch] show ?thesis unfolding device_writable_def by blast
  next
    case 5
    with call obtain ctx x where "device_context A req d = Inr ctx"
      "delete_kv R (sv_ext (ap_server A)) (sv_now (ap_server A)) (param bs ''key'') req ctx d = (x, d')"
      by (auto simp: call_endpoint_def Let_def A elim!: ch')
    with delete_kv_changes [OF _ ch] show ?thesis unfolding device_writable_def writable_def by blast
  qed
qed

subsection \<open>What the other endpoints change\<close>

lemma write_field_changes:
  assumes "write_field R E app device vars name raw d = (r, d')" and "\<not> kept k d d'"
  shows "field_ok name \<and> k \<in> {kv_key (field_key app device name), enc_key (field_key app device name)}"
proof -
  let ?key = "field_key app device name"
  have ok: "field_ok name"
    using assms write_field_skip [of name R E app device vars raw d] by (cases "field_ok name") auto
  have "d' = d \<or> (\<exists>b v. d' = set_enc_flag R ?key b (r_set R (kv_key ?key) v d)) \<or> (\<exists>v. d' = r_set R (kv_key ?key) v d)"
  proof (cases "e_packb E (decode_form_value E raw)")
    case None
    with assms(1) show ?thesis by (simp add: write_field_def packb_res_def lift_res_def split: if_splits)
  next
    case (Some v)
    let ?var = "case vars of PDict vs \<Rightarrow> dval vs name | _ \<Rightarrow> PNone"
    have e: "set_enc_flag R ?key True d = r_set R (enc_key ?key) ''1'' d" "set_enc_flag R ?key False d = r_del R (enc_key ?key) d" for d
      by (simp_all add: set_enc_flag_def)
    from assms(1) ok Some have "d' = (case ?var of
        PDict var \<Rightarrow> set_enc_flag R ?key (truthy (dval var ''encrypted'')) (r_set R (kv_key ?key) v d)
      | _ \<Rightarrow> if get_truthy R (enc_key ?key) (r_set R (kv_key ?key) v d) \<noteq> None
             then set_enc_flag R ?key True (r_set R (kv_key ?key) v d) else r_set R (kv_key ?key) v d)"
      by (cases ?var) (auto simp: write_field_def field_ok_def field_key_def packb_res_def lift_res_def Let_def set_enc_flag_def split: if_splits)
    then show ?thesis by (cases ?var) (auto split: if_splits)
  qed
  then show ?thesis
    using ok assms(2) kept_value [of k ?key d] kept_refl [of k d] kept_set [of k "kv_key ?key" d]
    by (cases "k = kv_key ?key \<or> k = enc_key ?key") auto
qed

lemma write_fields_changes:
  assumes "write_fields R E app device vars form d = (r, d')" and "\<not> kept k d d'"
  shows "\<exists>name. field_ok name \<and> k \<in> {kv_key (field_key app device name), enc_key (field_key app device name)}"
  using assms
proof (induction form arbitrary: d)
  case (Cons p form)
  obtain name raw where p: "p = (name, raw)" by fastforce
  obtain r1 d1 where w: "write_field R E app device vars name raw d = (r1, d1)" by fastforce
  show ?case
  proof (cases "kept k d d1")
    case True
    with Cons.prems(2) have "\<not> kept k d1 d'" by (blast intro: kept_trans)
    with Cons.prems w p True Cons.IH [of d1] show ?thesis by (auto split: sum.splits)
  next
    case False
    with write_field_changes [OF w] show ?thesis by blast
  qed
qed simp

lemma form_changes:
  assumes "submit_device_form R E rescue u app device form d = (r, d')" and "\<not> kept k d d'"
  shows "\<exists>ctx. get_admin_context R E rescue u d = Inr ctx \<and> form_writable ctx k"
proof (rule submit_cases [OF assms(1)])
  fix ctx w
  assume ctx: "require_admin_kv R E rescue WriteMode u (app @ ''/'' @ device) d = Inr ctx"
    and w: "write_fields R E app device (catalog_vars R E app d) form d = (w, d')"
  from write_fields_changes [OF w assms(2)] require_kv_Inr [OF ctx] show ?thesis
    unfolding form_writable_def by blast
qed (use assms(2) in simp)

lemma admin_changes:
  assumes A: "sv_redis (ap_server A) = R" and call: "call_endpoint A (Admin op) bs req u d = Some (h, r, d')"
    and ch: "\<not> kept k d d'"
  shows "is_ok (require_admin_superuser R (sv_ext (ap_server A)) (sv_rescue (ap_server A)) u d) \<or>
    (\<exists>ctx. get_admin_context R (sv_ext (ap_server A)) (sv_rescue (ap_server A)) u d = Inr ctx \<and> writable ctx k)"
proof -
  have ne: "d' \<noteq> d" using ch by auto
  with call obtain a x where run: "run_admin (ap_server A) op (param bs) a u d = Some (x, d')"
    by (auto simp: call_endpoint_def Let_def answered_def split: sum.splits option.splits prod.splits)
  show ?thesis
  proof (cases "op \<in> set scoped_ops")
    case True
    from scoped_changes [OF A True run] ch show ?thesis by (simp add: kept_def)
  next
    case False
    from superuser_changes [OF False run ne] show ?thesis by (auto simp: A is_ok_def)
  qed
qed

lemma lookup_changes:
  assumes A: "sv_redis (ap_server A) = R" and call: "call_endpoint A LookupDevice bs req u d = Some (h, r, d')"
    and ch: "\<not> kept k d d'"
  shows "\<exists>name. k = device_to_app_key name"
proof (rule ccontr)
  assume "\<nexists>name. k = device_to_app_key name"
  with lookup_store [of A entries bs req u d h r d' k] redis_store_axioms A call ch show False by (simp add: kept_def)
qed

text \<open>All other endpoints leave the store.\<close>

lemma call_changes:
  assumes A: "sv_redis (ap_server A) = R" and call: "call_endpoint A e bs req u d = Some (h, r, d')"
    and ch: "\<not> kept k d d'"
  obtains (admin) op where "e = Admin op"
    | (device) "e \<in> {PublishMessage, ConsumeMessage, WriteKv, ReadKv, DeleteKv}"
    | (form) "e = SubmitForm" | (lookup) "e = LookupDevice"
proof -
  have "d' \<noteq> d" using ch by auto
  with call that show thesis
    by (cases e) (auto simp: call_endpoint_def Let_def answered_def)
qed

end

subsection \<open>One request\<close>

lemma authenticated_user:
  obtains (idle) "snd (snd (authenticated A req d)) = d"
    | (run) u where "snd (snd (authenticated A req d)) = snd (snd (dispatch A req u d))"
        and "user_name (sv_ext (ap_server A)) u = request_user A req"
        and "path_needs_admin_auth (rq_path req) \<Longrightarrow> \<exists>user. request_user A req = Some user"
proof -
  let ?dec = "admin_auth_decide (ap_cfg A) (sv_ext (ap_server A)) (sv_now (ap_server A)) req"
  show thesis
  proof (cases ?dec)
    case (Inl e)
    then show ?thesis by (intro idle) (simp add: authenticated_def admin_auth_middleware_def)
  next
    case (Inr dec)
    show ?thesis
    proof (cases dec)
      case (Forward u ck)
      with Inr show ?thesis
        by (intro run [of "Some u"])
          (auto simp: authenticated_def admin_auth_middleware_def case_prod_beta request_user_def user_name_def split: option.splits sum.splits)
    next
      case PassThrough
      with Inr have "\<not> path_needs_admin_auth (rq_path req)"
        by (auto simp: admin_auth_decide_def Let_def bind_res_Inr_iff split: if_splits option.splits)
      with Inr PassThrough show ?thesis
        by (intro run [of None]) (auto simp: authenticated_def admin_auth_middleware_def case_prod_beta request_user_def)
    qed (use Inr in \<open>auto intro!: idle simp: authenticated_def admin_auth_middleware_def\<close>)
  qed
qed

lemma app_step_changes:
  fixes A :: "'db app"
  assumes "redis_store (sv_redis (ap_server A)) entries" and "path_matcher (w_match (ap_web A))"
    and "PERF_LOG_RETENTION_SEC \<le> sv_now (ap_server A)" and "k \<notin> {ACTIVITY_LOG, PERF_LOG_STREAM}"
    and "\<not> redis_store.kept (sv_redis (ap_server A)) entries k d (snd (run_app A req d))"
  shows "may_change A req d k"
proof -
  let ?kept = "redis_store.kept (sv_redis (ap_server A)) entries k d"
  have ch: "\<not> ?kept (snd (snd (authenticated A req d)))"
    using redis_store.run_app_store [OF assms(1) refl assms(3,4)] assms(5) by blast
  then have ne: "snd (snd (authenticated A req d)) \<noteq> d"
    using redis_store.kept_refl [OF assms(1)] by metis
  show ?thesis
  proof (cases rule: authenticated_user [of A req d])
    case idle
    with ne show ?thesis by simp
  next
    case (run u)
    show ?thesis
    proof (cases rule: dispatch_store [of A req u d])
      case idle
      with run(1) ne show ?thesis by simp
    next
      case (call e bs h r)
      let ?d' = "snd (snd (dispatch A req u d))"
      have c: "call_endpoint A e bs req (request_user A req) d = Some (h, r, ?d')" using call(2) run(2) by simp
      have k: "\<not> ?kept ?d'" using ch run(1) by simp
      show ?thesis
      proof (cases rule: redis_store.call_changes [OF assms(1) refl c k])
        case (1 op)
        from redis_store.admin_changes [OF assms(1) refl c [unfolded 1] k] show ?thesis
          unfolding may_change_def by_superuser_def by blast
      next
        case 2
        from redis_store.device_changes [OF assms(1) refl 2 c k] show ?thesis unfolding may_change_def by blast
      next
        case 3
        with c obtain x where "submit_device_form (sv_redis (ap_server A)) (sv_ext (ap_server A)) (sv_rescue (ap_server A))
            (request_user A req) (param bs ''app'') (param bs ''device'') (w_form (ap_web A) req) d = (x, ?d')"
          by (auto simp: call_endpoint_def Let_def answered_def split: prod.splits)
        from redis_store.form_changes [OF assms(1) this k] show ?thesis unfolding may_change_def by blast
      next
        case 4
        from redis_store.lookup_changes [OF assms(1) refl c [unfolded 4] k]
          run(3) [OF path_matcher.lookup_path [OF assms(2) refl call(1) [unfolded 4]]] show ?thesis unfolding may_change_def by blast
      qed
    qed
  qed
qed


text \<open>
  C3. No request changes anything it is not entitled to. Through every route and the whole stack
  of middlewares, when a request changes the record at a key other than the two logs, then the
  user the gate established is a superuser, or has an access list that lets it write the value,
  the queue or the device page the key belongs to; or the device that signed the request may
  write the key, or read it and the record is its own cursor or its own counter of nonces; or a
  user looked up a device and the key is the index of the look-up.
\<close>

theorem app_changes_authorised:
  fixes A :: "'db app"
  assumes "redis_store (sv_redis (ap_server A)) entries" and "path_matcher (w_match (ap_web A))"
    and "PERF_LOG_RETENTION_SEC \<le> sv_now (ap_server A)" and "k \<notin> {ACTIVITY_LOG, PERF_LOG_STREAM}"
    and "r_get (sv_redis (ap_server A)) k (snd (run_app A req d)) \<noteq> r_get (sv_redis (ap_server A)) k d \<or>
      entries k (snd (run_app A req d)) \<noteq> entries k d"
  shows "may_change A req d k"
  using assms(5) by (intro app_step_changes [OF assms(1-4)]) (auto simp: redis_store.kept_def [OF assms(1)])

text \<open>A signed write of the concrete client.\<close>

definition ref_signed_write :: request where
  "ref_signed_write =
     (let b = unary (PStr ''on'') in
      asgi_request ''POST'' ''/kv/app/k'' b
        (request_headers ref_client 100000 (to_hex (e_hmac ref_ext [char_of (10::nat)] (''/kv/app/k'' @ b @ dec_int 100000)))
          (Some ''application/x-msgpack'') (put_headers False)))"

lemma ref_signed_path: "rq_path ref_signed_write = ''/kv/'' @ ''app/k''"
proof -
  have "plain_key ''app/k''" by (simp add: plain_key_def unreserved_eval)
  then have uri: "kv_uri ''app/k'' = ''/kv/app/k''" using plain_uri(1) by simp
  show ?thesis
    using asgi_path [OF no_query_kv_uri] unquote_kv_uri [of "''app/k''"] unfolding ref_signed_write_def Let_def uri [symmetric]
    by simp
qed

lemma ref_write_changes: "r_get mem_redis (kv_key ''app/k'') (snd (run_app ref_app ref_signed_write ref_known)) \<noteq> None"
proof -
  let ?b = "unary (PStr ''on'')"
  have p: "\<not> is_catalog_yaml_key ''app/k''" by (simp add: is_catalog_yaml_key_def)
  note path = ref_signed_path
  have req: "rq_method ref_signed_write = ''POST''" "rq_body ref_signed_write = ?b"
    "rq_headers ref_signed_write ''x-client-id'' = Some (cl_client_id ref_client)"
    "rq_headers ref_signed_write ''x-timestamp'' = Some (dec_int 100000)"
    "rq_headers ref_signed_write ''x-signature'' =
      Some (to_hex (e_hmac ref_ext [char_of (10::nat)] (''/kv/app/k'' @ ?b @ dec_int 100000)))"
    "rq_headers ref_signed_write ''content-type'' = Some ''application/x-msgpack''"
    unfolding ref_signed_write_def Let_def by (simp_all del: lower_names)
  have ctx: "verify_device_request mem_redis ref_ext 100000 ref_signed_write (cl_client_id ref_client) (dec_int 100000)
      (to_hex (e_hmac ref_ext [char_of (10::nat)] (''/kv/app/k'' @ ?b @ dec_int 100000))) ref_known =
      Inr (ctx_of ref_client ref_acl)"
    using ref_backend.verify_known [OF ref_client_known, of 100000 100000 ref_signed_write "''/kv/app/k''"] path req(2) by simp
  have body: "prepare_body ref_ext ref_signed_write = Inr ?b"
    using ref_codec.unpackb_packb [of "PStr ''on''" ?b] msgpack_not_text req by (simp add: prepare_body_def content_type_def char_eval)
  obtain r d1 where serve: "serve_device (sv_redis (ap_server ref_app)) (sv_ext (ap_server ref_app)) (ap_catalog_model ref_app)
      (ap_catalog_lint ref_app) (sv_now (ap_server ref_app)) ref_signed_write ref_known = (r, d1)" by (metis surj_pair)
  then have "r_get mem_redis (kv_key ''app/k'') d1 = Some ?b"
    using ctx req body path p ref_client_may
    by (auto simp: serve_device_def device_route_def write_kv_def lift_res_def Let_def ref_backend.get_set_enc_flag)
  moreover have "(rq_method ref_signed_write, WriteKv) \<in> set kv_endpoints" by (simp add: req kv_endpoints_def)
  moreover have "device_web (ap_web ref_app)" by (simp add: ref_app_def ref_stack.device_web_axioms)
  moreover have "NL \<notin> set ''app/k''" by code_simp
  ultimately show ?thesis
    using app_serves [OF _ _ _ path _ _ req(3-5) serve, of mem_entries] mem_store.redis_store_axioms
    by (auto simp: PERF_LOG_RETENTION_SEC_def mem_store.kept_def)
qed

theorem app_changes_authorised_witness: "may_change ref_app ref_signed_write ref_known (kv_key ''app/k'')"
proof -
  have "r_get mem_redis (kv_key ''app/k'') ref_known = None"
    by (simp add: ref_known_def mem_store.get_set)
  with ref_write_changes show ?thesis
    using app_changes_authorised [of ref_app mem_entries "kv_key ''app/k''" ref_signed_write ref_known]
      mem_store.redis_store_axioms simple.path_matcher_axioms
    by (simp add: PERF_LOG_RETENTION_SEC_def)
qed

subsection \<open>Histories of requests\<close>

text \<open>Each request meets the application with the clock and settings of its moment.\<close>

fun run_history :: "('db app \<times> request) list \<Rightarrow> 'db \<Rightarrow> 'db" where
  "run_history [] d = d"
| "run_history ((A, req) # h) d = run_history h (snd (run_app A req d))"

text \<open>The records that decide who may do what: secrets and access lists.\<close>

definition credential_key :: "string \<Rightarrow> bool" where
  "credential_key k \<longleftrightarrow> k \<in> range client_secret_key \<union> range client_acl_key \<union> range admin_acl_key"

text \<open>One service: the same store, codecs and rescue users, a sane clock.\<close>

definition same_service :: "'db redis \<Rightarrow> ext \<Rightarrow> string list \<Rightarrow> 'db app \<Rightarrow> bool" where
  "same_service R E rescue A \<longleftrightarrow>
     sv_redis (ap_server A) = R \<and> sv_ext (ap_server A) = E \<and> sv_rescue (ap_server A) = rescue \<and>
     path_matcher (w_match (ap_web A)) \<and> PERF_LOG_RETENTION_SEC \<le> sv_now (ap_server A)"

lemma credential_key_neq:
  assumes "credential_key k"
  shows "k \<noteq> kv_key x" "k \<noteq> enc_key x" "k \<noteq> q_key x" "k \<noteq> nonce_key x" "k \<noteq> cursor_key x y" "k \<noteq> device_to_app_key x"
    "k \<noteq> ACTIVITY_LOG" "k \<noteq> PERF_LOG_STREAM"
  using assms
  by (auto simp: credential_key_def client_secret_key_def client_acl_key_def admin_acl_key_def kv_key_def enc_key_def q_key_def
      nonce_key_def cursor_key_def device_to_app_key_def ACTIVITY_LOG_def PERF_LOG_STREAM_def)

lemma may_change_credential:
  assumes "may_change A req d k" and "credential_key k"
  shows "by_superuser A req d"
  using assms(1) credential_key_neq [OF assms(2)]
  by (auto simp: may_change_def writable_def form_writable_def device_writable_def)

text \<open>Authority depends on the credential records only.\<close>

definition same_credentials :: "'db redis \<Rightarrow> 'db \<Rightarrow> 'db \<Rightarrow> bool" where
  "same_credentials R d d' \<longleftrightarrow> (\<forall>k. credential_key k \<longrightarrow> r_get R k d' = r_get R k d)"

lemma same_authority:
  assumes "same_credentials R d d'"
  shows "get_admin_context R E rescue u d' = get_admin_context R E rescue u d"
    "require_admin_superuser R E rescue u d' = require_admin_superuser R E rescue u d"
    "verify_device_request R E now req c t s d' = verify_device_request R E now req c t s d"
proof -
  have k: "r_get R (client_secret_key x) d' = r_get R (client_secret_key x) d" "r_get R (client_acl_key x) d' = r_get R (client_acl_key x) d"
    "r_get R (admin_acl_key x) d' = r_get R (admin_acl_key x) d" for x
    using assms by (simp_all add: same_credentials_def credential_key_def)
  show a: "get_admin_context R E rescue u d' = get_admin_context R E rescue u d"
    unfolding get_admin_context_def load_admin_acl_def get_truthy_def k by (rule refl)
  show "require_admin_superuser R E rescue u d' = require_admin_superuser R E rescue u d"
    unfolding require_admin_superuser_def a by (rule refl)
  show "verify_device_request R E now req c t s d' = verify_device_request R E now req c t s d"
    unfolding verify_device_request_def get_truthy_def k by (rule refl)
qed

lemma history_credentials:
  assumes "redis_store R entries"
    and "\<forall>(A, req) \<in> set h. same_service R E rescue A \<and> \<not> by_superuser A req d"
  shows "same_credentials R d (run_history h d)"
  using assms(2)
proof (induction h rule: rev_induct)
  case Nil
  then show ?case by (simp add: same_credentials_def)
next
  case (snoc p h)
  obtain A req where p: "p = (A, req)" by fastforce
  let ?d = "run_history h d"
  have run: "run_history (h @ [p]) d = snd (run_app A req ?d)"
    unfolding p by (induction h arbitrary: d) auto
  have IH: "same_credentials R d ?d" using snoc by simp
  have A: "sv_redis (ap_server A) = R" "path_matcher (w_match (ap_web A))" "PERF_LOG_RETENTION_SEC \<le> sv_now (ap_server A)"
    using snoc.prems by (auto simp: p same_service_def)
  have "\<not> by_superuser A req d" using snoc.prems p by auto
  then have ns: "\<not> by_superuser A req ?d" unfolding by_superuser_def A(1) same_authority(2) [OF IH] .
  show ?case unfolding run same_credentials_def
  proof (intro allI impI)
    fix k assume k: "credential_key k"
    have "redis_store.kept R entries k ?d (snd (run_app A req ?d))"
      using app_step_changes [of A entries k ?d req] may_change_credential [of A req ?d k] k ns assms(1) A
        credential_key_neq(7,8) [OF k] by blast
    with IH k show "r_get R k (snd (run_app A req ?d)) = r_get R k d"
      by (simp add: redis_store.kept_def [OF assms(1)] same_credentials_def)
  qed
qed

text \<open>
  C2. Nobody gains authority but by a superuser. Through any history of requests of any kind, on
  any route, by any users and devices, with any change of clock and settings in between, as long
  as none is made by a user who is a superuser in the store the history starts from, no secret and
  no access list changes; so at the end every user has the context and the superuser right he had,
  and every signed device request is accepted or refused exactly as at the start.
\<close>

theorem no_privilege_escalation:
  assumes "redis_store R entries"
    and "\<forall>(A, req) \<in> set h. same_service R E rescue A \<and> \<not> by_superuser A req d"
  shows "(\<forall>k. credential_key k \<longrightarrow> r_get R k (run_history h d) = r_get R k d) \<and>
    (\<forall>u. get_admin_context R E rescue u (run_history h d) = get_admin_context R E rescue u d \<and>
      require_admin_superuser R E rescue u (run_history h d) = require_admin_superuser R E rescue u d) \<and>
    (\<forall>now req c t s. verify_device_request R E now req c t s (run_history h d) = verify_device_request R E now req c t s d)"
  using history_credentials [OF assms] same_authority [OF history_credentials [OF assms]]
  by (simp add: same_credentials_def)

text \<open>The signed write, and a call of the administrative API without credentials.\<close>

theorem no_privilege_escalation_witness:
  "let d' = run_history [(ref_app, ref_signed_write), (ref_app, admin_req ''POST'' Map.empty Map.empty)] ref_known
   in r_get mem_redis (client_acl_key ''dev'') d' = Some (unary ref_acl) \<and>
      r_get mem_redis (client_secret_key ''dev'') d' = Some ''0a''"
proof -
  let ?h = "[(ref_app, ref_signed_write), (ref_app, admin_req ''POST'' Map.empty Map.empty)]"
  have s: "same_service mem_redis ref_ext [''ann''] ref_app"
    using simple.path_matcher_axioms by (simp add: same_service_def PERF_LOG_RETENTION_SEC_def ref_server_def)
  have "\<not> by_superuser ref_app req ref_known" if "request_user ref_app req = None" for req
    by (simp add: by_superuser_def that no_context)
  moreover have "request_user ref_app ref_signed_write = None"
    using kv_path [of "''app/k''"]
    by (simp add: request_user_def user_name_def admin_auth_decide_def Let_def ref_signed_path del: append.simps)
  moreover have "request_user ref_app (admin_req ''POST'' Map.empty Map.empty) = None"
    by (auto simp: request_user_def user_name_def admin_auth_decide_def Let_def bind_res_def cookie_user_def basic_user_def
        admin_req_def split: sum.split)
  ultimately have h: "\<forall>(A, req) \<in> set ?h. same_service mem_redis ref_ext [''ann''] A \<and> \<not> by_superuser A req ref_known"
    using s by simp
  have "credential_key (client_acl_key ''dev'')" "credential_key (client_secret_key ''dev'')"
    by (simp_all add: credential_key_def)
  with no_privilege_escalation [OF mem_store.redis_store_axioms h]
  show ?thesis unfolding Let_def by (simp add: ref_known_def mem_store.get_set del: run_history.simps)
qed

end
