(* ===== verification/Concurrent.thy ===== *)
theory Concurrent
  imports DeviceTrace
begin

text \<open>
  The device API as the event loop runs it: a handler gives up control at every \<open>await\<close> of a Redis
  command, and other handlers, of the same worker or of another, run in between. A suspended
  handler is the command it waits for with what it needs to go on (\<open>suspended\<close>); \<open>resume\<close> runs the
  command and the code up to the next one. Run alone, the commands of a handler compute what the
  function of \<open>DeviceRoutes\<close> does; \<open>system\<close> interleaves the commands of any number of calls, with
  steps of the rest of the world in between that respect a given relation. A handler that is
  never resumed again stands for a crash or a lost connection.

  A call has one reading of the clock, and starts when its request is authenticated.
\<close>

subsection \<open>Suspended handlers\<close>

record call =
  ca_now :: int
  ca_arg :: string            \<comment> \<open>key or topic\<close>
  ca_req :: request
  ca_ctx :: client_ctx

definition ca_client :: "call \<Rightarrow> string" where
  "ca_client c = ctx_client_id (ca_ctx c)"

datatype suspended =
    Answered "response res"
  | SetValue call string                      \<comment> \<open>\<open>write_kv\<close>: the body\<close>
  | SetFlag call
  | GetValue call                             \<comment> \<open>\<open>read_kv\<close>\<close>
  | GetFlag call string                       \<comment> \<open>the value read\<close>
  | EvalNonce call string                     \<comment> \<open>the plain text\<close>
  | DelValue call                             \<comment> \<open>\<open>delete_kv\<close>: one command for both keys\<close>
  | AddEntry call fields                      \<comment> \<open>\<open>publish_message\<close>\<close>
  | ExpireQueue call
  | GetCursor call bool                       \<comment> \<open>\<open>consume_message\<close>: the envelope mode\<close>
  | ReadBatch call bool string                \<comment> \<open>the last identifier seen\<close>
  | MoveCursor call bool "fields option" string

text \<open>What an observer notes: a nonce given out, a value answered in clear, an entry delivered.\<close>

datatype occurrence =
    HandedOut string int
  | InClear string string
  | Given string string string

definition or_refuse :: "'a res \<Rightarrow> ('a \<Rightarrow> suspended) \<Rightarrow> suspended" where
  "or_refuse m f = (case m of Inl e \<Rightarrow> Answered (Inl e) | Inr v \<Rightarrow> f v)"

text \<open>The handlers up to their first command.\<close>

definition write_start :: "ext \<Rightarrow> (pyval \<Rightarrow> 'cat option) \<Rightarrow> ('cat \<Rightarrow> 'issue list) \<Rightarrow> call \<Rightarrow> suspended" where
  "write_start E mv lint c =
     or_refuse (check_acl (ca_ctx c) (''kv/'' @ ca_arg c) WriteMode) (\<lambda>_.
     or_refuse (prepare_body E (ca_req c)) (\<lambda>body.
     or_refuse (if is_catalog_yaml_key (ca_arg c) \<and> body \<noteq> []
                then validate_catalog_yaml_upload E mv lint body else Inr ()) (\<lambda>_.
     SetValue c body)))"

definition read_start :: "call \<Rightarrow> suspended" where
  "read_start c = or_refuse (check_acl (ca_ctx c) (''kv/'' @ ca_arg c) ReadMode) (\<lambda>_. GetValue c)"

definition delete_start :: "call \<Rightarrow> suspended" where
  "delete_start c = or_refuse (check_acl (ca_ctx c) (''kv/'' @ ca_arg c) WriteMode) (\<lambda>_. DelValue c)"

definition publish_start :: "ext \<Rightarrow> int \<Rightarrow> call \<Rightarrow> suspended" where
  "publish_start E ttl0 c =
     (let ttl = (if 604800 < ttl0 then 604800 else ttl0) in
      or_refuse (check_acl (ca_ctx c) (''q/'' @ ca_arg c) WriteMode) (\<lambda>_.
      or_refuse (prepare_body E (ca_req c)) (\<lambda>body.
      AddEntry c [(''payload'', body), (''exp'', dec_int (ca_now c + ttl)), (''client_id'', ca_client c)])))"

definition consume_start :: "bool \<Rightarrow> call \<Rightarrow> suspended" where
  "consume_start envelope c =
     or_refuse (check_acl (ca_ctx c) (''q/'' @ ca_arg c) ReadMode) (\<lambda>_. GetCursor c envelope)"

text \<open>The bytes of an encrypted record.\<close>

definition stored_bytes :: "ext \<Rightarrow> string \<Rightarrow> string res" where
  "stored_bytes E val =
     (case e_unpackb_raw E val of
        None \<Rightarrow> Inl (HTTPException 500 ''Encrypted record: stored value is not msgpack'')
      | Some (PBytes b) \<Rightarrow> Inr b
      | Some (PStr s) \<Rightarrow> Inr s
      | Some _ \<Rightarrow> Inl (HTTPException 500 ''Encrypted record: stored value is not str/bin''))"

text \<open>One command, and the code up to the next.\<close>

fun resume :: "'db redis \<Rightarrow> ext \<Rightarrow> suspended \<Rightarrow> 'db \<Rightarrow> suspended \<times> occurrence list \<times> 'db" where
  "resume R E (Answered r) d = (Answered r, [], d)"
| "resume R E (SetValue c body) d = (SetFlag c, [], r_set R (kv_key (ca_arg c)) body d)"
| "resume R E (SetFlag c) d =
     (Answered (signed_msgpack E (ca_now c) (ca_ctx c) (ca_req c) (status_doc ''ok'')), [],
      set_enc_flag R (ca_arg c) (rq_headers (ca_req c) ''x-encrypted'' = Some ''1'') d)"
| "resume R E (GetValue c) d =
     (case r_get R (kv_key (ca_arg c)) d of
        None \<Rightarrow> Answered (signed_msgpack E (ca_now c) (ca_ctx c) (ca_req c) (status_doc ''not_found''))
      | Some val \<Rightarrow> GetFlag c val, [], d)"
| "resume R E (GetFlag c val) d =
     (if get_truthy R (enc_key (ca_arg c)) d \<noteq> None
      then (or_refuse (stored_bytes E val) (EvalNonce c), [], d)
      else (Answered (signed_response E (ca_now c) (ca_ctx c) (ca_req c) val 200), [InClear (ca_client c) (ca_arg c)], d))"
| "resume R E (EvalNonce c plaintext) d =
     (case next_kvenc_nonce R (ca_now c) (ca_client c) d of
        (Inl e, d') \<Rightarrow> (Answered (Inl e), [], d')
      | (Inr n, d') \<Rightarrow>
          (Answered (signed_encrypted_response E (ca_ctx c) (ca_req c) plaintext n), [HandedOut (ca_client c) n], d'))"
| "resume R E (DelValue c) d =
     (Answered (signed_msgpack E (ca_now c) (ca_ctx c) (ca_req c) (status_doc ''ok'')), [],
      r_del R (enc_key (ca_arg c)) (r_del R (kv_key (ca_arg c)) d))"
| "resume R E (AddEntry c f) d =
     (case r_xadd R (q_key (ca_arg c)) None f d of
        Inl e \<Rightarrow> (Answered (Inl e), [], d)
      | Inr d' \<Rightarrow> (ExpireQueue c, [], d'))"
| "resume R E (ExpireQueue c) d =
     (Answered (signed_msgpack E (ca_now c) (ca_ctx c) (ca_req c) (status_doc ''ok'')), [],
      r_expire R (q_key (ca_arg c)) 604800 d)"
| "resume R E (GetCursor c envelope) d =
     (or_refuse (decode_utf8 (case r_get R (cursor_key (ca_client c) (ca_arg c)) d of None \<Rightarrow> ''0-0'' | Some v \<Rightarrow> v))
        (ReadBatch c envelope), [], d)"
| "resume R E (ReadBatch c envelope last_id) d =
     (let messages = r_xread R (q_key (ca_arg c)) last_id 50 d in
      (if messages = [] then Answered (signed_response E (ca_now c) (ca_ctx c) (ca_req c) [] 204)
       else or_refuse (scan_batch (ca_now c) messages last_id) (\<lambda>r. MoveCursor c envelope (fst r) (snd r)), [], d))"
| "resume R E (MoveCursor c envelope hit last_id) d =
     (let d' = r_set R (cursor_key (ca_client c) (ca_arg c)) last_id d in
      case hit of
        None \<Rightarrow> (ReadBatch c envelope last_id, [], d')
      | Some f \<Rightarrow>
          (Answered (deliver E (ca_now c) (ca_ctx c) (ca_req c) envelope last_id f),
           [Given (ca_client c) (ca_arg c) last_id], d'))"

subsection \<open>A handler that runs alone\<close>

text \<open>\<open>None\<close>: it never answers.\<close>

partial_function (option) run_alone :: "'db redis \<Rightarrow> ext \<Rightarrow> suspended \<Rightarrow> 'db \<Rightarrow> (response res \<times> 'db) option" where
  "run_alone R E s d =
     (case s of
        Answered r \<Rightarrow> Some (r, d)
      | _ \<Rightarrow> (case resume R E s d of (s', ev, d') \<Rightarrow> run_alone R E s' d'))"

lemma run_alone_answered [simp]: "run_alone R E (Answered r) d = Some (r, d)"
  by (simp add: run_alone.simps)

lemma run_alone_step: "run_alone R E s d = (case resume R E s d of (s', ev, d') \<Rightarrow> run_alone R E s' d')"
  by (subst run_alone.simps) (simp split: suspended.split)

lemma run_alone_refuse:
  "run_alone R E (or_refuse m f) d = (case m of Inl e \<Rightarrow> Some (Inl e, d) | Inr v \<Rightarrow> run_alone R E (f v) d)"
  by (simp add: or_refuse_def split: sum.split)

lemmas run_alone_commands =
  run_alone_step [of _ _ "SetValue c b" for c b] run_alone_step [of _ _ "SetFlag c" for c]
  run_alone_step [of _ _ "GetValue c" for c] run_alone_step [of _ _ "GetFlag c v" for c v]
  run_alone_step [of _ _ "EvalNonce c p" for c p] run_alone_step [of _ _ "DelValue c" for c]
  run_alone_step [of _ _ "AddEntry c f" for c f] run_alone_step [of _ _ "ExpireQueue c" for c]
  run_alone_step [of _ _ "GetCursor c e" for c e]

lemma write_alone:
  "run_alone R E (write_start E mv lint c) d = Some (write_kv R E mv lint (ca_now c) (ca_arg c) (ca_req c) (ca_ctx c) d)"
  by (simp add: write_start_def write_kv_def run_alone_refuse lift_res_def Let_def run_alone_commands split: sum.split)

lemma delete_alone:
  "run_alone R E (delete_start c) d = Some (delete_kv R E (ca_now c) (ca_arg c) (ca_req c) (ca_ctx c) d)"
  by (simp add: delete_start_def delete_kv_def run_alone_refuse lift_res_def run_alone_commands split: sum.split)

lemma publish_alone:
  "run_alone R E (publish_start E ttl c) d = Some (publish_message R E (ca_now c) (ca_arg c) (ca_req c) ttl (ca_ctx c) d)"
  by (simp add: publish_start_def publish_message_def run_alone_refuse lift_res_def Let_def run_alone_commands ca_client_def
      split: sum.split)

lemma read_alone:
  "run_alone R E (read_start c) d = Some (snd (read_kv R E (ca_now c) (ca_arg c) (ca_req c) (ca_ctx c) d))"
  by (simp add: read_start_def read_kv_def run_alone_refuse lift_res_def run_alone_commands ca_client_def stored_bytes_def [symmetric]
      split: sum.split option.split prod.split)

text \<open>The loop: both sides return the same, or neither returns.\<close>

lemma loop_alone_1:
  assumes "consume_loop R E now topic req envelope ctx li d = Some x"
  shows "run_alone R E (ReadBatch \<lparr>ca_now = now, ca_arg = topic, ca_req = req, ca_ctx = ctx\<rparr> envelope li) d = Some x"
  using assms
proof (rule consume_loop.raw_induct [where P =
      "\<lambda>R E now topic req envelope ctx li d x.
        run_alone R E (ReadBatch \<lparr>ca_now = now, ca_arg = topic, ca_req = req, ca_ctx = ctx\<rparr> envelope li) d = Some x", rotated],
    goal_cases)
  case (1 loop R E now topic req envelope ctx li d x)
  let ?c = "\<lparr>ca_now = now, ca_arg = topic, ca_req = req, ca_ctx = ctx\<rparr>"
  have m: "run_alone R E (MoveCursor ?c envelope hit l) d =
      (case hit of None \<Rightarrow> run_alone R E (ReadBatch ?c envelope l) (r_set R (cursor_key (ctx_client_id ctx) topic) l d)
       | Some f \<Rightarrow> Some (deliver E now ctx req envelope l f, r_set R (cursor_key (ctx_client_id ctx) topic) l d))" for hit l d
    by (simp add: run_alone_step [of R E "MoveCursor ?c envelope hit l"] ca_client_def Let_def split: option.split)
  show ?case
    using 1(2) by (subst run_alone_step)
      (auto simp: Let_def run_alone_refuse m dest!: 1(1) split: if_splits sum.splits option.splits)
qed

definition loop_result :: "'db redis \<Rightarrow> ext \<Rightarrow> suspended \<Rightarrow> 'db \<Rightarrow> response res \<times> 'db \<Rightarrow> bool" where
  "loop_result R E s d x =
     (case s of
        Answered r \<Rightarrow> x = (r, d)
      | ReadBatch c envelope li \<Rightarrow> consume_loop R E (ca_now c) (ca_arg c) (ca_req c) envelope (ca_ctx c) li d = Some x
      | MoveCursor c envelope hit li \<Rightarrow>
          (let d' = r_set R (cursor_key (ca_client c) (ca_arg c)) li d in
           case hit of
             Some f \<Rightarrow> x = (deliver E (ca_now c) (ca_ctx c) (ca_req c) envelope li f, d')
           | None \<Rightarrow> consume_loop R E (ca_now c) (ca_arg c) (ca_req c) envelope (ca_ctx c) li d' = Some x)
      | _ \<Rightarrow> True)"

lemma loop_alone_2:
  assumes "run_alone R E s d = Some x"
  shows "loop_result R E s d x"
  using assms
proof (rule run_alone.raw_induct [where P = loop_result, rotated], goal_cases)
  case (1 loop R E s d x)
  have a: "y = (r, d')" if "loop R E (Answered r) d' = Some y" for r d' y
    using 1(1) [OF that] by (simp add: loop_result_def)
  have b: "consume_loop R E (ca_now c) (ca_arg c) (ca_req c) envelope (ca_ctx c) li d' = Some y"
    if "loop R E (ReadBatch c envelope li) d' = Some y" for c envelope li d' y
    using 1(1) [OF that] by (simp add: loop_result_def)
  have m: "loop_result R E (MoveCursor c envelope hit li) d' y"
    if "loop R E (MoveCursor c envelope hit li) d' = Some y" for c envelope hit li d' y
    using 1(1) [OF that] .
  show ?case
  proof (cases s)
    case (ReadBatch c envelope li)
    have "consume_loop R E (ca_now c) (ca_arg c) (ca_req c) envelope (ca_ctx c) li d = Some x"
      using 1(2) unfolding ReadBatch
      by (subst consume_loop.simps)
        (auto simp: Let_def or_refuse_def ca_client_def loop_result_def dest!: a m split: if_splits sum.splits option.splits)
    then show ?thesis by (simp add: ReadBatch loop_result_def)
  next
    case (MoveCursor c envelope hit li)
    with 1(2) show ?thesis by (auto simp: loop_result_def Let_def dest!: a b split: option.splits)
  qed (use 1(2) in \<open>simp_all add: loop_result_def\<close>)
qed

lemma loop_alone:
  "run_alone R E (ReadBatch c envelope li) d = consume_loop R E (ca_now c) (ca_arg c) (ca_req c) envelope (ca_ctx c) li d"
proof (cases "run_alone R E (ReadBatch c envelope li) d")
  case (Some x)
  from loop_alone_2 [OF this] show ?thesis by (simp add: Some loop_result_def)
next
  case None
  have "consume_loop R E (ca_now c) (ca_arg c) (ca_req c) envelope (ca_ctx c) li d \<noteq> Some x" for x
  proof -
    have "\<lparr>ca_now = ca_now c, ca_arg = ca_arg c, ca_req = ca_req c, ca_ctx = ca_ctx c\<rparr> = c" by simp
    with loop_alone_1 [of R E "ca_now c" "ca_arg c" "ca_req c" envelope "ca_ctx c" li d x] None show ?thesis by (metis option.distinct(1))
  qed
  with None show ?thesis by (cases "consume_loop R E (ca_now c) (ca_arg c) (ca_req c) envelope (ca_ctx c) li d") auto
qed

lemma consume_alone:
  "run_alone R E (consume_start envelope c) d = consume_message R E (ca_now c) (ca_arg c) (ca_req c) envelope (ca_ctx c) d"
  by (simp add: consume_start_def consume_message_def run_alone_refuse run_alone_commands loop_alone ca_client_def split: sum.split)



subsection \<open>Interleaving\<close>

text \<open>
  A run of the system: a new call starts, a suspended handler is resumed for one command, or the
  rest of the world makes a step that \<open>rely\<close> allows.
\<close>

inductive system ::
    "'db redis \<Rightarrow> ext \<Rightarrow> suspended set \<Rightarrow> ('db \<Rightarrow> 'db \<Rightarrow> bool) \<Rightarrow> 'db \<Rightarrow> suspended list \<Rightarrow> occurrence list \<Rightarrow> 'db \<Rightarrow> bool"
  for R E calls rely d0 where
  sys_init: "system R E calls rely d0 [] [] d0"
| sys_call: "system R E calls rely d0 ss os d \<Longrightarrow> s \<in> calls \<Longrightarrow> system R E calls rely d0 (ss @ [s]) os d"
| sys_resume: "system R E calls rely d0 ss os d \<Longrightarrow> i < length ss \<Longrightarrow> resume R E (ss ! i) d = (s', os', d') \<Longrightarrow>
    system R E calls rely d0 (ss[i := s']) (os @ os') d'"
| sys_rest: "system R E calls rely d0 ss os d \<Longrightarrow> rely d d' \<Longrightarrow> system R E calls rely d0 ss os d'"

text \<open>An invariant of the suspended handlers and the rest, kept by every kind of step.\<close>

lemma system_invariant:
  assumes "system R E calls rely d0 ss os d"
    and init: "J [] d0"
    and grown: "\<And>s os d. s \<in> calls \<Longrightarrow> J os d \<Longrightarrow> I s os d"
    and step: "\<And>s os d s' os' d'. J os d \<Longrightarrow> I s os d \<Longrightarrow> resume R E s d = (s', os', d') \<Longrightarrow>
      J (os @ os') d' \<and> I s' (os @ os') d' \<and> (\<forall>t. I t os d \<longrightarrow> I t (os @ os') d')"
    and rest: "\<And>os d d'. J os d \<Longrightarrow> rely d d' \<Longrightarrow> J os d' \<and> (\<forall>t. I t os d \<longrightarrow> I t os d')"
  shows "J os d \<and> (\<forall>s \<in> set ss. I s os d)"
  using assms(1)
proof (induction rule: system.induct)
  case sys_init
  then show ?case using init by simp
next
  case (sys_call ss os d s)
  then show ?case using grown by auto
next
  case (sys_resume ss os d i s' os' d')
  have "I (ss ! i) os d" using sys_resume.IH sys_resume.hyps(2) by simp
  from step [OF _ this sys_resume.hyps(3)] sys_resume.IH
  have J: "J (os @ os') d'" and s': "I s' (os @ os') d'" and t: "\<And>t. I t os d \<Longrightarrow> I t (os @ os') d'" by blast+
  have "\<forall>s \<in> set (ss[i := s']). I s (os @ os') d'"
    using sys_resume.IH s' t set_update_subset_insert [of ss i s'] by blast
  with J show ?case by blast
next
  case (sys_rest ss os d d')
  with rest show ?case by blast
qed

subsection \<open>Nonces\<close>

definition handed :: "string \<Rightarrow> occurrence list \<Rightarrow> int list" where
  "handed cid os = concat (map (\<lambda>x. case x of HandedOut c n \<Rightarrow> if c = cid then [n] else [] | _ \<Rightarrow> []) os)"

lemma handed_simps [simp]:
  "handed cid [] = []" "handed cid (xs @ ys) = handed cid xs @ handed cid ys"
  "handed cid (HandedOut c n # xs) = (if c = cid then [n] else []) @ handed cid xs"
  "handed cid (InClear c k # xs) = handed cid xs" "handed cid (Given c t i # xs) = handed cid xs"
  by (simp_all add: handed_def)

text \<open>The records a command may change, and what it may note.\<close>

fun touches :: "suspended \<Rightarrow> string set" where
  "touches (SetValue c body) = {kv_key (ca_arg c)}"
| "touches (SetFlag c) = {enc_key (ca_arg c)}"
| "touches (EvalNonce c plaintext) = {nonce_key (ca_client c)}"
| "touches (DelValue c) = {kv_key (ca_arg c), enc_key (ca_arg c)}"
| "touches (AddEntry c f) = {q_key (ca_arg c)}"
| "touches (MoveCursor c envelope hit li) = {cursor_key (ca_client c) (ca_arg c)}"
| "touches s = {}"

fun may_note :: "suspended \<Rightarrow> occurrence \<Rightarrow> bool" where
  "may_note (EvalNonce c plaintext) x \<longleftrightarrow> (\<exists>n. x = HandedOut (ca_client c) n)"
| "may_note (GetFlag c val) x \<longleftrightarrow> x = InClear (ca_client c) (ca_arg c)"
| "may_note (MoveCursor c envelope hit li) x \<longleftrightarrow> hit \<noteq> None \<and> x = Given (ca_client c) (ca_arg c) li"
| "may_note s x \<longleftrightarrow> False"

lemma resume_notes:
  assumes "resume R E s d = (s', os, d')" and "x \<in> set os"
  shows "may_note s x"
  using assms
proof (cases s)
  case (EvalNonce c p)
  with assms show ?thesis by (auto split: prod.splits sum.splits)
next
  case (GetFlag c v)
  with assms show ?thesis by (auto split: if_splits)
next
  case (AddEntry c f)
  with assms show ?thesis by (auto split: sum.splits)
next
  case (MoveCursor c e h l)
  with assms show ?thesis by (auto simp: Let_def split: option.splits)
qed (auto simp: Let_def)

context redis_store
begin

lemma nonce_store:
  assumes "next_kvenc_nonce R now cid d = (x, d')" and "k \<noteq> nonce_key cid"
  shows "r_get R k d' = r_get R k d" "entries k d' = entries k d"
  using assms
  by (auto simp: next_kvenc_nonce_def kvenc_nonce_lua_def Let_def get_set entries_set split: option.splits)

lemma resume_frame:
  assumes "resume R E s d = (s', os, d')" and "k \<notin> touches s"
  shows "r_get R k d' = r_get R k d \<and> entries k d' = entries k d"
  using assms
proof (cases s)
  case (SetValue c b)
  with assms show ?thesis by (auto simp: get_set entries_set)
next
  case (SetFlag c)
  with assms show ?thesis by (auto simp: set_enc_flag_def get_set get_del entries_set entries_del)
next
  case (EvalNonce c p)
  with assms nonce_store [of "ca_now c" "ca_client c" d] show ?thesis by (auto split: prod.splits sum.splits)
next
  case (DelValue c)
  with assms show ?thesis by (auto simp: get_del entries_del)
next
  case (AddEntry c f)
  with assms show ?thesis by (auto simp: get_xadd entries_xadd_other split: sum.splits)
next
  case (ExpireQueue c)
  with assms show ?thesis by (auto simp: get_expire entries_expire)
next
  case (MoveCursor c e h l)
  with assms show ?thesis by (auto simp: Let_def get_set entries_set split: option.splits)
qed (auto simp: Let_def split: if_splits)

end

context backend
begin

lemma resume_nonces:
  assumes "resume R E s d = (s', os, d')"
  shows "(handed cid os = [] \<and> nonce_counter R cid d' = nonce_counter R cid d) \<or>
    (\<exists>m n. nonce_counter R cid d = Some m \<and> m < n \<and> nonce_counter R cid d' = Some n \<and> handed cid os = [n])"
proof (cases "\<exists>c p. s = EvalNonce c p")
  case True
  then obtain c p where s: "s = EvalNonce c p" by blast
  obtain m d1 where m: "next_kvenc_nonce R (ca_now c) (ca_client c) d = (m, d1)" by fastforce
  show ?thesis
  proof (cases m)
    case (Inl e)
    with m assms s have "d' = d" "os = []"
      by (auto simp: next_kvenc_nonce_def kvenc_nonce_lua_def Let_def split: option.splits)
    then show ?thesis by simp
  next
    case (Inr n)
    with m assms s have os: "os = [HandedOut (ca_client c) n]" "d' = d1" by auto
    from m Inr have "next_kvenc_nonce R (ca_now c) (ca_client c) d = (Inr n, d1)" by simp
    then obtain prev where "py_int (case r_get R (nonce_key (ca_client c)) d of None \<Rightarrow> ''0'' | Some v \<Rightarrow> v) = Some prev"
      "n = max (ca_now c) (prev + 1)" "d1 = r_set R (nonce_key (ca_client c)) (dec_int n) d"
      by (rule next_kvenc_nonce_Inr)
    with os show ?thesis by (auto simp: nonce_counter_def)
  qed
next
  case False
  have "may_note s x \<Longrightarrow> \<nexists>c n. x = HandedOut c n" for x using False by (cases s) auto
  with resume_notes [OF assms] have "handed cid os = []"
    by (auto simp: handed_def split: occurrence.splits)
  moreover have "nonce_key cid \<notin> touches s" using False by (cases s) auto
  ultimately show ?thesis using resume_frame [OF assms] by (simp add: nonce_counter_def)
qed

lemma system_nonces:
  assumes "system R E calls rely d0 ss os d" and "\<And>d d' cid. rely d d' \<Longrightarrow> nonce_counter R cid d' = nonce_counter R cid d"
  shows "sorted_wrt (<) (handed cid os) \<and> (\<forall>n \<in> set (handed cid os). \<exists>m. nonce_counter R cid d = Some m \<and> n \<le> m)"
  using assms(1)
proof (induction rule: system.induct)
  case (sys_resume ss os d i s' os' d')
  from resume_nonces [OF sys_resume.hyps(3), of cid] show ?case
  proof (elim disjE exE conjE)
    fix m n
    assume mn: "nonce_counter R cid d = Some m" "m < n" "nonce_counter R cid d' = Some n" "handed cid os' = [n]"
    with sys_resume.IH have "\<forall>k \<in> set (handed cid os). k < n" by fastforce
    with mn show ?thesis using sys_resume.IH by (auto simp: sorted_wrt_append intro: less_imp_le)
  qed (use sys_resume.IH in simp)
qed (use assms(2) in simp_all)

end


text \<open>A schedule: which handler is resumed next.\<close>

fun run_schedule ::
    "'db redis \<Rightarrow> ext \<Rightarrow> nat list \<Rightarrow> suspended list \<times> occurrence list \<times> 'db \<Rightarrow> suspended list \<times> occurrence list \<times> 'db" where
  "run_schedule R E [] x = x"
| "run_schedule R E (i # turns) (ss, os, d) =
     (if i < length ss
      then (case resume R E (ss ! i) d of (s', os', d') \<Rightarrow> run_schedule R E turns (ss[i := s'], os @ os', d'))
      else run_schedule R E turns (ss, os, d))"

lemma schedule_system:
  assumes "system R E calls rely d0 ss os d"
  shows "system R E calls rely d0 (fst (run_schedule R E turns (ss, os, d))) (fst (snd (run_schedule R E turns (ss, os, d))))
    (snd (snd (run_schedule R E turns (ss, os, d))))"
  using assms
proof (induction turns arbitrary: ss os d)
  case (Cons i turns)
  obtain s' os' d' where r: "resume R E (ss ! i) d = (s', os', d')" by (metis prod_cases3)
  show ?case
  proof (cases "i < length ss")
    case True
    from Cons.IH [OF sys_resume [OF Cons.prems True r]] True r show ?thesis by simp
  next
    case False
    with Cons show ?thesis by simp
  qed
qed simp

lemma system_start: "set ss \<subseteq> calls \<Longrightarrow> system R E calls rely d ss [] d"
proof (induction ss rule: rev_induct)
  case (snoc s ss)
  then show ?case by (intro sys_call) simp_all
qed (rule sys_init)

text \<open>The calls of the device API.\<close>

definition device_calls :: "ext \<Rightarrow> (pyval \<Rightarrow> 'cat option) \<Rightarrow> ('cat \<Rightarrow> 'issue list) \<Rightarrow> int \<Rightarrow> suspended set" where
  "device_calls E mv lint latest =
     {s. \<exists>c ttl envelope. ca_now c \<le> latest \<and>
        s \<in> {write_start E mv lint c, read_start c, delete_start c, publish_start E ttl c, consume_start envelope c}}"

text \<open>
  C6. No nonce is handed out twice, however the handlers interleave. Between any two Redis
  commands of a handler any other handlers may run, of the same client or of others, on any clock
  readings, and the rest of the system may do anything that leaves the counters alone: the nonces
  of the encrypted responses to one client strictly increase in the order they are handed out.
  Distinct nonces have distinct four-byte encodings, so no two encrypted responses to a client
  share the input of a keystream block.
\<close>

theorem nonces_increase_interleaved:
  assumes "backend R entries E"
    and "\<And>d d' cid. rely d d' \<Longrightarrow> nonce_counter R cid d' = nonce_counter R cid d"
    and "system R E calls rely d0 ss os d"
  shows "sorted_wrt (<) (handed cid os) \<and>
    (\<forall>i j b. i < j \<and> j < length (handed cid os) \<longrightarrow>
      \<not> (to_bytes4 (handed cid os ! i) = Inr b \<and> to_bytes4 (handed cid os ! j) = Inr b))"
proof -
  have s: "sorted_wrt (<) (handed cid os)"
    using backend.system_nonces [OF assms(1,3,2)] by blast
  then have "handed cid os ! i \<noteq> handed cid os ! j" if "i < j" "j < length (handed cid os)" for i j
    using sorted_wrt_nth_less [OF s that] by simp
  with s show ?thesis by (blast dest: to_bytes4_inj)
qed

text \<open>Two reads of one encrypted value in the same second, command by command in turn.\<close>

definition ref_call :: "int \<Rightarrow> string \<Rightarrow> (string \<rightharpoonup> string) \<Rightarrow> string \<Rightarrow> call" where
  "ref_call now arg h body = \<lparr>ca_now = now, ca_arg = arg, ca_req = ref_req h body, ca_ctx = ref_ctx\<rparr>"

lemma ref_call_simps [simp]:
  "ca_now (ref_call now arg h body) = now" "ca_arg (ref_call now arg h body) = arg"
  "ca_req (ref_call now arg h body) = ref_req h body" "ca_ctx (ref_call now arg h body) = ref_ctx"
  "ca_client (ref_call now arg h body) = ''dev''"
  by (simp_all add: ref_call_def ca_client_def)

definition ref_secret_db :: mem where
  "ref_secret_db = [(kv_key ''app/k'', RString (unary (PStr ''on''))), (enc_key ''app/k'', RString ''1'')]"

theorem nonces_increase_interleaved_witness:
  "let c = ref_call 200 ''app/k'' Map.empty [];
       (ss, os, d) = run_schedule mem_redis ref_ext [0, 1, 0, 1, 1, 0] ([read_start c, read_start c], [], ref_secret_db)
   in handed ''dev'' os = [200, 201] \<and> sorted_wrt (<) (handed ''dev'' os)"
proof -
  let ?c = "ref_call 200 ''app/k'' Map.empty []"
  define x where "x = run_schedule mem_redis ref_ext [0, 1, 0, 1, 1, 0] ([read_start ?c, read_start ?c], [], ref_secret_db)"
  have raw: "stored_bytes ref_ext (unary (PStr ''on'')) = Inr ''on''"
    by (simp add: stored_bytes_def ref_ext_def raw_of_def)
  have db: "r_get mem_redis (kv_key ''app/k'') ref_secret_db = Some (unary (PStr ''on''))"
    "get_truthy mem_redis (enc_key ''app/k'') ref_secret_db = Some ''1''"
    "r_get mem_redis (nonce_key ''dev'') ref_secret_db = None"
    by (simp_all add: ref_secret_db_def mem_redis_def mem_get_def get_truthy_def)
  have "handed ''dev'' (fst (snd x)) = [200, 201]"
    by (simp add: x_def read_start_def or_refuse_def raw db next_kvenc_nonce_def kvenc_nonce_lua_def mem_store.get_set)
  moreover have "system mem_redis ref_ext UNIV (=) ref_secret_db (fst x) (fst (snd x)) (snd (snd x))"
    unfolding x_def by (intro schedule_system system_start) simp
  ultimately show ?thesis
    using nonces_increase_interleaved [OF ref_backend.backend_axioms, of "(=)"] unfolding x_def [symmetric] Let_def case_prod_beta
    by metis
qed


subsection \<open>Encrypted values\<close>

text \<open>
  Handlers that do not take the flag off the value \<open>key\<close>: writes of it are encrypted, nothing
  deletes it, and nobody uses the flag's own record as a value.
\<close>

fun keeps_flag :: "string \<Rightarrow> suspended \<Rightarrow> bool" where
  "keeps_flag key (SetValue c body) \<longleftrightarrow>
     (ca_arg c = key \<longrightarrow> rq_headers (ca_req c) ''x-encrypted'' = Some ''1'') \<and> ca_arg c \<noteq> key @ '':enc''"
| "keeps_flag key (SetFlag c) \<longleftrightarrow> (ca_arg c = key \<longrightarrow> rq_headers (ca_req c) ''x-encrypted'' = Some ''1'')"
| "keeps_flag key (DelValue c) \<longleftrightarrow> ca_arg c \<notin> {key, key @ '':enc''}"
| "keeps_flag key s \<longleftrightarrow> True"

context backend
begin

lemma resume_keeps_flag:
  assumes "resume R E s d = (s', os, d')" and "keeps_flag key s"
  shows "keeps_flag key s'"
  using assms
  by (cases s) (auto simp: or_refuse_def Let_def split: if_splits option.splits sum.splits prod.splits)

lemma resume_flag:
  assumes "resume R E s d = (s', os, d')" and "keeps_flag key s" and "get_truthy R (enc_key key) d \<noteq> None"
  shows "get_truthy R (enc_key key) d' \<noteq> None" and "InClear cid key \<notin> set os"
proof -
  show "InClear cid key \<notin> set os"
  proof
    assume h: "InClear cid key \<in> set os"
    with resume_notes [OF assms(1) h] obtain c val where s: "s = GetFlag c val" "ca_arg c = key" by (cases s) auto
    with assms(1,3) h show False by auto
  qed
  have eq: "enc_key key = kv_key k \<longleftrightarrow> k = key @ '':enc''" for k using kv_key_enc_key [of k key] by metis
  show "get_truthy R (enc_key key) d' \<noteq> None"
  proof (cases "enc_key key \<in> touches s")
    case False
    with resume_frame [OF assms(1)] assms(3) show ?thesis by (simp add: get_truthy_def)
  next
    case True
    then obtain c where s: "s = SetFlag c" "ca_arg c = key"
      using assms(2) eq by (cases s) (auto simp: cursor_key_def enc_key_def q_key_def nonce_key_def)
    with assms(1,2) show ?thesis by (auto simp: get_truthy_def get_set_enc_flag)
  qed
qed

end


definition ref_encrypted_write :: call where
  "ref_encrypted_write = ref_call 200 ''app/k'' [''content-type'' \<mapsto> ''text/plain'', ''x-encrypted'' \<mapsto> ''1''] ''off''"

lemma ref_encrypted_start:
  "write_start ref_ext (\<lambda>_. None :: unit option) (\<lambda>_. [()]) ref_encrypted_write = SetValue ref_encrypted_write (unary (PStr ''off''))"
  by (simp add: write_start_def ref_encrypted_write_def or_refuse_def prepare_body_def content_type_def Let_def
      is_catalog_yaml_key_def char_eval)


text \<open>
  C10. The first encrypted write of a value leaks. A write stores the value and then, with a
  second command, its flag. When a read by another handler comes in between, it is answered 200
  with the new value in clear, although its writer asked for encryption and both clients did
  everything right; afterwards the flag is set and the write is answered 200 too.
\<close>

theorem encrypted_write_races:
  assumes "backend R entries E" and "get_truthy R (enc_key key) d = None"
    and "ca_arg w = key" and "check_acl (ca_ctx w) (''kv/'' @ key) WriteMode = Inr ()" and "prepare_body E (ca_req w) = Inr body"
    and "\<not> is_catalog_yaml_key key" and "rq_headers (ca_req w) ''x-encrypted'' = Some ''1''"
    and "ca_arg r = key" and "check_acl (ca_ctx r) (''kv/'' @ key) ReadMode = Inr ()"
  shows "\<exists>d'. run_schedule R E [0, 1, 1, 0] ([write_start E mv lint w, read_start r], [], d) =
      ([Answered (signed_msgpack E (ca_now w) (ca_ctx w) (ca_req w) (status_doc ''ok'')),
        Answered (signed_response E (ca_now r) (ca_ctx r) (ca_req r) body 200)],
       [InClear (ca_client r) key], d') \<and>
    r_get R (enc_key key) d' = Some ''1'' \<and> r_get R (kv_key key) d' = Some body"
proof -
  note g = redis_store.get_set [OF backend.axioms(1) [OF assms(1)]] backend.get_set_enc_flag [OF assms(1)]
  have w: "write_start E mv lint w = SetValue w body"
    using assms(3-6) by (simp add: write_start_def or_refuse_def)
  have r: "read_start r = GetValue r" using assms(8,9) by (simp add: read_start_def or_refuse_def)
  have "get_truthy R (enc_key key) (r_set R (kv_key key) body d) = None"
    using assms(2) by (simp add: get_truthy_def g)
  then show ?thesis using assms(3,7,8) by (simp add: w r g)
qed

theorem encrypted_write_races_witness:
  "\<exists>d'. run_schedule mem_redis ref_ext [0, 1, 1, 0] ([write_start ref_ext (\<lambda>_. None :: unit option) (\<lambda>_. [()]) ref_encrypted_write,
        read_start (ref_call 201 ''app/k'' Map.empty [])], [], []) =
      ([Answered (signed_msgpack ref_ext 200 ref_ctx (ca_req ref_encrypted_write) (status_doc ''ok'')),
        Answered (signed_response ref_ext 201 ref_ctx (ref_req Map.empty []) (unary (PStr ''off'')) 200)],
       [InClear ''dev'' ''app/k''], d')"
proof -
  have "prepare_body ref_ext (ca_req ref_encrypted_write) = Inr (unary (PStr ''off''))"
    by (simp add: ref_encrypted_write_def prepare_body_def content_type_def char_eval)
  moreover have "\<not> is_catalog_yaml_key ''app/k''" by (simp add: is_catalog_yaml_key_def)
  moreover have "ca_arg ref_encrypted_write = ''app/k''" "ca_ctx ref_encrypted_write = ref_ctx" "ca_now ref_encrypted_write = 200"
    "rq_headers (ca_req ref_encrypted_write) ''x-encrypted'' = Some ''1''"
    by (simp_all add: ref_encrypted_write_def)
  ultimately show ?thesis
    using encrypted_write_races [OF ref_backend.backend_axioms, of "''app/k''" "[]" ref_encrypted_write "unary (PStr ''off'')"
        "ref_call 201 ''app/k'' Map.empty []" "\<lambda>_. None :: unit option" "\<lambda>_. [()]"]
    by (simp add: get_truthy_def) blast
qed

text \<open>The same when an encrypted value is replaced by a plain one: the old value is answered in clear.\<close>

lemma demotion_races:
  assumes "backend R entries E" and "r_get R (kv_key key) d = Some old"
    and "ca_arg w = key" and "rq_headers (ca_req w) ''x-encrypted'' \<noteq> Some ''1''" and "ca_arg r = key"
  shows "\<exists>d'. run_schedule R E [1, 0, 0, 1] ([SetValue w body, GetValue r], [], d) =
      ([Answered (signed_msgpack E (ca_now w) (ca_ctx w) (ca_req w) (status_doc ''ok'')),
        Answered (signed_response E (ca_now r) (ca_ctx r) (ca_req r) old 200)],
       [InClear (ca_client r) key], d')"
  using assms(2-5)
  by (simp add: get_truthy_def redis_store.get_set [OF backend.axioms(1) [OF assms(1)]] backend.get_set_enc_flag [OF assms(1)])

subsection \<open>Queues\<close>

lemma scan_batch_sound:
  assumes "scan_batch now (map show_entry es) (show_sid i) = Inr (hit, li)"
  shows "case hit of
      None \<Rightarrow> (\<forall>e \<in> set es. expired now e) \<and> li = show_sid (if es = [] then i else fst (last es))
    | Some f \<Rightarrow> (\<exists>pre e post. es = pre @ e # post \<and> (\<forall>x \<in> set pre. expired now x) \<and> f = snd e \<and> li = show_sid (fst e))"
  using assms
proof (induction es arbitrary: i)
  case Nil
  then show ?case by auto
next
  case (Cons e es)
  from Cons.prems obtain s x where s: "map_of (snd e) ''exp'' = Some s" "py_int s = Some x"
    by (auto simp: show_entry_def split: option.splits)
  show ?case
  proof (cases "now \<le> x")
    case True
    with Cons.prems s have "hit = Some (snd e)" "li = show_sid (fst e)" by (auto simp: show_entry_def)
    then show ?thesis by (simp only: option.case) (intro exI [of _ "[]"] exI [of _ e] exI [of _ es], simp)
  next
    case False
    with s have ex: "expired now e" by (simp add: expired_def entry_exp_def)
    have "scan_batch now (map show_entry es) (show_sid (fst e)) = Inr (hit, li)"
      using Cons.prems s False by (simp add: show_entry_def [of e])
    from Cons.IH [OF this] show ?thesis
    proof (cases hit)
      case None
      with \<open>scan_batch now (map show_entry es) (show_sid (fst e)) = Inr (hit, li)\<close> Cons.IH [of "fst e"] ex
      show ?thesis by auto
    next
      case (Some f)
      with Cons.IH [OF \<open>scan_batch now (map show_entry es) (show_sid (fst e)) = Inr (hit, li)\<close>]
      obtain pre y post where "es = pre @ y # post" "\<forall>x \<in> set pre. expired now x" "f = snd y" "li = show_sid (fst y)" by auto
      with ex show ?thesis
        unfolding Some option.case by (intro exI [of _ "e # pre"] exI [of _ y] exI [of _ post]) simp
    qed
  qed
qed


text \<open>
  What a consumer has been given: of the entries after \<open>i0\<close> with an identifier in \<open>P\<close>, all but those
  expired at \<open>latest\<close>. The bound \<open>j\<close> lies on or before an entry, so later entries come after it.
\<close>

definition settled ::
    "(string \<Rightarrow> 'db \<Rightarrow> (stream_id \<times> fields) list) \<Rightarrow> int \<Rightarrow> stream_id \<Rightarrow> string \<Rightarrow> string
      \<Rightarrow> (stream_id \<Rightarrow> bool) \<Rightarrow> stream_id \<Rightarrow> occurrence list \<Rightarrow> 'db \<Rightarrow> bool" where
  "settled entries latest i0 cid topic P j os d \<longleftrightarrow>
     (j = SID 0 0 \<or> (\<exists>e \<in> set (entries (q_key topic) d). j \<le> fst e)) \<and>
     (\<forall>e \<in> set (entries (q_key topic) d). i0 < fst e \<and> P (fst e) \<and> \<not> expired latest e \<longrightarrow>
        Given cid topic (show_sid (fst e)) \<in> set os)"

definition all_given ::
    "(string \<Rightarrow> 'db \<Rightarrow> (stream_id \<times> fields) list) \<Rightarrow> int \<Rightarrow> stream_id \<Rightarrow> string \<Rightarrow> string
      \<Rightarrow> string \<Rightarrow> occurrence list \<Rightarrow> 'db \<Rightarrow> bool" where
  "all_given entries latest i0 cid topic li os d \<longleftrightarrow>
     (\<exists>j. li = show_sid j \<and> settled entries latest i0 cid topic (\<lambda>x. x \<le> j) j os d)"

definition but_last_given ::
    "(string \<Rightarrow> 'db \<Rightarrow> (stream_id \<times> fields) list) \<Rightarrow> int \<Rightarrow> stream_id \<Rightarrow> string \<Rightarrow> string
      \<Rightarrow> string \<Rightarrow> occurrence list \<Rightarrow> 'db \<Rightarrow> bool" where
  "but_last_given entries latest i0 cid topic li os d \<longleftrightarrow>
     (\<exists>j. li = show_sid j \<and> settled entries latest i0 cid topic (\<lambda>x. x < j) j os d)"

text \<open>A suspended poll of the consumer has nothing live behind it that was not given.\<close>

fun poll_ok ::
    "(string \<Rightarrow> 'db \<Rightarrow> (stream_id \<times> fields) list) \<Rightarrow> int \<Rightarrow> stream_id \<Rightarrow> string \<Rightarrow> string
      \<Rightarrow> suspended \<Rightarrow> occurrence list \<Rightarrow> 'db \<Rightarrow> bool" where
  "poll_ok en latest i0 cid topic (AddEntry c f) os d \<longleftrightarrow> f \<noteq> []"
| "poll_ok en latest i0 cid topic (GetCursor c envelope) os d \<longleftrightarrow>
     (cursor_key (ca_client c) (ca_arg c) = cursor_key cid topic \<longrightarrow>
        ca_client c = cid \<and> ca_arg c = topic \<and> ca_now c \<le> latest)"
| "poll_ok en latest i0 cid topic (ReadBatch c envelope li) os d \<longleftrightarrow>
     (cursor_key (ca_client c) (ca_arg c) = cursor_key cid topic \<longrightarrow>
        ca_client c = cid \<and> ca_arg c = topic \<and> ca_now c \<le> latest \<and> all_given en latest i0 cid topic li os d)"
| "poll_ok en latest i0 cid topic (MoveCursor c envelope hit li) os d \<longleftrightarrow>
     (cursor_key (ca_client c) (ca_arg c) = cursor_key cid topic \<longrightarrow>
        ca_client c = cid \<and> ca_arg c = topic \<and> ca_now c \<le> latest \<and>
        (if hit = None then all_given en latest i0 cid topic li os d else but_last_given en latest i0 cid topic li os d))"
| "poll_ok en latest i0 cid topic s os d \<longleftrightarrow> True"

context backend
begin

definition grows :: "string \<Rightarrow> 'db \<Rightarrow> 'db \<Rightarrow> bool" where
  "grows k d d' \<longleftrightarrow> entries k d' = entries k d \<or> (\<exists>i f. entries k d' = entries k d @ [(i, f)])"

lemma settled_grows:
  assumes "settled entries latest i0 cid topic P j os d" and "grows (q_key topic) d d'" and "\<And>x. P x \<Longrightarrow> x \<le> j"
  shows "settled entries latest i0 cid topic P j (os @ os') d'"
  using assms(2) unfolding grows_def
proof (elim disjE exE)
  assume "entries (q_key topic) d' = entries (q_key topic) d"
  with assms(1) show ?thesis by (simp add: settled_def)
next
  fix i f assume e: "entries (q_key topic) d' = entries (q_key topic) d @ [(i, f)]"
  have "\<forall>x \<in> set (entries (q_key topic) d). fst x < i"
    using entries_sorted [of "q_key topic" d'] by (auto simp: e sorted_wrt_append)
  moreover have "SID 0 0 < i" using entries_pos [of "(i, f)" "q_key topic" d'] by (simp add: e)
  ultimately have "\<not> i \<le> j" using assms(1) unfolding settled_def by (metis leD order.strict_trans2 le_less_trans)
  then have "\<not> P i" using assms(3) by blast
  with assms(1) show ?thesis unfolding settled_def e by auto
qed

lemma given_grows:
  assumes "grows (q_key topic) d d'"
  shows "all_given entries latest i0 cid topic li os d \<Longrightarrow> all_given entries latest i0 cid topic li (os @ os') d'"
    and "but_last_given entries latest i0 cid topic li os d \<Longrightarrow> but_last_given entries latest i0 cid topic li (os @ os') d'"
  using settled_grows [OF _ assms] unfolding all_given_def but_last_given_def by (metis, metis less_imp_le)

lemma poll_ok_grows:
  assumes "grows (q_key topic) d d'" and "poll_ok entries latest i0 cid topic s os d"
  shows "poll_ok entries latest i0 cid topic s (os @ os') d'"
  using assms(2) given_grows [OF assms(1)] by (cases s) (auto split: if_splits)

lemma resume_grows:
  assumes "resume R E s d = (s', os, d')" and "poll_ok entries latest i0 cid topic s os0 d"
  shows "grows (q_key topic) d d'"
proof (cases "q_key topic \<in> touches s")
  case False
  with resume_frame [OF assms(1)] show ?thesis by (simp add: grows_def)
next
  case True
  then obtain c f where s: "s = AddEntry c f" "ca_arg c = topic" by (cases s) auto
  with assms(2) have "f \<noteq> []" by simp
  from xadd_auto [OF this, of "q_key topic" d] obtain d1 i
    where "r_xadd R (q_key topic) None f d = Inr d1" "entries (q_key topic) d1 = entries (q_key topic) d @ [(i, f)]" by blast
  with assms(1) s show ?thesis by (auto simp: grows_def)
qed

text \<open>A batch read from a settled cursor: what it skips has expired.\<close>

lemma batch_settled:
  assumes s: "settled entries latest i0 cid topic (\<lambda>x. x \<le> j) j os d" and now: "now \<le> latest"
    and scan: "scan_batch now (r_xread R (q_key topic) (show_sid j) 50 d) (show_sid j) = Inr (hit, li)"
    and ne: "r_xread R (q_key topic) (show_sid j) 50 d \<noteq> []"
  shows "if hit = None then all_given entries latest i0 cid topic li os d else but_last_given entries latest i0 cid topic li os d"
proof -
  let ?es = "entries (q_key topic) d"
  define p where "p = filter (\<lambda>e. j < fst e) ?es"
  have x: "r_xread R (q_key topic) (show_sid j) 50 d = map show_entry (take 50 p)" by (simp add: xread_after p_def)
  have exp: "expired now e \<Longrightarrow> expired latest e" for e using now by (auto simp: expired_def split: option.splits)
  have low: "e \<in> set p \<or> fst e \<le> j" if "e \<in> set ?es" for e using that by (auto simp: p_def not_less)
  note sound = scan_batch_sound [OF scan [unfolded x]]
  show ?thesis
  proof (cases hit)
    case None
    let ?l = "fst (last (take 50 p))"
    have tn: "take 50 p \<noteq> []" using ne x by simp
    have li: "li = show_sid ?l" and all: "\<forall>e \<in> set (take 50 p). expired now e" using sound None tn by auto
    have "last (take 50 p) \<in> set p" using last_in_set [OF tn] by (rule in_set_takeD)
    then have l: "last (take 50 p) \<in> set ?es" by (simp add: p_def)
    have "e \<in> set (take 50 p) \<or> fst e \<le> j" if "e \<in> set ?es" "fst e \<le> ?l" for e
    proof (rule ccontr)
      assume "\<not> (e \<in> set (take 50 p) \<or> fst e \<le> j)"
      with low [OF that(1)] have "e \<in> set (drop 50 p)" by (metis Un_iff append_take_drop_id set_append)
      then have "?l < fst e"
        using filter_after_last [OF entries_sorted, of 50 j "q_key topic" d] tn unfolding p_def [symmetric]
        by (metis (mono_tags, lifting) mem_Collect_eq set_filter)
      with that(2) show False by simp
    qed
    then have "settled entries latest i0 cid topic (\<lambda>x. x \<le> ?l) ?l os d"
      using s all exp l unfolding settled_def by blast
    with None li show ?thesis unfolding all_given_def by auto
  next
    case (Some f)
    then obtain pre e post where p: "take 50 p = pre @ e # post" "\<forall>x \<in> set pre. expired now x" "li = show_sid (fst e)"
      using sound by auto
    have e: "e \<in> set ?es" proof -
      have "e \<in> set (take 50 p)" using p(1) by simp
      then have "e \<in> set p" by (rule in_set_takeD)
      then show ?thesis by (simp add: p_def)
    qed
    have split: "p = pre @ e # (post @ drop 50 p)" using p(1) by (metis append.assoc append_Cons append_take_drop_id)
    have "sorted_wrt (<) (map fst p)"
      using entries_sorted [of "q_key topic" d] by (simp add: p_def sorted_wrt_map sorted_wrt_filter)
    then have "sorted_wrt (<) (map fst (pre @ e # (post @ drop 50 p)))" using split by metis
    then have "\<forall>y \<in> set (post @ drop 50 p). fst e < fst y" by (auto simp: sorted_wrt_append)
    then have later: "\<not> fst y < fst e" if "y \<in> set (e # post @ drop 50 p)" for y
      using that less_not_sym [of "fst e" "fst y"] by auto
    have dec: "x \<in> set pre \<or> x \<in> set (e # post @ drop 50 p)" if "x \<in> set p" for x
      using that by (subst (asm) split) auto
    have "x \<in> set pre \<or> fst x \<le> j" if "x \<in> set ?es" "fst x < fst e" for x
      using low [OF that(1)] dec [of x] later [of x] that(2) by blast
    then have "settled entries latest i0 cid topic (\<lambda>x. x < fst e) (fst e) os d"
      using s p(2) exp e unfolding settled_def by blast
    with Some p(3) show ?thesis unfolding but_last_given_def by auto
  qed
qed


text \<open>One command keeps what is behind the stored cursor, and behind every suspended poll.\<close>

lemma resume_poll:
  assumes r: "resume R E s d = (s', os', d')" and s: "poll_ok entries latest i0 cid topic s os d"
    and cur: "cursor_at R cid topic d i" "settled entries latest i0 cid topic (\<lambda>x. x \<le> i) i os d"
  shows "poll_ok entries latest i0 cid topic s' (os @ os') d'"
proof -
  note g = given_grows [OF resume_grows [OF r s]]
  have here: "all_given entries latest i0 cid topic (show_sid i) os d" using cur(2) by (auto simp: all_given_def)
  show ?thesis
  proof (cases s)
    case (GetCursor c envelope)
    let ?li = "case r_get R (cursor_key cid topic) d of None \<Rightarrow> ''0-0'' | Some v \<Rightarrow> v"
    have "show_sid (SID 0 0) = ''0-0''" by code_simp
    then have "?li = show_sid i" using cur(1) by (auto simp: cursor_at_def split: option.splits)
    then have "cursor_key (ca_client c) (ca_arg c) = cursor_key cid topic \<Longrightarrow> s' = ReadBatch c envelope (show_sid i)"
      using GetCursor r by (auto simp: or_refuse_def)
    moreover have "\<exists>e li. s' = Answered (Inl e) \<or> s' = ReadBatch c envelope li"
      using GetCursor r by (auto simp: or_refuse_def split: sum.splits)
    moreover have "os' = []" "d' = d" using GetCursor r by auto
    ultimately show ?thesis using GetCursor s here by auto
  next
    case (ReadBatch c envelope li)
    let ?m = "r_xread R (q_key (ca_arg c)) li 50 d"
    have eq: "os' = []" "d' = d" using ReadBatch r by (auto simp: Let_def)
    show ?thesis
    proof (cases "\<exists>hit l. s' = MoveCursor c envelope hit l")
      case True
      then obtain hit l where s': "s' = MoveCursor c envelope hit l" by blast
      with r ReadBatch have ne: "?m \<noteq> []" and scan: "scan_batch (ca_now c) ?m li = Inr (hit, l)"
        by (auto simp: Let_def or_refuse_def split: if_splits sum.splits)
      show ?thesis
      proof (cases "cursor_key (ca_client c) (ca_arg c) = cursor_key cid topic")
        case True
        with s ReadBatch obtain j where c: "ca_client c = cid" "ca_arg c = topic" "ca_now c \<le> latest"
          and j: "li = show_sid j" "settled entries latest i0 cid topic (\<lambda>x. x \<le> j) j os d"
          by (auto simp: all_given_def)
        from batch_settled [OF j(2) c(3), of hit l] scan ne c(2) j(1) c show ?thesis by (simp add: s' eq)
      qed (simp add: s')
    next
      case False
      with r ReadBatch have "\<exists>x. s' = Answered x"
        by (auto simp: Let_def or_refuse_def split: if_splits sum.splits)
      then show ?thesis by auto
    qed
  next
    case (MoveCursor c envelope hit li)
    have "s' = ReadBatch c envelope li \<and> hit = None \<or> (\<exists>x. s' = Answered x)"
      using MoveCursor r by (auto simp: Let_def split: option.splits)
    then show ?thesis using MoveCursor s g(1) by auto
  qed (use r s in \<open>auto simp: or_refuse_def Let_def split: if_splits option.splits sum.splits prod.splits\<close>)
qed


lemma resume_cursor:
  assumes r: "resume R E s d = (s', os', d')" and s: "poll_ok entries latest i0 cid topic s os d"
    and cur: "cursor_at R cid topic d i" "settled entries latest i0 cid topic (\<lambda>x. x \<le> i) i os d"
  shows "\<exists>i. cursor_at R cid topic d' i \<and> settled entries latest i0 cid topic (\<lambda>x. x \<le> i) i (os @ os') d'"
proof (cases "cursor_key cid topic \<in> touches s")
  case False
  with resume_frame [OF r] cur(1) have "cursor_at R cid topic d' i" by (simp add: cursor_at_def)
  with settled_grows [OF cur(2) resume_grows [OF r s]] show ?thesis by blast
next
  case True
  then obtain c envelope hit li where m: "s = MoveCursor c envelope hit li" "cursor_key (ca_client c) (ca_arg c) = cursor_key cid topic"
    by (cases s) auto
  with s have c: "ca_client c = cid" "ca_arg c = topic"
    and given: "if hit = None then all_given entries latest i0 cid topic li os d else but_last_given entries latest i0 cid topic li os d"
    by auto
  have d': "d' = r_set R (cursor_key cid topic) li d" and os': "hit \<noteq> None \<Longrightarrow> os' = [Given cid topic li]"
    using r m c by (auto simp: Let_def split: option.splits)
  have same: "entries (q_key topic) d' = entries (q_key topic) d" by (simp add: d' entries_set)
  from given obtain j where j: "li = show_sid j" "settled entries latest i0 cid topic (\<lambda>x. x < j) j os d"
    "hit = None \<Longrightarrow> settled entries latest i0 cid topic (\<lambda>x. x \<le> j) j os d"
  proof (cases hit)
    case None
    with given obtain j where "li = show_sid j" "settled entries latest i0 cid topic (\<lambda>x. x \<le> j) j os d"
      by (auto simp: all_given_def)
    moreover from this(2) have "settled entries latest i0 cid topic (\<lambda>x. x < j) j os d"
      unfolding settled_def by (blast intro: less_imp_le)
    ultimately show thesis by (intro that) auto
  next
    case (Some f)
    with given that show thesis by (auto simp: but_last_given_def)
  qed
  have "settled entries latest i0 cid topic (\<lambda>x. x \<le> j) j (os @ os') d'"
  proof (cases hit)
    case None
    with j(3) same show ?thesis by (simp add: settled_def)
  next
    case (Some f)
    with j os' same show ?thesis unfolding settled_def by (auto simp: le_less)
  qed
  moreover have "cursor_at R cid topic d' j" by (simp add: cursor_at_def d' j(1))
  ultimately show ?thesis by blast
qed

end



text \<open>Two polls of the same consumer, command by command in turn: both are given the entry.\<close>

definition ref_queue_db :: mem where
  "ref_queue_db = [(q_key ''t'', RStream [(SID 1 0, queue_entry 100 60 ''x'' ref_ctx)])]"

lemma ref_polls:
  "\<exists>ss d. run_schedule mem_redis ref_ext [0, 1, 0, 1, 0, 1]
      ([consume_start False (ref_call 100 ''t'' Map.empty []), consume_start False (ref_call 100 ''t'' Map.empty [])], [], ref_queue_db) =
    (ss, [Given ''dev'' ''t'' ''1-0'', Given ''dev'' ''t'' ''1-0''], d) \<and>
    r_get mem_redis (cursor_key ''dev'' ''t'') d = Some ''1-0'' \<and> mem_entries (q_key ''t'') d = [(SID 1 0, queue_entry 100 60 ''x'' ref_ctx)]"
proof -
  let ?c = "ref_call 100 ''t'' Map.empty []" and ?q = "queue_entry 100 60 ''x'' ref_ctx" and ?k = "cursor_key ''dev'' ''t''"
  have one: "show_sid (SID 1 0) = ''1-0''" and zero: "show_sid (SID 0 0) = ''0-0''" by code_simp+
  have es: "mem_entries (q_key ''t'') ref_queue_db = [(SID 1 0, ?q)]"
    by (simp add: mem_entries_def ref_queue_db_def less_stream_id_def)
  have rd: "r_xread mem_redis (q_key ''t'') ''0-0'' 50 d = [(''1-0'', ?q)]" if "mem_entries (q_key ''t'') d = [(SID 1 0, ?q)]" for d
    using mem_store.xread_after [of "q_key ''t''" "SID 0 0" 50 d] that
    by (simp add: zero one show_entry_def less_stream_id_def del: One_nat_def)
  have sc: "map_of ?q ''exp'' = Some (dec_int 160)" by (simp add: queue_entry_def)
  have st: "consume_start False ?c = GetCursor ?c False" by (simp add: consume_start_def or_refuse_def)
  have c0: "r_get mem_redis ?k ref_queue_db = None" by (simp add: ref_queue_db_def mem_redis_def mem_get_def)
  have dec: "decode_utf8 ''0-0'' = Inr ''0-0''" using decode_show_sid [of "SID 0 0"] by (simp add: zero)
  show ?thesis
    by (simp add: st c0 dec or_refuse_def Let_def rd es sc mem_store.entries_set)
qed


end
