(* ===== verification/Catalog.thy ===== *)
theory Catalog
  imports AdminData
begin

text \<open>
  \<open>tools/stra2us_cli/catalog.py\<close>: the schema of a catalog, the checks its validators make, and
  the coercion of what an operator types to the declared type of a variable.

  Pydantic turns the YAML document into the typed records below (\<open>model_validate\<close>); that step is
  an argument where it is used. What is modelled of the schema is the code of its validators: a
  field validator or a cross-field check either accepts the value or raises \<open>ValueError\<close>.
\<close>

subsection \<open>The schema\<close>

datatype scope = AppScope | DeviceScope

datatype var_type = TInt | TFloat | TString | TBool | TEnum

text \<open>An entry of the \<open>enum\<close> hint: a bare scalar or a \<open>{value, label}\<close> object.\<close>

datatype enum_entry = Bare pyval | EnumChoice (ec_value: pyval) (ec_label: string)

record cvar =
  cv_type :: var_type
  cv_scope :: "scope list"
  cv_default :: pyval                       \<comment> \<open>\<open>PNone\<close>: not set\<close>
  cv_default_per_device :: bool
  cv_default_per_platform :: bool
  cv_range :: "(pyval \<times> pyval) option"
  cv_values :: "string list option"
  cv_format :: "string option"
  cv_help :: "string option"
  cv_ops_only :: bool
  cv_read_cadence :: "string option"
  cv_enforce :: bool
  cv_enum :: "enum_entry list option"
  cv_min :: pyval
  cv_max :: pyval
  cv_step :: pyval
  cv_widget :: "string option"
  cv_multiline :: bool
  cv_max_length :: "int option"
  cv_pattern :: "string option"
  cv_help_markdown :: "string option"
  cv_write_only :: bool
  cv_encrypted :: bool
  cv_label :: "string option"

record theme =
  th_primary_color :: "string option"
  th_accent_color :: "string option"
  th_bg_color :: "string option"
  th_text_color :: "string option"
  th_font_family :: "string option"
  th_logo_asset :: "string option"
  th_logo_alt :: "string option"
  th_product_name :: "string option"
  th_favicon_asset :: "string option"

record ui =
  ui_header_markdown :: "string option"
  ui_footer_markdown :: "string option"

record catalog =
  ca_app :: string
  ca_vars :: "(string \<times> cvar) list"
  ca_version :: int
  ca_theme :: "theme option"
  ca_ui :: "ui option"
  ca_telemetry_topic :: "string option"
  ca_heartbeat_interval_seconds :: "int option"

subsection \<open>The validators\<close>

abbreviation value_error :: "'a res" where
  "value_error \<equiv> Inl (PyExn ''ValueError'')"

definition guard :: "bool \<Rightarrow> unit res" where
  "guard ok = (if ok then Inr () else value_error)"

lemma guard_Inr [simp]: "guard ok = Inr u \<longleftrightarrow> ok"
  by (simp add: guard_def)

text \<open>\<open>VAR_NAME_RE\<close> and \<open>APP_NAME_RE\<close> with \<open>match\<close>: the dollar sign also matches before a final line feed.\<close>

definition name_body :: "string \<Rightarrow> bool" where
  "name_body s \<longleftrightarrow> s \<noteq> [] \<and> is_lower (hd s) \<and> list_all (\<lambda>c. is_lower c \<or> is_digit c \<or> c = CHR ''_'') (tl s)"

definition name_matches :: "string \<Rightarrow> bool" where
  "name_matches s \<longleftrightarrow> name_body s \<or> (s \<noteq> [] \<and> last s = NL \<and> name_body (butlast s))"

definition label_nonempty :: "string option \<Rightarrow> unit res" where
  "label_nonempty v = guard (case v of None \<Rightarrow> True | Some s \<Rightarrow> strip s \<noteq> [])"

definition unique_scope :: "scope list \<Rightarrow> unit res" where
  "unique_scope v = guard (distinct v)"

text \<open>The validator that runs before pydantic's own conversion, on the raw entry.\<close>

definition is_bool :: "pyval \<Rightarrow> bool" where
  "is_bool v = (case v of PBool _ \<Rightarrow> True | _ \<Rightarrow> False)"

definition reject_yaml_truthy_enum :: "pyval \<Rightarrow> unit res" where
  "reject_yaml_truthy_enum v =
     guard (case v of
        PList es \<Rightarrow> list_all (\<lambda>e. \<not> is_bool e \<and> (case e of PDict d \<Rightarrow> \<not> is_bool (dval d ''value'') | _ \<Rightarrow> True)) es
      | _ \<Rightarrow> True)"

text \<open>Numbers as they compare in Python; a \<open>bool\<close> is a number too.\<close>

definition num_val :: "pyval \<Rightarrow> rat option" where
  "num_val v = (case v of PInt i \<Rightarrow> Some (of_int i) | PFloat r \<Rightarrow> Some r
     | PBool b \<Rightarrow> Some (if b then 1 else 0) | _ \<Rightarrow> None)"

text \<open>\<open>a < b\<close>; values that are no numbers are not compared by the schema's types.\<close>

definition num_less :: "pyval \<Rightarrow> pyval \<Rightarrow> bool" where
  "num_less a b = (case (num_val a, num_val b) of (Some x, Some y) \<Rightarrow> x < y | _ \<Rightarrow> False)"

definition is_int_v :: "pyval \<Rightarrow> bool" where
  "is_int_v v = (case v of PInt _ \<Rightarrow> True | PBool _ \<Rightarrow> True | _ \<Rightarrow> False)"

definition is_num_v :: "pyval \<Rightarrow> bool" where
  "is_num_v v = (num_val v \<noteq> None)"

text \<open>\<open>isinstance\<close> of the default against the declared type.\<close>

definition default_type_ok :: "var_type \<Rightarrow> pyval \<Rightarrow> bool" where
  "default_type_ok t v =
     (case t of TInt \<Rightarrow> is_int_v v | TFloat \<Rightarrow> is_num_v v | TString \<Rightarrow> is_str v | TBool \<Rightarrow> is_bool v | TEnum \<Rightarrow> is_str v)"

definition cross_field_checks :: "cvar \<Rightarrow> unit res" where
  "cross_field_checks v =
     (let t = cv_type v; dflt = cv_default v in
      bind_res (guard (length (filter id [dflt \<noteq> PNone, cv_default_per_device v, cv_default_per_platform v]) \<le> 1)) (\<lambda>_.
      bind_res (case cv_range v of None \<Rightarrow> Inr ()
                | Some (lo, hi) \<Rightarrow> guard ((t = TInt \<or> t = TFloat) \<and> \<not> num_less hi lo)) (\<lambda>_.
      bind_res (if t = TEnum then
                  (case cv_values v of None \<Rightarrow> value_error
                   | Some vs \<Rightarrow> guard (vs \<noteq> [] \<and> distinct vs \<and> (dflt \<noteq> PNone \<longrightarrow> dflt \<in> PStr ` set vs)))
                else guard (cv_values v = None)) (\<lambda>_.
      bind_res (guard (dflt \<noteq> PNone \<longrightarrow> default_type_ok t dflt)) (\<lambda>_.
      (case cv_range v of
         Some (lo, hi) \<Rightarrow>
           guard (is_num_v dflt \<and> \<not> is_bool dflt \<longrightarrow> \<not> num_less dflt lo \<and> \<not> num_less hi dflt)
       | None \<Rightarrow> Inr ()))))))"

definition app_shape :: "string \<Rightarrow> unit res" where
  "app_shape v = guard (name_matches v)"

definition var_names :: "(string \<times> cvar) list \<Rightarrow> unit res" where
  "var_names vars = guard (vars \<noteq> [] \<and> list_all (\<lambda>(n, _). name_matches n) vars)"

definition telemetry_topic_shape :: "string option \<Rightarrow> unit res" where
  "telemetry_topic_shape v =
     (case v of None \<Rightarrow> Inr ()
      | Some s \<Rightarrow> guard (strip s \<noteq> [] \<and> \<not> prefix ''q:'' s \<and> \<not> prefix ''kv:'' s
                        \<and> \<not> prefix ''/'' s \<and> \<not> suffix ''/'' s))"

definition heartbeat_positive :: "int option \<Rightarrow> unit res" where
  "heartbeat_positive v = (case v of None \<Rightarrow> Inr () | Some n \<Rightarrow> guard (0 < n))"

text \<open>All validators of a typed catalog accept.\<close>

definition var_valid :: "cvar \<Rightarrow> bool" where
  "var_valid v \<longleftrightarrow> is_ok (label_nonempty (cv_label v)) \<and> cv_scope v \<noteq> [] \<and> is_ok (unique_scope (cv_scope v))
     \<and> is_ok (cross_field_checks v)"

definition catalog_valid :: "catalog \<Rightarrow> bool" where
  "catalog_valid c \<longleftrightarrow> is_ok (app_shape (ca_app c)) \<and> is_ok (var_names (ca_vars c))
     \<and> is_ok (telemetry_topic_shape (ca_telemetry_topic c)) \<and> is_ok (heartbeat_positive (ca_heartbeat_interval_seconds c))
     \<and> list_all (\<lambda>(_, v). var_valid v) (ca_vars c)"

subsection \<open>Loading a catalog file\<close>

abbreviation catalog_error :: exn where
  "catalog_error \<equiv> PyExn ''CatalogError''"

text \<open>The content of the file, when there is one.\<close>

definition load_catalog :: "ext \<Rightarrow> (pyval \<Rightarrow> catalog option) \<Rightarrow> string option \<Rightarrow> catalog res" where
  "load_catalog E model_validate file =
     (case file of
        None \<Rightarrow> Inl catalog_error
      | Some text \<Rightarrow>
         (case e_yaml E text of
            None \<Rightarrow> Inl catalog_error
          | Some doc \<Rightarrow>
             if \<not> is_dict doc then Inl catalog_error
             else (case model_validate doc of None \<Rightarrow> Inl catalog_error | Some c \<Rightarrow> Inr c)))"

subsection \<open>Coercing a value\<close>

definition bool_true :: "string list" where
  "bool_true = [''true'', ''1'', ''yes'', ''y'', ''on'']"

definition bool_false :: "string list" where
  "bool_false = [''false'', ''0'', ''no'', ''n'', ''off'']"

definition coerce_raw :: "cvar \<Rightarrow> string \<Rightarrow> pyval res" where
  "coerce_raw v raw =
     (case cv_type v of
        TInt \<Rightarrow> (case py_int raw of None \<Rightarrow> Inl catalog_error | Some i \<Rightarrow> Inr (PInt i))
      | TFloat \<Rightarrow> (case py_float raw of None \<Rightarrow> Inl catalog_error | Some r \<Rightarrow> Inr (PFloat r))
      | TBool \<Rightarrow>
          (let s = lower (strip raw) in
           if s \<in> set bool_true then Inr (PBool True)
           else if s \<in> set bool_false then Inr (PBool False)
           else Inl catalog_error)
      | TEnum \<Rightarrow>
          (case cv_values v of
             None \<Rightarrow> Inl (PyExn ''AssertionError'')
           | Some vs \<Rightarrow> if raw \<in> set vs then Inr (PStr raw) else Inl catalog_error)
      | TString \<Rightarrow> Inr (PStr raw))"

definition coerce_value :: "cvar \<Rightarrow> string \<Rightarrow> pyval res" where
  "coerce_value v raw =
     bind_res (coerce_raw v raw) (\<lambda>x.
     (case cv_range v of
        Some (lo, hi) \<Rightarrow>
          if is_num_v x \<and> \<not> is_bool x \<and> (num_less x lo \<or> num_less hi x) then Inl catalog_error else Inr x
      | None \<Rightarrow> Inr x))"

definition kv_path :: "string \<Rightarrow> string \<Rightarrow> string option \<Rightarrow> string" where
  "kv_path app key device =
     (case device of None \<Rightarrow> app @ ''/public/'' @ key | Some d \<Rightarrow> app @ ''/'' @ d @ ''/'' @ key)"

subsection \<open>Coerced values have the declared type\<close>

lemma cross_field_facts:
  assumes "is_ok (cross_field_checks v)"
  shows "cv_range v = Some (lo, hi) \<Longrightarrow> cv_type v = TInt \<or> cv_type v = TFloat"
    and "cv_type v = TEnum \<Longrightarrow> \<exists>vs. cv_values v = Some vs \<and> (cv_default v \<noteq> PNone \<longrightarrow> cv_default v \<in> PStr ` set vs)"
    and "cv_default v \<noteq> PNone \<Longrightarrow> default_type_ok (cv_type v) (cv_default v)"
    and "cv_range v = Some (lo, hi) \<Longrightarrow> is_num_v (cv_default v) \<Longrightarrow> \<not> is_bool (cv_default v) \<Longrightarrow>
      \<not> num_less (cv_default v) lo \<and> \<not> num_less hi (cv_default v)"
proof -
  have "cross_field_checks v = Inr ()" using assms by (cases "cross_field_checks v") auto
  note checks = this [unfolded cross_field_checks_def Let_def bind_res_Inr_iff guard_Inr]
  show "cv_range v = Some (lo, hi) \<Longrightarrow> cv_type v = TInt \<or> cv_type v = TFloat" using checks by auto
  show "cv_type v = TEnum \<Longrightarrow> \<exists>vs. cv_values v = Some vs \<and> (cv_default v \<noteq> PNone \<longrightarrow> cv_default v \<in> PStr ` set vs)"
    using checks by (auto split: option.splits)
  show "cv_default v \<noteq> PNone \<Longrightarrow> default_type_ok (cv_type v) (cv_default v)" using checks by blast
  show "cv_range v = Some (lo, hi) \<Longrightarrow> is_num_v (cv_default v) \<Longrightarrow> \<not> is_bool (cv_default v) \<Longrightarrow>
      \<not> num_less (cv_default v) lo \<and> \<not> num_less hi (cv_default v)" using checks by auto
qed

lemma coerce_raw_type:
  "coerce_raw v raw = Inr x \<Longrightarrow> default_type_ok (cv_type v) x \<and> (is_num_v x \<and> \<not> is_bool x \<longleftrightarrow> cv_type v \<in> {TInt, TFloat})"
  by (auto simp: coerce_raw_def default_type_ok_def is_int_v_def is_num_v_def num_val_def is_bool_def Let_def
      split: var_type.splits option.splits if_splits)

lemma lower_bool_str: "lower (strip ''True'') = ''true''" "lower (strip ''False'') = ''false''"
  by code_simp+

lemma coerce_raw_default:
  assumes "default_type_ok (cv_type v) x" and "is_bool x \<longleftrightarrow> cv_type v = TBool" and "cv_type v \<noteq> TFloat"
    and "cv_type v = TEnum \<Longrightarrow> \<exists>vs. cv_values v = Some vs \<and> x \<in> PStr ` set vs"
  shows "coerce_raw v (py_str E x) = Inr x"
  using assms
  by (cases "cv_type v"; cases x)
    (auto simp: coerce_raw_def default_type_ok_def is_int_v_def is_bool_def py_str_def lower_bool_str
      bool_true_def bool_false_def Let_def)


definition ref_cvar :: cvar where
  "ref_cvar = \<lparr>cv_type = TInt, cv_scope = [AppScope], cv_default = PInt 10, cv_default_per_device = False,
     cv_default_per_platform = False, cv_range = Some (PInt 0, PInt 60), cv_values = None, cv_format = None,
     cv_help = None, cv_ops_only = False, cv_read_cadence = None, cv_enforce = False, cv_enum = None,
     cv_min = PNone, cv_max = PNone, cv_step = PNone, cv_widget = None, cv_multiline = False,
     cv_max_length = None, cv_pattern = None, cv_help_markdown = None, cv_write_only = False,
     cv_encrypted = False, cv_label = None\<rparr>"


end
