(* ===== verification/CatalogLint.thy ===== *)
theory CatalogLint
  imports Catalog
begin

text \<open>
  \<open>tools/stra2us_cli/catalog_lint.py\<close>: the lint that both the command line and the server run on
  a catalog, rule by rule, and the lint of an asset bundle. The limits that the environment may
  override are the record \<open>lint_config\<close>; \<open>default_config\<close> has the values without overrides. A
  message is not modelled, an issue is its severity and path. Whether a regular expression
  compiles is the argument \<open>compiles\<close>.
\<close>

datatype severity = Error | Warning

record issue =
  is_severity :: severity
  is_path :: string

abbreviation err :: "string \<Rightarrow> issue" where
  "err p \<equiv> \<lparr>is_severity = Error, is_path = p\<rparr>"

abbreviation warn :: "string \<Rightarrow> issue" where
  "warn p \<equiv> \<lparr>is_severity = Warning, is_path = p\<rparr>"

text \<open>The issue of a failed condition.\<close>

definition unless :: "bool \<Rightarrow> issue \<Rightarrow> issue list" where
  "unless ok i = (if ok then [] else [i])"

subsection \<open>Configuration\<close>

definition env_int :: "string option \<Rightarrow> int \<Rightarrow> int" where
  "env_int raw dflt =
     (case raw of None \<Rightarrow> dflt
      | Some s \<Rightarrow> if s = [] then dflt else (case py_int s of None \<Rightarrow> dflt | Some i \<Rightarrow> i))"

definition env_set :: "string option \<Rightarrow> string \<Rightarrow> string list" where
  "env_set raw dflt =
     (let text = (case raw of None \<Rightarrow> dflt | Some s \<Rightarrow> if s = [] then dflt else s) in
      filter (\<lambda>s. s \<noteq> []) (map strip (split_on CHR '','' text)))"

record lint_config =
  markdown_max_bytes :: int
  asset_max_bytes :: int
  asset_bundle_max_bytes :: int
  asset_content_types :: "string list"
  theme_font_allowlist :: "string list"

definition default_config :: lint_config where
  "default_config =
     \<lparr>markdown_max_bytes = env_int None 4096, asset_max_bytes = env_int None 262144,
      asset_bundle_max_bytes = env_int None 2097152,
      asset_content_types = env_set None ''image/svg+xml,image/png,image/jpeg,image/webp'',
      theme_font_allowlist = env_set None ''system-ui,sans-serif,serif,monospace''\<rparr>"

definition LOGO_ALT_MAX_LEN :: nat where "LOGO_ALT_MAX_LEN = 100"

definition PRODUCT_NAME_MAX_LEN :: nat where "PRODUCT_NAME_MAX_LEN = 60"

text \<open>\<open>HEX_COLOR_RE.match\<close>, with the final line feed the dollar sign lets through.\<close>

definition hex_body :: "string \<Rightarrow> bool" where
  "hex_body s \<longleftrightarrow>
     (case s of [] \<Rightarrow> False
      | c # r \<Rightarrow> c = CHR ''#'' \<and> list_all is_hex_char r \<and> length r \<in> {3, 4, 6, 8})"

definition hex_color_match :: "string \<Rightarrow> bool" where
  "hex_color_match s \<longleftrightarrow> hex_body s \<or> (s \<noteq> [] \<and> last s = NL \<and> hex_body (butlast s))"

definition has_ctrl :: "string \<Rightarrow> bool" where
  "has_ctrl s \<longleftrightarrow> list_ex (\<lambda>c. of_char c < (32 :: nat) \<or> of_char c = (127 :: nat)) s"

subsection \<open>Rules of a variable\<close>

fun entry_value :: "enum_entry \<Rightarrow> pyval" where
  "entry_value (Bare v) = v"
| "entry_value (EnumChoice v l) = v"

fun entry_label :: "ext \<Rightarrow> enum_entry \<Rightarrow> string" where
  "entry_label E (Bare v) = py_str E v"
| "entry_label E (EnumChoice v l) = l"

fun is_choice :: "enum_entry \<Rightarrow> bool" where
  "is_choice (Bare v) = False"
| "is_choice (EnumChoice v l) = True"

definition index_path :: "string \<Rightarrow> nat \<Rightarrow> string" where
  "index_path base i = base @ ''['' @ dec_nat i @ '']''"

fun lint_entries :: "ext \<Rightarrow> var_type \<Rightarrow> string \<Rightarrow> nat \<Rightarrow> enum_entry list \<Rightarrow> pyval list \<Rightarrow> string list \<Rightarrow> issue list" where
  "lint_entries E t base i [] seen_values seen_labels = []"
| "lint_entries E t base i (e # es) seen_values seen_labels =
     (let v = entry_value e; label = entry_label E e in
      unless (t = TInt \<longrightarrow> is_int_v v) (err (index_path base i @ ''.value''))
      @ unless (t = TString \<longrightarrow> is_str v) (err (index_path base i @ ''.value''))
      @ unless (v \<notin> set seen_values) (warn (index_path base i))
      @ unless (label \<notin> set seen_labels) (warn (index_path base i @ ''.label''))
      @ lint_entries E t base (i + 1) es (v # seen_values) (label # seen_labels))"

definition lint_field_enum :: "ext \<Rightarrow> cvar \<Rightarrow> string \<Rightarrow> issue list" where
  "lint_field_enum E var name =
     (let base = ''vars.'' @ name @ ''.enum'' in
      case cv_enum var of
        None \<Rightarrow> []
      | Some es \<Rightarrow>
         if cv_type var \<notin> {TInt, TString} then [err base]
         else if es = [] then [err base]
         else
           unless (\<not> (list_ex is_choice es \<and> list_ex (\<lambda>e. \<not> is_choice e) es)) (err base)
           @ unless (\<not> (cv_type var = TInt \<and> (cv_min var \<noteq> PNone \<or> cv_max var \<noteq> PNone))) (err base)
           @ lint_entries E (cv_type var) base 0 es [] [])"

definition var_numeric :: "cvar \<Rightarrow> bool" where
  "var_numeric var \<longleftrightarrow> cv_type var \<in> {TInt, TFloat}"

definition var_stringy :: "cvar \<Rightarrow> bool" where
  "var_stringy var \<longleftrightarrow> cv_type var = TString"

definition lint_field_numeric_bounds :: "cvar \<Rightarrow> string \<Rightarrow> issue list" where
  "lint_field_numeric_bounds var name =
     (let base = ''vars.'' @ name in
      concat (map (\<lambda>(hint, v). unless (v = PNone \<or> var_numeric var) (err (base @ ''.'' @ hint)))
        [(''min'', cv_min var), (''max'', cv_max var), (''step'', cv_step var)])
      @ unless (\<not> (cv_min var \<noteq> PNone \<and> cv_max var \<noteq> PNone \<and> num_less (cv_max var) (cv_min var))) (err base))"

definition lint_field_widget :: "cvar \<Rightarrow> string \<Rightarrow> issue list" where
  "lint_field_widget var name =
     (let base = ''vars.'' @ name @ ''.widget'' in
      case cv_widget var of
        None \<Rightarrow> []
      | Some w \<Rightarrow>
         if w = ''slider'' then
           (if cv_type var \<noteq> TInt then [err base]
            else unless (cv_min var \<noteq> PNone \<and> cv_max var \<noteq> PNone) (warn base))
         else if w = ''secret'' then unless (var_stringy var) (err base)
         else if w = ''radio'' then unless (cv_type var = TBool \<or> cv_enum var \<noteq> None) (err base)
         else [])"

definition lint_field_secret_pairing :: "cvar \<Rightarrow> string \<Rightarrow> issue list" where
  "lint_field_secret_pairing var name =
     (let base = ''vars.'' @ name; secret = (cv_widget var = Some ''secret'') in
      unless (cv_encrypted var \<longrightarrow> secret) (warn (base @ ''.encrypted''))
      @ unless (secret \<longrightarrow> cv_encrypted var) (warn (base @ ''.widget''))
      @ unless (secret \<longrightarrow> cv_write_only var) (warn (base @ ''.widget'')))"

definition lint_field_string_only :: "(string \<Rightarrow> bool) \<Rightarrow> cvar \<Rightarrow> string \<Rightarrow> issue list" where
  "lint_field_string_only compiles var name =
     (let base = ''vars.'' @ name in
      concat (map (\<lambda>(hint, used). unless (used \<longrightarrow> var_stringy var) (err (base @ ''.'' @ hint)))
        [(''multiline'', cv_multiline var),
         (''max_length'', cv_max_length var \<notin> {None, Some 0}),
         (''pattern'', cv_pattern var \<notin> {None, Some []}),
         (''write_only'', cv_write_only var)])
      @ unless (case cv_max_length var of None \<Rightarrow> True | Some n \<Rightarrow> 0 < n) (err (base @ ''.max_length''))
      @ unless (case cv_pattern var of None \<Rightarrow> True | Some p \<Rightarrow> compiles p) (err (base @ ''.pattern'')))"

definition lint_field_help_markdown :: "lint_config \<Rightarrow> cvar \<Rightarrow> string \<Rightarrow> issue list" where
  "lint_field_help_markdown K var name =
     (case cv_help_markdown var of None \<Rightarrow> []
      | Some s \<Rightarrow> unless (int (length s) \<le> markdown_max_bytes K) (err (''vars.'' @ name @ ''.help_markdown'')))"

subsection \<open>Rules of the theme and the markdown blocks\<close>

definition lint_theme_color :: "string \<times> string option \<Rightarrow> issue list" where
  "lint_theme_color = (\<lambda>(path, v). case v of None \<Rightarrow> [] | Some s \<Rightarrow> unless (hex_color_match s) (err path))"

definition lint_asset_ref :: "string list option \<Rightarrow> string \<Rightarrow> string option \<Rightarrow> issue list" where
  "lint_asset_ref listing path v =
     (case v of None \<Rightarrow> []
      | Some f \<Rightarrow>
         if \<not> filename_match f then [err path]
         else (case listing of None \<Rightarrow> [] | Some fs \<Rightarrow> unless (f \<in> set fs) (err path)))"

definition lint_plain_text :: "nat \<Rightarrow> string \<Rightarrow> string option \<Rightarrow> issue list" where
  "lint_plain_text max_len path v =
     (case v of None \<Rightarrow> []
      | Some s \<Rightarrow> unless (str_len s \<le> max_len) (err path) @ unless (\<not> has_ctrl s) (err path))"

definition lint_theme :: "lint_config \<Rightarrow> catalog \<Rightarrow> string list option \<Rightarrow> issue list" where
  "lint_theme K cat listing =
     (case ca_theme cat of
        None \<Rightarrow> []
      | Some th \<Rightarrow>
         concat (map lint_theme_color
           [(''theme.primary_color'', th_primary_color th), (''theme.accent_color'', th_accent_color th),
            (''theme.bg_color'', th_bg_color th), (''theme.text_color'', th_text_color th)])
         @ (case th_font_family th of None \<Rightarrow> []
            | Some f \<Rightarrow> unless (f \<in> set (theme_font_allowlist K)) (err ''theme.font_family''))
         @ lint_asset_ref listing ''theme.logo_asset'' (th_logo_asset th)
         @ lint_asset_ref listing ''theme.favicon_asset'' (th_favicon_asset th)
         @ lint_plain_text LOGO_ALT_MAX_LEN ''theme.logo_alt'' (th_logo_alt th)
         @ lint_plain_text PRODUCT_NAME_MAX_LEN ''theme.product_name'' (th_product_name th))"

definition lint_ui :: "lint_config \<Rightarrow> catalog \<Rightarrow> issue list" where
  "lint_ui K cat =
     (case ca_ui cat of
        None \<Rightarrow> []
      | Some u \<Rightarrow>
         concat (map (\<lambda>(key, v). case v of None \<Rightarrow> []
             | Some s \<Rightarrow> unless (int (length s) \<le> markdown_max_bytes K) (err (''ui.'' @ key)))
           [(''header_markdown'', ui_header_markdown u), (''footer_markdown'', ui_footer_markdown u)]))"

subsection \<open>The entry points\<close>

definition lint_var :: "lint_config \<Rightarrow> ext \<Rightarrow> (string \<Rightarrow> bool) \<Rightarrow> string \<times> cvar \<Rightarrow> issue list" where
  "lint_var K E compiles = (\<lambda>(name, var).
     lint_field_enum E var name @ lint_field_numeric_bounds var name @ lint_field_widget var name
     @ lint_field_secret_pairing var name @ lint_field_string_only compiles var name
     @ lint_field_help_markdown K var name)"

definition referenced_assets :: "catalog \<Rightarrow> string list" where
  "referenced_assets cat =
     (case ca_theme cat of
        None \<Rightarrow> []
      | Some th \<Rightarrow> filter (\<lambda>s. s \<noteq> []) (List.map_filter id [th_logo_asset th, th_favicon_asset th]))"

definition lint_unused :: "catalog \<Rightarrow> string list option \<Rightarrow> issue list" where
  "lint_unused cat listing =
     (case listing of None \<Rightarrow> []
      | Some fs \<Rightarrow> map (\<lambda>f. warn (''_assets/'' @ f)) (sort (remdups (filter (\<lambda>f. f \<notin> set (referenced_assets cat)) fs))))"

definition lint_catalog :: "lint_config \<Rightarrow> ext \<Rightarrow> (string \<Rightarrow> bool) \<Rightarrow> catalog \<Rightarrow> string list option \<Rightarrow> issue list" where
  "lint_catalog K E compiles cat listing =
     concat (map (lint_var K E compiles) (ca_vars cat))
     @ lint_theme K cat listing @ lint_ui K cat @ lint_unused cat listing"

record asset =
  as_filename :: string
  as_content_type :: string
  as_size :: int

fun lint_assets :: "lint_config \<Rightarrow> asset list \<Rightarrow> string list \<Rightarrow> int \<Rightarrow> issue list" where
  "lint_assets K [] seen acc = unless (acc \<le> asset_bundle_max_bytes K) (err ''_assets/'')"
| "lint_assets K (a # as) seen acc =
     (let path = ''_assets/'' @ as_filename a in
      unless (filename_match (as_filename a)) (err path)
      @ unless (as_filename a \<notin> set seen) (err path)
      @ unless (as_content_type a \<in> set (asset_content_types K)) (err path)
      @ unless (as_size a \<le> asset_max_bytes K) (err path)
      @ lint_assets K as (as_filename a # seen) (acc + as_size a))"

definition lint_asset_bundle :: "lint_config \<Rightarrow> asset list \<Rightarrow> issue list" where
  "lint_asset_bundle K assets = lint_assets K assets [] 0"

definition lint_errors :: "issue list \<Rightarrow> issue list" where
  "lint_errors issues = filter (\<lambda>i. is_severity i = Error) issues"

definition lint_warnings :: "issue list \<Rightarrow> issue list" where
  "lint_warnings issues = filter (\<lambda>i. is_severity i = Warning) issues"

subsection \<open>What a clean bundle guarantees\<close>

lemma unless_errors [simp]: "lint_errors (unless ok i) = (if ok \<or> is_severity i = Warning then [] else [i])"
  by (cases "is_severity i") (simp_all add: unless_def lint_errors_def)

lemma lint_errors_append [simp]: "lint_errors (xs @ ys) = lint_errors xs @ lint_errors ys"
  by (simp add: lint_errors_def)

lemma lint_assets_clean:
  assumes "lint_errors (lint_assets K as seen acc) = []"
  shows "distinct (map as_filename as) \<and> set (map as_filename as) \<inter> set seen = {} \<and>
    (\<forall>a \<in> set as. filename_match (as_filename a) \<and> as_content_type a \<in> set (asset_content_types K)
       \<and> as_size a \<le> asset_max_bytes K) \<and>
    acc + sum_list (map as_size as) \<le> asset_bundle_max_bytes K"
  using assms
proof (induction as arbitrary: seen acc)
  case (Cons a as)
  then show ?case by (fastforce simp: Let_def split: if_splits)
qed (simp split: if_splits)

end
