(* ===== verification/CatalogPublish.thy ===== *)
theory CatalogPublish
  imports Client CatalogLint
begin

text \<open>
  \<open>tools/stra2us_cli/catalog_publish.py\<close>: loading the asset directory of a catalog and
  publishing the bundle over the signed client, asset by asset, then the catalog as the commit
  point, then the listing, then the removal of what was dropped.

  The directory is the list of its entries (name, whether a file, content); the SVG sanitizer is
  an argument. \<open>lossy_net\<close> is the network to the modelled server that may lose any request or any
  response; over it the order of the writes is what keeps the catalog and its assets together.
  A value read back is compared as a value of the types msgpack decodes to.
\<close>

subsection \<open>Keys\<close>

definition bytes_key :: "string \<Rightarrow> string \<Rightarrow> string" where
  "bytes_key app filename = ''_catalog/'' @ app @ ''/_assets/'' @ filename"

definition meta_key :: "string \<Rightarrow> string \<Rightarrow> string" where
  "meta_key app filename = ''_catalog/'' @ app @ ''/_assets/'' @ filename @ ''.meta''"

definition index_key :: "string \<Rightarrow> string" where
  "index_key app = ''_catalog/'' @ app @ ''/_assets_index''"

definition catalog_key :: "string \<Rightarrow> string" where
  "catalog_key app = ''_catalog/'' @ app"

subsection \<open>The asset directory\<close>

record loaded_asset =
  la_filename :: string
  la_content_type :: string
  la_payload :: string
  la_sha256_hex :: string
  la_size :: int

abbreviation publish_error :: exn where
  "publish_error \<equiv> PyExn ''PublishError''"

definition SUFFIX_TO_CONTENT_TYPE :: "(string \<times> string) list" where
  "SUFFIX_TO_CONTENT_TYPE =
     [(''.svg'', ''image/svg+xml''), (''.png'', ''image/png''), (''.jpg'', ''image/jpeg''),
      (''.jpeg'', ''image/jpeg''), (''.webp'', ''image/webp'')]"

text \<open>\<open>Path(name).suffix\<close>: from the last dot, when there is text on both sides of it.\<close>

definition path_suffix :: "string \<Rightarrow> string" where
  "path_suffix name =
     (case rsplit1 CHR ''.'' name of
        None \<Rightarrow> [] | Some (a, b) \<Rightarrow> if a = [] \<or> b = [] then [] else CHR ''.'' # b)"

definition content_type_for :: "string \<Rightarrow> string option" where
  "content_type_for filename = map_of SUFFIX_TO_CONTENT_TYPE (lower (path_suffix filename))"

text \<open>One file; \<open>sanitize_svg\<close> gives \<open>None\<close> when it raises.\<close>

definition load_asset :: "ext \<Rightarrow> (string \<Rightarrow> string option) \<Rightarrow> string \<times> string \<Rightarrow> loaded_asset res" where
  "load_asset E sanitize_svg = (\<lambda>(filename, raw).
     let ctype = content_type_for filename in
     bind_res (if ctype = Some ''image/svg+xml''
               then (case sanitize_svg raw of None \<Rightarrow> Inl publish_error | Some cleaned \<Rightarrow> Inr cleaned)
               else Inr raw) (\<lambda>payload.
     Inr \<lparr>la_filename = filename,
          la_content_type = (case ctype of None \<Rightarrow> ''application/octet-stream'' | Some t \<Rightarrow> t),
          la_payload = payload, la_sha256_hex = to_hex (e_sha256 E payload), la_size = int (length payload)\<rparr>))"

definition discover_assets ::
    "ext \<Rightarrow> (string \<Rightarrow> string option) \<Rightarrow> (string \<times> bool \<times> string) list \<Rightarrow> loaded_asset list res" where
  "discover_assets E sanitize_svg dir =
     map_res (load_asset E sanitize_svg)
       (map (\<lambda>(n, _, raw). (n, raw)) (filter (\<lambda>(_, is_file, _). is_file) (sort_key fst dir)))"

definition lint_loaded :: "lint_config \<Rightarrow> loaded_asset list \<Rightarrow> issue list" where
  "lint_loaded K assets =
     lint_asset_bundle K
       (map (\<lambda>a. \<lparr>as_filename = la_filename a, as_content_type = la_content_type a, as_size = la_size a\<rparr>) assets)"

subsection \<open>Publishing\<close>

text \<open>The previous listing; empty when it cannot be read or has another shape.\<close>

definition str_list :: "pyval \<Rightarrow> string list" where
  "str_list v =
     (case v of PList xs \<Rightarrow> if list_all is_str xs then map (\<lambda>x. case x of PStr s \<Rightarrow> s | _ \<Rightarrow> []) xs else []
      | _ \<Rightarrow> [])"

definition existing_index ::
    "'w net \<Rightarrow> ext \<Rightarrow> stra2us_client \<Rightarrow> string \<Rightarrow> 'w \<Rightarrow> string list res \<times> 'w" where
  "existing_index N E c app w =
     (case client_get N E c (index_key app) w of
        (Inl e, w1) \<Rightarrow> (if e = stra2us_error then Inr [] else Inl e, w1)
      | (Inr v, w1) \<Rightarrow> (Inr (str_list v), w1))"

text \<open>\<open>except Stra2usError as e: raise PublishError\<close>\<close>

definition as_publish_error :: "'a res \<Rightarrow> 'a res" where
  "as_publish_error r = (case r of Inl e \<Rightarrow> Inl (if e = stra2us_error then publish_error else e) | Inr v \<Rightarrow> Inr v)"

definition put_and_verify ::
    "'w net \<Rightarrow> ext \<Rightarrow> stra2us_client \<Rightarrow> string \<Rightarrow> pyval \<Rightarrow> 'w \<Rightarrow> unit res \<times> 'w" where
  "put_and_verify N E c key v w =
     (case client_put N E c key v False w of
        (Inl e, w1) \<Rightarrow> (as_publish_error (Inl e), w1)
      | (Inr _, w1) \<Rightarrow>
         (case client_get N E c key w1 of
            (Inl e, w2) \<Rightarrow> (as_publish_error (Inl e), w2)
          | (Inr observed, w2) \<Rightarrow> (if observed \<noteq> v then Inl publish_error else Inr (), w2)))"

definition asset_meta :: "loaded_asset \<Rightarrow> pyval" where
  "asset_meta a =
     PDict [(''content_type'', PStr (la_content_type a)), (''sha256'', PStr (la_sha256_hex a)), (''size'', PInt (la_size a))]"

fun put_assets ::
    "'w net \<Rightarrow> ext \<Rightarrow> stra2us_client \<Rightarrow> string \<Rightarrow> loaded_asset list \<Rightarrow> 'w \<Rightarrow> unit res \<times> 'w" where
  "put_assets N E c app [] w = (Inr (), w)"
| "put_assets N E c app (a # as) w =
     and_then (put_and_verify N E c (bytes_key app (la_filename a)) (PBytes (la_payload a)) w) (\<lambda>_ w1.
     and_then (put_and_verify N E c (meta_key app (la_filename a)) (asset_meta a) w1) (\<lambda>_ w2.
     put_assets N E c app as w2))"

fun delete_dropped ::
    "'w net \<Rightarrow> ext \<Rightarrow> stra2us_client \<Rightarrow> string \<Rightarrow> string list \<Rightarrow> 'w \<Rightarrow> unit res \<times> 'w" where
  "delete_dropped N E c app [] w = (Inr (), w)"
| "delete_dropped N E c app (f # fs) w =
     (case and_then (client_delete N E c (bytes_key app f) w) (\<lambda>_ w1. client_delete N E c (meta_key app f) w1) of
        (Inl e, w2) \<Rightarrow> (as_publish_error (Inl e), w2)
      | (Inr _, w2) \<Rightarrow> delete_dropped N E c app fs w2)"

record publish_summary =
  ps_uploaded :: nat
  ps_dropped :: "string list"

definition new_listing :: "loaded_asset list \<Rightarrow> string list" where
  "new_listing assets = sort (map la_filename assets)"

definition dropped_files :: "string list \<Rightarrow> string list \<Rightarrow> string list" where
  "dropped_files old new = sort (remdups (filter (\<lambda>f. f \<notin> set new) old))"

definition publish_assets ::
    "'w net \<Rightarrow> ext \<Rightarrow> stra2us_client \<Rightarrow> string \<Rightarrow> loaded_asset list \<Rightarrow> string \<Rightarrow> 'w \<Rightarrow> publish_summary res \<times> 'w" where
  "publish_assets N E c app assets yaml_text w =
     (let new = new_listing assets in
      and_then (existing_index N E c app w) (\<lambda>old w0.
      and_then (put_assets N E c app assets w0) (\<lambda>_ w1.
      and_then (put_and_verify N E c (catalog_key app) (PStr yaml_text) w1) (\<lambda>_ w2.
      and_then (put_and_verify N E c (index_key app) (PList (map PStr new)) w2) (\<lambda>_ w3.
      let dropped = dropped_files old new in
      and_then (delete_dropped N E c app dropped w3) (\<lambda>_ w4.
      (Inr \<lparr>ps_uploaded = length assets, ps_dropped = dropped\<rparr>, w4)))))))"

subsection \<open>A network that loses messages\<close>

datatype fault = Deliver | LoseRequest | LoseResponse

text \<open>What happens to each message in turn; after the list everything is delivered.\<close>

definition lossy_net ::
    "'db redis \<Rightarrow> ext \<Rightarrow> (pyval \<Rightarrow> 'cat option) \<Rightarrow> ('cat \<Rightarrow> 'issue list) \<Rightarrow> ('db world \<times> fault list) net" where
  "lossy_net R E mv lint =
     \<lparr>n_now = (\<lambda>(w, fs). n_now (device_net R E mv lint) w),
      n_send = (\<lambda>method uri body headers (w, fs).
        (case fs of
           LoseRequest # rest \<Rightarrow> (None, (w, rest))
         | LoseResponse # rest \<Rightarrow> (None, (snd (n_send (device_net R E mv lint) method uri body headers w), rest))
         | _ \<Rightarrow> (case n_send (device_net R E mv lint) method uri body headers w of (r, w1) \<Rightarrow> (r, (w1, tl fs)))))\<rparr>"

subsection \<open>What a request can do to the store\<close>

lemma lossy_send:
  assumes "n_send (lossy_net R E mv lint) m uri body hs ((d, ts, tc), fs) = (r, ((d', ts', tc'), fs'))"
  shows "ts' = ts \<and> tc' = tc \<and>
    ((r = None \<and> d' = d) \<or>
     (\<exists>resp. serve_device R E mv lint ts (asgi_request m uri body hs) d = (resp, d') \<and> (r = None \<or> r = Some resp)))"
  using assms
  by (cases fs) (auto simp: lossy_net_def device_net_def split: prod.splits fault.splits)

lemma client_request_effect:
  assumes "client_request (lossy_net R E mv lint) E c m uri body ct ex ((d, ts, tc), fs) = (res, ((d', ts', tc'), fs'))"
  shows "(d' = d \<and> (\<exists>e. res = Inl e)) \<or>
    (\<exists>hs resp. serve_device R E mv lint ts (asgi_request m uri body hs) d = (resp, d') \<and>
       (\<exists>sig. hs = request_headers c tc sig ct ex) \<and> (res = Inr resp \<or> (\<exists>e. res = Inl e)))"
proof (cases "client_sign E c uri body tc")
  case (Inl e)
  with assms show ?thesis
    by (auto simp: client_request_def lossy_net_def device_net_def Let_def)
next
  case (Inr sig)
  let ?hs = "request_headers c tc sig ct ex"
  obtain r d1 t1 t2 f1 where s: "n_send (lossy_net R E mv lint) m uri body ?hs ((d, ts, tc), fs) = (r, ((d1, t1, t2), f1))"
    by (metis surj_pair)
  have now: "n_now (lossy_net R E mv lint) ((d, ts, tc), fs) = tc"
    by (simp add: lossy_net_def device_net_def)
  have res: "d' = d1 \<and> (case r of None \<Rightarrow> \<exists>e. res = Inl e | Some resp \<Rightarrow> res = Inr resp \<or> (\<exists>e. res = Inl e))"
    using assms s Inr
    by (auto simp: client_request_def now request_headers_def Let_def bind_res_def split: option.splits if_splits sum.splits)
  from lossy_send [OF s] res show ?thesis by (cases r) auto
qed

text \<open>Every refusal of the server has a status of 400 or more.\<close>

definition refusal :: "exn \<Rightarrow> bool" where
  "refusal e \<longleftrightarrow> (\<forall>n m. e = HTTPException n m \<longrightarrow> 400 \<le> n)"

lemma refusal_simps [simp]: "refusal (PyExn m)" "refusal (HTTPException n m) \<longleftrightarrow> 400 \<le> n"
  by (simp_all add: refusal_def)

lemma refused_not_ok: "refusal e \<Longrightarrow> \<not> status_ok (http_response (Inl e))"
  by (cases e) (auto simp: http_response_def error_response_def status_ok_def)

lemma bind_refusal:
  "(\<And>e. m = Inl e \<Longrightarrow> refusal e) \<Longrightarrow> (\<And>x e. m = Inr x \<Longrightarrow> f x = Inl e \<Longrightarrow> refusal e) \<Longrightarrow> bind_res m f = Inl e \<Longrightarrow> refusal e"
  by (cases m) auto

lemma prefix_refusal: "prefix_matches pre p = Inl e \<Longrightarrow> refusal e"
  by (cases pre) (auto simp: prefix_matches_def)

lemma any_match_refusal: "any_match pre ps = Inl e \<Longrightarrow> refusal e"
proof (induction ps)
  case (Cons p ps)
  then show ?case by (cases "prefix_matches pre p") (auto intro: prefix_refusal split: if_splits)
qed simp

lemma dget_refusal: "dget_or v k x = Inl e \<Longrightarrow> refusal e"
  by (cases v) (auto simp: dget_or_def)

lemma check_perms_refusal: "check_perms cs mode ps = Inl e \<Longrightarrow> refusal e"
proof (induction ps arbitrary: e)
  case (Cons p ps)
  show ?case
    using Cons.prems unfolding check_perms.simps
    by (elim bind_refusal [rotated 2]) (auto intro: dget_refusal any_match_refusal Cons.IH split: if_splits)
qed auto

lemma check_acl_refusal:
  assumes "check_acl ctx res mode = Inl e"
  shows "refusal e"
proof -
  have it: "py_iter v = Inl e' \<Longrightarrow> refusal e'" for v e' by (cases v) (auto simp: py_iter_def)
  show ?thesis
    using assms unfolding check_acl_def Let_def
    by (elim bind_refusal [rotated 2]) (auto intro: dget_refusal it check_perms_refusal)
qed

lemma verify_refusal:
  assumes "verify_device_request R E now req cid ts sig d = Inl e"
  shows "refusal e"
proof -
  have "decode_utf8 s = Inl e' \<Longrightarrow> refusal e'" for s e' by (auto simp: decode_utf8_def split: if_splits)
  moreover have "verify_signature E sk u b t s = Inl e' \<Longrightarrow> refusal e'" for sk u b t s e'
    by (auto simp: verify_signature_def sign_payload_def calculate_signature_def from_hex_res_def compare_digest_def
        split: option.splits if_splits)
  moreover have "loads_res E j = Inl e' \<Longrightarrow> refusal e'" for j e' by (auto simp: loads_res_def split: option.splits)
  ultimately show ?thesis
    using assms unfolding verify_device_request_def
    by (auto split: option.splits if_splits elim!: bind_refusal [rotated 2])
qed

subsection \<open>The key-value store as the client sees it\<close>

text \<open>The abstraction: the keys below \<open>kv:\<close>, where the flag of a key is the key with \<open>:enc\<close>.\<close>

definition kvs :: "'db redis \<Rightarrow> 'db \<Rightarrow> string \<rightharpoonup> string" where
  "kvs R d k = r_get R (kv_key k) d"

definition put_abs :: "string \<Rightarrow> string \<Rightarrow> (string \<rightharpoonup> string) \<Rightarrow> string \<rightharpoonup> string" where
  "put_abs key b m = m(key \<mapsto> b, key @ '':enc'' := None)"

text \<open>The same for any flag.\<close>

definition store_abs :: "string \<Rightarrow> bool \<Rightarrow> string \<Rightarrow> (string \<rightharpoonup> string) \<Rightarrow> string \<rightharpoonup> string" where
  "store_abs key enc b m = m(key \<mapsto> b, key @ '':enc'' := if enc then Some ''1'' else None)"

lemma store_abs_plain: "store_abs key False b = put_abs key b"
  by (simp add: store_abs_def put_abs_def fun_eq_iff)

definition del_abs :: "string \<Rightarrow> (string \<rightharpoonup> string) \<Rightarrow> string \<rightharpoonup> string" where
  "del_abs key m = m(key := None, key @ '':enc'' := None)"

lemma enc_is_kv: "enc_key key = kv_key (key @ '':enc'')"
  by (simp add: enc_key_def kv_key_def)

lemma kv_request:
  assumes "hs = request_headers c tc sig ct ex" and "req = asgi_request m (kv_uri key) body hs"
  shows "rq_path req = ''/kv/'' @ key" "rq_method req = m" "rq_body req = body"
    "device_route R E mv lint ts req ctx d =
      (if m = ''POST'' then write_kv R E mv lint ts key req ctx d
       else if m = ''GET'' then snd (read_kv R E ts key req ctx d)
       else if m = ''DELETE'' then delete_kv R E ts key req ctx d
       else (Inl (HTTPException 405 ''Method Not Allowed''), d))"
  unfolding assms(2) by (simp_all add: asgi_path device_route_def)

context backend
begin

text \<open>A served request either is refused and changes nothing, or runs its handler.\<close>

lemma serve_cases:
  assumes "serve_device R E mv lint ts (asgi_request m uri body (request_headers c tc sig ct ex)) d = (resp, d')"
  obtains (refused) "d' = d" "\<not> status_ok resp"
  | (handled) ctx r where "device_route R E mv lint ts (asgi_request m uri body (request_headers c tc sig ct ex)) ctx d = (r, d')"
      "resp = http_response r"
  using assms
proof (cases "verify_device_request R E ts (asgi_request m uri body (request_headers c tc sig ct ex))
    (cl_client_id c) (dec_int tc) sig d")
  case (Inl e)
  with assms verify_refusal [OF Inl] refused_not_ok show thesis
    by (intro refused) (auto simp: serve_device_def)
next
  case (Inr ctx)
  obtain r d1 where route: "device_route R E mv lint ts (asgi_request m uri body (request_headers c tc sig ct ex)) ctx d = (r, d1)"
    by force
  with assms Inr have "d1 = d'" "resp = http_response r" by (simp_all add: serve_device_def)
  with route show thesis by (intro handled) simp_all
qed

lemma write_kv_effect:
  assumes "write_kv R E mv lint ts key req ctx d = (r, d')" and "prepare_body E req = Inr b \<or> (\<exists>e. prepare_body E req = Inl e)"
    and "rq_headers req ''x-encrypted'' = (if enc then Some ''1'' else None)"
  shows "(d' = d \<and> (\<exists>e. r = Inl e \<and> refusal e)) \<or> (prepare_body E req = Inr b \<and> kvs R d' = store_abs key enc b (kvs R d))"
proof -
  have vr: "validate_catalog_yaml_upload E mv lint x = Inl e \<Longrightarrow> refusal e" for x e
    by (auto simp: validate_catalog_yaml_upload_def split: option.splits pyval.splits if_splits)
  have pr: "prepare_body E req = Inl e \<Longrightarrow> refusal e" for e
    by (auto simp: prepare_body_def Let_def split: option.splits if_splits)
  have eff: "kvs R (set_enc_flag R key enc (r_set R (kv_key key) b d)) = store_abs key enc b (kvs R d)"
    by (rule ext) (auto simp: kvs_def store_abs_def get_set_enc_flag get_set enc_is_kv)
  show ?thesis
    using assms eff by (auto simp: write_kv_def lift_res_cases Let_def dest: check_acl_refusal pr vr split: if_splits)
qed

lemma put_effect_flag:
  assumes "client_put (lossy_net R E mv lint) E c key v enc ((d, ts, tc), fs) = (res, ((d', ts', tc'), fs'))"
  shows "(d' = d \<and> (\<exists>e. res = Inl e)) \<or> (\<exists>b. e_packb E v = Some b \<and> kvs R d' = store_abs key enc b (kvs R d))"
proof (cases "e_packb E v")
  case None
  with assms show ?thesis by (auto simp: client_put_def packb_res_def)
next
  case (Some b)
  obtain res1 where r: "client_request (lossy_net R E mv lint) E c ''POST'' (kv_uri key) b (Some ''application/x-msgpack'')
      (put_headers enc) ((d, ts, tc), fs) = (res1, ((d', ts', tc'), fs'))"
    and res: "\<And>x. res = Inr x \<Longrightarrow> res1 = Inr x \<and> status_ok x"
    using assms Some
    by (auto simp: client_put_def packb_res_def and_then_def put_headers_def split: prod.splits sum.splits if_splits)
  let ?hs = "\<lambda>sig. request_headers c tc sig (Some ''application/x-msgpack'') (put_headers enc)"
  let ?req = "\<lambda>sig. asgi_request ''POST'' (kv_uri key) b (?hs sig)"
  from client_request_effect [OF r] consider "d' = d" "\<exists>e. res1 = Inl e"
    | sig resp where "serve_device R E mv lint ts (?req sig) d = (resp, d')" "res1 = Inr resp \<or> (\<exists>e. res1 = Inl e)" by blast
  then show ?thesis
  proof cases
    case 1
    with res show ?thesis by (cases res) auto
  next
    case 2
    from 2(1) show ?thesis
    proof (cases rule: serve_cases)
      case refused
      with 2(2) res show ?thesis by (cases res) auto
    next
      case (handled ctx r)
      have body: "prepare_body E (?req sig) = Inr b \<or> (\<exists>e. prepare_body E (?req sig) = Inl e)"
        using msgpack_not_text by (auto simp: prepare_body_def content_type_def)
      have x: "rq_headers (?req sig) ''x-encrypted'' = (if enc then Some ''1'' else None)" by simp
      have "write_kv R E mv lint ts key (?req sig) ctx d = (r, d')"
        using handled(1) by (simp add: kv_request(4) [OF refl refl])
      from write_kv_effect [OF this body x] show ?thesis
      proof
        assume "d' = d \<and> (\<exists>e. r = Inl e \<and> refusal e)"
        with handled(2) 2(2) res refused_not_ok show ?thesis by (cases res) auto
      qed (use Some in auto)
    qed
  qed
qed

lemma put_effect:
  assumes "client_put (lossy_net R E mv lint) E c key v False ((d, ts, tc), fs) = (res, ((d', ts', tc'), fs'))"
  shows "(kvs R d' = kvs R d \<and> (\<exists>e. res = Inl e)) \<or> (\<exists>b. e_packb E v = Some b \<and> kvs R d' = put_abs key b (kvs R d))"
  using put_effect_flag [OF assms] by (auto simp: store_abs_plain)

lemma put_effect_ok:
  assumes "client_put (lossy_net R E mv lint) E c key v False ((d, ts, tc), fs) = (Inr r, ((d', ts', tc'), fs'))"
  shows "\<exists>b. e_packb E v = Some b \<and> kvs R d' = put_abs key b (kvs R d)"
  using put_effect [OF assms] by simp

lemma read_kv_effect: "snd (read_kv R E ts key req ctx d) = (r, d') \<Longrightarrow> kvs R d' = kvs R d"
  by (rule ext)
    (auto simp: kvs_def read_kv_def lift_res_cases next_kvenc_nonce_def kvenc_nonce_lua_def Let_def get_set
      split: sum.splits option.splits if_splits pyval.splits)

lemma get_effect:
  assumes "client_get (lossy_net R E mv lint) E c key ((d, ts, tc), fs) = (res, ((d', ts', tc'), fs'))"
  shows "kvs R d' = kvs R d"
proof -
  obtain res1 where "client_request (lossy_net R E mv lint) E c ''GET'' (kv_uri key) [] None []
      ((d, ts, tc), fs) = (res1, ((d', ts', tc'), fs'))"
    using assms by (auto simp: client_get_def and_then_def split: prod.splits sum.splits)
  from client_request_effect [OF this] consider "d' = d"
    | sig resp where "serve_device R E mv lint ts (asgi_request ''GET'' (kv_uri key) []
          (request_headers c tc sig None [])) d = (resp, d')" by blast
  then show ?thesis
  proof cases
    case 2
    then show ?thesis
    proof (cases rule: serve_cases)
      case (handled ctx r)
      then have "snd (read_kv R E ts key (asgi_request ''GET'' (kv_uri key) [] (request_headers c tc sig None [])) ctx d) = (r, d')"
        by (simp add: kv_request(4) [OF refl refl])
      then show ?thesis by (rule read_kv_effect)
    qed simp
  qed simp
qed

lemma delete_effect:
  assumes "client_delete (lossy_net R E mv lint) E c key ((d, ts, tc), fs) = (res, ((d', ts', tc'), fs'))"
  shows "(kvs R d' = kvs R d \<and> (\<exists>e. res = Inl e)) \<or> kvs R d' = del_abs key (kvs R d)"
proof -
  obtain res1 where r: "client_request (lossy_net R E mv lint) E c ''DELETE'' (kv_uri key) [] None []
      ((d, ts, tc), fs) = (res1, ((d', ts', tc'), fs'))"
    and res: "\<And>x. res = Inr x \<Longrightarrow> \<exists>y. res1 = Inr y \<and> status_ok y"
    using assms by (auto simp: client_delete_def and_then_def split: prod.splits sum.splits if_splits)
  from client_request_effect [OF r] consider "d' = d" "\<exists>e. res1 = Inl e"
    | sig resp where "serve_device R E mv lint ts (asgi_request ''DELETE'' (kv_uri key) []
          (request_headers c tc sig None [])) d = (resp, d')" "res1 = Inr resp \<or> (\<exists>e. res1 = Inl e)" by blast
  then show ?thesis
  proof cases
    case 1
    with res show ?thesis by (cases res) auto
  next
    case 2
    from 2(1) show ?thesis
    proof (cases rule: serve_cases)
      case refused
      with 2(2) res show ?thesis by (cases res) auto
    next
      case (handled ctx r)
      then have del: "delete_kv R E ts key (asgi_request ''DELETE'' (kv_uri key) [] (request_headers c tc sig None [])) ctx d = (r, d')"
        by (simp add: kv_request(4) [OF refl refl])
      have eff: "kvs R (r_del R (enc_key key) (r_del R (kv_key key) d)) = del_abs key (kvs R d)"
        by (rule ext) (auto simp: kvs_def del_abs_def get_del enc_is_kv)
      from del have "(d' = d \<and> (\<exists>e. r = Inl e \<and> refusal e)) \<or> kvs R d' = del_abs key (kvs R d)"
        using eff by (auto simp: delete_kv_def lift_res_cases dest: check_acl_refusal)
      with handled(2) 2(2) res refused_not_ok show ?thesis by (cases res) auto
    qed
  qed
qed

lemma put_and_verify_effect:
  assumes "put_and_verify (lossy_net R E mv lint) E c key v ((d, ts, tc), fs) = (res, ((d', ts', tc'), fs'))"
  shows "(kvs R d' = kvs R d \<and> (\<exists>e. res = Inl e)) \<or> (\<exists>b. e_packb E v = Some b \<and> kvs R d' = put_abs key b (kvs R d))"
proof -
  obtain res1 d1 t1 t2 f1 where p: "client_put (lossy_net R E mv lint) E c key v False ((d, ts, tc), fs) = (res1, ((d1, t1, t2), f1))"
    by (metis surj_pair)
  show ?thesis
  proof (cases res1)
    case (Inl e)
    with assms p put_effect [OF p] show ?thesis by (auto simp: put_and_verify_def as_publish_error_def)
  next
    case (Inr x)
    from put_effect_ok p Inr obtain b where b: "e_packb E v = Some b" "kvs R d1 = put_abs key b (kvs R d)" by blast
    obtain res2 where "client_get (lossy_net R E mv lint) E c key ((d1, t1, t2), f1) = (res2, ((d', ts', tc'), fs'))"
      using assms p Inr by (auto simp: put_and_verify_def split: prod.splits sum.splits)
    with get_effect have "kvs R d' = kvs R d1" by blast
    with b show ?thesis by simp
  qed
qed

lemma verified_put:
  assumes "put_and_verify (lossy_net R E mv lint) E c key v w = (res, w')"
  shows "(kvs R (fst (fst w')) = kvs R (fst (fst w)) \<and> (\<exists>e. res = Inl e)) \<or>
    (\<exists>b. e_packb E v = Some b \<and> kvs R (fst (fst w')) = put_abs key b (kvs R (fst (fst w))))"
  using put_and_verify_effect assms by (metis prod.collapse)

lemma deleted:
  assumes "client_delete (lossy_net R E mv lint) E c key w = (res, w')"
  shows "(kvs R (fst (fst w')) = kvs R (fst (fst w)) \<and> (\<exists>e. res = Inl e)) \<or>
    kvs R (fst (fst w')) = del_abs key (kvs R (fst (fst w)))"
  using delete_effect assms by (metis prod.collapse)

lemma fetched:
  assumes "client_get (lossy_net R E mv lint) E c key w = (res, w')"
  shows "kvs R (fst (fst w')) = kvs R (fst (fst w))"
  using get_effect assms by (metis prod.collapse)

end

subsection \<open>The keys of a bundle are kept apart\<close>

definition asset_name :: "string \<Rightarrow> bool" where
  "asset_name f \<longleftrightarrow> CHR '':'' \<notin> set f \<and> \<not> suffix ''.meta'' f"

lemma key_neqs [simp]:
  "bytes_key app f = bytes_key app g \<longleftrightarrow> f = g"
  "meta_key app f = meta_key app g \<longleftrightarrow> f = g"
  "bytes_key app f \<noteq> catalog_key app" "catalog_key app \<noteq> bytes_key app f"
  "meta_key app f \<noteq> catalog_key app" "catalog_key app \<noteq> meta_key app f"
  "bytes_key app f \<noteq> index_key app" "index_key app \<noteq> bytes_key app f"
  "meta_key app f \<noteq> index_key app" "index_key app \<noteq> meta_key app f"
  "catalog_key app \<noteq> index_key app" "index_key app \<noteq> catalog_key app"
  by (simp_all add: bytes_key_def meta_key_def catalog_key_def index_key_def)

lemma key_flag_neqs [simp]:
  "catalog_key app \<noteq> bytes_key app f @ '':enc''" "catalog_key app \<noteq> meta_key app f @ '':enc''"
  "catalog_key app \<noteq> index_key app @ '':enc''" "catalog_key app \<noteq> catalog_key app @ '':enc''"
  "index_key app \<noteq> bytes_key app f @ '':enc''" "index_key app \<noteq> meta_key app f @ '':enc''"
  "index_key app \<noteq> catalog_key app @ '':enc''"
  "bytes_key app f \<noteq> catalog_key app @ '':enc''" "bytes_key app f \<noteq> index_key app @ '':enc''"
  "meta_key app f \<noteq> catalog_key app @ '':enc''" "meta_key app f \<noteq> index_key app @ '':enc''"
  by (simp_all add: bytes_key_def meta_key_def catalog_key_def index_key_def)

lemma meta_flag_neq [simp]:
  "meta_key app f \<noteq> bytes_key app g @ '':enc''" "meta_key app f \<noteq> meta_key app g @ '':enc''"
proof -
  have n: "x @ ''.meta'' \<noteq> y @ '':enc''" for x y
  proof
    assume "x @ ''.meta'' = y @ '':enc''"
    then have "last (x @ ''.meta'') = last (y @ '':enc'')" by (rule arg_cong)
    then show False by simp
  qed
  show "meta_key app f \<noteq> bytes_key app g @ '':enc''" "meta_key app f \<noteq> meta_key app g @ '':enc''"
    using n [of f g] n [of f "g @ ''.meta''"] by (simp_all add: meta_key_def bytes_key_def)
qed

lemma asset_key_neqs:
  assumes "asset_name f"
  shows "bytes_key app f \<noteq> meta_key app g" "bytes_key app f \<noteq> bytes_key app g @ '':enc''"
    "bytes_key app f \<noteq> meta_key app g @ '':enc''"
  using assms by (auto simp: asset_name_def bytes_key_def meta_key_def suffix_def)

lemma lowered_dot_meta: "content_type_for (f @ ''.meta'') = None"
proof -
  have "rsplit1 CHR ''.'' (f @ ''.meta'') = Some (f, ''meta'')"
    by (simp add: rsplit1_def)
  then have "path_suffix (f @ ''.meta'') = [] \<or> path_suffix (f @ ''.meta'') = ''.meta''"
    by (simp add: path_suffix_def)
  moreover have "lower ''.meta'' = ''.meta''" by code_simp
  ultimately show ?thesis
    by (auto simp: content_type_for_def SUFFIX_TO_CONTENT_TYPE_def lower_def)
qed

lemma default_types: "set (asset_content_types default_config) = {''image/svg+xml'', ''image/png'', ''image/jpeg'', ''image/webp''}"
proof -
  have "asset_content_types default_config = [''image/svg+xml'', ''image/png'', ''image/jpeg'', ''image/webp'']"
    by code_simp
  then show ?thesis by simp
qed

lemma filename_no_colon: "filename_match f \<Longrightarrow> CHR '':'' \<notin> set f"
proof -
  have c: "\<not> (is_lower CHR '':'' \<or> is_digit CHR '':'')" by code_simp
  have body: "filename_body g \<Longrightarrow> CHR '':'' \<notin> set g" for g
    using c by (auto simp: filename_body_def list_all_iff)
  assume "filename_match f"
  then show "CHR '':'' \<notin> set f"
    unfolding filename_match_def
  proof
    assume "f \<noteq> [] \<and> last f = NL \<and> filename_body (butlast f)"
    then have f: "f = butlast f @ [NL]" and c: "CHR '':'' \<notin> set (butlast f)"
      using body by (metis append_butlast_last_id)+
    from c have "CHR '':'' \<notin> set (butlast f @ [NL])" unfolding set_append by (simp add: NL_def)
    with f show ?thesis by argo
  qed (rule body)
qed

text \<open>The names of a bundle that was loaded from the directory and linted clean.\<close>

lemma clean_bundle:
  assumes "discover_assets E S dir = Inr assets" and "lint_errors (lint_loaded default_config assets) = []"
  shows "distinct (map la_filename assets) \<and> (\<forall>a \<in> set assets. asset_name (la_filename a))"
proof -
  note clean = lint_assets_clean [OF assms(2) [unfolded lint_loaded_def lint_asset_bundle_def]]
  then have d: "distinct (map la_filename assets)" by (simp add: comp_def)
  have "asset_name (la_filename a)" if a: "a \<in> set assets" for a
  proof -
    obtain x where "load_asset E S x = Inr a"
      using map_res_mem [OF assms(1) [unfolded discover_assets_def] a] by blast
    then have ct: "la_content_type a = (case content_type_for (la_filename a) of None \<Rightarrow> ''application/octet-stream'' | Some t \<Rightarrow> t)"
      by (cases x) (auto simp: load_asset_def Let_def bind_res_Inr_iff)
    have "filename_match (la_filename a) \<and> la_content_type a \<in> set (asset_content_types default_config)"
      using clean a by simp
    then have "filename_match (la_filename a)" "content_type_for (la_filename a) \<noteq> None"
      using ct by (auto simp: default_types split: option.splits)
    then show ?thesis
      using lowered_dot_meta filename_no_colon by (auto simp: asset_name_def suffix_def)
  qed
  with d show ?thesis by blast
qed

subsection \<open>The commit point\<close>

text \<open>A value stands at a key.\<close>

definition stored :: "ext \<Rightarrow> (string \<rightharpoonup> string) \<Rightarrow> string \<Rightarrow> pyval \<Rightarrow> bool" where
  "stored E m key v \<longleftrightarrow> (\<exists>b. e_packb E v = Some b \<and> m key = Some b)"

definition asset_stored :: "ext \<Rightarrow> string \<Rightarrow> (string \<rightharpoonup> string) \<Rightarrow> loaded_asset \<Rightarrow> bool" where
  "asset_stored E app m a \<longleftrightarrow>
     stored E m (bytes_key app (la_filename a)) (PBytes (la_payload a)) \<and>
     stored E m (meta_key app (la_filename a)) (asset_meta a)"

text \<open>Two stores agree outside the keys of some files, and on every file of another name.\<close>

definition touches :: "string \<Rightarrow> string set \<Rightarrow> (string \<rightharpoonup> string) \<Rightarrow> (string \<rightharpoonup> string) \<Rightarrow> bool" where
  "touches app F m m' \<longleftrightarrow>
     (\<forall>k. (\<forall>f \<in> F. k \<notin> {bytes_key app f, meta_key app f, bytes_key app f @ '':enc'', meta_key app f @ '':enc''})
        \<longrightarrow> m' k = m k)"

lemma touches_refl [simp]: "touches app F m m"
  by (simp add: touches_def)

lemma touches_trans: "touches app F m m1 \<Longrightarrow> touches app F m1 m2 \<Longrightarrow> touches app F m m2"
  by (simp add: touches_def)

lemma touches_put:
  "f \<in> F \<Longrightarrow> touches app F m (put_abs (bytes_key app f) b m)"
  "f \<in> F \<Longrightarrow> touches app F m (put_abs (meta_key app f) b m)"
  "f \<in> F \<Longrightarrow> touches app F m (del_abs (bytes_key app f) m)"
  "f \<in> F \<Longrightarrow> touches app F m (del_abs (meta_key app f) m)"
  by (auto simp: touches_def put_abs_def del_abs_def)

lemma touches_mono: "touches app F m m' \<Longrightarrow> F \<subseteq> G \<Longrightarrow> touches app G m m'"
  unfolding touches_def by blast

lemma touches_other:
  assumes "touches app F m m'" and "asset_name g" and "g \<notin> F" and "\<forall>f \<in> F. asset_name f"
  shows "m' (bytes_key app g) = m (bytes_key app g)" "m' (meta_key app g) = m (meta_key app g)"
proof -
  have "bytes_key app g \<notin> {bytes_key app f, meta_key app f, bytes_key app f @ '':enc'', meta_key app f @ '':enc''}"
    if "f \<in> F" for f
    using that assms(3) asset_key_neqs [OF assms(2)] by auto
  then show "m' (bytes_key app g) = m (bytes_key app g)" using assms(1) by (simp add: touches_def)
  have "meta_key app g \<notin> {bytes_key app f, meta_key app f, bytes_key app f @ '':enc'', meta_key app f @ '':enc''}"
    if "f \<in> F" for f
    using that assms(3,4) asset_key_neqs(1) [of f app g] by auto
  then show "m' (meta_key app g) = m (meta_key app g)" using assms(1) by (simp add: touches_def)
qed

lemma touches_fixed:
  assumes "touches app F m m'"
  shows "m' (catalog_key app) = m (catalog_key app)" "m' (index_key app) = m (index_key app)"
    "\<not> prefix (bytes_key app []) k \<Longrightarrow> m' k = m k"
proof -
  show "m' (catalog_key app) = m (catalog_key app)" "m' (index_key app) = m (index_key app)"
    using assms by (auto simp: touches_def)
  have "prefix (bytes_key app []) (bytes_key app f)" "prefix (bytes_key app []) (meta_key app f)"
    "prefix (bytes_key app []) (bytes_key app f @ '':enc'')" "prefix (bytes_key app []) (meta_key app f @ '':enc'')" for f
    by (simp_all add: bytes_key_def meta_key_def)
  then have "k \<notin> {bytes_key app f, meta_key app f, bytes_key app f @ '':enc'', meta_key app f @ '':enc''}"
    if "\<not> prefix (bytes_key app []) k" for f
    using that by blast
  then show "\<not> prefix (bytes_key app []) k \<Longrightarrow> m' k = m k"
    using assms by (simp add: touches_def)
qed

text \<open>Writing the catalog or the listing leaves the assets alone.\<close>

lemma asset_stored_top:
  assumes "asset_name (la_filename a)" and "key \<in> {catalog_key app, index_key app}"
  shows "asset_stored E app (put_abs key b m) a \<longleftrightarrow> asset_stored E app m a"
  using assms by (auto simp: asset_stored_def stored_def put_abs_def)

lemma asset_stored_touches:
  assumes "touches app F m m'" and "asset_name (la_filename a)" and "la_filename a \<notin> F" and "\<forall>f \<in> F. asset_name f"
  shows "asset_stored E app m' a \<longleftrightarrow> asset_stored E app m a"
  using touches_other [OF assms] by (simp add: asset_stored_def stored_def)

context backend
begin

lemma put_assets_effect:
  assumes "put_assets (lossy_net R E mv lint) E c app as w = (res, w')"
    and "distinct (map la_filename as)" and "\<forall>a \<in> set as. asset_name (la_filename a)"
  shows "touches app (la_filename ` set as) (kvs R (fst (fst w))) (kvs R (fst (fst w'))) \<and>
    (\<forall>u. res = Inr u \<longrightarrow> (\<forall>a \<in> set as. asset_stored E app (kvs R (fst (fst w'))) a))"
  using assms
proof (induction as arbitrary: w)
  case (Cons a as)
  let ?A = "\<lambda>w. kvs R (fst (fst w))" and ?f = "la_filename a"
  let ?T = "touches app (la_filename ` set (a # as))"
  have f: "?f \<in> la_filename ` set (a # as)" "asset_name ?f" using Cons.prems by simp_all
  obtain r1 w1 where p1: "put_and_verify (lossy_net R E mv lint) E c (bytes_key app ?f) (PBytes (la_payload a)) w = (r1, w1)"
    by (metis surj_pair)
  from verified_put [OF p1] touches_put(1) [OF f(1)] have t1: "?T (?A w) (?A w1)" by fastforce
  show ?case
  proof (cases r1)
    case (Inl e)
    with Cons.prems(1) p1 t1 show ?thesis by auto
  next
    case (Inr u1)
    with verified_put [OF p1] obtain b1 where b1: "e_packb E (PBytes (la_payload a)) = Some b1"
      "?A w1 = put_abs (bytes_key app ?f) b1 (?A w)" by blast
    obtain r2 w2 where p2: "put_and_verify (lossy_net R E mv lint) E c (meta_key app ?f) (asset_meta a) w1 = (r2, w2)"
      by (metis surj_pair)
    from verified_put [OF p2] touches_put(2) [OF f(1)] have t2: "?T (?A w1) (?A w2)" by fastforce
    show ?thesis
    proof (cases r2)
      case (Inl e)
      with Cons.prems(1) p1 p2 Inr t1 t2 show ?thesis by (auto intro: touches_trans)
    next
      case (Inr u2)
      with verified_put [OF p2] obtain b2 where b2: "e_packb E (asset_meta a) = Some b2"
        "?A w2 = put_abs (meta_key app ?f) b2 (?A w1)" by blast
      have rest: "put_assets (lossy_net R E mv lint) E c app as w2 = (res, w')"
        using Cons.prems(1) p1 p2 Inr \<open>r1 = Inr u1\<close> by simp
      from Cons.IH [OF rest] Cons.prems(2,3)
      have t3: "touches app (la_filename ` set as) (?A w2) (?A w')"
        and ok: "\<forall>u. res = Inr u \<longrightarrow> (\<forall>x \<in> set as. asset_stored E app (?A w') x)" by auto
      have "asset_stored E app (?A w2) a"
        using b1 b2 asset_key_neqs(1) [OF f(2), of app ?f] asset_key_neqs(3) [OF f(2), of app ?f]
        by (auto simp: asset_stored_def stored_def put_abs_def)
      then have "asset_stored E app (?A w') a"
        using asset_stored_touches [OF t3 f(2)] Cons.prems(2,3) by auto
      moreover have "?T (?A w2) (?A w')" using touches_mono [OF t3] by auto
      ultimately show ?thesis using t1 t2 ok by (auto intro: touches_trans)
    qed
  qed
qed simp

lemma delete_dropped_effect:
  assumes "delete_dropped (lossy_net R E mv lint) E c app fs w = (res, w')"
  shows "touches app (set fs) (kvs R (fst (fst w))) (kvs R (fst (fst w'))) \<and>
    (\<forall>k. kvs R (fst (fst w)) k = None \<longrightarrow> kvs R (fst (fst w')) k = None) \<and>
    (\<forall>u. res = Inr u \<longrightarrow> (\<forall>f \<in> set fs. kvs R (fst (fst w')) (bytes_key app f) = None \<and> kvs R (fst (fst w')) (meta_key app f) = None))"
  using assms
proof (induction fs arbitrary: w)
  case (Cons f fs)
  let ?A = "\<lambda>w. kvs R (fst (fst w))"
  let ?T = "touches app (set (f # fs))"
  obtain r1 w1 where d1: "client_delete (lossy_net R E mv lint) E c (bytes_key app f) w = (r1, w1)" by (metis surj_pair)
  have t1: "?T (?A w) (?A w1)" "\<forall>k. ?A w k = None \<longrightarrow> ?A w1 k = None"
    using deleted [OF d1] touches_put(3) [of f "set (f # fs)" app "?A w"] by (auto simp: del_abs_def)
  show ?case
  proof (cases r1)
    case (Inl e)
    with Cons.prems d1 have "w' = w1" "\<exists>e. res = Inl e" by (auto simp: as_publish_error_def)
    with t1 show ?thesis by auto
  next
    case (Inr u1)
    obtain r2 w2 where d2: "client_delete (lossy_net R E mv lint) E c (meta_key app f) w1 = (r2, w2)" by (metis surj_pair)
    have t2: "?T (?A w1) (?A w2)" "\<forall>k. ?A w1 k = None \<longrightarrow> ?A w2 k = None"
      using deleted [OF d2] touches_put(4) [of f "set (f # fs)" app "?A w1"] by (auto simp: del_abs_def)
    show ?thesis
    proof (cases r2)
      case (Inl e)
      with Cons.prems d1 d2 Inr have "w' = w2" "\<exists>e. res = Inl e" by (auto simp: as_publish_error_def)
      moreover have "?T (?A w) (?A w2)" using t1(1) t2(1) by (rule touches_trans)
      ultimately show ?thesis using t1(2) t2(2) by auto
    next
      case (Inr u2)
      have gone: "?A w2 (bytes_key app f) = None" "?A w2 (meta_key app f) = None"
        using deleted [OF d1] deleted [OF d2] Inr \<open>r1 = Inr u1\<close> by (auto simp: del_abs_def)
      have "delete_dropped (lossy_net R E mv lint) E c app fs w2 = (res, w')"
        using Cons.prems d1 d2 Inr \<open>r1 = Inr u1\<close> by simp
      note IH = Cons.IH [OF this]
      have "?T (?A w2) (?A w')" using IH [THEN conjunct1] by (rule touches_mono) auto
      with t1(1) t2(1) have "?T (?A w) (?A w')" by (blast intro: touches_trans)
      moreover have "\<forall>k. ?A w k = None \<longrightarrow> ?A w' k = None"
        using IH [THEN conjunct2, THEN conjunct1] t1(2) t2(2) by blast
      moreover have "?A w' (bytes_key app f) = None" "?A w' (meta_key app f) = None"
        using IH [THEN conjunct2, THEN conjunct1] gone by blast+
      ultimately show ?thesis using IH [THEN conjunct2, THEN conjunct2] by simp
    qed
  qed
qed simp

end

text \<open>What a publish leaves behind, wherever it stopped.\<close>

definition other_keys_kept :: "string \<Rightarrow> (string \<rightharpoonup> string) \<Rightarrow> (string \<rightharpoonup> string) \<Rightarrow> bool" where
  "other_keys_kept app m m' \<longleftrightarrow>
     (\<forall>k. \<not> prefix (bytes_key app []) k \<and>
        k \<notin> {catalog_key app, catalog_key app @ '':enc'', index_key app, index_key app @ '':enc''} \<longrightarrow> m' k = m k)"

lemma other_keys_kept_trans:
  "other_keys_kept app m m1 \<Longrightarrow> other_keys_kept app m1 m2 \<Longrightarrow> other_keys_kept app m m2"
  by (simp add: other_keys_kept_def)

lemma other_keys_kept_refl: "other_keys_kept app m m"
  by (simp add: other_keys_kept_def)

lemma other_keys_kept_put: "key \<in> {catalog_key app, index_key app} \<Longrightarrow> other_keys_kept app m (put_abs key b m)"
  by (auto simp: other_keys_kept_def put_abs_def)

lemma other_keys_kept_touches: "touches app F m m' \<Longrightarrow> other_keys_kept app m m'"
  using touches_fixed(3) by (auto simp: other_keys_kept_def)

definition before_commit :: "string \<Rightarrow> loaded_asset list \<Rightarrow> (string \<rightharpoonup> string) \<Rightarrow> (string \<rightharpoonup> string) \<Rightarrow> bool" where
  "before_commit app assets m m' \<longleftrightarrow>
     m' (catalog_key app) = m (catalog_key app) \<and>
     (\<forall>f. asset_name f \<and> f \<notin> la_filename ` set assets \<longrightarrow>
        m' (bytes_key app f) = m (bytes_key app f) \<and> m' (meta_key app f) = m (meta_key app f))"

definition after_commit :: "ext \<Rightarrow> string \<Rightarrow> loaded_asset list \<Rightarrow> string \<Rightarrow> (string \<rightharpoonup> string) \<Rightarrow> bool" where
  "after_commit E app assets yaml_text m' \<longleftrightarrow>
     stored E m' (catalog_key app) (PStr yaml_text) \<and> (\<forall>a \<in> set assets. asset_stored E app m' a)"

definition finished :: "ext \<Rightarrow> string \<Rightarrow> loaded_asset list \<Rightarrow> publish_summary \<Rightarrow> (string \<rightharpoonup> string) \<Rightarrow> bool" where
  "finished E app assets s m' \<longleftrightarrow>
     stored E m' (index_key app) (PList (map PStr (new_listing assets))) \<and> ps_uploaded s = length assets \<and>
     (\<forall>f \<in> set (ps_dropped s). f \<notin> la_filename ` set assets \<and> m' (bytes_key app f) = None \<and> m' (meta_key app f) = None)"

context backend
begin

text \<open>From the commit on: the listing, then the files that are dropped.\<close>

lemma after_commit_put_index:
  assumes "after_commit E app assets yaml m" and "\<forall>a \<in> set assets. asset_name (la_filename a)"
  shows "after_commit E app assets yaml (put_abs (index_key app) b m)"
  using assms by (auto simp: after_commit_def asset_stored_top) (simp add: stored_def put_abs_def)

lemma after_commit_touches:
  assumes "after_commit E app assets yaml m" and t: "touches app F m m'"
    and "\<forall>a \<in> set assets. asset_name (la_filename a) \<and> la_filename a \<notin> F" and "\<forall>f \<in> F. asset_name f"
  shows "after_commit E app assets yaml m'"
  using assms(1,3,4) asset_stored_touches [OF t] touches_fixed(1) [OF t] by (simp add: after_commit_def stored_def)

lemma publish_tail:
  assumes run: "and_then (put_and_verify (lossy_net R E mv lint) E c (index_key app) (PList (map PStr (new_listing assets))) w)
      (\<lambda>_ w3. and_then (delete_dropped (lossy_net R E mv lint) E c app (dropped_files old (new_listing assets)) w3)
        (\<lambda>_ w4. (Inr \<lparr>ps_uploaded = length assets, ps_dropped = dropped_files old (new_listing assets)\<rparr>, w4))) = (res, w')"
    and names: "\<forall>a \<in> set assets. asset_name (la_filename a)" "\<forall>f \<in> set old. asset_name f"
    and after: "after_commit E app assets yaml (kvs R (fst (fst w)))"
  shows "other_keys_kept app (kvs R (fst (fst w))) (kvs R (fst (fst w'))) \<and> after_commit E app assets yaml (kvs R (fst (fst w'))) \<and>
    (\<forall>s. res = Inr s \<longrightarrow> finished E app assets s (kvs R (fst (fst w'))))"
proof -
  let ?A = "\<lambda>w. kvs R (fst (fst w))" and ?v = "PList (map PStr (new_listing assets))"
  let ?fs = "dropped_files old (new_listing assets)"
  obtain r3 w3 where x: "put_and_verify (lossy_net R E mv lint) E c (index_key app) ?v w = (r3, w3)" by (metis surj_pair)
  have kept3: "other_keys_kept app (?A w) (?A w3)" and after3: "after_commit E app assets yaml (?A w3)"
    and idx: "\<forall>u. r3 = Inr u \<longrightarrow> stored E (?A w3) (index_key app) ?v"
    using verified_put [OF x] after after_commit_put_index [OF after names(1)]
    by (auto simp: other_keys_kept_refl other_keys_kept_put) (simp add: stored_def put_abs_def)
  show ?thesis
  proof (cases r3)
    case (Inl e)
    with run x have "res = Inl e" "w' = w3" by auto
    with kept3 after3 show ?thesis by simp
  next
    case (Inr u3)
    have fs: "set ?fs \<subseteq> set old" "set ?fs \<inter> la_filename ` set assets = {}"
      by (auto simp: dropped_files_def new_listing_def)
    obtain r4 w4 where g: "delete_dropped (lossy_net R E mv lint) E c app ?fs w3 = (r4, w4)" by (metis surj_pair)
    note del = delete_dropped_effect [OF g]
    then have t4: "touches app (set ?fs) (?A w3) (?A w4)" by simp
    have w': "w' = w4" and res: "\<And>s. res = Inr s \<Longrightarrow> (\<exists>u. r4 = Inr u) \<and> s = \<lparr>ps_uploaded = length assets, ps_dropped = ?fs\<rparr>"
      using run x g Inr by (auto simp: and_then_def split: sum.splits prod.splits)
    have kept4: "other_keys_kept app (?A w) (?A w4)"
      by (rule other_keys_kept_trans [OF kept3 other_keys_kept_touches [OF t4]])
    have after4: "after_commit E app assets yaml (?A w4)"
      by (rule after_commit_touches [OF after3 t4]) (use names fs in blast)+
    have "finished E app assets s (?A w4)" if "res = Inr s" for s
      using res [OF that] idx Inr touches_fixed(2) [OF t4] del fs(2) by (auto simp: finished_def stored_def)
    with kept4 after4 w' show ?thesis by simp
  qed
qed

text \<open>Up to the commit.\<close>

lemma publish_effect:
  assumes run: "publish_assets (lossy_net R E mv lint) E c app assets yaml w = (res, w')"
    and names: "distinct (map la_filename assets)" "\<forall>a \<in> set assets. asset_name (la_filename a)"
    and old_names: "\<And>old w0. existing_index (lossy_net R E mv lint) E c app w = (Inr old, w0) \<Longrightarrow> \<forall>f \<in> set old. asset_name f"
  defines "A \<equiv> \<lambda>w. kvs R (fst (fst w))"
  shows "other_keys_kept app (A w) (A w') \<and>
    ((\<exists>e. res = Inl e) \<and> before_commit app assets (A w) (A w') \<or> after_commit E app assets yaml (A w')) \<and>
    (\<forall>s. res = Inr s \<longrightarrow> after_commit E app assets yaml (A w') \<and> finished E app assets s (A w'))"
proof -
  let ?N = "lossy_net R E mv lint"
  obtain r0 w0 where i: "existing_index ?N E c app w = (r0, w0)" by (metis surj_pair)
  have A0: "A w0 = A w"
  proof -
    obtain g u where g: "client_get ?N E c (index_key app) w = (g, u)" by (metis surj_pair)
    with i have "u = w0" by (auto simp: existing_index_def split: sum.splits)
    with fetched [OF g] show ?thesis by (simp add: A_def)
  qed
  have before0: "before_commit app assets (A w) (A w)" by (simp add: before_commit_def)
  show ?thesis
  proof (cases r0)
    case (Inl e)
    with run i have "res = Inl e" "w' = w0" by (auto simp: publish_assets_def)
    with A0 before0 show ?thesis by (simp add: other_keys_kept_refl)
  next
    case (Inr old)
    from old_names [OF i [unfolded Inr]] have old: "\<forall>f \<in> set old. asset_name f" .
    obtain r1 w1 where p: "put_assets ?N E c app assets w0 = (r1, w1)" by (metis surj_pair)
    have t1: "touches app (la_filename ` set assets) (A w) (A w1)"
      and s1: "\<forall>u. r1 = Inr u \<longrightarrow> (\<forall>a \<in> set assets. asset_stored E app (A w1) a)"
      using put_assets_effect [OF p names] A0 by (simp_all add: A_def)
    have kept1: "other_keys_kept app (A w) (A w1)" using t1 by (rule other_keys_kept_touches)
    have before1: "before_commit app assets (A w) (A w1)"
      using touches_fixed(1) [OF t1] touches_other [OF t1] names(2) by (auto simp: before_commit_def)
    show ?thesis
    proof (cases r1)
      case (Inl e)
      with run i p \<open>r0 = Inr old\<close> have "res = Inl e" "w' = w1" by (auto simp: publish_assets_def)
      with kept1 before1 show ?thesis by simp
    next
      case (Inr u1)
      obtain r2 w2 where y: "put_and_verify ?N E c (catalog_key app) (PStr yaml) w1 = (r2, w2)" by (metis surj_pair)
      have st1: "\<forall>a \<in> set assets. asset_stored E app (A w1) a" using s1 Inr by blast
      from verified_put [OF y] consider (old) e where "A w2 = A w1" "r2 = Inl e"
        | (new) b where "e_packb E (PStr yaml) = Some b" "A w2 = put_abs (catalog_key app) b (A w1)"
        unfolding A_def by blast
      then show ?thesis
      proof cases
        case old
        with run i p y \<open>r0 = _\<close> \<open>r1 = _\<close> have "res = Inl e" "w' = w2" by (auto simp: publish_assets_def)
        with kept1 before1 old(1) show ?thesis by simp
      next
        case new
        have kept2: "other_keys_kept app (A w) (A w2)"
          unfolding new(2) by (rule other_keys_kept_trans [OF kept1 other_keys_kept_put]) simp
        have after2: "after_commit E app assets yaml (A w2)"
          using new st1 names(2) by (auto simp: after_commit_def asset_stored_top) (simp add: stored_def put_abs_def)
        show ?thesis
        proof (cases r2)
          case (Inl e)
          with run i p y \<open>r0 = _\<close> \<open>r1 = _\<close> have "res = Inl e" "w' = w2" by (auto simp: publish_assets_def)
          with kept2 after2 show ?thesis by simp
        next
          case (Inr u2)
          with run i p y \<open>r0 = _\<close> \<open>r1 = _\<close> have "and_then (put_and_verify ?N E c (index_key app) (PList (map PStr (new_listing assets))) w2)
              (\<lambda>_ w3. and_then (delete_dropped ?N E c app (dropped_files old (new_listing assets)) w3)
                (\<lambda>_ w4. (Inr \<lparr>ps_uploaded = length assets, ps_dropped = dropped_files old (new_listing assets)\<rparr>, w4))) = (res, w')"
            by (simp add: publish_assets_def Let_def)
          from publish_tail [OF this names(2) old after2 [unfolded A_def]] kept2 show ?thesis
            unfolding A_def by (blast intro: other_keys_kept_trans)
        qed
      qed
    qed
  qed
qed

end

text \<open>
  C33. Publishing has a commit point. A bundle that was loaded from the directory and linted
  clean is published over a network that may lose any request and any response. Wherever that
  stops it, either the catalog is the one from before and every asset that is not in the new
  bundle is as before, or the new catalog stands and every asset of the bundle stands with it,
  its bytes and its metadata. When \<open>publish_assets\<close> returns, the new listing stands too and the
  dropped files are gone. No other key of the store is touched at any time.
\<close>

theorem publish_commit_point:
  assumes "backend R entries E"
    and "discover_assets E S dir = Inr assets" and "lint_errors (lint_loaded default_config assets) = []"
    and "\<And>old w0. existing_index (lossy_net R E mv lint) E c app w = (Inr old, w0) \<Longrightarrow> \<forall>f \<in> set old. asset_name f"
    and "publish_assets (lossy_net R E mv lint) E c app assets yaml w = (res, w')"
  shows "other_keys_kept app (kvs R (fst (fst w))) (kvs R (fst (fst w'))) \<and>
    ((\<exists>e. res = Inl e) \<and> before_commit app assets (kvs R (fst (fst w))) (kvs R (fst (fst w'))) \<or>
     after_commit E app assets yaml (kvs R (fst (fst w')))) \<and>
    (\<forall>s. res = Inr s \<longrightarrow> after_commit E app assets yaml (kvs R (fst (fst w'))) \<and>
       finished E app assets s (kvs R (fst (fst w'))))"
  using backend.publish_effect [OF assms(1,5)] clean_bundle [OF assms(2,3)] assms(4) by blast

text \<open>A bundle of one picture whose first request, the one for the old listing, is lost.\<close>

definition ref_dir :: "(string \<times> bool \<times> string) list" where
  "ref_dir = [(''b.png'', True, ''Q''), (''old'', False, []), (''a.png'', True, ''PNG'')]"

definition ref_assets :: "loaded_asset list" where
  "ref_assets = map (\<lambda>(f, p). \<lparr>la_filename = f, la_content_type = ''image/png'', la_payload = p,
     la_sha256_hex = to_hex (e_sha256 ref_ext p), la_size = int (length p)\<rparr>) [(''a.png'', ''PNG''), (''b.png'', ''Q'')]"

lemma ref_bundle:
  "discover_assets ref_ext (\<lambda>_. None) ref_dir = Inr ref_assets" "lint_errors (lint_loaded default_config ref_assets) = []"
  unfolding ref_dir_def ref_assets_def by code_simp+

lemma existing_index_lost:
  "existing_index (lossy_net R E mv lint) E c app (w, LoseRequest # fs) = (r, w') \<Longrightarrow> r = Inr old \<Longrightarrow> old = []"
  by (cases w) (auto simp: existing_index_def client_get_def client_request_def lossy_net_def lift_res_cases
      bind_res_def Let_def client_sign_def secret_bytes_def and_then_def split: sum.splits option.splits if_splits)

theorem publish_commit_point_witness:
  "\<exists>res w'. publish_assets (lossy_net mem_redis ref_ext (\<lambda>_. None :: unit option) (\<lambda>_. [()])) ref_ext ref_client
      ''app'' ref_assets ''vars: {}'' ((ref_known, 100, 110), [LoseRequest, Deliver, LoseResponse]) = (res, w') \<and>
    other_keys_kept ''app'' (kvs mem_redis ref_known) (kvs mem_redis (fst (fst w'))) \<and>
    ((\<exists>e. res = Inl e) \<and> before_commit ''app'' ref_assets (kvs mem_redis ref_known) (kvs mem_redis (fst (fst w'))) \<or>
     after_commit ref_ext ''app'' ref_assets ''vars: {}'' (kvs mem_redis (fst (fst w'))))"
proof -
  let ?N = "lossy_net mem_redis ref_ext (\<lambda>_. None :: unit option) (\<lambda>_. [()])"
  let ?w = "((ref_known, 100, 110), [LoseRequest, Deliver, LoseResponse])"
  obtain res w' where run: "publish_assets ?N ref_ext ref_client ''app'' ref_assets ''vars: {}'' ?w = (res, w')"
    by (metis surj_pair)
  have "\<forall>f \<in> set old. asset_name f" if "existing_index ?N ref_ext ref_client ''app'' ?w = (Inr old, w0)" for old w0
    using existing_index_lost [OF that refl] by simp
  from publish_commit_point [OF ref_backend.backend_axioms ref_bundle this run] run show ?thesis by auto
qed

end
