(* ===== verification/Config.thy ===== *)
theory Config
  imports CatalogPublish
begin

text \<open>
  \<open>tools/stra2us_cli/config.py\<close>: where the command line finds its server and credentials, and
  \<open>client_from_env\<close> of the package root.

  The environment, the two configuration files and the TOML parser are arguments. A parsed file is
  a dict of any values, so what the lookup does with a value of another type is modelled too.
\<close>

subsection \<open>The surroundings\<close>

record conf_host =
  ch_env :: "string \<Rightarrow> string option"
  ch_cwd_conf :: "string option"          \<comment> \<open>\<open>./.stra2us\<close>, when it is a file\<close>
  ch_home_conf :: "string option"         \<comment> \<open>\<open>~/.stra2us\<close>\<close>
  ch_toml :: "string \<Rightarrow> pyval option"   \<comment> \<open>\<open>tomllib.load\<close>; \<open>None\<close>: it raises\<close>

abbreviation config_error :: exn where
  "config_error \<equiv> PyExn ''ConfigError''"

definition CONFIG_FILENAME :: string where
  "CONFIG_FILENAME = ''.stra2us''"

record credentials =
  cr_host :: string
  cr_client_id :: pyval
  cr_secret_hex :: pyval
  cr_source :: string

subsection \<open>The lookup\<close>

definition rstrip_slash :: "string \<Rightarrow> string" where
  "rstrip_slash s = rev (dropWhile (\<lambda>c. c = CHR ''/'') (rev s))"

definition normalize_host :: "string \<Rightarrow> string" where
  "normalize_host raw0 =
     (let raw = rstrip_slash (strip raw0) in
      if prefix ''http://'' raw \<or> prefix ''https://'' raw then raw else ''http://'' @ raw)"

text \<open>\<open>v or {}\<close>\<close>

definition or_empty :: "pyval \<Rightarrow> pyval" where
  "or_empty v = (if truthy v then v else PDict [])"

definition toml_section :: "pyval \<Rightarrow> string option \<Rightarrow> pyval res" where
  "toml_section doc profile =
     (case profile of
        None \<Rightarrow> bind_res (dget_or doc ''default'' PNone) (\<lambda>v. Inr (or_empty v))
      | Some p \<Rightarrow>
          bind_res (dget_or doc ''profile'' PNone) (\<lambda>ps.
          bind_res (dget_or (or_empty ps) p PNone) (\<lambda>v. Inr (or_empty v))))"

definition profile_tag :: "string option \<Rightarrow> string" where
  "profile_tag profile =
     (case profile of None \<Rightarrow> ''[default]'' | Some p \<Rightarrow> if p = [] then ''[default]'' else ''['' @ p @ '']'')"

fun load_candidates ::
    "conf_host \<Rightarrow> string option \<Rightarrow> (string option \<times> string) list \<Rightarrow> (pyval \<times> string) option res" where
  "load_candidates H profile [] = Inr None"
| "load_candidates H profile ((file, label) # rest) =
     (case file of
        None \<Rightarrow> load_candidates H profile rest
      | Some raw \<Rightarrow>
         (case ch_toml H raw of
            None \<Rightarrow> Inl config_error
          | Some doc \<Rightarrow>
              bind_res (toml_section doc profile) (\<lambda>section.
              if truthy section then Inr (Some (section, label @ '' '' @ profile_tag profile))
              else load_candidates H profile rest)))"

definition load_file_creds :: "conf_host \<Rightarrow> string option \<Rightarrow> (pyval \<times> string) option res" where
  "load_file_creds H profile =
     load_candidates H profile
       [(ch_cwd_conf H, ''./'' @ CONFIG_FILENAME), (ch_home_conf H, ''~/'' @ CONFIG_FILENAME)]"

text \<open>The value of one field and where it comes from.\<close>

definition pick ::
    "conf_host \<Rightarrow> pyval \<Rightarrow> string \<Rightarrow> string option \<Rightarrow> string \<Rightarrow> string \<Rightarrow> (pyval option \<times> string) res" where
  "pick H file_creds file_source flag_val env_key file_key =
     (case flag_val of
        Some (c # cs) \<Rightarrow> Inr (Some (PStr (c # cs)), ''flag'')
      | _ \<Rightarrow>
         (case ch_env H env_key of
            Some (c # cs) \<Rightarrow> Inr (Some (PStr (c # cs)), CHR ''$'' # env_key)
          | _ \<Rightarrow>
             bind_res (dget_or file_creds file_key PNone) (\<lambda>fv.
             if truthy fv then Inr (Some fv, file_source) else Inr (None, []))))"

definition source_label :: "string \<Rightarrow> string \<Rightarrow> string \<Rightarrow> string" where
  "source_label host_src cid_src sec_src =
     (if host_src = cid_src \<and> cid_src = sec_src then host_src
      else ''host='' @ host_src @ '', client_id='' @ cid_src @ '', secret='' @ sec_src)"

text \<open>A field that no source gives is reported; then the host is put into its normal form.\<close>

definition make_credentials ::
    "pyval option \<times> string \<Rightarrow> pyval option \<times> string \<Rightarrow> pyval option \<times> string \<Rightarrow> credentials res" where
  "make_credentials h i x =
     (case (fst h, fst i, fst x) of
        (Some host_v, Some cid_v, Some sec_v) \<Rightarrow>
          (case host_v of
             PStr host \<Rightarrow>
               Inr \<lparr>cr_host = normalize_host host, cr_client_id = cid_v, cr_secret_hex = sec_v,
                    cr_source = source_label (snd h) (snd i) (snd x)\<rparr>
           | _ \<Rightarrow> Inl (PyExn ''AttributeError''))
      | _ \<Rightarrow> Inl config_error)"

definition resolve ::
    "conf_host \<Rightarrow> string option \<Rightarrow> string option \<Rightarrow> string option \<Rightarrow> string option \<Rightarrow> credentials res" where
  "resolve H server client_id_flag secret_flag profile =
     bind_res (load_file_creds H profile) (\<lambda>got.
     let (file_creds, file_source) = (case got of None \<Rightarrow> (PDict [], []) | Some g \<Rightarrow> g) in
     bind_res (pick H file_creds file_source server ''STRA2US_HOST'' ''host'') (\<lambda>(host_v, host_src).
     bind_res (pick H file_creds file_source client_id_flag ''STRA2US_CLIENT_ID'' ''client_id'') (\<lambda>(cid_v, cid_src).
     bind_res (pick H file_creds file_source secret_flag ''STRA2US_SECRET_HEX'' ''secret_hex'') (\<lambda>(sec_v, sec_src).
     make_credentials (host_v, host_src) (cid_v, cid_src) (sec_v, sec_src)))))"

text \<open>
  The client of the credentials, with its base URL. A client id or secret that a file gives as
  another type than a string fails in the first request; here it fails at once.
\<close>

definition str_field :: "pyval \<Rightarrow> string res" where
  "str_field v = (case v of PStr s \<Rightarrow> Inr s | _ \<Rightarrow> Inl (PyExn ''TypeError''))"

definition client_from_env ::
    "conf_host \<Rightarrow> string option \<Rightarrow> string option \<Rightarrow> string option \<Rightarrow> string option \<Rightarrow> (string \<times> stra2us_client) res" where
  "client_from_env H server client_id_flag secret_flag profile =
     bind_res (resolve H server client_id_flag secret_flag profile) (\<lambda>creds.
     bind_res (str_field (cr_client_id creds)) (\<lambda>i.
     bind_res (str_field (cr_secret_hex creds)) (\<lambda>x.
     Inr (cr_host creds, \<lparr>cl_client_id = i, cl_secret_hex = x, cl_verify_response = True\<rparr>))))"

subsection \<open>What the lookup gives\<close>

lemma pick_flag: "flag \<noteq> [] \<Longrightarrow> pick H fc fs (Some flag) env_key file_key = Inr (Some (PStr flag), ''flag'')"
  by (cases flag) (simp_all add: pick_def)

lemma pick_env:
  "v \<noteq> [] \<Longrightarrow> ch_env H env_key = Some v \<Longrightarrow>
    pick H fc fs None env_key file_key = Inr (Some (PStr v), CHR ''$'' # env_key)"
  by (cases v) (simp_all add: pick_def)

text \<open>A value that was picked counts as true, whatever its source.\<close>

lemma pick_truthy: "pick H fc fs flag env_key file_key = Inr (Some v, src) \<Longrightarrow> truthy v"
  by (auto simp: pick_def bind_res_Inr_iff truthy_def split: option.splits list.splits if_splits pyval.splits)

text \<open>
  Three flags suffice when no file fails to parse. A file is read before the flags are looked at,
  so one that fails to parse stops the command whatever the flags are.
\<close>

lemma resolve_flags:
  assumes "load_file_creds H profile = Inr got" and "server \<noteq> []" and "i \<noteq> []" and "x \<noteq> []"
  shows "resolve H (Some server) (Some i) (Some x) profile =
    Inr \<lparr>cr_host = normalize_host server, cr_client_id = PStr i, cr_secret_hex = PStr x, cr_source = ''flag''\<rparr>"
  using assms by (simp add: resolve_def pick_flag source_label_def make_credentials_def split: prod.split)

lemma resolve_bad_file:
  assumes "ch_cwd_conf H = Some raw" and "ch_toml H raw = None"
  shows "resolve H server i x profile = Inl config_error"
  using assms by (simp add: resolve_def load_file_creds_def)

lemma client_of_flags:
  assumes "load_file_creds H profile = Inr got" and "server \<noteq> []" and "i \<noteq> []" and "x \<noteq> []"
  shows "client_from_env H (Some server) (Some i) (Some x) profile =
    Inr (normalize_host server, \<lparr>cl_client_id = i, cl_secret_hex = x, cl_verify_response = True\<rparr>)"
  using resolve_flags [OF assms] by (simp add: client_from_env_def str_field_def)

text \<open>Whatever the surroundings, a client that is built has a non-empty id and secret.\<close>

lemma client_nonempty:
  assumes "client_from_env H server i x profile = Inr (url, c)"
  shows "cl_client_id c \<noteq> []" "cl_secret_hex c \<noteq> []" "prefix ''http'' url"
proof -
  from assms obtain cr where cr: "resolve H server i x profile = Inr cr" "str_field (cr_client_id cr) = Inr (cl_client_id c)"
    "str_field (cr_secret_hex cr) = Inr (cl_secret_hex c)" "url = cr_host cr"
    by (auto simp: client_from_env_def bind_res_Inr_iff)
  have "truthy (cr_client_id cr) \<and> truthy (cr_secret_hex cr) \<and> (\<exists>h. cr_host cr = normalize_host h)"
  proof -
    from cr(1) obtain fc fs h i' x' where p: "pick H fc fs i ''STRA2US_CLIENT_ID'' ''client_id'' = Inr i'"
      "pick H fc fs x ''STRA2US_SECRET_HEX'' ''secret_hex'' = Inr x'" and res: "make_credentials h i' x' = Inr cr"
      unfolding resolve_def case_prod_beta Let_def bind_res_Inr_iff prod.collapse by blast
    have "truthy v" if "fst i' = Some v \<or> fst x' = Some v" for v
      using that p pick_truthy by (cases i'; cases x') fastforce
    with res show ?thesis by (auto simp: make_credentials_def split: option.splits pyval.splits)
  qed
  with cr show "cl_client_id c \<noteq> []" "cl_secret_hex c \<noteq> []" "prefix ''http'' url"
    by (auto simp: str_field_def truthy_def normalize_host_def Let_def prefix_def split: pyval.splits)
qed

end
