(* ===== verification/Synth.thy ===== *)
theory Synth
  imports CatalogPublish
begin

text \<open>
  \<open>tools/stra2us_cli/synth.py\<close>: the generator of synthetic device traffic, a loop over the signed
  client that runs until a deadline and paces itself.

  The clock is a parameter: \<open>time.time()\<close> as a function that also gives the world after the
  reading, since time passes while the program runs, and \<open>time.sleep\<close>. What the loop relies on is
  the locale \<open>timed_net\<close>: time never runs backwards, a sleep lasts at least as long as asked for.
  Times are rational numbers. The texts of errors and of the progress lines are left out.
\<close>

subsection \<open>The result of a run\<close>

record 'w clock =
  k_time :: "'w \<Rightarrow> rat \<times> 'w"
  k_sleep :: "rat \<Rightarrow> 'w \<Rightarrow> 'w"

datatype synth_error =
    CallFailed exn
  | Mismatch string pyval pyval      \<comment> \<open>key, written, read\<close>

record synth_result =
  sr_elapsed_seconds :: rat
  sr_queue_posts :: nat
  sr_queue_errors :: nat
  sr_kv_puts :: nat
  sr_kv_put_errors :: nat
  sr_kv_gets :: nat
  sr_kv_get_errors :: nat
  sr_kv_get_mismatches :: nat
  sr_last_error :: "synth_error option"

definition new_synth_result :: synth_result where
  "new_synth_result =
     \<lparr>sr_elapsed_seconds = 0, sr_queue_posts = 0, sr_queue_errors = 0, sr_kv_puts = 0, sr_kv_put_errors = 0,
      sr_kv_gets = 0, sr_kv_get_errors = 0, sr_kv_get_mismatches = 0, sr_last_error = None\<rparr>"

definition total_calls :: "synth_result \<Rightarrow> nat" where
  "total_calls r =
     sr_queue_posts r + sr_queue_errors r + sr_kv_puts r + sr_kv_put_errors r + sr_kv_gets r + sr_kv_get_errors r"

definition total_errors :: "synth_result \<Rightarrow> nat" where
  "total_errors r = sr_queue_errors r + sr_kv_put_errors r + sr_kv_get_errors r + sr_kv_get_mismatches r"

text \<open>The rate of the summary line, and the line itself. A format \<open>.nf\<close> rounds half to even.\<close>

definition summary_rate :: "synth_result \<Rightarrow> rat" where
  "summary_rate r =
     (if sr_elapsed_seconds r \<le> 0 then 0 else of_nat (total_calls r) / sr_elapsed_seconds r)"

definition round_even :: "rat \<Rightarrow> int" where
  "round_even x =
     (let f = \<lfloor>x\<rfloor>; d = x - of_int f in
      if d < 1 / 2 \<or> (d = 1 / 2 \<and> even f) then f else f + 1)"

definition fixed_point :: "nat \<Rightarrow> rat \<Rightarrow> string" where
  "fixed_point n x =
     (let k = nat (round_even (\<bar>x\<bar> * 10 ^ n));
          frac = dec_nat (k mod 10 ^ n)
      in (if x < 0 then ''-'' else []) @ dec_nat (k div 10 ^ n)
         @ (if n = 0 then [] else CHR ''.'' # replicate (n - length frac) CHR ''0'' @ frac))"

definition summary_line :: "synth_result \<Rightarrow> string" where
  "summary_line r =
     ''synth-traffic: '' @ fixed_point 1 (sr_elapsed_seconds r) @ ''s elapsed, '' @ dec_nat (total_calls r) @ '' calls (''
     @ dec_nat (sr_queue_posts r) @ '' q-POST, '' @ dec_nat (sr_kv_puts r) @ '' kv-PUT, '' @ dec_nat (sr_kv_gets r)
     @ '' kv-GET), '' @ dec_nat (total_errors r) @ '' errors ('' @ fixed_point 2 (summary_rate r) @ '' Hz)''"

subsection \<open>One tick\<close>

datatype mode = QOnly | KvOnly | Both

definition synth_queue_call ::
    "'w net \<Rightarrow> ext \<Rightarrow> stra2us_client \<Rightarrow> string \<Rightarrow> nat \<Rightarrow> rat \<Rightarrow> synth_result \<Rightarrow> 'w \<Rightarrow> synth_result res \<times> 'w" where
  "synth_queue_call N E c queue_topic tick_count tick_start r w =
     (let payload = PDict [(''tick'', PInt (int tick_count)), (''ts'', PInt (trunc tick_start)), (''synth'', PBool True)] in
      case client_post_queue N E c queue_topic payload None w of
        (Inr _, w1) \<Rightarrow> (Inr (r\<lparr>sr_queue_posts := sr_queue_posts r + 1\<rparr>), w1)
      | (Inl e, w1) \<Rightarrow>
          (if e = stra2us_error
           then Inr (r\<lparr>sr_queue_errors := sr_queue_errors r + 1, sr_last_error := Some (CallFailed e)\<rparr>)
           else Inl e, w1))"

definition synth_read_back ::
    "'w net \<Rightarrow> ext \<Rightarrow> stra2us_client \<Rightarrow> string \<Rightarrow> pyval \<Rightarrow> synth_result \<Rightarrow> 'w \<Rightarrow> synth_result res \<times> 'w" where
  "synth_read_back N E c key payload r w =
     (case client_get N E c key w of
        (Inr got, w1) \<Rightarrow>
          (let r1 = r\<lparr>sr_kv_gets := sr_kv_gets r + 1\<rparr> in
           Inr (if got \<noteq> payload
                then r1\<lparr>sr_kv_get_mismatches := sr_kv_get_mismatches r1 + 1,
                        sr_last_error := Some (Mismatch key payload got)\<rparr>
                else r1), w1)
      | (Inl e, w1) \<Rightarrow>
          (if e = stra2us_error
           then Inr (r\<lparr>sr_kv_get_errors := sr_kv_get_errors r + 1, sr_last_error := Some (CallFailed e)\<rparr>)
           else Inl e, w1))"

definition synth_kv_call ::
    "'w net \<Rightarrow> ext \<Rightarrow> stra2us_client \<Rightarrow> string \<Rightarrow> nat \<Rightarrow> synth_result \<Rightarrow> 'w \<Rightarrow> synth_result res \<times> 'w" where
  "synth_kv_call N E c key tick_count r w =
     (let payload = PStr (''synth-tick-'' @ dec_nat tick_count) in
      case client_put N E c key payload False w of
        (Inr _, w1) \<Rightarrow> synth_read_back N E c key payload (r\<lparr>sr_kv_puts := sr_kv_puts r + 1\<rparr>) w1
      | (Inl e, w1) \<Rightarrow>
          (if e = stra2us_error
           then Inr (r\<lparr>sr_kv_put_errors := sr_kv_put_errors r + 1, sr_last_error := Some (CallFailed e)\<rparr>)
           else Inl e, w1))"

text \<open>The arguments of a run; the stream for progress lines is there or not.\<close>

record synth_args =
  sa_queue_topic :: "string option"
  sa_kv_key :: "string option"
  sa_duration_seconds :: rat
  sa_rate_hz :: rat
  sa_mode :: string
  sa_max_rate_hz :: "rat option"     \<comment> \<open>\<open>None\<close>: no ceiling (\<open>inf\<close>)\<close>
  sa_progress :: bool

definition opt_str :: "string option \<Rightarrow> string" where
  "opt_str v = (case v of None \<Rightarrow> [] | Some s \<Rightarrow> s)"

definition synth_tick ::
    "'w net \<Rightarrow> ext \<Rightarrow> stra2us_client \<Rightarrow> mode \<Rightarrow> synth_args \<Rightarrow> nat \<Rightarrow> rat \<Rightarrow> synth_result \<Rightarrow> 'w
      \<Rightarrow> synth_result res \<times> 'w" where
  "synth_tick N E c m a tick_count tick_start r w =
     and_then
       (if m = QOnly \<or> m = Both
        then synth_queue_call N E c (opt_str (sa_queue_topic a)) tick_count tick_start r w else (Inr r, w))
       (\<lambda>r1 w1.
          if m = KvOnly \<or> m = Both then synth_kv_call N E c (opt_str (sa_kv_key a)) tick_count r1 w1 else (Inr r1, w1))"

text \<open>A progress line reads the clock once.\<close>

definition progress_line :: "'w clock \<Rightarrow> synth_args \<Rightarrow> nat \<Rightarrow> 'w \<Rightarrow> 'w" where
  "progress_line K a tick_count w =
     (if sa_progress a \<and> int tick_count mod max 1 (trunc (sa_rate_hz a)) = 0 then snd (k_time K w) else w)"

definition pace :: "'w clock \<Rightarrow> rat \<Rightarrow> rat \<Rightarrow> rat \<Rightarrow> 'w \<Rightarrow> 'w" where
  "pace K tick_interval deadline tick_start w =
     (let (t1, w1) = k_time K w;
          sleep_for = tick_interval - (t1 - tick_start) in
      if 0 < sleep_for
      then (let (t2, w2) = k_time K w1; remaining = deadline - t2 in k_sleep K (min sleep_for (max 0 remaining)) w2)
      else w1)"

subsection \<open>The loop\<close>

partial_function (option) synth_loop ::
    "'w net \<Rightarrow> 'w clock \<Rightarrow> ext \<Rightarrow> stra2us_client \<Rightarrow> mode \<Rightarrow> synth_args \<Rightarrow> rat \<Rightarrow> nat \<Rightarrow> synth_result \<Rightarrow> 'w
      \<Rightarrow> (synth_result res \<times> 'w) option" where
  "synth_loop N K E c m a deadline n r w =
     (case k_time K w of (tick_start, w1) \<Rightarrow>
        if deadline \<le> tick_start then Some (Inr r, w1)
        else
        (case synth_tick N E c m a (n + 1) tick_start r w1 of
           (Inl e, w2) \<Rightarrow> Some (Inl e, w2)
         | (Inr r2, w2) \<Rightarrow>
             synth_loop N K E c m a deadline (n + 1) r2
               (pace K (1 / sa_rate_hz a) deadline tick_start (progress_line K a (n + 1) w2))))"

definition mode_of :: "string \<Rightarrow> mode option" where
  "mode_of s =
     (let m = lower s in
      if m = ''q-only'' then Some QOnly else if m = ''kv-only'' then Some KvOnly
      else if m = ''both'' then Some Both else None)"

definition synth_args_ok :: "synth_args \<Rightarrow> mode res" where
  "synth_args_ok a =
     (if sa_rate_hz a \<le> 0 then Inl (PyExn ''ValueError'')
      else if (case sa_max_rate_hz a of None \<Rightarrow> False | Some m \<Rightarrow> m < sa_rate_hz a) then Inl (PyExn ''ValueError'')
      else if sa_duration_seconds a \<le> 0 then Inl (PyExn ''ValueError'')
      else
      (case mode_of (sa_mode a) of
         None \<Rightarrow> Inl (PyExn ''ValueError'')
       | Some m \<Rightarrow>
          if (m = QOnly \<or> m = Both) \<and> opt_str (sa_queue_topic a) = [] then Inl (PyExn ''ValueError'')
          else if (m = KvOnly \<or> m = Both) \<and> opt_str (sa_kv_key a) = [] then Inl (PyExn ''ValueError'')
          else Inr m))"

definition synth_run ::
    "'w net \<Rightarrow> 'w clock \<Rightarrow> ext \<Rightarrow> stra2us_client \<Rightarrow> synth_args \<Rightarrow> 'w \<Rightarrow> (synth_result res \<times> 'w) option" where
  "synth_run N K E c a w =
     (case synth_args_ok a of
        Inl e \<Rightarrow> Some (Inl e, w)
      | Inr m \<Rightarrow>
          (case k_time K w of (start, w1) \<Rightarrow>
           (case synth_loop N K E c m a (start + sa_duration_seconds a) 0 new_synth_result w1 of
              None \<Rightarrow> None
            | Some (Inl e, w2) \<Rightarrow> Some (Inl e, w2)
            | Some (Inr r, w2) \<Rightarrow>
                (case k_time K w2 of (t, w3) \<Rightarrow> Some (Inr (r\<lparr>sr_elapsed_seconds := t - start\<rparr>), w3)))))"

subsection \<open>Durations\<close>

definition DURATION_UNITS :: "(char \<times> rat) list" where
  "DURATION_UNITS = [(CHR ''s'', 1), (CHR ''m'', 60), (CHR ''h'', 3600)]"

definition parse_duration :: "string \<Rightarrow> rat res" where
  "parse_duration s0 =
     (let s = strip s0 in
      if s = [] then Inl (PyExn ''ValueError'')
      else
      (case map_of DURATION_UNITS (last s) of
         Some u \<Rightarrow> (case py_float (butlast s) of None \<Rightarrow> Inl (PyExn ''ValueError'') | Some v \<Rightarrow> Inr (v * u))
       | None \<Rightarrow> (case py_float s of None \<Rightarrow> Inl (PyExn ''ValueError'') | Some v \<Rightarrow> Inr v)))"

subsection \<open>What the counters count\<close>

definition runs_queue :: "mode \<Rightarrow> bool" where
  "runs_queue m \<longleftrightarrow> m = QOnly \<or> m = Both"

definition runs_kv :: "mode \<Rightarrow> bool" where
  "runs_kv m \<longleftrightarrow> m = KvOnly \<or> m = Both"

text \<open>After \<open>n\<close> ticks: each made the calls of its mode once, a read only after a write that was accepted.\<close>

definition counted :: "mode \<Rightarrow> nat \<Rightarrow> synth_result \<Rightarrow> bool" where
  "counted m n r \<longleftrightarrow>
     sr_queue_posts r + sr_queue_errors r = (if runs_queue m then n else 0) \<and>
     sr_kv_puts r + sr_kv_put_errors r = (if runs_kv m then n else 0) \<and>
     sr_kv_gets r + sr_kv_get_errors r = sr_kv_puts r \<and> sr_kv_get_mismatches r \<le> sr_kv_gets r \<and>
     (total_errors r = 0 \<longleftrightarrow> sr_last_error r = None)"

lemma counted_new: "counted m 0 new_synth_result"
  by (simp add: counted_def new_synth_result_def total_errors_def)

lemma queue_call_counts:
  assumes "synth_queue_call N E c topic k t r w = (Inr r', w')"
  shows "sr_queue_posts r' + sr_queue_errors r' = sr_queue_posts r + sr_queue_errors r + 1 \<and>
    sr_kv_puts r' = sr_kv_puts r \<and> sr_kv_put_errors r' = sr_kv_put_errors r \<and> sr_kv_gets r' = sr_kv_gets r \<and>
    sr_kv_get_errors r' = sr_kv_get_errors r \<and> sr_kv_get_mismatches r' = sr_kv_get_mismatches r \<and>
    ((total_errors r = 0 \<longleftrightarrow> sr_last_error r = None) \<longrightarrow> (total_errors r' = 0 \<longleftrightarrow> sr_last_error r' = None))"
  using assms by (auto simp: synth_queue_call_def total_errors_def Let_def split: prod.splits sum.splits if_splits)

lemma kv_call_counts:
  assumes "synth_kv_call N E c key k r w = (Inr r', w')"
  shows "sr_kv_puts r' + sr_kv_put_errors r' = sr_kv_puts r + sr_kv_put_errors r + 1 \<and>
    (sr_kv_gets r + sr_kv_get_errors r = sr_kv_puts r \<longrightarrow> sr_kv_gets r' + sr_kv_get_errors r' = sr_kv_puts r') \<and>
    (sr_kv_get_mismatches r \<le> sr_kv_gets r \<longrightarrow> sr_kv_get_mismatches r' \<le> sr_kv_gets r') \<and>
    sr_queue_posts r' = sr_queue_posts r \<and> sr_queue_errors r' = sr_queue_errors r \<and>
    ((total_errors r = 0 \<longleftrightarrow> sr_last_error r = None) \<longrightarrow> (total_errors r' = 0 \<longleftrightarrow> sr_last_error r' = None))"
  using assms
  by (auto simp: synth_kv_call_def synth_read_back_def total_errors_def Let_def split: prod.splits sum.splits if_splits)

lemma tick_counts:
  assumes "synth_tick N E c m a k t r w = (Inr r', w')" and "counted m n r"
  shows "counted m (Suc n) r'"
proof -
  obtain r1 w1 where
    q: "(if runs_queue m then synth_queue_call N E c (opt_str (sa_queue_topic a)) k t r w else (Inr r, w)) = (Inr r1, w1)"
    and kv: "(if runs_kv m then synth_kv_call N E c (opt_str (sa_kv_key a)) k r1 w1 else (Inr r1, w1)) = (Inr r', w')"
    using assms(1) unfolding synth_tick_def runs_queue_def runs_kv_def by (auto simp: and_then_Inr)
  have mid: "sr_queue_posts r1 + sr_queue_errors r1 = (if runs_queue m then Suc n else 0) \<and>
    sr_kv_puts r1 + sr_kv_put_errors r1 = (if runs_kv m then n else 0) \<and>
    sr_kv_gets r1 + sr_kv_get_errors r1 = sr_kv_puts r1 \<and> sr_kv_get_mismatches r1 \<le> sr_kv_gets r1 \<and>
    (total_errors r1 = 0 \<longleftrightarrow> sr_last_error r1 = None)"
  proof (cases "runs_queue m")
    case True
    with q have "synth_queue_call N E c (opt_str (sa_queue_topic a)) k t r w = (Inr r1, w1)" by simp
    from queue_call_counts [OF this] assms(2) True show ?thesis by (simp add: counted_def)
  next
    case False
    with q assms(2) show ?thesis by (simp add: counted_def)
  qed
  show ?thesis
  proof (cases "runs_kv m")
    case True
    with kv have "synth_kv_call N E c (opt_str (sa_kv_key a)) k r1 w1 = (Inr r', w')" by simp
    from kv_call_counts [OF this] mid True show ?thesis by (simp add: counted_def)
  next
    case False
    with kv mid show ?thesis by (simp add: counted_def)
  qed
qed

subsection \<open>Time passes\<close>

locale timed_net =
  fixes N :: "'w net" and K :: "'w clock" and stamp :: "'w \<Rightarrow> rat"
  assumes read_clock: "k_time K w = (x, w') \<Longrightarrow> stamp w \<le> x \<and> x \<le> stamp w'"
    and sleeps: "0 \<le> s \<Longrightarrow> stamp w + s \<le> stamp (k_sleep K s w)"
    and send_time: "n_send N method uri body headers w = (r, w') \<Longrightarrow> stamp w \<le> stamp w'"
begin

text \<open>An operation of the client never leaves a world that is earlier than the one it started in.\<close>

lemma later_lift: "(\<And>x. stamp w \<le> stamp (snd (f x))) \<Longrightarrow> stamp w \<le> stamp (snd (lift_res m w f))"
  by (cases m) simp_all

lemma later_then:
  "stamp w \<le> stamp (snd m) \<Longrightarrow> (\<And>x w1. stamp w1 \<le> stamp (snd (f x w1))) \<Longrightarrow> stamp w \<le> stamp (snd (and_then m f))"
  by (cases m; cases "fst m") (auto intro: order_trans)

lemmas later_intros = later_lift later_then

lemma request_time: "stamp w \<le> stamp (snd (client_request N E c m uri body ct ex w))"
  unfolding client_request_def Let_def
  by (intro later_lift) (auto dest: send_time split: prod.split option.split)

lemma put_time: "stamp w \<le> stamp (snd (client_put N E c key v enc w))"
  unfolding client_put_def by (intro later_intros request_time) simp

lemma get_time: "stamp w \<le> stamp (snd (client_get N E c key w))"
  unfolding client_get_def by (intro later_intros request_time) simp

lemma post_time: "stamp w \<le> stamp (snd (client_post_queue N E c topic v ttl w))"
  unfolding client_post_queue_def by (intro later_intros request_time) simp

lemma queue_call_time: "stamp w \<le> stamp (snd (synth_queue_call N E c topic k t r w))"
  using post_time unfolding synth_queue_call_def Let_def by (auto split: prod.split sum.split) (metis snd_conv)+

lemma read_back_time: "stamp w \<le> stamp (snd (synth_read_back N E c key p r w))"
  using get_time unfolding synth_read_back_def Let_def by (auto split: prod.split sum.split) (metis snd_conv)+

lemma kv_call_time: "stamp w \<le> stamp (snd (synth_kv_call N E c key k r w))"
proof -
  let ?p = "PStr (''synth-tick-'' @ dec_nat k)"
  obtain x w1 where p: "client_put N E c key ?p False w = (x, w1)" by force
  with put_time [of w E c key ?p False] have "stamp w \<le> stamp w1" by simp
  moreover have "stamp w1 \<le> stamp (snd (synth_read_back N E c key ?p r' w1))" for r' by (rule read_back_time)
  ultimately show ?thesis
    using p by (auto simp: synth_kv_call_def split: sum.split intro: order_trans)
qed

lemma tick_time:
  assumes "synth_tick N E c m a k t r w = (r', w')"
  shows "stamp w \<le> stamp w'"
proof -
  have "stamp w \<le> stamp (snd (synth_tick N E c m a k t r w))"
    unfolding synth_tick_def by (intro later_intros) (auto simp: queue_call_time kv_call_time)
  with assms show ?thesis by simp
qed

lemma progress_time: "stamp w \<le> stamp (progress_line K a k w)"
  using read_clock by (cases "k_time K w") (fastforce simp: progress_line_def)

text \<open>After pacing, the next tick is due: one interval has passed since this one began, or the deadline is reached.\<close>

lemma pace_time: "t0 \<le> stamp w \<Longrightarrow> min (t0 + i) deadline \<le> stamp (pace K i deadline t0 w)"
proof -
  obtain t1 w1 where c1: "k_time K w = (t1, w1)" by force
  obtain t2 w2 where c2: "k_time K w1 = (t2, w2)" by force
  note r1 = read_clock [OF c1] and r2 = read_clock [OF c2]
  show ?thesis
  proof (cases "0 < i - (t1 - t0)")
    case True
    let ?s = "min (i - (t1 - t0)) (max 0 (deadline - t2))"
    have "stamp w2 + ?s \<le> stamp (pace K i deadline t0 w)"
      using sleeps [of ?s w2] True c1 c2 by (simp add: pace_def)
    moreover have "min (t0 + i) deadline \<le> t2 + ?s" using r1 r2 by (auto simp: min_def max_def)
    ultimately show ?thesis using r2 by linarith
  next
    case False
    then show ?thesis using r1 c1 by (simp add: pace_def min_le_iff_disj)
  qed
qed

lemma loop_ends:
  assumes "0 < sa_rate_hz a" and "counted m n r" and "deadline - stamp w \<le> of_nat k / sa_rate_hz a"
  shows "\<exists>out w'. synth_loop N K E c m a deadline n r w = Some (out, w') \<and>
    (\<forall>r'. out = Inr r' \<longrightarrow> deadline \<le> stamp w' \<and> (\<exists>j \<le> n + k. counted m j r'))"
  using assms(2,3)
proof (induction k arbitrary: n r w)
  case 0
  obtain t0 w1 where c: "k_time K w = (t0, w1)" by force
  have "deadline \<le> t0" "t0 \<le> stamp w1" using 0 read_clock [OF c] by auto
  with c 0 show ?case by (subst synth_loop.simps) auto
next
  case (Suc k)
  let ?i = "1 / sa_rate_hz a"
  obtain t0 w1 where c: "k_time K w = (t0, w1)" by force
  note rd = read_clock [OF c]
  show ?case
  proof (cases "deadline \<le> t0")
    case True
    with c rd Suc.prems show ?thesis by (subst synth_loop.simps) (auto intro!: exI [of _ n])
  next
    case False
    obtain out2 w2 where tk: "synth_tick N E c m a (n + 1) t0 r w1 = (out2, w2)" by force
    show ?thesis
    proof (cases out2)
      case (Inl e)
      with c False tk show ?thesis by (subst synth_loop.simps) simp
    next
      case (Inr r2)
      let ?w3 = "pace K ?i deadline t0 (progress_line K a (n + 1) w2)"
      have "t0 \<le> stamp (progress_line K a (n + 1) w2)"
        using rd tick_time [OF tk] progress_time [of w2 a "n + 1"] by linarith
      from pace_time [OF this, of ?i deadline] have "min (stamp w + ?i) deadline \<le> stamp ?w3"
        using rd by (auto simp: min_def split: if_splits)
      then have "deadline - stamp ?w3 \<le> of_nat k / sa_rate_hz a"
        using Suc.prems(2) divide_nonneg_pos [OF of_nat_0_le_iff [of k] assms(1)]
        by (simp add: add_divide_distrib)
      moreover have "counted m (Suc n) r2" using tick_counts [OF tk [unfolded Inr] Suc.prems(1)] .
      ultimately obtain out w' where "synth_loop N K E c m a deadline (Suc n) r2 ?w3 = Some (out, w')"
        "\<forall>r'. out = Inr r' \<longrightarrow> deadline \<le> stamp w' \<and> (\<exists>j \<le> Suc n + k. counted m j r')"
        using Suc.IH by blast
      moreover have "synth_loop N K E c m a deadline n r w = synth_loop N K E c m a deadline (Suc n) r2 ?w3"
        using c False tk Inr by (subst synth_loop.simps) simp
      ultimately show ?thesis by auto
    qed
  qed
qed

lemma run_ends:
  assumes "synth_args_ok a = Inr m"
  shows "\<exists>out w'. synth_run N K E c a w = Some (out, w') \<and>
    (\<forall>r. out = Inr r \<longrightarrow> sa_duration_seconds a \<le> sr_elapsed_seconds r \<and>
      (\<exists>j. of_nat j < sa_duration_seconds a * sa_rate_hz a + 1 \<and> counted m j r))"
proof -
  let ?d = "sa_duration_seconds a"
  have pos: "0 < sa_rate_hz a" "0 < ?d"
    using assms by (auto simp: synth_args_ok_def split: if_splits)
  obtain t0 w1 where c: "k_time K w = (t0, w1)" by force
  note rd = read_clock [OF c]
  define k where "k = nat \<lceil>?d * sa_rate_hz a\<rceil>"
  have k: "?d * sa_rate_hz a \<le> of_nat k" "of_nat k < ?d * sa_rate_hz a + 1"
    using pos ceiling_correct [of "?d * sa_rate_hz a"] by (simp_all add: k_def)
  have "(t0 + ?d) - stamp w1 \<le> of_nat k / sa_rate_hz a"
  proof -
    have "(t0 + ?d) - stamp w1 \<le> ?d" using rd by linarith
    also have "?d \<le> of_nat k / sa_rate_hz a" using k(1) pos(1) by (simp add: pos_le_divide_eq)
    finally show ?thesis .
  qed
  from loop_ends [OF pos(1) counted_new this] obtain out w2 where
    l: "synth_loop N K E c m a (t0 + ?d) 0 new_synth_result w1 = Some (out, w2)"
    "\<forall>r'. out = Inr r' \<longrightarrow> t0 + ?d \<le> stamp w2 \<and> (\<exists>j \<le> 0 + k. counted m j r')" by blast
  show ?thesis
  proof (cases out)
    case (Inl e)
    with assms c l show ?thesis by (simp add: synth_run_def)
  next
    case (Inr r)
    obtain t3 w3 where c3: "k_time K w2 = (t3, w3)" by force
    obtain j where j: "t0 + ?d \<le> stamp w2" "j \<le> k" "counted m j r" using l(2) Inr by auto
    have "counted m j (r\<lparr>sr_elapsed_seconds := t3 - t0\<rparr>)"
      using j(3) by (simp add: counted_def total_errors_def)
    moreover have "of_nat j < ?d * sa_rate_hz a + 1" using j(2) k(2) by (meson le_less_trans of_nat_mono)
    moreover have "?d \<le> t3 - t0" using read_clock [OF c3] j(1) by linarith
    ultimately show ?thesis using assms c l(1) Inr c3 by (auto simp: synth_run_def)
  qed
qed

end

subsection \<open>The lossy network with a clock\<close>

text \<open>
  The network of \<open>CatalogPublish\<close> on a world with a time, which both ends read in whole seconds;
  every message takes \<open>latency\<close> seconds, reading the clock takes none.
\<close>

type_synonym 'db synth_world = "('db world \<times> fault list) \<times> rat"

definition synth_net ::
    "'db redis \<Rightarrow> ext \<Rightarrow> (pyval \<Rightarrow> 'cat option) \<Rightarrow> ('cat \<Rightarrow> 'issue list) \<Rightarrow> nat \<Rightarrow> 'db synth_world net" where
  "synth_net R E mv lint latency =
     \<lparr>n_now = (\<lambda>(w, t). trunc t),
      n_send = (\<lambda>method uri body headers (((d, _, _), fs), t).
        (case n_send (lossy_net R E mv lint) method uri body headers ((d, trunc t, trunc t), fs) of
           (r, w1) \<Rightarrow> (r, (w1, t + of_nat latency))))\<rparr>"

definition synth_clock :: "'db synth_world clock" where
  "synth_clock = \<lparr>k_time = (\<lambda>(w, t). (t, (w, t))), k_sleep = (\<lambda>s (w, t). (w, t + s))\<rparr>"

interpretation synth_time: timed_net "synth_net R E mv lint latency" synth_clock snd
  for R :: "'db redis" and E and mv :: "pyval \<Rightarrow> 'cat option" and lint :: "'cat \<Rightarrow> 'issue list" and latency
  by unfold_locales (auto simp: synth_net_def synth_clock_def split: prod.splits)

text \<open>
  C35. Traffic generation ends and keeps to its rate. With arguments that pass the checks, on any
  network and clock where time does not run backwards and a sleep lasts as long as asked for,
  \<open>run\<close> returns whatever the calls do, errors included. When it returns a result, at least the
  duration has passed, the number of ticks is less than duration times rate plus one (so an error
  storm cannot exceed the ceiling), each tick made the calls of its mode once, each accepted write
  was read back once, and there is a last error exactly when errors were counted.
\<close>

theorem synth_run_ends:
  assumes "timed_net N K stamp" and "synth_args_ok a = Inr m"
  shows "\<exists>out w'. synth_run N K E c a w = Some (out, w') \<and>
    (\<forall>r. out = Inr r \<longrightarrow> sa_duration_seconds a \<le> sr_elapsed_seconds r \<and>
      (\<exists>ticks. of_nat ticks < sa_duration_seconds a * sa_rate_hz a + 1 \<and>
        sr_queue_posts r + sr_queue_errors r = (if m = QOnly \<or> m = Both then ticks else 0) \<and>
        sr_kv_puts r + sr_kv_put_errors r = (if m = KvOnly \<or> m = Both then ticks else 0) \<and>
        sr_kv_gets r + sr_kv_get_errors r = sr_kv_puts r \<and> sr_kv_get_mismatches r \<le> sr_kv_gets r \<and>
        (total_errors r = 0 \<longleftrightarrow> sr_last_error r = None)))"
  using timed_net.run_ends [OF assms] unfolding counted_def runs_queue_def runs_kv_def by blast

theorem synth_run_ends_witness:
  "\<exists>out w'. synth_run (synth_net mem_redis ref_ext (\<lambda>_. None :: unit option) (\<lambda>_. [()]) 1) synth_clock ref_ext ref_client
     \<lparr>sa_queue_topic = Some ''t'', sa_kv_key = Some ''k'', sa_duration_seconds = 30, sa_rate_hz = 2, sa_mode = ''BOTH'',
      sa_max_rate_hz = Some 100, sa_progress = True\<rparr> (((ref_known, 0, 0), [LoseRequest, LoseResponse]), 100) = Some (out, w')"
proof -
  let ?a = "\<lparr>sa_queue_topic = Some ''t'', sa_kv_key = Some ''k'', sa_duration_seconds = 30, sa_rate_hz = 2, sa_mode = ''BOTH'',
      sa_max_rate_hz = Some 100, sa_progress = True\<rparr>"
  have "lower ''BOTH'' = ''both''" by code_simp
  then have "synth_args_ok ?a = Inr Both" by (simp add: synth_args_ok_def mode_of_def opt_str_def)
  from synth_run_ends [OF synth_time.timed_net_axioms this] show ?thesis by blast
qed

end
