(* ===== verification/Svg.thy ===== *)
theory Svg
  imports CatalogPublish
begin

text \<open>
  \<open>tools/stra2us_cli/sanitizers/svg.py\<close>: the sanitizer an SVG asset passes before it is published.

  The parser (\<open>defusedxml\<close>) is an argument: it gives a tree or \<open>None\<close> when it raises. The tree is
  the one of \<open>xml.etree\<close>: an element has a tag \<open>{namespace}name\<close>, attributes, the text before its
  first child, its children, and the text after it (\<open>tail\<close>). \<open>ET.tostring\<close> is written out for what
  the sanitizer gives it: elements of the SVG namespace, registered without a prefix.
\<close>

subsection \<open>Trees\<close>

datatype xml =
  Elem (x_tag: string) (x_attrib: "(string \<times> string) list") (x_text: "string option")
    (x_children: "xml list") (x_tail: "string option")

abbreviation svg_error :: "'a res" where
  "svg_error \<equiv> Inl (PyExn ''SvgSanitizeError'')"

definition SVG_NS :: string where
  "SVG_NS = ''http://www.w3.org/2000/svg''"

definition SVG_ALLOWED_TAGS :: "string list" where
  "SVG_ALLOWED_TAGS =
     [''svg'', ''g'', ''path'', ''circle'', ''ellipse'', ''rect'', ''line'', ''polyline'', ''polygon'', ''text'', ''tspan'',
      ''defs'', ''linearGradient'', ''radialGradient'', ''stop'', ''use'', ''title'', ''desc'']"

definition GEOMETRIC_ATTRS :: "string list" where
  "GEOMETRIC_ATTRS =
     [''d'', ''cx'', ''cy'', ''r'', ''rx'', ''ry'', ''x'', ''y'', ''x1'', ''y1'', ''x2'', ''y2'', ''width'', ''height'',
      ''points'', ''transform'', ''viewBox'', ''offset'']"

definition PRESENTATION_ATTRS :: "string list" where
  "PRESENTATION_ATTRS =
     [''fill'', ''stroke'', ''stroke-width'', ''opacity'', ''fill-opacity'', ''stroke-opacity'', ''stroke-linecap'',
      ''stroke-linejoin'', ''stroke-dasharray'', ''font-family'', ''font-size'', ''text-anchor'', ''stop-color'',
      ''stop-opacity'', ''gradientUnits'', ''gradientTransform'', ''spreadMethod'']"

definition STRUCTURAL_ATTRS :: "string list" where
  "STRUCTURAL_ATTRS = [''id'', ''class'', ''xmlns'', ''version'', ''preserveAspectRatio'']"

definition SVG_ALLOWED_ATTRS :: "string list" where
  "SVG_ALLOWED_ATTRS = GEOMETRIC_ATTRS @ PRESENTATION_ATTRS @ STRUCTURAL_ATTRS"

text \<open>\<open>tag.split("}", 1)[1]\<close> has no second part when there is no brace.\<close>

definition localname :: "string \<Rightarrow> string res" where
  "localname tag =
     (if prefix ''{'' tag
      then (case split1 CHR ''}'' tag of None \<Rightarrow> Inl (PyExn ''IndexError'') | Some (_, n) \<Rightarrow> Inr n)
      else Inr tag)"

definition href_ok :: "string \<Rightarrow> bool" where
  "href_ok v \<longleftrightarrow> prefix ''#'' v \<and> CHR 0x0A \<notin> set v \<and> CHR 0x0D \<notin> set v"

text \<open>The value of an attribute that is kept; \<open>None\<close>: it is dropped.\<close>

definition check_attr :: "string \<Rightarrow> string \<Rightarrow> string option res" where
  "check_attr attr_name v =
     bind_res (localname attr_name) (\<lambda>name.
     let name_ci = lower name in
     if prefix ''on'' name_ci then svg_error
     else if name_ci = ''style'' then Inr None
     else if name_ci = ''href'' then (if href_ok v then Inr (Some v) else svg_error)
     else if name \<in> set SVG_ALLOWED_ATTRS then Inr (Some v)
     else Inr None)"

fun clean_attrs :: "(string \<times> string) list \<Rightarrow> (string \<times> string) list \<Rightarrow> (string \<times> string) list res" where
  "clean_attrs [] cleaned = Inr cleaned"
| "clean_attrs ((attr_name, v) # as) cleaned =
     bind_res (check_attr attr_name v) (\<lambda>keep.
     case keep of
       None \<Rightarrow> clean_attrs as cleaned
     | Some v' \<Rightarrow> bind_res (localname attr_name) (\<lambda>n. clean_attrs as (dict_set n v' cleaned)))"

definition nonempty_text :: "string option \<Rightarrow> string option" where
  "nonempty_text t = (case t of None \<Rightarrow> None | Some s \<Rightarrow> if s = [] then None else Some s)"

definition svg_tag :: "string \<Rightarrow> string" where
  "svg_tag local_name = CHR ''{'' # SVG_NS @ CHR ''}'' # local_name"

fun walk :: "xml \<Rightarrow> xml option res" and walk_children :: "xml list \<Rightarrow> xml list res" where
  "walk (Elem tag attrib text children tail) =
     bind_res (localname tag) (\<lambda>local_name.
     if local_name = ''script'' then svg_error
     else if local_name = ''foreignObject'' then svg_error
     else if local_name \<notin> set SVG_ALLOWED_TAGS then Inr None
     else
     bind_res (clean_attrs attrib []) (\<lambda>cleaned_attrs.
     bind_res (walk_children children) (\<lambda>cs.
     Inr (Some (Elem (svg_tag local_name) cleaned_attrs (nonempty_text text) cs (nonempty_text tail))))))"
| "walk_children [] = Inr []"
| "walk_children (c # cs) =
     bind_res (walk c) (\<lambda>cleaned.
     bind_res (walk_children cs) (\<lambda>rest.
     Inr (case cleaned of None \<Rightarrow> rest | Some n \<Rightarrow> n # rest)))"

subsection \<open>\<open>ET.tostring\<close>\<close>

definition escape_cdata :: "string \<Rightarrow> string" where
  "escape_cdata s =
     concat (map (\<lambda>c. if c = CHR ''&'' then ''&amp;'' else if c = CHR ''<'' then ''&lt;''
       else if c = CHR ''>'' then ''&gt;'' else [c]) s)"

definition escape_attrib :: "string \<Rightarrow> string" where
  \<open>escape_attrib s =
     concat (map (\<lambda>c. if c = CHR ''&'' then ''&amp;'' else if c = CHR ''<'' then ''&lt;''
       else if c = CHR ''>'' then ''&gt;'' else if c = CHR 0x22 then ''&quot;'' else if c = CHR 0x0D then ''&#13;''
       else if c = CHR 0x0A then ''&#10;'' else if c = CHR 0x09 then ''&#09;'' else [c]) s)\<close>

definition attr_text :: "string \<times> string \<Rightarrow> string" where
  \<open>attr_text = (\<lambda>(k, v). '' '' @ k @ ''="'' @ escape_attrib v @ ''"'')\<close>

definition text_of :: "string option \<Rightarrow> string" where
  "text_of t = (case t of None \<Rightarrow> [] | Some s \<Rightarrow> escape_cdata s)"

text \<open>The name an element is written with: an SVG element without its namespace.\<close>

definition written_name :: "string \<Rightarrow> string" where
  "written_name tag = (if prefix (svg_tag []) tag then drop (length (svg_tag [])) tag else tag)"

fun serialize :: "string \<Rightarrow> xml \<Rightarrow> string" and serialize_children :: "xml list \<Rightarrow> string" where
  "serialize namespaces (Elem tag attrib text children tail) =
     ''<'' @ written_name tag @ namespaces @ concat (map attr_text attrib)
     @ (if text_of text \<noteq> [] \<or> children \<noteq> []
        then ''>'' @ text_of text @ serialize_children children @ ''</'' @ written_name tag @ ''>''
        else '' />'')
     @ text_of tail"
| "serialize_children [] = []"
| "serialize_children (c # cs) = serialize [] c @ serialize_children cs"

definition svg_tostring :: "xml \<Rightarrow> string" where
  "svg_tostring t = serialize (attr_text (''xmlns'', SVG_NS)) t"

subsection \<open>The sanitizer\<close>

definition sanitize_svg :: "(string \<Rightarrow> xml option) \<Rightarrow> string \<Rightarrow> string res" where
  "sanitize_svg parse source =
     (case parse source of
        None \<Rightarrow> svg_error
      | Some tree \<Rightarrow>
         bind_res (localname (x_tag tree)) (\<lambda>name.
         if name \<noteq> ''svg'' then svg_error
         else
         bind_res (walk tree) (\<lambda>cleaned.
         case cleaned of None \<Rightarrow> svg_error | Some t \<Rightarrow> Inr (svg_tostring t))))"

subsection \<open>Clean trees\<close>

text \<open>What may be in the output: allowed elements in the SVG namespace, allowed attributes, references into the document.\<close>

definition attr_clean :: "string \<times> string \<Rightarrow> bool" where
  "attr_clean = (\<lambda>(k, v). k \<in> set SVG_ALLOWED_ATTRS \<or> (lower k = ''href'' \<and> href_ok v))"

fun svg_clean :: "xml \<Rightarrow> bool" where
  "svg_clean (Elem tag attrib text children tail) \<longleftrightarrow>
     tag \<in> svg_tag ` set SVG_ALLOWED_TAGS \<and> distinct (map fst attrib) \<and> list_all attr_clean attrib \<and>
     text \<noteq> Some [] \<and> tail \<noteq> Some [] \<and> list_all svg_clean children"

lemma localname_svg_tag [simp]: "localname (svg_tag n) = Inr n"
proof -
  have "CHR ''}'' \<notin> set (CHR ''{'' # SVG_NS)" by (simp add: SVG_NS_def)
  from split1_append [OF this, of n] show ?thesis by (simp add: localname_def svg_tag_def)
qed

lemma localname_plain: "\<not> prefix ''{'' k \<Longrightarrow> localname k = Inr k"
  by (simp add: localname_def)

lemma svg_tags_not_rejected: "n \<in> set SVG_ALLOWED_TAGS \<Longrightarrow> n \<noteq> ''script'' \<and> n \<noteq> ''foreignObject''"
  by (auto simp: SVG_ALLOWED_TAGS_def)

text \<open>No allowed attribute is an event handler, an inline style or a reference.\<close>

lemma allowed_attr_facts:
  assumes "k \<in> set SVG_ALLOWED_ATTRS"
  shows "\<not> prefix ''on'' (lower k)" "lower k \<noteq> ''style''" "lower k \<noteq> ''href''" "\<not> prefix ''{'' k"
proof -
  have "list_all (\<lambda>k. \<not> prefix ''on'' (lower k) \<and> lower k \<noteq> ''style'' \<and> lower k \<noteq> ''href'' \<and> \<not> prefix ''{'' k) SVG_ALLOWED_ATTRS"
    by code_simp
  with assms show "\<not> prefix ''on'' (lower k)" "lower k \<noteq> ''style''" "lower k \<noteq> ''href''" "\<not> prefix ''{'' k"
    by (auto simp: list_all_iff)
qed

lemma href_not_qualified: "lower k = ''href'' \<Longrightarrow> \<not> prefix ''{'' k"
  by (auto simp: lower_def prefix_def lower_char_def)

lemma check_attr_clean:
  assumes "check_attr a v = Inr (Some v')" and "localname a = Inr n"
  shows "v' = v \<and> attr_clean (n, v)"
  using assms by (auto simp: check_attr_def attr_clean_def Let_def split: if_splits)

lemma check_clean_attr: "attr_clean (k, v) \<Longrightarrow> check_attr k v = Inr (Some v) \<and> localname k = Inr k"
  by (auto simp: attr_clean_def check_attr_def Let_def localname_plain allowed_attr_facts href_not_qualified)

lemma clean_dict_set:
  "list_all attr_clean xs \<Longrightarrow> attr_clean (k, v) \<Longrightarrow> list_all attr_clean (dict_set k v xs)"
  by (induction xs) (auto split: if_splits)

lemma clean_attrs_clean:
  "clean_attrs xs acc = Inr out \<Longrightarrow> list_all attr_clean acc \<Longrightarrow> distinct (map fst acc) \<Longrightarrow>
    list_all attr_clean out \<and> distinct (map fst out)"
proof (induction xs acc rule: clean_attrs.induct)
  case (2 a v xs acc)
  from 2(3) obtain keep where k: "check_attr a v = Inr keep" by (auto simp: bind_res_Inr_iff)
  show ?case
  proof (cases keep)
    case None
    with 2 k show ?thesis by simp
  next
    case (Some v')
    with 2(3) k obtain n where n: "localname a = Inr n" "clean_attrs xs (dict_set n v' acc) = Inr out"
      by (auto simp: bind_res_Inr_iff)
    from check_attr_clean k Some n(1) have "attr_clean (n, v')" by blast
    with 2 k Some n show ?thesis by (simp add: clean_dict_set distinct_dict_set)
  qed
qed simp

lemma clean_attrs_fixed:
  "list_all attr_clean xs \<Longrightarrow> distinct (map fst (acc @ xs)) \<Longrightarrow> clean_attrs xs acc = Inr (acc @ xs)"
proof (induction xs arbitrary: acc)
  case (Cons x xs)
  obtain k v where x: "x = (k, v)" by force
  from Cons.prems x have "dict_set k v acc = acc @ [(k, v)]" by (intro dict_set_fresh) force
  with Cons.prems x check_clean_attr [of k v] Cons.IH [of "acc @ [(k, v)]"] show ?case by simp
qed simp

lemma nonempty_text_facts [simp]: "nonempty_text t \<noteq> Some []" "t \<noteq> Some [] \<Longrightarrow> nonempty_text t = t"
  by (auto simp: nonempty_text_def split: option.splits)

lemma walk_clean:
  "walk t = Inr (Some t') \<Longrightarrow> svg_clean t'"
  "walk_children cs = Inr cs' \<Longrightarrow> list_all svg_clean cs'"
proof (induction t and cs arbitrary: t' and cs' rule: walk_walk_children.induct)
  case (1 tag attrib txt0 children tail)
  then obtain n ats cs where "n \<in> set SVG_ALLOWED_TAGS" "clean_attrs attrib [] = Inr ats" "walk_children children = Inr cs"
    "t' = Elem (svg_tag n) ats (nonempty_text txt0) cs (nonempty_text tail)" "localname tag = Inr n"
    by (auto simp: bind_res_Inr_iff split: if_splits)
  with 1(1) clean_attrs_clean [of attrib "[]" ats] svg_tags_not_rejected [of n] show ?case by auto
next
  case (3 c cs)
  then show ?case by (auto simp: bind_res_Inr_iff split: option.splits)
qed simp

lemma walk_fixed:
  "svg_clean t \<Longrightarrow> walk t = Inr (Some t)"
  "list_all svg_clean cs \<Longrightarrow> walk_children cs = Inr cs"
proof (induction t and cs rule: walk_walk_children.induct)
  case (1 tag attrib txt0 children tail)
  then obtain n where n: "n \<in> set SVG_ALLOWED_TAGS" "tag = svg_tag n" by auto
  with 1 have "walk_children children = Inr children" using svg_tags_not_rejected by auto
  with 1(2) n clean_attrs_fixed [of attrib "[]"] svg_tags_not_rejected [OF n(1)] show ?case by simp
qed simp_all

subsection \<open>The bytes that are published\<close>

text \<open>Every opening bracket of a text starts or ends an allowed element.\<close>

definition starts_tag :: "string \<Rightarrow> bool" where
  "starts_tag s \<longleftrightarrow>
     (\<exists>n \<in> set SVG_ALLOWED_TAGS. \<exists>d \<in> {CHR '' '', CHR ''>''}. prefix (n @ [d]) s \<or> prefix (CHR ''/'' # n @ [d]) s)"

fun brackets_ok :: "string \<Rightarrow> bool" where
  "brackets_ok [] \<longleftrightarrow> True"
| "brackets_ok (c # s) \<longleftrightarrow> (c = CHR ''<'' \<longrightarrow> starts_tag s) \<and> brackets_ok s"

lemma starts_tag_append: "starts_tag s \<Longrightarrow> starts_tag (s @ t)"
  unfolding starts_tag_def by (blast intro: prefix_prefix)

lemma brackets_ok_append [intro]: "brackets_ok s \<Longrightarrow> brackets_ok t \<Longrightarrow> brackets_ok (s @ t)"
  by (induction s) (auto intro: starts_tag_append)

lemma brackets_ok_free [intro]: "CHR ''<'' \<notin> set s \<Longrightarrow> brackets_ok s"
  by (induction s) auto

lemma escaped_no_bracket [simp]: "CHR ''<'' \<notin> set (escape_cdata s)" "CHR ''<'' \<notin> set (escape_attrib s)"
  by (auto simp: escape_cdata_def escape_attrib_def)

lemma text_of_no_bracket [simp]: "CHR ''<'' \<notin> set (text_of t)"
  by (simp add: text_of_def split: option.split)

lemma allowed_names: 
  "n \<in> set SVG_ALLOWED_TAGS \<Longrightarrow> CHR ''<'' \<notin> set n" "k \<in> set SVG_ALLOWED_ATTRS \<Longrightarrow> CHR ''<'' \<notin> set k"
proof -
  have "list_all (\<lambda>n. CHR ''<'' \<notin> set n) SVG_ALLOWED_TAGS" "list_all (\<lambda>n. CHR ''<'' \<notin> set n) SVG_ALLOWED_ATTRS"
    by code_simp+
  then show "n \<in> set SVG_ALLOWED_TAGS \<Longrightarrow> CHR ''<'' \<notin> set n" "k \<in> set SVG_ALLOWED_ATTRS \<Longrightarrow> CHR ''<'' \<notin> set k"
    by (simp_all add: list_all_iff)
qed

lemma href_no_bracket: "lower k = ''href'' \<Longrightarrow> CHR ''<'' \<notin> set k"
proof
  assume k: "lower k = ''href''" and "CHR ''<'' \<in> set k"
  moreover have "lower_char CHR ''<'' = CHR ''<''" by code_simp
  ultimately have "CHR ''<'' \<in> set (lower k)" by (metis image_eqI list.set_map lower_def)
  with k show False by simp
qed

lemma attr_text_no_bracket: "attr_clean kv \<Longrightarrow> CHR ''<'' \<notin> set (attr_text kv)"
  by (cases kv) (auto simp: attr_clean_def attr_text_def allowed_names(2) href_no_bracket)

lemma attrs_no_bracket: "list_all attr_clean as \<Longrightarrow> CHR ''<'' \<notin> set (concat (map attr_text as))"
  by (auto simp: list_all_iff attr_text_no_bracket)

lemma written_svg_tag [simp]: "written_name (svg_tag n) = n"
proof -
  have "svg_tag n = svg_tag [] @ n" by (simp add: svg_tag_def)
  then show ?thesis unfolding written_name_def by simp
qed

text \<open>What follows the name of an element: a blank or the closing bracket.\<close>

lemma starts_open:
  assumes "n \<in> set SVG_ALLOWED_TAGS" and "namespaces = [] \<or> (\<exists>r. namespaces = CHR '' '' # r)"
    and "\<exists>d r. rest = d # r \<and> d \<in> {CHR '' '', CHR ''>''}"
  shows "starts_tag (n @ namespaces @ concat (map attr_text as) @ rest)"
proof -
  have "\<exists>d r. namespaces @ concat (map attr_text as) @ rest = d # r \<and> d \<in> {CHR '' '', CHR ''>''}"
    using assms(2,3) by (cases as) (auto simp: attr_text_def split: prod.split)
  then obtain d r where "d \<in> {CHR '' '', CHR ''>''}" "namespaces @ concat (map attr_text as) @ rest = d # r" by blast
  with assms(1) show ?thesis unfolding starts_tag_def by (intro bexI [of _ n] bexI [of _ d] disjI1) auto
qed

lemma starts_close: "n \<in> set SVG_ALLOWED_TAGS \<Longrightarrow> starts_tag (CHR ''/'' # n @ CHR ''>'' # rest)"
  unfolding starts_tag_def by (intro bexI [of _ n] bexI [of _ "CHR ''>''"] disjI2) auto

lemma serialize_brackets:
  "svg_clean t \<Longrightarrow> namespaces = [] \<or> (\<exists>r. namespaces = CHR '' '' # r) \<Longrightarrow> CHR ''<'' \<notin> set namespaces \<Longrightarrow>
    brackets_ok (serialize namespaces t)"
  "list_all svg_clean cs \<Longrightarrow> brackets_ok (serialize_children cs)"
proof (induction namespaces t and cs rule: serialize_serialize_children.induct)
  case (1 namespaces tag attrib txt0 children tail)
  then obtain n where n: "n \<in> set SVG_ALLOWED_TAGS" "tag = svg_tag n" by auto
  let ?open = "text_of txt0 \<noteq> [] \<or> children \<noteq> []"
  let ?rest = "if ?open then CHR ''>'' # text_of txt0 @ serialize_children children @ ''</'' @ n @ ''>'' else '' />''"
  have kids: "?open \<Longrightarrow> brackets_ok (serialize_children children)" using 1 by simp
  have rest: "brackets_ok ?rest"
    using kids starts_close [OF n(1), of "[]"] allowed_names(1) [OF n(1)] by (auto intro!: brackets_ok_append)
  have "brackets_ok (n @ namespaces @ concat (map attr_text attrib) @ ?rest)"
    by (intro brackets_ok_append brackets_ok_free rest allowed_names(1) [OF n(1)] 1(4) attrs_no_bracket) (use 1(2) in simp)
  moreover have "starts_tag (n @ namespaces @ concat (map attr_text attrib) @ ?rest)"
    using 1(3) by (intro starts_open [OF n(1)]) auto
  ultimately have "brackets_ok ((CHR ''<'' # n @ namespaces @ concat (map attr_text attrib) @ ?rest) @ text_of tail)"
    by (intro brackets_ok_append) auto
  moreover have "serialize namespaces (Elem tag attrib txt0 children tail) =
      (CHR ''<'' # n @ namespaces @ concat (map attr_text attrib) @ ?rest) @ text_of tail"
    using n(2) by simp
  ultimately show ?case by (simp only:)
qed auto

lemma tostring_brackets: "svg_clean t \<Longrightarrow> brackets_ok (svg_tostring t)"
  unfolding svg_tostring_def by (rule serialize_brackets) (auto simp: attr_text_def SVG_NS_def escape_attrib_def)

lemma sanitize_svg_clean:
  assumes "sanitize_svg parse raw = Inr out"
  obtains t where "svg_clean t" "x_tag t = svg_tag ''svg''" "out = svg_tostring t"
proof -
  from assms obtain tree t where parts: "localname (x_tag tree) = Inr ''svg''" "walk tree = Inr (Some t)" "out = svg_tostring t"
    by (auto simp: sanitize_svg_def bind_res_Inr_iff split: option.splits if_splits)
  from parts(1,2) have "x_tag t = svg_tag ''svg''" by (cases tree) (auto simp: bind_res_Inr_iff split: if_splits)
  with parts walk_clean(1) that show thesis by blast
qed

text \<open>
  C38. A published picture is clean. Every asset that is loaded from the bundle directory as SVG
  has as its payload the serialization of a tree of allowed SVG elements with allowed attributes,
  references into the document only and no event handler; every opening bracket of those bytes
  starts or ends an allowed element, whatever the attribute values and texts of the upload hold;
  and sanitizing that tree once more keeps it as it is.
\<close>

theorem svg_published_clean:
  assumes "discover_assets E (\<lambda>raw. case sanitize_svg parse raw of Inl _ \<Rightarrow> None | Inr out \<Rightarrow> Some out) dir = Inr assets"
    and "a \<in> set assets" and "la_content_type a = ''image/svg+xml''"
  shows "brackets_ok (la_payload a) \<and>
    (\<exists>t. la_payload a = svg_tostring t \<and> svg_clean t \<and> x_tag t = svg_tag ''svg'' \<and> walk t = Inr (Some t))"
proof -
  obtain x where "load_asset E (\<lambda>raw. case sanitize_svg parse raw of Inl _ \<Rightarrow> None | Inr out \<Rightarrow> Some out) x = Inr a"
    using map_res_mem [OF assms(1) [unfolded discover_assets_def] assms(2)] by blast
  with assms(3) have "sanitize_svg parse (snd x) = Inr (la_payload a)"
    by (cases x) (auto simp: load_asset_def Let_def bind_res_Inr_iff split: option.splits sum.splits if_splits)
  then obtain t where "svg_clean t" "x_tag t = svg_tag ''svg''" "la_payload a = svg_tostring t"
    by (rule sanitize_svg_clean)
  then show ?thesis using tostring_brackets walk_fixed(1) by metis
qed

text \<open>A picture with a foreign element and a text that looks like markup.\<close>

definition ref_svg :: xml where
  "ref_svg =
     Elem (svg_tag ''svg'') [(''viewBox'', ''0 0 9 9''), (''style'', ''x'')] None
       [Elem (svg_tag ''title'') [] (Some ''<script>'') [] (Some ''t''), Elem ''{urn:x}meta'' [] None [] None] None"

definition ref_svg_bytes :: string where
  \<open>ref_svg_bytes =
     ''<svg xmlns="http://www.w3.org/2000/svg" viewBox="0 0 9 9"><title>&lt;script&gt;</title>t</svg>''\<close>

theorem svg_published_clean_witness:
  "\<exists>a. discover_assets ref_ext (\<lambda>raw. case sanitize_svg (\<lambda>_. Some ref_svg) raw of Inl _ \<Rightarrow> None | Inr out \<Rightarrow> Some out)
       [(''a.svg'', True, ''raw'')] = Inr [a] \<and> la_payload a = ref_svg_bytes \<and> brackets_ok (la_payload a)"
proof -
  let ?S = "\<lambda>raw. case sanitize_svg (\<lambda>_. Some ref_svg) raw of Inl _ \<Rightarrow> None | Inr out \<Rightarrow> Some out"
  have san: "sanitize_svg (\<lambda>_. Some ref_svg) ''raw'' = Inr ref_svg_bytes" by code_simp
  have "content_type_for ''a.svg'' = Some ''image/svg+xml''" by code_simp
  with san obtain a where a: "discover_assets ref_ext ?S [(''a.svg'', True, ''raw'')] = Inr [a]"
    "la_content_type a = ''image/svg+xml''" "la_payload a = ref_svg_bytes"
    by (auto simp: discover_assets_def load_asset_def sort_key_def)
  with svg_published_clean [OF a(1) _ a(2)] show ?thesis by auto
qed

end
