(* ===== verification/Cli.thy ===== *)
theory Cli
  imports Config Synth Svg
begin

text \<open>
  \<open>tools/stra2us_cli/cli.py\<close>: the verbs of the command line, over the modelled client, catalog,
  lint, publish and traffic generator.

  The parsed arguments (\<open>argparse\<close>) are a record and a datatype. The machine the command runs on
  is the record \<open>host\<close>: files, environment, network by base URL, clock, the printer of values.
  A command gives the lines it writes to standard output exactly (\<open>Out\<close>), a mark for every message
  on standard error (\<open>Err\<close>, texts left out), its exit code or the exception it dies of, and the
  world after it. A file is not changed by anybody else while a command runs, and a catalog
  file is valid UTF-8.
\<close>

subsection \<open>The surroundings and the arguments\<close>

record 'w host =
  h_conf :: conf_host
  h_net :: "string \<Rightarrow> 'w net"
  h_clock :: "'w clock"
  h_cwd_catalogs :: "string list"                                \<comment> \<open>the names of \<open>*.s2s.yaml\<close> here\<close>
  h_file :: "string \<Rightarrow> string option"                           \<comment> \<open>\<open>None\<close>: cannot be opened\<close>
  h_assets :: "string \<Rightarrow> (string \<times> bool \<times> string) list option" \<comment> \<open>\<open>_assets\<close> beside a catalog\<close>
  h_can_write :: "string \<Rightarrow> bool"
  h_ext :: ext
  h_validate :: "pyval \<Rightarrow> catalog option"
  h_xml :: "string \<Rightarrow> xml option"
  h_lint :: lint_config
  h_compiles :: "string \<Rightarrow> bool"
  h_repr :: "pyval \<Rightarrow> string"
  h_str :: "exn \<Rightarrow> string"

record globals =
  g_catalog :: "string option"
  g_profile :: "string option"
  g_server :: "string option"
  g_client_id :: "string option"
  g_secret_hex :: "string option"

datatype verb =
    CatalogVerb "string option" "string option"                 \<comment> \<open>\<open>catalog_verb\<close>, \<open>app\<close>\<close>
  | ShowVerb string "string option"
  | PutVerb string "string option" "string option" bool          \<comment> \<open>key, file, value, encrypted\<close>
  | GetVerb string "string option"
  | DelVerb string
  | SetVerb string string "string option" bool bool              \<comment> \<open>target, key, value, unset, encrypted\<close>
  | SynthVerb "string option" "string option" string string string bool
      \<comment> \<open>queue, key, duration, rate, mode, allow high rate\<close>
  | OtherVerb string

datatype event = Out string | Err | WriteFile string string

type_synonym 'w outcome = "event list \<times> int res \<times> 'w"

definition emit :: "event list \<Rightarrow> 'w outcome \<Rightarrow> 'w outcome" where
  "emit es out = (case out of (es', r, w) \<Rightarrow> (es @ es', r, w))"

lemma emit_simps [simp]: "emit es (es', r, w) = (es @ es', r, w)" "emit [] out = out"
  by (simp_all add: emit_def split: prod.split)

definition APP_SCOPE_KEYWORD :: string where
  "APP_SCOPE_KEYWORD = ''app''"

definition CLI_STASH_PREFIX :: string where
  "CLI_STASH_PREFIX = ''_catalog''"

subsection \<open>Helpers\<close>

definition autodetect_catalog :: "string list \<Rightarrow> string res" where
  "autodetect_catalog names =
     (case sort names of
        [] \<Rightarrow> Inl catalog_error
      | m # ms \<Rightarrow> if ms \<noteq> [] then Inl catalog_error else Inr m)"

definition catalog_path :: "'w host \<Rightarrow> globals \<Rightarrow> string res" where
  "catalog_path H a =
     (case g_catalog a of
        Some (c # cs) \<Rightarrow> Inr (c # cs)
      | _ \<Rightarrow> autodetect_catalog (h_cwd_catalogs H))"

text \<open>A text file is read with its line ends translated.\<close>

definition read_text :: "'w host \<Rightarrow> string \<Rightarrow> string option" where
  "read_text H path = map_option univ_nl (h_file H path)"

definition load_at :: "'w host \<Rightarrow> string \<Rightarrow> catalog res" where
  "load_at H path = load_catalog (h_ext H) (h_validate H) (read_text H path)"

definition load_local :: "'w host \<Rightarrow> globals \<Rightarrow> catalog res" where
  "load_local H a = bind_res (catalog_path H a) (load_at H)"

definition build_client :: "'w host \<Rightarrow> globals \<Rightarrow> (string \<times> stra2us_client) res" where
  "build_client H a = client_from_env (h_conf H) (g_server a) (g_client_id a) (g_secret_hex a) (g_profile a)"

text \<open>Building the client with the answer every command gives to \<open>ConfigError\<close>.\<close>

definition with_client ::
    "'w host \<Rightarrow> globals \<Rightarrow> 'w \<Rightarrow> (string \<Rightarrow> stra2us_client \<Rightarrow> 'w outcome) \<Rightarrow> 'w outcome" where
  "with_client H a w f =
     (case build_client H a of
        Inl e \<Rightarrow> (if e = config_error then ([Err], Inr 2, w) else ([], Inl e, w))
      | Inr (url, c) \<Rightarrow> f url c)"

text \<open>The answer to \<open>Stra2usError\<close>.\<close>

definition net_failed :: "exn \<Rightarrow> 'w \<Rightarrow> 'w outcome" where
  "net_failed e w = (if e = stra2us_error then ([Err], Inr 4, w) else ([], Inl e, w))"

definition parse_target :: "string \<Rightarrow> scope \<times> string option" where
  "parse_target target = (if target = APP_SCOPE_KEYWORD then (AppScope, None) else (DeviceScope, Some target))"

definition validate_scope :: "cvar \<Rightarrow> scope \<Rightarrow> unit res" where
  "validate_scope var sc = (if sc \<notin> set (cv_scope var) then Inl catalog_error else Inr ())"

definition dash_text :: string where
  "dash_text = [CHR 0xE2, CHR 0x80, CHR 0x94]"

definition arrow :: string where
  "arrow = [CHR 0xE2, CHR 0x86, CHR 0x92]"

definition fmt_default :: "'w host \<Rightarrow> cvar \<Rightarrow> string" where
  "fmt_default H var =
     (if cv_default_per_device var then ''per-device''
      else if cv_default var = PNone then dash_text
      else h_repr H (cv_default var))"

definition stash_key :: "string \<Rightarrow> string" where
  "stash_key app = CLI_STASH_PREFIX @ ''/'' @ app"

definition scope_text :: "scope \<Rightarrow> string" where
  "scope_text sc = (case sc of AppScope \<Rightarrow> ''app'' | DeviceScope \<Rightarrow> ''device'')"

definition type_text :: "var_type \<Rightarrow> string" where
  "type_text t = (case t of TInt \<Rightarrow> ''int'' | TFloat \<Rightarrow> ''float'' | TString \<Rightarrow> ''string'' | TBool \<Rightarrow> ''bool'' | TEnum \<Rightarrow> ''enum'')"

definition line :: "string \<Rightarrow> event" where
  "line s = Out (s @ [NL])"

subsection \<open>\<open>catalog list\<close>\<close>

text \<open>\<open>s.splitlines()[0]\<close>: up to the first line boundary; \<open>splitlines\<close> of an empty text is empty.\<close>

fun first_line :: "string \<Rightarrow> string" where
  "first_line [] = []"
| "first_line (c # s) =
     (if c \<in> {CHR 0x0A, CHR 0x0B, CHR 0x0C, CHR 0x0D, CHR 0x1C, CHR 0x1D, CHR 0x1E} \<or>
         prefix [CHR 0xC2, CHR 0x85] (c # s) \<or> prefix [CHR 0xE2, CHR 0x80, CHR 0xA8] (c # s) \<or>
         prefix [CHR 0xE2, CHR 0x80, CHR 0xA9] (c # s)
      then [] else c # first_line s)"

definition help_cell :: "cvar \<Rightarrow> string res" where
  "help_cell v =
     (case cv_help v of
        None \<Rightarrow> Inr []
      | Some h \<Rightarrow>
         if h = [] then Inr []
         else if strip h = [] then Inl (PyExn ''IndexError'')
         else Inr (first_line (strip h)))"

definition list_row :: "'w host \<Rightarrow> string \<times> cvar \<Rightarrow> string list res" where
  "list_row H = (\<lambda>(name, v).
     bind_res (help_cell v) (\<lambda>h.
     Inr [name, type_text (cv_type v), join '','' (map scope_text (cv_scope v)), fmt_default H v, h]))"

definition list_headers :: "string list" where
  "list_headers = [''key'', ''type'', ''scope'', ''default'', ''help'']"

definition column_width :: "string list list \<Rightarrow> nat \<Rightarrow> nat" where
  "column_width rows i = Max (set (map (\<lambda>r. str_len (r ! i)) (list_headers # rows)))"

definition ljust :: "nat \<Rightarrow> string \<Rightarrow> string" where
  "ljust n s = s @ replicate (n - str_len s) CHR '' ''"

text \<open>The last column is not padded.\<close>

definition format_row :: "nat list \<Rightarrow> string list \<Rightarrow> string" where
  "format_row widths r =
     ''  '' @ concat (map (\<lambda>(n, s). ljust n s @ ''  '') (zip (butlast widths) (butlast r))) @ last r"

definition cmd_catalog_list :: "'w host \<Rightarrow> globals \<Rightarrow> 'w \<Rightarrow> 'w outcome" where
  "cmd_catalog_list H a w =
     (case load_local H a of
        Inl e \<Rightarrow> ([], Inl e, w)
      | Inr cat \<Rightarrow>
         emit [line (''# '' @ ca_app cat @ '' '' @ dash_text @ '' Stra2us catalog (version '' @ dec_int (ca_version cat) @ '')'' @ [NL])]
         (case map_res (list_row H) (ca_vars cat) of
            Inl e \<Rightarrow> ([], Inl e, w)
          | Inr rows \<Rightarrow>
             let widths = map (column_width rows) [0, 1, 2, 3, 4] in
             ([line (format_row widths list_headers),
               line (''  '' @ join ''  '' (map (\<lambda>n. replicate n CHR ''-'') widths))]
              @ map (\<lambda>r. line (format_row widths r)) rows, Inr 0, w)))"

subsection \<open>\<open>catalog lint\<close> and \<open>catalog publish\<close>\<close>

definition svg_sanitizer :: "'w host \<Rightarrow> string \<Rightarrow> string option" where
  "svg_sanitizer H raw = (case sanitize_svg (h_xml H) raw of Inl _ \<Rightarrow> None | Inr out \<Rightarrow> Some out)"

text \<open>The assets beside the catalog; none when there is no directory.\<close>

definition load_bundle :: "'w host \<Rightarrow> string \<Rightarrow> loaded_asset list res" where
  "load_bundle H path =
     (case h_assets H path of None \<Rightarrow> Inr [] | Some dir \<Rightarrow> discover_assets (h_ext H) (svg_sanitizer H) dir)"

definition bundle_listing :: "'w host \<Rightarrow> string \<Rightarrow> loaded_asset list \<Rightarrow> string list option" where
  "bundle_listing H path loaded =
     (case h_assets H path of None \<Rightarrow> None | Some _ \<Rightarrow> Some (map la_filename loaded))"

definition bundle_issues :: "'w host \<Rightarrow> string \<Rightarrow> catalog \<Rightarrow> loaded_asset list \<Rightarrow> issue list" where
  "bundle_issues H path cat loaded =
     lint_catalog (h_lint H) (h_ext H) (h_compiles H) cat (bundle_listing H path loaded) @ lint_loaded (h_lint H) loaded"

definition lint_summary :: "catalog \<Rightarrow> nat \<Rightarrow> string" where
  "lint_summary cat n =
     ca_app cat @ '': lint OK ('' @ dec_nat n @ '' warning'' @ (if n = 1 then [] else ''s'') @ '')''"

definition cmd_catalog_lint :: "'w host \<Rightarrow> globals \<Rightarrow> 'w \<Rightarrow> 'w outcome" where
  "cmd_catalog_lint H a w =
     (case bind_res (catalog_path H a) (\<lambda>path. bind_res (load_at H path) (\<lambda>cat. Inr (path, cat))) of
        Inl e \<Rightarrow> ([], Inl e, w)
      | Inr (path, cat) \<Rightarrow>
         (case load_bundle H path of
            Inl e \<Rightarrow> (if e = publish_error then ([Err], Inr 6, w) else ([], Inl e, w))
          | Inr loaded \<Rightarrow>
             let issues = bundle_issues H path cat loaded;
                 errs = lint_errors issues; warns = lint_warnings issues in
             emit (map (\<lambda>_. Err) warns)
               (if errs \<noteq> [] then (Err # map (\<lambda>_. Err) errs, Inr 5, w)
                else ([line (lint_summary cat (length warns))], Inr 0, w))))"

record publish_report =
  pr_uploaded :: nat
  pr_dropped :: nat
  pr_unmanaged :: bool

definition publish_message_text :: "string \<Rightarrow> catalog \<Rightarrow> string \<Rightarrow> publish_report \<Rightarrow> string" where
  "publish_message_text url cat yaml_text r =
     ''published: '' @ url @ ''/kv/_catalog/'' @ ca_app cat @ '' ('' @ ca_app cat @ '', '' @ dec_nat (length (ca_vars cat))
     @ '' vars, '' @ dec_nat (length yaml_text) @ '' bytes''
     @ (if pr_uploaded r \<noteq> 0 then '', '' @ dec_nat (pr_uploaded r) @ '' assets'' else [])
     @ (if pr_dropped r \<noteq> 0 then '', GC'' @ [CHR 0x27] @ ''d '' @ dec_nat (pr_dropped r) @ '' dropped'' else [])
     @ (if pr_unmanaged r then '', assets unmanaged'' else []) @ '')''"

text \<open>With an \<open>_assets\<close> directory the whole bundle is published, without one the catalog alone.\<close>

definition publish_upload ::
    "'w host \<Rightarrow> 'w net \<Rightarrow> stra2us_client \<Rightarrow> string \<Rightarrow> catalog \<Rightarrow> loaded_asset list \<Rightarrow> string \<Rightarrow> 'w
      \<Rightarrow> publish_report res \<times> 'w" where
  "publish_upload H N c path cat loaded yaml_text w =
     (if h_assets H path \<noteq> None
      then and_then (publish_assets N (h_ext H) c (ca_app cat) loaded yaml_text w) (\<lambda>s w1.
        (Inr \<lparr>pr_uploaded = ps_uploaded s, pr_dropped = length (ps_dropped s), pr_unmanaged = False\<rparr>, w1))
      else and_then (client_put N (h_ext H) c (''_catalog/'' @ ca_app cat) (PStr yaml_text) False w) (\<lambda>_ w1.
        (Inr \<lparr>pr_uploaded = 0, pr_dropped = 0, pr_unmanaged = True\<rparr>, w1)))"

definition cmd_catalog_publish :: "'w host \<Rightarrow> globals \<Rightarrow> 'w \<Rightarrow> 'w outcome" where
  "cmd_catalog_publish H a w =
     (case bind_res (catalog_path H a) (\<lambda>path. bind_res (load_at H path) (\<lambda>cat. Inr (path, cat))) of
        Inl e \<Rightarrow> ([], Inl e, w)
      | Inr (path, cat) \<Rightarrow>
         (case load_bundle H path of
            Inl e \<Rightarrow> (if e = publish_error then ([Err], Inr 6, w) else ([], Inl e, w))
          | Inr loaded \<Rightarrow>
             let issues = bundle_issues H path cat loaded;
                 errs = lint_errors issues; warns = lint_warnings issues in
             emit (map (\<lambda>_. Err) warns)
               (if errs \<noteq> [] then (Err # map (\<lambda>_. Err) errs, Inr 5, w)
                else
                (case read_text H path of
                   None \<Rightarrow> ([], Inl (PyExn ''OSError''), w)
                 | Some yaml_text \<Rightarrow>
                    with_client H a w (\<lambda>url c.
                      (case publish_upload H (h_net H url) c path cat loaded yaml_text w of
                         (Inl e, w1) \<Rightarrow> (if e = publish_error then ([Err], Inr 6, w1) else net_failed e w1)
                       | (Inr r, w1) \<Rightarrow> ([line (publish_message_text url cat yaml_text r)], Inr 0, w1)))))))"

subsection \<open>\<open>catalog fetch\<close>\<close>

definition fetch_app :: "'w host \<Rightarrow> globals \<Rightarrow> string option \<Rightarrow> string res" where
  "fetch_app H a app = (case app of Some s \<Rightarrow> Inr s | None \<Rightarrow> bind_res (load_local H a) (\<lambda>cat. Inr (ca_app cat)))"

definition cmd_catalog_fetch :: "'w host \<Rightarrow> globals \<Rightarrow> string option \<Rightarrow> 'w \<Rightarrow> 'w outcome" where
  "cmd_catalog_fetch H a app0 w =
     (case fetch_app H a app0 of
        Inl e \<Rightarrow> (if e = catalog_error then ([Err], Inr 2, w) else ([], Inl e, w))
      | Inr app \<Rightarrow>
         with_client H a w (\<lambda>url c.
           (case client_get (h_net H url) (h_ext H) c (stash_key app) w of
              (Inl e, w1) \<Rightarrow> net_failed e w1
            | (Inr PNone, w1) \<Rightarrow> ([Err], Inr 3, w1)
            | (Inr (PStr s), w1) \<Rightarrow> ([Out (if suffix [NL] s then s else s @ [NL])], Inr 0, w1)
            | (Inr _, w1) \<Rightarrow> ([Err], Inr 4, w1))))"

subsection \<open>\<open>show\<close>\<close>

datatype cell = NotHere | Unset | Failed exn | SetTo pyval

text \<open>Any other error than \<open>Stra2usError\<close> passes through.\<close>

definition fetch_scope :: "'w net \<Rightarrow> ext \<Rightarrow> stra2us_client \<Rightarrow> string \<Rightarrow> 'w \<Rightarrow> cell res \<times> 'w" where
  "fetch_scope N E c full_key w =
     (case client_get N E c full_key w of
        (Inl e, w1) \<Rightarrow> (if e = stra2us_error then Inr (Failed e) else Inl e, w1)
      | (Inr v, w1) \<Rightarrow> (Inr (if v = PNone \<or> v = PStr [] then Unset else SetTo v), w1))"

definition fmt_cell :: "'w host \<Rightarrow> cell \<Rightarrow> string" where
  "fmt_cell H x =
     (case x of
        NotHere \<Rightarrow> ''(not valid at this scope)''
      | Unset \<Rightarrow> ''(unset)''
      | Failed e \<Rightarrow> ''(error: '' @ h_str H e @ '')''
      | SetTo v \<Rightarrow> h_repr H v)"

text \<open>The value in effect and where it comes from.\<close>

definition show_effective :: "cvar \<Rightarrow> string option \<Rightarrow> cell \<Rightarrow> cell \<Rightarrow> pyval \<times> string" where
  "show_effective var device dev app =
     (case dev of
        SetTo v \<Rightarrow> (v, ''device ('' @ opt_str device @ '')'')
      | _ \<Rightarrow>
         (case app of
            SetTo v \<Rightarrow> (v, ''app'')
          | _ \<Rightarrow>
             if cv_default_per_device var then (PStr ''(per-device default)'', ''firmware'')
             else if cv_default var \<noteq> PNone then (cv_default var, ''catalog default'')
             else (PStr ''(undefined)'', ''no default declared'')))"

definition show_title :: "'w host \<Rightarrow> string \<Rightarrow> cvar \<Rightarrow> string" where
  "show_title H k var =
     k @ ''  (type='' @ type_text (cv_type var) @ '', scope='' @ join '','' (map scope_text (cv_scope var))
     @ '', default='' @ fmt_default H var @ '')''"

definition effective_line :: "'w host \<Rightarrow> pyval \<times> string \<Rightarrow> event" where
  "effective_line H = (\<lambda>(v, source). line (''    '' @ arrow @ '' effective = '' @ h_repr H v @ ''  (from '' @ source @ '')''))"

definition show_lines :: "'w host \<Rightarrow> scope \<Rightarrow> string option \<Rightarrow> cvar \<Rightarrow> cell \<Rightarrow> cell \<Rightarrow> event list" where
  "show_lines H sc device var dev app =
     (if sc = DeviceScope then [line (''    device  = '' @ fmt_cell H dev)] else [])
     @ [line (''    app     = '' @ fmt_cell H app), effective_line H (show_effective var device dev app)]"

definition show_var ::
    "'w host \<Rightarrow> 'w net \<Rightarrow> stra2us_client \<Rightarrow> string \<Rightarrow> scope \<Rightarrow> string option \<Rightarrow> string \<times> cvar \<Rightarrow> 'w \<Rightarrow> 'w outcome" where
  "show_var H N c app sc device = (\<lambda>(k, var) w.
     emit [line (show_title H k var)]
     (case (if sc = DeviceScope \<and> DeviceScope \<in> set (cv_scope var)
            then fetch_scope N (h_ext H) c (kv_path app k device) w else (Inr NotHere, w)) of
        (Inl e, w1) \<Rightarrow> ([], Inl e, w1)
      | (Inr dev, w1) \<Rightarrow>
         (case (if AppScope \<in> set (cv_scope var)
                then fetch_scope N (h_ext H) c (kv_path app k None) w1 else (Inr NotHere, w1)) of
            (Inl e, w2) \<Rightarrow> ([], Inl e, w2)
          | (Inr app, w2) \<Rightarrow> (show_lines H sc device var dev app, Inr 0, w2))))"

fun show_vars ::
    "'w host \<Rightarrow> 'w net \<Rightarrow> stra2us_client \<Rightarrow> string \<Rightarrow> scope \<Rightarrow> string option \<Rightarrow> (string \<times> cvar) list \<Rightarrow> 'w \<Rightarrow> 'w outcome" where
  "show_vars H N c app sc device [] w = ([], Inr 0, w)"
| "show_vars H N c app sc device (x # xs) w =
     (case show_var H N c app sc device x w of
        (es, Inl e, w1) \<Rightarrow> (es, Inl e, w1)
      | (es, Inr _, w1) \<Rightarrow> emit es (show_vars H N c app sc device xs w1))"

text \<open>An empty key is no key: all variables are shown.\<close>

definition shown_vars :: "catalog \<Rightarrow> string option \<Rightarrow> (string \<times> cvar) list option" where
  "shown_vars cat key =
     (if opt_str key = [] then Some (ca_vars cat)
      else map_option (\<lambda>var. [(opt_str key, var)]) (map_of (ca_vars cat) (opt_str key)))"

definition cmd_show :: "'w host \<Rightarrow> globals \<Rightarrow> string \<Rightarrow> string option \<Rightarrow> 'w \<Rightarrow> 'w outcome" where
  "cmd_show H a target key w =
     (case load_local H a of
        Inl e \<Rightarrow> ([], Inl e, w)
      | Inr cat \<Rightarrow>
         (case parse_target target of (sc, device) \<Rightarrow>
         (case shown_vars cat key of
            None \<Rightarrow> ([Err], Inr 3, w)
          | Some vars \<Rightarrow>
             with_client H a w (\<lambda>url c. show_vars H (h_net H url) c (ca_app cat) sc device vars w))))"

subsection \<open>\<open>put\<close>, \<open>get\<close>, \<open>del\<close>\<close>

definition put_input :: "'w host \<Rightarrow> string option \<Rightarrow> string option \<Rightarrow> pyval option" where
  "put_input H file value =
     (if (file = None) = (value = None) then None
      else
      (case file of
         Some f \<Rightarrow> map_option PBytes (h_file H f)
       | None \<Rightarrow> map_option PStr value))"

text \<open>The size of bytes is their number, that of a text its number of characters.\<close>

definition put_message :: "string \<Rightarrow> string \<Rightarrow> pyval \<Rightarrow> bool \<Rightarrow> string" where
  "put_message url key value encrypted =
     ''put: '' @ url @ ''/kv/'' @ key
     @ (case value of
          PBytes b \<Rightarrow> '' ('' @ dec_nat (length b) @ '' bytes)''
        | PStr s \<Rightarrow> '' ('' @ dec_nat (str_len s) @ '' string)''
        | _ \<Rightarrow> '' (? string)'')
     @ (if encrypted then '' [encrypted]'' else [])"

definition cmd_put ::
    "'w host \<Rightarrow> globals \<Rightarrow> string \<Rightarrow> string option \<Rightarrow> string option \<Rightarrow> bool \<Rightarrow> 'w \<Rightarrow> 'w outcome" where
  "cmd_put H a key file value encrypted w =
     (case put_input H file value of
        None \<Rightarrow> ([Err], Inr 2, w)
      | Some v \<Rightarrow>
         with_client H a w (\<lambda>url c.
           (case client_put (h_net H url) (h_ext H) c key v encrypted w of
              (Inl e, w1) \<Rightarrow> net_failed e w1
            | (Inr _, w1) \<Rightarrow> ([line (put_message url key v encrypted)], Inr 0, w1))))"

text \<open>What \<open>json.dumps\<close> cannot print: bytes at any depth, also inside an extension object.\<close>

fun has_bytes :: "pyval \<Rightarrow> bool" where
  "has_bytes (PBytes _) \<longleftrightarrow> True"
| "has_bytes (PExt _ _) \<longleftrightarrow> True"
| "has_bytes (PList xs) \<longleftrightarrow> list_ex has_bytes xs"
| "has_bytes (PDict d) \<longleftrightarrow> list_ex (\<lambda>(_, x). has_bytes x) d"
| "has_bytes _ \<longleftrightarrow> False"

definition out_bytes :: "ext \<Rightarrow> pyval \<Rightarrow> string res" where
  "out_bytes E v =
     (case v of
        PBytes b \<Rightarrow> Inr b
      | PStr s \<Rightarrow> Inr s
      | _ \<Rightarrow> if has_bytes v then Inl (PyExn ''TypeError'') else Inr (e_dumps E v))"

definition cmd_get :: "'w host \<Rightarrow> globals \<Rightarrow> string \<Rightarrow> string option \<Rightarrow> 'w \<Rightarrow> 'w outcome" where
  "cmd_get H a key output w =
     with_client H a w (\<lambda>url c.
       (case client_get (h_net H url) (h_ext H) c key w of
          (Inl e, w1) \<Rightarrow> net_failed e w1
        | (Inr v, w1) \<Rightarrow>
           if v = PNone then ([], Inr 1, w1)
           else
           (case out_bytes (h_ext H) v of
              Inl e \<Rightarrow> ([], Inl e, w1)
            | Inr bytes \<Rightarrow>
               (case output of
                  None \<Rightarrow> ([Out bytes], Inr 0, w1)
                | Some path \<Rightarrow>
                   if h_can_write H path then ([WriteFile path bytes], Inr 0, w1) else ([Err], Inr 2, w1)))))"

definition cmd_delete :: "'w host \<Rightarrow> globals \<Rightarrow> string \<Rightarrow> 'w \<Rightarrow> 'w outcome" where
  "cmd_delete H a key w =
     with_client H a w (\<lambda>url c.
       (case client_delete (h_net H url) (h_ext H) c key w of
          (Inl e, w1) \<Rightarrow> net_failed e w1
        | (Inr _, w1) \<Rightarrow> ([line (''del: '' @ url @ ''/kv/'' @ key)], Inr 0, w1)))"

subsection \<open>\<open>set\<close>\<close>

text \<open>The value that is written; \<open>Inr None\<close> when the command ends with exit code 3.\<close>

definition set_value :: "cvar \<Rightarrow> string option \<Rightarrow> bool \<Rightarrow> pyval option res" where
  "set_value var raw unset =
     (if unset then Inr (Some (PStr []))
      else
      (case raw of
         None \<Rightarrow> Inr None
       | Some s \<Rightarrow>
          (case coerce_value var s of
             Inr v \<Rightarrow> Inr (Some v)
           | Inl e \<Rightarrow> if e = catalog_error then Inr None else Inl e)))"

text \<open>The notice when the flag and the catalog disagree.\<close>

definition set_notice :: "bool \<Rightarrow> bool \<Rightarrow> event list" where
  "set_notice flag encrypted = (if flag \<noteq> encrypted then [Err] else [])"

definition set_message :: "'w host \<Rightarrow> string \<Rightarrow> string \<Rightarrow> pyval \<Rightarrow> bool \<Rightarrow> string" where
  "set_message H url full_key v encrypted =
     ''set: '' @ url @ ''/kv/'' @ full_key @ '' '' @ arrow @ '' '' @ h_repr H v @ (if encrypted then '' [encrypted]'' else [])"

definition cmd_set ::
    "'w host \<Rightarrow> globals \<Rightarrow> string \<Rightarrow> string \<Rightarrow> string option \<Rightarrow> bool \<Rightarrow> bool \<Rightarrow> 'w \<Rightarrow> 'w outcome" where
  "cmd_set H a target key raw unset flag w =
     (case load_local H a of
        Inl e \<Rightarrow> ([], Inl e, w)
      | Inr cat \<Rightarrow>
         (case parse_target target of (sc, device) \<Rightarrow>
         (case map_of (ca_vars cat) key of
            None \<Rightarrow> ([Err], Inr 3, w)
          | Some var \<Rightarrow>
             (case validate_scope var sc of
                Inl _ \<Rightarrow> ([Err], Inr 3, w)
              | Inr _ \<Rightarrow>
                 (case set_value var raw unset of
                    Inl e \<Rightarrow> ([], Inl e, w)
                  | Inr None \<Rightarrow> ([Err], Inr 3, w)
                  | Inr (Some v) \<Rightarrow>
                     let full_key = kv_path (ca_app cat) key device; encrypted = cv_encrypted var in
                     emit (set_notice flag encrypted)
                     (with_client H a w (\<lambda>url c.
                       (case client_put (h_net H url) (h_ext H) c full_key v encrypted w of
                          (Inl e, w1) \<Rightarrow> net_failed e w1
                        | (Inr _, w1) \<Rightarrow> ([line (set_message H url full_key v encrypted)], Inr 0, w1)))))))))"

subsection \<open>\<open>synth-traffic\<close>\<close>

definition DEFAULT_MAX_RATE_HZ :: rat where
  "DEFAULT_MAX_RATE_HZ = 100"

definition synth_arguments ::
    "string option \<Rightarrow> string option \<Rightarrow> rat \<Rightarrow> rat \<Rightarrow> string \<Rightarrow> bool \<Rightarrow> synth_args" where
  "synth_arguments queue kvkey duration rate mode_name allow_high_rate =
     \<lparr>sa_queue_topic = queue, sa_kv_key = kvkey, sa_duration_seconds = duration, sa_rate_hz = rate,
      sa_mode = mode_name, sa_max_rate_hz = (if allow_high_rate then None else Some DEFAULT_MAX_RATE_HZ),
      sa_progress = True\<rparr>"

definition synth_report :: "synth_result \<Rightarrow> event list \<times> int res" where
  "synth_report r =
     (if 0 < total_errors r
      then (line (summary_line r) # (if sr_last_error r \<noteq> None then [Err] else []), Inr 4)
      else ([line (summary_line r)], Inr 0))"

text \<open>
  \<open>None\<close> when \<open>run\<close> does not return. A \<open>ValueError\<close> out of \<open>run\<close> is taken for a bad argument.
  Progress lines on standard error are left out.
\<close>

definition cmd_synth_traffic ::
    "'w host \<Rightarrow> globals \<Rightarrow> string option \<Rightarrow> string option \<Rightarrow> string \<Rightarrow> string \<Rightarrow> string \<Rightarrow> bool \<Rightarrow> 'w
      \<Rightarrow> 'w outcome option" where
  "cmd_synth_traffic H a queue kvkey duration rate mode_name allow_high_rate w =
     (case parse_duration duration of
        Inl e \<Rightarrow> Some (if e = PyExn ''ValueError'' then ([Err], Inr 2, w) else ([], Inl e, w))
      | Inr secs \<Rightarrow>
         (case py_float rate of
            None \<Rightarrow> Some ([Err], Inr 2, w)
          | Some hz \<Rightarrow>
             (case build_client H a of
                Inl e \<Rightarrow> Some (if e = config_error then ([Err], Inr 2, w) else ([], Inl e, w))
              | Inr (url, c) \<Rightarrow>
                 map_option (emit [Err])
                 (case synth_run (h_net H url) (h_clock H) (h_ext H) c
                         (synth_arguments queue kvkey secs hz mode_name allow_high_rate) w of
                    None \<Rightarrow> None
                  | Some (Inl e, w1) \<Rightarrow>
                      Some (if e = PyExn ''ValueError'' then ([Err], Inr 2, w1) else ([], Inl e, w1))
                  | Some (Inr r, w1) \<Rightarrow> (case synth_report r of (es, code) \<Rightarrow> Some (es, code, w1))))))"

subsection \<open>The entry point\<close>

definition dispatch_catalog :: "'w host \<Rightarrow> globals \<Rightarrow> string option \<Rightarrow> string option \<Rightarrow> 'w \<Rightarrow> 'w outcome" where
  "dispatch_catalog H a catalog_verb app w =
     (let v = (if opt_str catalog_verb = [] then ''list'' else opt_str catalog_verb) in
      if v = ''list'' then cmd_catalog_list H a w
      else if v = ''lint'' then cmd_catalog_lint H a w
      else if v = ''publish'' then cmd_catalog_publish H a w
      else if v = ''fetch'' then cmd_catalog_fetch H a app w
      else ([Err], Inr 2, w))"

text \<open>\<open>except CatalogError\<close> around every verb.\<close>

definition catch_catalog_error :: "'w outcome \<Rightarrow> 'w outcome" where
  "catch_catalog_error out =
     (case out of (es, r, w) \<Rightarrow> if r = Inl catalog_error then (es @ [Err], Inr 2, w) else (es, r, w))"

definition cli_main :: "'w host \<Rightarrow> globals \<Rightarrow> verb \<Rightarrow> 'w \<Rightarrow> 'w outcome option" where
  "cli_main H a v w =
     map_option catch_catalog_error
     (case v of
        CatalogVerb cv app \<Rightarrow> Some (dispatch_catalog H a cv app w)
      | ShowVerb target key \<Rightarrow> Some (cmd_show H a target key w)
      | PutVerb key file value encrypted \<Rightarrow> Some (cmd_put H a key file value encrypted w)
      | GetVerb key output \<Rightarrow> Some (cmd_get H a key output w)
      | DelVerb key \<Rightarrow> Some (cmd_delete H a key w)
      | SetVerb target key value unset encrypted \<Rightarrow> Some (cmd_set H a target key value unset encrypted w)
      | SynthVerb queue key duration rate mode_name high \<Rightarrow>
          cmd_synth_traffic H a queue key duration rate mode_name high w
      | OtherVerb _ \<Rightarrow> Some ([Err], Inl (PyExn ''SystemExit''), w))"

end
