(* ===== verification/CliProps.thy ===== *)
theory CliProps
  imports Cli AppRoutes
begin

text \<open>
  What the verbs of the command line do to the server and show to the operator: \<open>set\<close> over a lossy
  network, and \<open>set\<close> followed by \<open>show\<close> and by the customer page.
\<close>

subsection \<open>\<open>set\<close> over a lossy network\<close>

text \<open>The write a \<open>set\<close> may make: a declared key, in scope, with a coerced value.\<close>

definition declared_write ::
    "'w host \<Rightarrow> globals \<Rightarrow> string \<Rightarrow> string \<Rightarrow> string option \<Rightarrow> bool \<Rightarrow> catalog \<Rightarrow> cvar \<Rightarrow> pyval \<Rightarrow> bool" where
  "declared_write H a target key raw unset cat var v \<longleftrightarrow>
     load_local H a = Inr cat \<and> map_of (ca_vars cat) key = Some var \<and> fst (parse_target target) \<in> set (cv_scope var) \<and>
     (if unset then v = PStr [] else \<exists>s. raw = Some s \<and> coerce_value var s = Inr v)"

lemma set_value_cases:
  assumes "set_value var raw unset = Inr (Some v)"
  shows "if unset then v = PStr [] else \<exists>s. raw = Some s \<and> coerce_value var s = Inr v"
  using assms by (auto simp: set_value_def split: if_splits option.splits sum.splits)

text \<open>A \<open>set\<close> either ends before the network is touched, or makes one \<open>put\<close>.\<close>

lemma cmd_set_cases:
  assumes "cmd_set H a target key raw unset flag w = (es, r, w')"
  obtains (early) "w' = w" "(\<exists>e. r = Inl e) \<or> r = Inr 2 \<or> r = Inr 3"
  | (wrote) cat var v url c res where "declared_write H a target key raw unset cat var v" "build_client H a = Inr (url, c)"
      "client_put (h_net H url) (h_ext H) c (kv_path (ca_app cat) key (snd (parse_target target))) v (cv_encrypted var) w = (res, w')"
      "case res of Inr _ \<Rightarrow> r = Inr 0 | Inl e \<Rightarrow> r = Inr 4 \<or> r = Inl e"
proof -
  consider (load) e where "load_local H a = Inl e"
    | (undeclared) cat where "load_local H a = Inr cat" "map_of (ca_vars cat) key = None"
    | (declared) cat var where "load_local H a = Inr cat" "map_of (ca_vars cat) key = Some var"
    by (cases "load_local H a"; cases "map_of (ca_vars (projr (load_local H a))) key") auto
  then show thesis
  proof cases
    case (declared cat var)
    obtain sc device where pt: "parse_target target = (sc, device)" by force
    show thesis
    proof (cases "sc \<in> set (cv_scope var)")
      case True
      show thesis
      proof (cases "\<exists>v. set_value var raw unset = Inr (Some v)")
        case val: True
        then obtain v where v: "set_value var raw unset = Inr (Some v)" by blast
        have dw: "declared_write H a target key raw unset cat var v"
          using declared True pt set_value_cases [OF v] by (simp add: declared_write_def)
        show thesis
        proof (cases "build_client H a")
          case (Inl e)
          with assms declared pt True v show thesis
            by (intro early)
              (auto simp: cmd_set_def validate_scope_def with_client_def Let_def split: if_splits)
        next
          case (Inr uc)
          obtain url c where uc: "uc = (url, c)" by force
          obtain res w1 where p: "client_put (h_net H url) (h_ext H) c (kv_path (ca_app cat) key device) v (cv_encrypted var) w = (res, w1)"
            by force
          from assms declared pt True v Inr uc p have "w1 = w' \<and> (case res of Inr _ \<Rightarrow> r = Inr 0 | Inl e \<Rightarrow> r = Inr 4 \<or> r = Inl e)"
            by (auto simp: cmd_set_def validate_scope_def with_client_def Let_def net_failed_def split: sum.splits if_splits)
          with dw Inr uc p pt show thesis by (intro wrote) auto
        qed
      next
        case False
        with assms declared pt True show thesis
          by (intro early) (auto simp: cmd_set_def validate_scope_def Let_def split: sum.splits option.splits)
      qed
    next
      case False
      with assms declared pt show thesis by (intro early) (auto simp: cmd_set_def validate_scope_def)
    qed
  qed (use assms in \<open>intro early; auto simp: cmd_set_def split: prod.splits\<close>)+
qed

lemma main_set:
  "cli_main H a (SetVerb target key raw unset flag) w = Some (es, r, w') \<Longrightarrow>
    \<exists>es0 r0. cmd_set H a target key raw unset flag w = (es0, r0, w') \<and> (r = r0 \<or> r0 = Inl catalog_error \<and> r = Inr 2)"
  by (auto simp: cli_main_def catch_catalog_error_def split: prod.splits if_splits)

text \<open>The client raises no \<open>CatalogError\<close>.\<close>

lemma never_lift: "m \<noteq> Inl e \<Longrightarrow> (\<And>x. fst (f x) \<noteq> Inl e) \<Longrightarrow> fst (lift_res m w f) \<noteq> Inl e"
  by (cases m) simp_all

lemma never_then: "fst m \<noteq> Inl e \<Longrightarrow> (\<And>x w1. fst (f x w1) \<noteq> Inl e) \<Longrightarrow> fst (and_then m f) \<noteq> Inl e"
  by (cases m; cases "fst m") simp_all

lemma client_sign_exn: "client_sign E c uri body ts \<noteq> Inl catalog_error"
  by (auto simp: client_sign_def secret_bytes_def split: option.splits)

lemma verify_resp_exn: "verify_resp E c now uri body hs \<noteq> Inl catalog_error"
  by (auto simp: verify_resp_def secret_bytes_def compare_digest_def bind_res_def split: option.splits if_splits)

lemma client_request_exn: "fst (client_request N E c m uri body ct ex w) \<noteq> Inl catalog_error"
  unfolding client_request_def Let_def
  by (intro never_lift client_sign_exn) (auto simp: bind_res_def verify_resp_exn split: prod.split option.split sum.split)

lemma client_put_exn: "fst (client_put N E c key v enc w) \<noteq> Inl catalog_error"
  unfolding client_put_def
  by (intro never_lift never_then client_request_exn) (auto simp: packb_res_def split: option.split)

context backend
begin

lemma set_outcomes:
  assumes "h_ext H = E" and "\<And>url. h_net H url = lossy_net R E mv lint"
    and "cli_main H a (SetVerb target key raw unset flag) w = Some (es, r, w')"
  shows "((\<exists>cat var v b. declared_write H a target key raw unset cat var v \<and> e_packb E v = Some b \<and>
          kvs R (fst (fst w')) =
            store_abs (kv_path (ca_app cat) key (snd (parse_target target))) (cv_encrypted var) b (kvs R (fst (fst w)))) \<or>
      fst (fst w') = fst (fst w) \<and> r \<noteq> Inr 0) \<and> (r = Inr 2 \<or> r = Inr 3 \<longrightarrow> w' = w) \<and> (\<forall>n. r = Inr n \<longrightarrow> n \<in> {0, 2, 3, 4})"
proof -
  from main_set [OF assms(3)] obtain es0 r0 where s: "cmd_set H a target key raw unset flag w = (es0, r0, w')"
    and r: "r = r0 \<or> r0 = Inl catalog_error \<and> r = Inr 2" by blast
  from s show ?thesis
  proof (cases rule: cmd_set_cases)
    case early
    with r show ?thesis by auto
  next
    case (wrote cat var v url c res)
    obtain d ts tc fs where w: "w = ((d, ts, tc), fs)" by (metis surj_pair)
    obtain d' ts' tc' fs' where w': "w' = ((d', ts', tc'), fs')" by (metis surj_pair)
    note put = wrote(3) [unfolded assms(1,2) w w']
    have "res \<noteq> Inl catalog_error" using wrote(3) client_put_exn by (metis fst_conv)
    then have r0: "r = r0" "case res of Inr _ \<Rightarrow> r = Inr 0 | Inl e \<Rightarrow> r = Inr 4 \<or> r = Inl e"
      using r wrote(4) by (auto split: sum.splits)
    from put_effect_flag [OF put] show ?thesis
    proof
      assume "d' = d \<and> (\<exists>e. res = Inl e)"
      with r0 w w' show ?thesis by auto
    next
      assume "\<exists>b. e_packb E v = Some b \<and> kvs R d' =
        store_abs (kv_path (ca_app cat) key (snd (parse_target target))) (cv_encrypted var) b (kvs R d)"
      with r0 wrote(1) w w' show ?thesis by (auto split: sum.splits)
    qed
  qed
qed

end

subsection \<open>\<open>set\<close>, then \<open>show\<close> and the customer page\<close>

lemma coerced_raw: "coerce_value var s = Inr v \<Longrightarrow> coerce_raw var s = Inr v"
  by (cases "cv_range var") (auto simp: coerce_value_def bind_res_Inr_iff split: if_splits)

lemma coerced_transparent: "coerce_value var s = Inr v \<Longrightarrow> transparent v \<and> v \<noteq> PNone"
  by (drule coerced_raw)
    (auto simp: coerce_raw_def transparent_def Let_def split: var_type.splits option.splits if_splits)

text \<open>The keys of a device, and its flags, are not application keys, unless the device is called \<open>public\<close>.\<close>

lemma device_key_not_app:
  assumes "dev \<noteq> ''public''"
  shows "kv_path app k None \<noteq> kv_path app k (Some dev)" "kv_path app k None \<noteq> kv_path app k (Some dev) @ '':enc''"
proof -
  show "kv_path app k None \<noteq> kv_path app k (Some dev)" using assms by (auto simp: kv_path_def)
  show "kv_path app k None \<noteq> kv_path app k (Some dev) @ '':enc''"
  proof
    assume "kv_path app k None = kv_path app k (Some dev) @ '':enc''"
    then have eq: "''public/'' @ k = dev @ ''/'' @ k @ '':enc''" by (simp add: kv_path_def)
    from arg_cong [OF eq, of length] have "length dev = 2" by simp
    then obtain x y where "dev = [x, y]" by (auto simp: length_Suc_conv numeral_2_eq_2)
    with eq show False by simp
  qed
qed

text \<open>A device called \<open>public\<close> has the application's keys, whatever the scope of the variable.\<close>

lemma public_device_key: "kv_path app k (Some ''public'') = kv_path app k None"
  by (simp add: kv_path_def)

definition cell_of :: "pyval \<Rightarrow> cell" where
  "cell_of v = (if v = PNone \<or> v = PStr [] then Unset else SetTo v)"

lemma fetch_cell: "client_get N E c k w = (Inr v, w1) \<Longrightarrow> fetch_scope N E c k w = (Inr (cell_of v), w1)"
  by (simp add: fetch_scope_def cell_of_def)

context backend
begin

lemma get_missing:
  assumes known: "client_known R E c secret acl d" and key: "plain_key key" and drift: "\<bar>ts - tc\<bar> \<le> 300"
    and may: "check_acl (ctx_of c acl) (''kv/'' @ key) ReadMode = Inr ()" and val: "r_get R (kv_key key) d = None"
  shows "client_get (device_net R E mv lint) E c key (d, ts, tc) = (Inr PNone, (d, ts, tc))"
proof (rule get_served [OF known key drift])
  fix req :: request
  assume "rq_path req = ''/kv/'' @ key"
  obtain doc where doc: "e_packb E (status_doc ''not_found'') = Some doc"
    using packb_ok [of "status_doc ''not_found''"] by (auto simp: status_doc_def char_eval)
  have "from_hex (cl_secret_hex c) = Some secret" using known by (simp add: client_known_def)
  then obtain r where r: "signed_response E ts (ctx_of c acl) req doc 200 = Inr r" "rs_body r = doc" "rs_status r = 200"
    by (auto simp: signed_response_Inr sign_payload_Inr)
  have "decode_get E c r = Inr PNone"
    using unpackb_packb [OF doc] r(2) by (simp add: decode_get_def status_doc_def)
  then show "\<exists>r. snd (read_kv R E ts key req (ctx_of c acl) d) = (Inr r, d) \<and> rs_status r = 200 \<and>
      decode_get E c r = Inr PNone \<and> verify_resp E c tc (rq_path req) (rs_body r) (rs_headers r) = Inr ()"
    using read_kv_missing [OF may val] signed_response_checked [OF r(1)] drift doc r
    by (auto simp: signed_msgpack_def packb_res_def)
qed

end

text \<open>What \<open>set\<close> does when its \<open>put\<close> is accepted.\<close>

lemma main_set_ok:
  assumes "declared_write H a target key raw unset cat var v" and "build_client H a = Inr (url, c)"
    and "client_put (h_net H url) (h_ext H) c (kv_path (ca_app cat) key (snd (parse_target target))) v (cv_encrypted var) w = (Inr r, w')"
  shows "cli_main H a (SetVerb target key raw unset flag) w =
    Some (set_notice flag (cv_encrypted var)
      @ [line (set_message H url (kv_path (ca_app cat) key (snd (parse_target target))) v (cv_encrypted var))], Inr 0, w')"
proof -
  have "set_value var raw unset = Inr (Some v)" using assms(1) by (auto simp: declared_write_def set_value_def split: if_splits)
  moreover obtain sc device where "parse_target target = (sc, device)" by force
  ultimately show ?thesis
    using assms
    by (simp add: declared_write_def cli_main_def cmd_set_def validate_scope_def with_client_def catch_catalog_error_def Let_def)
qed

text \<open>What \<open>show\<close> prints for one key, given the two lookups.\<close>

lemma main_show_ok:
  assumes "load_local H a = Inr cat" and "map_of (ca_vars cat) key = Some var" and "key \<noteq> []"
    and "build_client H a = Inr (url, c)" and "parse_target target = (sc, device)"
    and "(if sc = DeviceScope \<and> DeviceScope \<in> set (cv_scope var)
          then fetch_scope (h_net H url) (h_ext H) c (kv_path (ca_app cat) key device) w else (Inr NotHere, w)) = (Inr dev, w1)"
    and "(if AppScope \<in> set (cv_scope var)
          then fetch_scope (h_net H url) (h_ext H) c (kv_path (ca_app cat) key None) w1 else (Inr NotHere, w1)) = (Inr app, w2)"
  shows "cli_main H a (ShowVerb target (Some key)) w =
    Some (line (show_title H key var) # show_lines H sc device var dev app, Inr 0, w2)"
  using assms
  by (simp add: cli_main_def cmd_show_def shown_vars_def opt_str_def with_client_def show_var_def catch_catalog_error_def)

text \<open>The value that is in effect when no key is set.\<close>

definition default_shown :: "cvar \<Rightarrow> pyval \<times> string" where
  "default_shown var = show_effective var None NotHere NotHere"

lemma show_effective_simps [simp]:
  "show_effective var device (SetTo v) app = (v, ''device ('' @ opt_str device @ '')'')"
  "dev = NotHere \<or> dev = Unset \<Longrightarrow> show_effective var device dev (SetTo v) = (v, ''app'')"
  "dev = NotHere \<or> dev = Unset \<Longrightarrow> app = NotHere \<or> app = Unset \<Longrightarrow> show_effective var device dev app = default_shown var"
  by (auto simp: show_effective_def default_shown_def)

lemma cell_of_simps [simp]: "cell_of v = Unset \<longleftrightarrow> v = PNone \<or> v = PStr []" "cell_of v \<noteq> NotHere" "cell_of PNone = Unset"
  by (auto simp: cell_of_def)

lemma show_lines_last [simp]: "last (show_lines H sc device var dev app) = effective_line H (show_effective var device dev app)"
  "show_lines H sc device var dev app \<noteq> []"
  by (simp_all add: show_lines_def)

text \<open>What the operator sees after a \<open>set\<close> of \<open>v\<close>.\<close>

definition shown_after :: "cvar \<Rightarrow> string option \<Rightarrow> pyval \<Rightarrow> pyval \<times> string" where
  "shown_after var device v =
     (if v = PStr [] then default_shown var
      else (v, case device of Some dev \<Rightarrow> ''device ('' @ dev @ '')'' | None \<Rightarrow> ''app''))"

lemma shown_after_eq:
  "shown_after var device v =
     (if v = PStr [] then show_effective var None Unset Unset
      else (v, case device of Some dev \<Rightarrow> ''device ('' @ dev @ '')'' | None \<Rightarrow> ''app''))"
  by (simp add: shown_after_def)

context backend
begin

lemma set_show:
  assumes E: "h_ext H = E" and net: "\<And>url. h_net H url = device_net R E mv lint"
    and client: "build_client H a = Inr (url, c)" and known: "client_known R E c secret acl d"
    and dw: "declared_write H a target key raw unset cat var v" and t: "parse_target target = (sc, device)"
    and key: "key \<noteq> []" "target \<noteq> ''public''" "plain_key (kv_path (ca_app cat) key device)" "plain_key (kv_path (ca_app cat) key None)"
      "\<not> is_catalog_yaml_key (kv_path (ca_app cat) key device)"
    and may: "check_acl (ctx_of c acl) (''kv/'' @ kv_path (ca_app cat) key device) WriteMode = Inr ()"
    and v: "mp_ok v" and drift: "\<bar>ts - tc\<bar> \<le> 300" "\<bar>ts2 - tc2\<bar> \<le> 300"
    and app: "sc = DeviceScope \<and> AppScope \<in> set (cv_scope var) \<Longrightarrow> r_get R (kv_key (kv_path (ca_app cat) key None)) d = None \<and>
      check_acl (ctx_of c acl) (''kv/'' @ kv_path (ca_app cat) key None) ReadMode = Inr ()"
    and enc: "cv_encrypted var \<Longrightarrow> \<exists>s. v = PStr s \<and> length s \<le> 8160"
    and nonce: "cv_encrypted var \<Longrightarrow> fst (next_kvenc_nonce R ts2 (cl_client_id c) d) = Inr n \<and> 0 \<le> n \<and> n < 2 ^ 32 \<and> \<bar>tc2 - n\<bar> \<le> 300"
  shows "\<exists>es d1 es' d2. cli_main H a (SetVerb target key raw unset flag) (d, ts, tc) = Some (es, Inr 0, (d1, ts, tc)) \<and>
    cli_main H a (ShowVerb target (Some key)) (d1, ts2, tc2) = Some (es', Inr 0, (d2, ts2, tc2)) \<and>
    last es' = effective_line H (shown_after var device v) \<and>
    (\<forall>dev vd. device = Some dev \<or> device = None \<and> r_get R (kv_key (kv_path (ca_app cat) key (Some dev))) d1 = None \<longrightarrow>
      resolve_value R E (ca_app cat) dev key vd d1 =
        \<lparr>rv_value = Some (to_form_string E v), rv_encrypted = cv_encrypted var, rv_from_default = False\<rparr>)"
proof -
  let ?app = "ca_app cat" and ?e = "cv_encrypted var"
  let ?k = "kv_path ?app key device"
  have tv: "transparent v" "v \<noteq> PNone"
    using dw coerced_transparent by (auto simp: declared_write_def transparent_def split: if_splits)
  from put_then_get_store [where enc = ?e and mv = mv and lint = lint, OF known key(3,5) may v tv(1) drift enc nonce]
  obtain b d1 d2 r where b: "e_packb E v = Some b" and d1: "d1 = set_enc_flag R ?k ?e (r_set R (kv_key ?k) b d)"
    and put: "client_put (device_net R E mv lint) E c ?k v ?e (d, ts, tc) = (Inr r, (d1, ts, tc))"
    and got: "client_get (device_net R E mv lint) E c ?k (d1, ts2, tc2) = (Inr v, (d2, ts2, tc2))"
    and frame: "\<And>k. k \<noteq> nonce_key (cl_client_id c) \<Longrightarrow> r_get R k d2 = r_get R k d1"
    by metis
  note get = fetch_cell [OF got]
  have set: "cli_main H a (SetVerb target key raw unset flag) (d, ts, tc) =
      Some (set_notice flag ?e @ [line (set_message H url ?k v ?e)], Inr 0, (d1, ts, tc))"
    using main_set_ok [OF dw client, of "(d, ts, tc)" r "(d1, ts, tc)"] put by (simp add: E net t)
  have stored: "r_get R (kv_key ?k) d1 = Some b" "get_truthy R (enc_key ?k) d1 \<noteq> None \<longleftrightarrow> ?e"
    by (simp_all add: d1 get_set_enc_flag get_truthy_def)
  have page: "resolve_value R E ?app dev key vd d1 =
      \<lparr>rv_value = Some (to_form_string E v), rv_encrypted = ?e, rv_from_default = False\<rparr>"
    if "device = Some dev \<or> device = None \<and> r_get R (kv_key (kv_path ?app key (Some dev))) d1 = None" for dev vd
    using that stored tv(2) unpackb_packb [OF b]
    by (auto simp: resolve_value_def vr_read_kv_def kv_path_def)
  have loaded: "load_local H a = Inr cat" "map_of (ca_vars cat) key = Some var" "sc \<in> set (cv_scope var)"
    using dw t by (simp_all add: declared_write_def)
  show ?thesis
  proof (cases sc)
    case AppScope
    with t have dev: "device = None" by (auto simp: parse_target_def split: if_splits)
    from main_show_ok [OF loaded(1,2) key(1) client t, of "(d1, ts2, tc2)" NotHere "(d1, ts2, tc2)" "cell_of v" "(d2, ts2, tc2)"]
    have "cli_main H a (ShowVerb target (Some key)) (d1, ts2, tc2) =
        Some (line (show_title H key var) # show_lines H sc device var NotHere (cell_of v), Inr 0, (d2, ts2, tc2))"
      using get AppScope loaded(3) dev by (simp add: E net)
    then show ?thesis
      using set page dev tv(2) by (fastforce simp: shown_after_def cell_of_def)
  next
    case DeviceScope
    with t obtain dev where dev: "device = Some dev" "target = dev" by (auto simp: parse_target_def split: if_splits)
    have second: "(if AppScope \<in> set (cv_scope var)
        then fetch_scope (device_net R E mv lint) E c (kv_path ?app key None) (d2, ts2, tc2) else (Inr NotHere, (d2, ts2, tc2))) =
        (Inr (if AppScope \<in> set (cv_scope var) then Unset else NotHere), (d2, ts2, tc2))"
    proof (cases "AppScope \<in> set (cv_scope var)")
      case True
      with app DeviceScope have a: "r_get R (kv_key (kv_path ?app key None)) d = None"
        "check_acl (ctx_of c acl) (''kv/'' @ kv_path ?app key None) ReadMode = Inr ()" by blast+
      have "r_get R (kv_key (kv_path ?app key None)) d2 = None"
        using a(1) device_key_not_app [of dev ?app key] key(2) dev
        by (simp add: frame d1 get_set_enc_flag get_set enc_is_kv)
      moreover have "client_known R E c secret acl d2"
      proof -
        have "client_secret_key (cl_client_id c) \<noteq> nonce_key (cl_client_id c)" "client_acl_key (cl_client_id c) \<noteq> nonce_key (cl_client_id c)"
          by (simp_all add: client_secret_key_def client_acl_key_def nonce_key_def)
        with client_known_put [OF known] show ?thesis by (simp add: client_known_def frame d1)
      qed
      ultimately have "client_get (device_net R E mv lint) E c (kv_path ?app key None) (d2, ts2, tc2) = (Inr PNone, (d2, ts2, tc2))"
        using get_missing key(4) drift(2) a(2) by blast
      from fetch_cell [OF this] True show ?thesis by simp
    qed simp
    have "cli_main H a (ShowVerb target (Some key)) (d1, ts2, tc2) =
        Some (line (show_title H key var) # show_lines H sc device var (cell_of v)
          (if AppScope \<in> set (cv_scope var) then Unset else NotHere), Inr 0, (d2, ts2, tc2))"
      by (intro main_show_ok [OF loaded(1,2) key(1) client t])
        (use get DeviceScope loaded(3) in \<open>simp add: E net\<close>, use second in \<open>simp only: E net\<close>)
    then show ?thesis
      using set page dev tv(2) by (fastforce simp: shown_after_def cell_of_def opt_str_def)
  qed
qed

end

subsection \<open>The properties\<close>

text \<open>
  C36. \<open>set\<close> writes what the catalog declares or nothing. On a network that may lose any request
  or response, the store of the server is either unchanged or differs by exactly one write: to the
  path of a declared variable, in a scope the variable has, with the coerced value (the empty text
  for \<open>--unset\<close>) and the encrypted flag of the catalog, whatever the flag on the command line.
  Exit code 0 means it was written; codes 2 and 3 mean the network was not touched; no other code
  than these and 4 (it may or may not have been written) is given.
\<close>

theorem cli_set_outcomes:
  assumes "backend R entries E" and "h_ext H = E" and "\<And>url. h_net H url = lossy_net R E mv lint"
    and "cli_main H a (SetVerb target key raw unset flag) w = Some (es, r, w')"
  shows "((\<exists>cat var v b. load_local H a = Inr cat \<and> map_of (ca_vars cat) key = Some var \<and>
          fst (parse_target target) \<in> set (cv_scope var) \<and>
          (if unset then v = PStr [] else \<exists>s. raw = Some s \<and> coerce_value var s = Inr v) \<and> e_packb E v = Some b \<and>
          kvs R (fst (fst w')) =
            store_abs (kv_path (ca_app cat) key (snd (parse_target target))) (cv_encrypted var) b (kvs R (fst (fst w)))) \<or>
      fst (fst w') = fst (fst w) \<and> r \<noteq> Inr 0) \<and> (r = Inr 2 \<or> r = Inr 3 \<longrightarrow> w' = w) \<and> (\<forall>n. r = Inr n \<longrightarrow> n \<in> {0, 2, 3, 4})"
  using backend.set_outcomes [OF assms] unfolding declared_write_def by blast

text \<open>A machine with one catalog, no asset directory, no configuration file and no pictures.\<close>

definition cli_catalog :: catalog where
  "cli_catalog = \<lparr>ca_app = ''app'', ca_vars = [(''limit'', ref_cvar\<lparr>cv_scope := [AppScope, DeviceScope]\<rparr>)], ca_version = 1,
     ca_theme = None, ca_ui = None, ca_telemetry_topic = None, ca_heartbeat_interval_seconds = None\<rparr>"

definition ref_host :: "'w net \<Rightarrow> 'w clock \<Rightarrow> 'w host" where
  "ref_host N K =
     \<lparr>h_conf = \<lparr>ch_env = Map.empty, ch_cwd_conf = None, ch_home_conf = None, ch_toml = (\<lambda>_. None)\<rparr>,
      h_net = (\<lambda>_. N), h_clock = K, h_cwd_catalogs = [''app.s2s.yaml''],
      h_file = (\<lambda>p. if p = ''app.s2s.yaml'' then Some ''app'' else None), h_assets = (\<lambda>_. None), h_can_write = (\<lambda>_. False),
      h_ext = ref_ext, h_validate = (\<lambda>_. Some cli_catalog), h_xml = (\<lambda>_. None), h_lint = default_config,
      h_compiles = (\<lambda>_. True), h_repr = py_str ref_ext, h_str = (\<lambda>_. [])\<rparr>"

definition ref_globals :: globals where
  "ref_globals = \<lparr>g_catalog = None, g_profile = None, g_server = Some ''h'', g_client_id = Some ''dev'', g_secret_hex = Some ''0a''\<rparr>"

lemma ref_load: "load_local (ref_host N K) ref_globals = Inr cli_catalog"
proof -
  have "univ_nl ''app'' = ''app''" by code_simp
  then show ?thesis
    by (simp add: load_local_def catalog_path_def ref_globals_def ref_host_def autodetect_catalog_def load_at_def read_text_def
        load_catalog_def ref_ext_def)
qed

lemma ref_build: "build_client (ref_host N K) ref_globals = Inr (''http://h'', ref_client)"
proof -
  have "normalize_host ''h'' = ''http://h''" by code_simp
  moreover have "load_file_creds (h_conf (ref_host N K)) None = Inr None"
    by (simp add: load_file_creds_def ref_host_def)
  ultimately show ?thesis
    using client_of_flags [of "h_conf (ref_host N K)" None None "''h''" "''dev''" "''0a''"]
    by (simp add: build_client_def ref_globals_def ref_client_def)
qed

lemma ref_limit: "coerce_value (ref_cvar\<lparr>cv_scope := [AppScope, DeviceScope]\<rparr>) ''10'' = Inr (PInt 10)"
  by code_simp

lemma ref_host_simps [simp]:
  "h_ext (ref_host N K) = ref_ext" "h_net (ref_host N K) url = N" "h_repr (ref_host N K) = py_str ref_ext"
  by (simp_all add: ref_host_def)

theorem cli_set_outcomes_witness:
  "\<exists>es r w'. cli_main (ref_host (lossy_net mem_redis ref_ext (\<lambda>_. None :: unit option) (\<lambda>_. [()])) undefined) ref_globals
      (SetVerb ''dev'' ''limit'' (Some ''10'') False True) ((ref_known, 100, 110), [LoseResponse]) = Some (es, r, w') \<and>
    r \<in> range Inl \<union> Inr ` {0, 2, 3, 4}"
proof -
  let ?H = "ref_host (lossy_net mem_redis ref_ext (\<lambda>_. None :: unit option) (\<lambda>_. [()])) undefined"
  let ?w = "((ref_known, 100, 110), [LoseResponse])"
  have "cli_main ?H ref_globals (SetVerb ''dev'' ''limit'' (Some ''10'') False True) ?w =
    Some (catch_catalog_error (cmd_set ?H ref_globals ''dev'' ''limit'' (Some ''10'') False True ?w))"
    by (simp only: cli_main_def verb.case option.map)
  then obtain es r w' where run: "cli_main ?H ref_globals (SetVerb ''dev'' ''limit'' (Some ''10'') False True) ?w = Some (es, r, w')"
    by (metis surj_pair)
  have "\<forall>n. r = Inr n \<longrightarrow> n \<in> {0, 2, 3, 4}"
    by (rule conjunct2 [OF conjunct2 [OF cli_set_outcomes [OF ref_backend.backend_axioms ref_host_simps(1,2) run]]])
  then have "r \<in> range Inl \<union> Inr ` {0, 2, 3, 4}" by (cases r) auto
  with run show ?thesis by blast
qed


lemma ref_vars: "map_of (ca_vars cli_catalog) ''limit'' = Some (ref_cvar\<lparr>cv_scope := [AppScope, DeviceScope]\<rparr>)" "ca_app cli_catalog = ''app''"
  by (simp_all add: cli_catalog_def)

lemma ref_paths:
  "plain_key (kv_path ''app'' ''limit'' None)" "plain_key (kv_path ''app'' ''limit'' (Some ''dev''))"
  "\<not> is_catalog_yaml_key (kv_path ''app'' ''limit'' (Some ''dev''))"
  by (simp_all add: kv_path_def plain_key_def unreserved_eval is_catalog_yaml_key_def)

lemma ref_free: "r_get mem_redis (kv_key (kv_path ''app'' ''limit'' None)) ref_known = None"
  by (simp add: ref_known_def mem_store.get_set kv_path_def kv_key_def client_acl_key_def client_secret_key_def)

lemma ref_ten: "py_str ref_ext (PInt 10) = ''10''"
  by code_simp

lemma ref_target: "parse_target ''dev'' = (DeviceScope, Some ''dev'')"
  by (simp add: parse_target_def APP_SCOPE_KEYWORD_def)


end
