(* ===== verification/ArgParse.thy ===== *)
theory ArgParse
  imports Prelude
begin

text \<open>
  What \<open>cli.py\<close> uses of the standard library's \<open>argparse\<close> (as in Python 3.11.10): options
  with one argument or none, with \<open>--option=value\<close>, abbreviations and clusters of short options;
  positional arguments, the last of them perhaps left out; sub-commands with parsers of their own;
  groups of options of which exactly one must be given; \<open>--help\<close> in every parser.

  A parser is a table; \<open>parse_known\<close> interprets it. The two ways not to return are to print the
  usage and exit with 2, and to print the help and exit with 0; their texts are left out. The
  actions of a parser are told apart by their destinations. Digits are ASCII digits.
\<close>

subsection \<open>Parsers\<close>

datatype opt_kind =
    OneArg "string option" "string list option"   \<comment> \<open>default, choices\<close>
  | StoreTrue
  | ShowHelp

datatype opt = Opt (opt_strings: "string list") (opt_dest: string) (opt_kind: opt_kind)

text \<open>\<open>Command\<close>: the name of the sub-command and what follows it.\<close>

datatype 'p pos =
    Positional (pos_dest: string) bool             \<comment> \<open>may be left out (\<open>nargs="?"\<close>)\<close>
  | Command (pos_dest: string) bool "(string \<times> 'p) list"  \<comment> \<open>required, the parsers by name\<close>

datatype parser = Parser "opt list" "parser pos list" "string list list"

datatype nsval = NNone | NBool bool | NText string | NEmpty

type_synonym namespace = "string \<rightharpoonup> nsval"

datatype stop = UsageError | HelpShown

type_synonym 'a parse = "stop + 'a"

definition bind_parse :: "'a parse \<Rightarrow> ('a \<Rightarrow> 'b parse) \<Rightarrow> 'b parse" where
  "bind_parse m f = (case m of Inl e \<Rightarrow> Inl e | Inr x \<Rightarrow> f x)"

lemma bind_parse_simps [simp]: "bind_parse (Inr x) f = f x" "bind_parse (Inl e) f = Inl e"
  by (simp_all add: bind_parse_def)

definition HELP :: opt where
  "HELP = Opt [''-h'', ''--help''] ''help'' ShowHelp"

subsection \<open>Which strings are options\<close>

definition option_table :: "opt list \<Rightarrow> (string \<times> opt) list" where
  "option_table os = concat (map (\<lambda>a. map (\<lambda>s. (s, a)) (opt_strings a)) os)"

text \<open>The option, if any; the option string; whether a \<open>=\<close> follows; the explicit argument.\<close>

type_synonym hit = "opt option \<times> string \<times> bool \<times> string option"

definition option_tuples :: "opt list \<Rightarrow> string \<Rightarrow> hit list" where
  "option_tuples os s =
     (if s ! 1 = CHR ''-'' then
        (case split1 CHR ''='' s of
           None \<Rightarrow> map (\<lambda>(k, a). (Some a, k, False, None)) (filter (\<lambda>(k, _). prefix s k) (option_table os))
         | Some (p, v) \<Rightarrow> map (\<lambda>(k, a). (Some a, k, True, Some v)) (filter (\<lambda>(k, _). prefix p k) (option_table os)))
      else
        concat (map (\<lambda>(k, a).
          if k = take 2 s then [(Some a, k, False, Some (drop 2 s))]
          else if prefix s k then [(Some a, k, False, None)] else []) (option_table os)))"

text \<open>\<open>^-\d+$|^-\d*\.\d+$\<close>\<close>

definition negative_number :: "string \<Rightarrow> bool" where
  "negative_number s \<longleftrightarrow>
     (let t = (if s \<noteq> [] \<and> last s = NL then butlast s else s) in
      t \<noteq> [] \<and> hd t = CHR ''-'' \<and>
      (tl t \<noteq> [] \<and> list_all is_digit (tl t) \<or>
       (case split1 CHR ''.'' (tl t) of
          None \<Rightarrow> False
        | Some (a, b) \<Rightarrow> list_all is_digit a \<and> b \<noteq> [] \<and> list_all is_digit b)))"

definition parse_optional :: "opt list \<Rightarrow> string \<Rightarrow> hit option parse" where
  "parse_optional os s =
     (if s = [] \<or> hd s \<noteq> CHR ''-'' then Inr None
      else case map_of (option_table os) s of
        Some a \<Rightarrow> Inr (Some (Some a, s, False, None))
      | None \<Rightarrow>
        if tl s = [] then Inr None
        else case split1 CHR ''='' s of
          Some (p, v) \<Rightarrow>
            (case map_of (option_table os) p of
               Some a \<Rightarrow> Inr (Some (Some a, p, True, Some v))
             | None \<Rightarrow>
               (case option_tuples os s of
                  [] \<Rightarrow> Inr (if negative_number s \<or> CHR '' '' \<in> set s then None else Some (None, s, False, None))
                | [h] \<Rightarrow> Inr (Some h)
                | _ \<Rightarrow> Inl UsageError))
        | None \<Rightarrow>
            (case option_tuples os s of
               [] \<Rightarrow> Inr (if negative_number s \<or> CHR '' '' \<in> set s then None else Some (None, s, False, None))
             | [h] \<Rightarrow> Inr (Some h)
             | _ \<Rightarrow> Inl UsageError))"

datatype mark = MArg | MOpt hit | MDash

type_synonym token = "string \<times> mark"

fun classify :: "opt list \<Rightarrow> string list \<Rightarrow> token list parse" where
  "classify os [] = Inr []"
| "classify os (s # ss) =
     (if s = ''--'' then Inr ((s, MDash) # map (\<lambda>t. (t, MArg)) ss)
      else bind_parse (parse_optional os s) (\<lambda>h.
           bind_parse (classify os ss) (\<lambda>ts.
           Inr ((s, case h of None \<Rightarrow> MArg | Some x \<Rightarrow> MOpt x) # ts))))"

subsection \<open>Taking an action\<close>

record pstate =
  ps_ns :: namespace
  ps_seen :: "string list"
  ps_given :: "string list"          \<comment> \<open>seen with a value that is not the default\<close>
  ps_extras :: "string list"
  ps_unrecognized :: "string list"   \<comment> \<open>left over by a sub-command\<close>

definition store :: "string \<Rightarrow> nsval \<Rightarrow> pstate \<Rightarrow> pstate" where
  "store k v st = st\<lparr>ps_ns := (ps_ns st)(k \<mapsto> v), ps_seen := k # ps_seen st\<rparr>"

definition conflicts :: "string list list \<Rightarrow> string \<Rightarrow> string list \<Rightarrow> bool" where
  "conflicts gs k given \<longleftrightarrow> list_ex (\<lambda>g. k \<in> set g \<and> list_ex (\<lambda>k'. k' \<noteq> k \<and> k' \<in> set given) g) gs"

definition give :: "string list list \<Rightarrow> string \<Rightarrow> nsval \<Rightarrow> pstate \<Rightarrow> pstate parse" where
  "give gs k v st =
     (if conflicts gs k (ps_given st) then Inl UsageError
      else Inr (store k v (st\<lparr>ps_given := k # ps_given st\<rparr>)))"

fun take_option :: "string list list \<Rightarrow> opt \<times> string list \<Rightarrow> pstate \<Rightarrow> pstate parse" where
  "take_option gs (a, args) st =
     (case opt_kind a of
        ShowHelp \<Rightarrow> Inl HelpShown
      | StoreTrue \<Rightarrow> give gs (opt_dest a) (NBool True) st
      | OneArg dflt choices \<Rightarrow>
          if choices \<noteq> None \<and> hd args \<notin> set (the choices) then Inl UsageError
          else give gs (opt_dest a) (NText (hd args)) st)"

fun take_options :: "string list list \<Rightarrow> (opt \<times> string list) list \<Rightarrow> pstate \<Rightarrow> pstate parse" where
  "take_options gs [] st = Inr st"
| "take_options gs (x # xs) st = bind_parse (take_option gs x st) (take_options gs xs)"

definition takes_arg :: "opt \<Rightarrow> bool" where
  "takes_arg a \<longleftrightarrow> (case opt_kind a of OneArg _ _ \<Rightarrow> True | _ \<Rightarrow> False)"

text \<open>The options of one string with their arguments, what is left over, how many strings follow that were used.\<close>

type_synonym cluster_result = "(opt \<times> string list) list \<times> string list \<times> nat"

definition option_alone :: "opt \<Rightarrow> token list \<Rightarrow> cluster_result parse" where
  "option_alone a ts =
     (if \<not> takes_arg a then Inr ([(a, [])], [], 0)
      else case ts of
        (s, MArg) # _ \<Rightarrow> Inr ([(a, [s])], [], 1)
      | _ \<Rightarrow> Inl UsageError)"

fun cluster :: "opt list \<Rightarrow> opt \<Rightarrow> string \<Rightarrow> bool \<Rightarrow> string \<Rightarrow> token list \<Rightarrow> cluster_result parse" where
  "cluster os a k eq [] ts = (if takes_arg a then Inr ([(a, [[]])], [], 0) else Inl UsageError)"
| "cluster os a k eq (c # e) ts =
     (if takes_arg a then Inr ([(a, [c # e])], [], 0)
      else if k ! 1 = CHR ''-'' then Inl UsageError
      else if eq \<or> c = CHR ''-'' then Inl UsageError
      else let k' = [CHR ''-'', c] in
        case map_of (option_table os) k' of
          None \<Rightarrow> Inr ([(a, [])], [CHR ''-'' # c # e], 0)
        | Some b \<Rightarrow>
            bind_parse
              (case e of
                 [] \<Rightarrow> option_alone b ts
               | c' # e' \<Rightarrow> if c' = CHR ''='' then cluster os b k' True e' ts else cluster os b k' False e ts)
              (\<lambda>(xs, left, n). Inr ((a, []) # xs, left, n)))"

text \<open>\<open>consume_optional\<close>: how many of the strings after the option are used.\<close>

definition consume_option ::
    "opt list \<Rightarrow> string list list \<Rightarrow> token \<Rightarrow> token list \<Rightarrow> pstate \<Rightarrow> (nat \<times> pstate) parse" where
  "consume_option os gs t ts st =
     (case t of
        (s, MOpt (None, _, _, _)) \<Rightarrow> Inr (0, st\<lparr>ps_extras := ps_extras st @ [s]\<rparr>)
      | (s, MOpt (Some a, k, eq, arg)) \<Rightarrow>
          bind_parse (case arg of None \<Rightarrow> option_alone a ts | Some e \<Rightarrow> cluster os a k eq e ts) (\<lambda>(xs, left, n).
          bind_parse (take_options gs xs (st\<lparr>ps_extras := ps_extras st @ left\<rparr>)) (\<lambda>st'. Inr (n, st')))
      | _ \<Rightarrow> Inr (0, st))"

subsection \<open>Positional arguments\<close>

text \<open>
  The lengths a positional can match, in the order the regular expressions try them: \<open>-*A-*\<close>,
  \<open>-*A?-*\<close>, \<open>-*A[-AO]*\<close>.
\<close>

definition dashes :: "token list \<Rightarrow> nat" where
  "dashes ts = length (takeWhile (\<lambda>t. snd t = MDash) ts)"

definition match_lengths :: "'p pos \<Rightarrow> token list \<Rightarrow> nat list" where
  "match_lengths p ts =
     (let a = dashes ts;
          arg = (case drop a ts of (_, MArg) # _ \<Rightarrow> True | _ \<Rightarrow> False);
          b = dashes (drop (Suc a) ts)
      in case p of
           Positional _ False \<Rightarrow> if arg then rev [Suc a..<Suc (Suc a + b)] else []
         | Positional _ True \<Rightarrow> (if arg then rev [Suc a..<Suc (Suc a + b)] else []) @ rev [0..<Suc a]
         | Command _ _ _ \<Rightarrow> if arg then rev [Suc a..<Suc (length ts)] else [])"

fun first_some :: "'a option list \<Rightarrow> 'a option" where
  "first_some [] = None"
| "first_some (x # xs) = (case x of None \<Rightarrow> first_some xs | Some y \<Rightarrow> Some y)"

primrec match_all :: "'p pos list \<Rightarrow> token list \<Rightarrow> nat list option" where
  "match_all [] ts = Some []"
| "match_all (p # ps) ts =
     first_some (map (\<lambda>n. map_option ((#) n) (match_all ps (drop n ts))) (match_lengths p ts))"

definition match_partial :: "'p pos list \<Rightarrow> token list \<Rightarrow> nat list" where
  "match_partial ps ts =
     (case first_some (map (\<lambda>i. match_all (take i ps) ts) (rev [1..<Suc (length ps)])) of
        None \<Rightarrow> [] | Some ns \<Rightarrow> ns)"

text \<open>A run of a parser: the namespace and the strings that were not recognized.\<close>

type_synonym runner = "string list \<Rightarrow> (namespace \<times> string list) parse"

definition take_positional :: "runner pos \<Rightarrow> string list \<Rightarrow> pstate \<Rightarrow> pstate parse" where
  "take_positional p args st =
     (case p of
        Positional k left_out \<Rightarrow>
          (case remove1 ''--'' args of
             [] \<Rightarrow> Inr (store k (if left_out then NNone else NEmpty) st)
           | v # _ \<Rightarrow> Inr (store k (NText v) st))
      | Command k _ subs \<Rightarrow>
          (case args of
             [] \<Rightarrow> Inl UsageError
           | v # rest \<Rightarrow>
               (case map_of subs v of
                  None \<Rightarrow> Inl UsageError
                | Some run \<Rightarrow>
                    bind_parse (run rest) (\<lambda>(ns, extras).
                    let st' = store k (NText v) st in
                    Inr (st'\<lparr>ps_ns := ps_ns st' ++ ns, ps_unrecognized := ps_unrecognized st' @ extras\<rparr>)))))"

fun take_positionals :: "runner pos list \<Rightarrow> nat list \<Rightarrow> string list \<Rightarrow> pstate \<Rightarrow> pstate parse" where
  "take_positionals (p # ps) (n # ns) ss st =
     bind_parse (take_positional p (take n ss) st) (take_positionals ps ns (drop n ss))"
| "take_positionals _ _ _ st = Inr st"

definition consume_positionals ::
    "runner pos list \<Rightarrow> token list \<Rightarrow> pstate \<Rightarrow> (nat \<times> runner pos list \<times> pstate) parse" where
  "consume_positionals ps ts st =
     (let ns = match_partial ps ts in
      bind_parse (take_positionals ps ns (map fst ts) st) (\<lambda>st'.
      Inr (sum_list ns, drop (length ns) ps, st')))"

subsection \<open>The loop\<close>

definition is_opt :: "token \<Rightarrow> bool" where
  "is_opt t \<longleftrightarrow> (case snd t of MOpt _ \<Rightarrow> True | _ \<Rightarrow> False)"

definition finish :: "runner pos list \<Rightarrow> token list \<Rightarrow> pstate \<Rightarrow> pstate parse" where
  "finish ps ts st =
     bind_parse (consume_positionals ps ts st) (\<lambda>(n, _, st').
     Inr (st'\<lparr>ps_extras := ps_extras st' @ drop n (map fst ts)\<rparr>))"

function consume_all ::
    "opt list \<Rightarrow> string list list \<Rightarrow> runner pos list \<Rightarrow> token list \<Rightarrow> pstate \<Rightarrow> pstate parse" where
  "consume_all os gs ps ts st =
     (if \<not> list_ex is_opt ts then finish ps ts st
      else let pre = takeWhile (\<lambda>t. \<not> is_opt t) ts; rest = dropWhile (\<lambda>t. \<not> is_opt t) ts in
        bind_parse (if pre = [] then Inr (0, ps, st) else consume_positionals ps ts st) (\<lambda>(n, ps', st').
        if 0 < n then consume_all os gs ps' (drop n ts) st'
        else bind_parse (consume_option os gs (hd rest) (tl rest) (st'\<lparr>ps_extras := ps_extras st' @ map fst pre\<rparr>))
               (\<lambda>(m, st''). consume_all os gs ps' (drop m (tl rest)) st'')))"
  by pat_completeness auto

termination
proof (relation "measure (\<lambda>(os, gs, ps, ts, st). length ts)", goal_cases)
  case 1
  then show ?case by simp
next
  case (2 os gs ps ts)
  then show ?case by (cases ts) auto
next
  case (3 os gs ps ts)
  then have "dropWhile (\<lambda>t. \<not> is_opt t) ts \<noteq> []" by (auto simp: list_ex_iff)
  then have "length (tl (dropWhile (\<lambda>t. \<not> is_opt t) ts)) < length ts"
    using length_dropWhile_le [of "\<lambda>t. \<not> is_opt t" ts] by (cases "dropWhile (\<lambda>t. \<not> is_opt t) ts") auto
  with 3 show ?case by simp
qed

declare consume_all.simps [simp del]

subsection \<open>A parser at work\<close>

definition opt_default :: "opt \<Rightarrow> (string \<times> nsval) list" where
  "opt_default a =
     (case opt_kind a of
        ShowHelp \<Rightarrow> []
      | StoreTrue \<Rightarrow> [(opt_dest a, NBool False)]
      | OneArg dflt _ \<Rightarrow> [(opt_dest a, case dflt of None \<Rightarrow> NNone | Some s \<Rightarrow> NText s)])"

definition required :: "'p pos \<Rightarrow> bool" where
  "required p = (case p of Positional _ left_out \<Rightarrow> \<not> left_out | Command _ r _ \<Rightarrow> r)"

definition start_state :: "opt list \<Rightarrow> 'p pos list \<Rightarrow> pstate" where
  "start_state os ps =
     \<lparr>ps_ns = map_of (concat (map opt_default os) @ map (\<lambda>p. (pos_dest p, NNone)) ps),
      ps_seen = [], ps_given = [], ps_extras = [], ps_unrecognized = []\<rparr>"

definition satisfied :: "'p pos list \<Rightarrow> string list list \<Rightarrow> pstate \<Rightarrow> bool" where
  "satisfied ps gs st \<longleftrightarrow>
     list_all (\<lambda>p. required p \<longrightarrow> pos_dest p \<in> set (ps_seen st)) ps \<and>
     list_all (\<lambda>g. list_ex (\<lambda>k. k \<in> set (ps_given st)) g) gs"

definition run_parser :: "opt list \<Rightarrow> runner pos list \<Rightarrow> string list list \<Rightarrow> runner" where
  "run_parser os ps gs argv =
     bind_parse (classify os argv) (\<lambda>ts.
     bind_parse (consume_all os gs ps ts (start_state os ps)) (\<lambda>st.
     if satisfied ps gs st then Inr (ps_ns st, ps_extras st @ ps_unrecognized st) else Inl UsageError))"

primrec parse_known :: "parser \<Rightarrow> runner" where
  "parse_known (Parser os ps gs) = run_parser os (map (map_pos parse_known) ps) gs"

definition parse_args :: "parser \<Rightarrow> string list \<Rightarrow> namespace parse" where
  "parse_args p argv =
     bind_parse (parse_known p argv) (\<lambda>(ns, extras). if extras = [] then Inr ns else Inl UsageError)"

subsection \<open>Invariants of a run\<close>

lemma map_of_option_table: "map_of (option_table os) k = Some a \<Longrightarrow> a \<in> set os"
  by (auto simp: option_table_def dest!: map_of_SomeD)

lemma parse_optional_known:
  "parse_optional os s = Inr (Some (Some a, k, eq, arg)) \<Longrightarrow> a \<in> set os"
proof -
  have t: "a \<in> set os" if "(Some a, k, eq, arg) \<in> set (option_tuples os s)"
    using that by (auto simp: option_tuples_def option_table_def split: option.splits prod.splits if_splits)
  show "parse_optional os s = Inr (Some (Some a, k, eq, arg)) \<Longrightarrow> a \<in> set os"
    by (auto simp: parse_optional_def split: if_splits option.splits list.splits prod.splits
        intro: map_of_option_table t)
qed

lemma classify_known:
  "classify os ss = Inr ts \<Longrightarrow> (s, MOpt (Some a, k, eq, arg)) \<in> set ts \<Longrightarrow> a \<in> set os"
proof (induction os ss arbitrary: ts rule: classify.induct)
  case (2 os s ss)
  then show ?case
    by (cases "parse_optional os s"; cases "classify os ss") (auto split: if_splits option.splits dest: parse_optional_known)
qed simp

definition usable :: "opt list \<Rightarrow> opt \<times> string list \<Rightarrow> bool" where
  "usable os x \<longleftrightarrow> fst x \<in> set os \<and> (takes_arg (fst x) \<longrightarrow> snd x \<noteq> [])"

lemma option_alone_usable: "option_alone a ts = Inr (xs, left, n) \<Longrightarrow> a \<in> set os \<Longrightarrow> list_all (usable os) xs"
  by (auto simp: option_alone_def usable_def split: if_splits list.splits prod.splits mark.splits)

lemma cluster_usable: "cluster os a k eq e ts = Inr (xs, left, n) \<Longrightarrow> a \<in> set os \<Longrightarrow> list_all (usable os) xs"
proof (induction os a k eq e ts arbitrary: xs left n rule: cluster.induct)
  case (1 os a k eq ts)
  then show ?case by (auto simp: usable_def split: if_splits)
next
  case (2 os a k eq c e ts)
  show ?case
  proof (cases "takes_arg a \<or> k ! 1 = CHR ''-'' \<or> eq \<or> c = CHR ''-''")
    case True
    with "2.prems" show ?thesis by (auto simp: usable_def split: if_splits)
  next
    case False
    show ?thesis
    proof (cases "map_of (option_table os) [CHR ''-'', c]")
      case None
      with False "2.prems" show ?thesis by (auto simp: usable_def)
    next
      case (Some b)
      let ?next = "case e of [] \<Rightarrow> option_alone b ts
        | c' # e' \<Rightarrow> if c' = CHR ''='' then cluster os b [CHR ''-'', c] True e' ts else cluster os b [CHR ''-'', c] False e ts"
      obtain xs' where xs: "?next = Inr (xs', left, n)" "xs = (a, []) # xs'"
        using "2.prems"(1) False Some by (cases ?next) (auto simp: Let_def)
      have b: "b \<in> set os" by (rule map_of_option_table [OF Some])
      have "list_all (usable os) xs'"
        using xs(1) b False Some "2.IH" option_alone_usable by (cases e) (fastforce split: if_splits)+
      moreover have "usable os (a, [])" using False "2.prems"(2) by (simp add: usable_def)
      ultimately show ?thesis by (simp add: xs(2))
    qed
  qed
qed

text \<open>
  What holds of the state of a run: kept by every option, by the positional arguments that are
  taken together, and not depending on what is left over.
\<close>

lemma take_options_invariant:
  assumes "take_options gs xs st = Inr st'" and "J st" and "list_all (usable os) xs"
    and opt: "\<And>x st st'. J st \<Longrightarrow> usable os x \<Longrightarrow> take_option gs x st = Inr st' \<Longrightarrow> J st'"
  shows "J st'"
  using assms(1-3)
proof (induction xs arbitrary: st)
  case (Cons x xs)
  then obtain st1 where st1: "take_option gs x st = Inr st1" "take_options gs xs st1 = Inr st'"
    by (cases "take_option gs x st") (auto simp del: take_option.simps)
  from Cons.prems(3) have "usable os x" "list_all (usable os) xs" by simp_all
  with Cons.IH [OF st1(2) opt [OF Cons.prems(2) _ st1(1)]] show ?case by simp
qed simp

lemma consume_option_invariant:
  assumes "consume_option os gs t ts st = Inr (n, st')" and "J st"
    and known: "\<And>s a k eq arg. t = (s, MOpt (Some a, k, eq, arg)) \<Longrightarrow> a \<in> set os"
    and opt: "\<And>x st st'. J st \<Longrightarrow> usable os x \<Longrightarrow> take_option gs x st = Inr st' \<Longrightarrow> J st'"
    and left: "\<And>st xs. J st \<Longrightarrow> J (st\<lparr>ps_extras := xs\<rparr>)"
  shows "J st'"
proof -
  obtain s m where t: "t = (s, m)" by fastforce
  show ?thesis
  proof (cases "\<exists>a k eq arg. m = MOpt (Some a, k, eq, arg)")
    case True
    then obtain a k eq arg where m: "m = MOpt (Some a, k, eq, arg)" by blast
    have a: "a \<in> set os" using known t m by blast
    obtain xs rest where c: "(case arg of None \<Rightarrow> option_alone a ts | Some e \<Rightarrow> cluster os a k eq e ts) = Inr (xs, rest, n)"
      "take_options gs xs (st\<lparr>ps_extras := ps_extras st @ rest\<rparr>) = Inr st'"
      using assms(1) by (auto simp: consume_option_def t m bind_parse_def split: sum.splits)
    have "list_all (usable os) xs"
      using c(1) a by (auto split: option.splits dest: option_alone_usable cluster_usable)
    with take_options_invariant [where J = J, OF c(2) left [OF assms(2)]] opt show ?thesis by blast
  next
    case False
    then show ?thesis
      using assms(1,2) left [OF assms(2)] by (cases m) (auto simp: consume_option_def t split: prod.splits option.splits)
  qed
qed

lemma consume_all_invariant:
  assumes "consume_all os gs ps ts st = Inr st'" and "J ps st"
    and "\<forall>s a k eq arg. (s, MOpt (Some a, k, eq, arg)) \<in> set ts \<longrightarrow> a \<in> set os"
    and "\<forall>ps x st st'. J ps st \<longrightarrow> usable os x \<longrightarrow> take_option gs x st = Inr st' \<longrightarrow> J ps st'"
    and pos: "\<And>ps ts st n ps' st'. J ps st \<Longrightarrow> consume_positionals ps ts st = Inr (n, ps', st') \<Longrightarrow> J ps' st'"
    and left: "\<And>ps st xs. J ps st \<Longrightarrow> J ps (st\<lparr>ps_extras := xs\<rparr>)"
  shows "\<exists>ps'. J ps' st'"
  using assms(1-4)
proof (induction os gs ps ts st rule: consume_all.induct)
  case (1 os gs ps ts st)
  note opt = "1.prems"(4)
  show ?case
  proof (cases "list_ex is_opt ts")
    case False
    then have "finish ps ts st = Inr st'" using "1.prems"(1) by (simp add: consume_all.simps)
    then obtain n ps' st1 where c: "consume_positionals ps ts st = Inr (n, ps', st1)"
      "st' = st1\<lparr>ps_extras := ps_extras st1 @ drop n (map fst ts)\<rparr>"
      by (cases "consume_positionals ps ts st") (auto simp: finish_def)
    with left [OF pos [OF "1.prems"(2) c(1)]] show ?thesis by blast
  next
    case True
    let ?pre = "takeWhile (\<lambda>t. \<not> is_opt t) ts" and ?rest = "dropWhile (\<lambda>t. \<not> is_opt t) ts"
    let ?first = "if ?pre = [] then Inr (0, ps, st) else consume_positionals ps ts st"
    obtain n ps1 st1 where f: "?first = Inr (n, ps1, st1)"
      using "1.prems"(1) True by (cases ?first) (auto simp: consume_all.simps [of os gs ps ts st] Let_def)
    have J1: "J ps1 st1" using f "1.prems"(2) pos by (auto split: if_splits)
    show ?thesis
    proof (cases "0 < n")
      case n: True
      then have run: "consume_all os gs ps1 (drop n ts) st1 = Inr st'"
        using "1.prems"(1) True f by (simp add: consume_all.simps [of os gs ps ts st] Let_def)
      have "\<forall>s a k eq arg. (s, MOpt (Some a, k, eq, arg)) \<in> set (drop n ts) \<longrightarrow> a \<in> set os"
        using in_set_dropD "1.prems"(3) by fast
      from "1.IH"(1) [OF _ refl refl n run J1 this opt] True show ?thesis by blast
    next
      case z: False
      have ne: "?rest \<noteq> []" using True by (auto simp: list_ex_iff)
      let ?opt = "consume_option os gs (hd ?rest) (tl ?rest) (st1\<lparr>ps_extras := ps_extras st1 @ map fst ?pre\<rparr>)"
      obtain m st2 where o: "?opt = Inr (m, st2)"
        using "1.prems"(1) True f z by (cases ?opt) (auto simp: consume_all.simps [of os gs ps ts st] Let_def)
      have run: "consume_all os gs ps1 (drop m (tl ?rest)) st2 = Inr st'"
        using "1.prems"(1) True f z o by (simp add: consume_all.simps [of os gs ps ts st] Let_def)
      have sub: "set ?rest \<subseteq> set ts" by (rule set_dropWhileD [THEN subsetI]) 
      have known: "a \<in> set os" if "(s, MOpt (Some a, k, eq, arg)) \<in> set ?rest" for s a k eq arg
        using "1.prems"(3) sub that by blast
      have first: "a \<in> set os" if "hd ?rest = (s, MOpt (Some a, k, eq, arg))" for s a k eq arg
        using known hd_in_set [OF ne] unfolding that by blast
      have J2: "J ps1 st2"
      proof (rule consume_option_invariant [where J = "J ps1", OF o left [OF J1]])
        show "a \<in> set os" if "hd ?rest = (s, MOpt (Some a, k, eq, arg))" for s a k eq arg by (rule first [OF that])
        show "J ps1 y" if "J ps1 x" "usable os z" "take_option gs z x = Inr y" for x y z using opt that by blast
        show "J ps1 (x\<lparr>ps_extras := xs\<rparr>)" if "J ps1 x" for x xs by (rule left [OF that])
      qed
      have "\<forall>s a k eq arg. (s, MOpt (Some a, k, eq, arg)) \<in> set (drop m (tl ?rest)) \<longrightarrow> a \<in> set os"
        using known ne by (meson in_set_dropD list.set_sel(2))
      from "1.IH"(2) [OF _ refl refl z run J2 this opt] True show ?thesis by blast
    qed
  qed
qed

text \<open>A parser without sub-commands.\<close>

definition is_positional :: "'p pos \<Rightarrow> bool" where
  "is_positional p \<longleftrightarrow> (case p of Positional _ _ \<Rightarrow> True | Command _ _ _ \<Rightarrow> False)"

lemma take_positionals_invariant:
  assumes "take_positionals ps ns ss st = Inr st'" and "list_all is_positional ps" and "K st"
    and store: "\<And>k v st. k \<in> pos_dest ` set ps \<Longrightarrow> K st \<Longrightarrow> K (store k v st)"
  shows "K st'"
  using assms
proof (induction ps ns ss st rule: take_positionals.induct)
  case (1 p ps n ns ss st)
  then obtain k b where p: "p = Positional k b" by (auto simp: is_positional_def split: pos.splits)
  obtain v where v: "take_positional p (take n ss) st = Inr (store k v st)"
    by (cases "remove1 ''--'' (take n ss)") (simp_all add: take_positional_def p)
  have "take_positionals ps ns (drop n ss) (store k v st) = Inr st'" using "1.prems"(1) v by simp
  from "1.IH" [OF this] "1.prems" show ?case by (simp add: p)
qed simp_all

lemma plain_invariant:
  assumes "parse_known (Parser os ps gs) ss = Inr (ns, extras)" and "list_all is_positional ps" and "K (start_state os ps)"
    and opt: "\<And>x st st'. K st \<Longrightarrow> usable os x \<Longrightarrow> take_option gs x st = Inr st' \<Longrightarrow> K st'"
    and store: "\<And>k v st. k \<in> pos_dest ` set ps \<Longrightarrow> K st \<Longrightarrow> K (store k v st)"
    and left: "\<And>st xs. K st \<Longrightarrow> K (st\<lparr>ps_extras := xs\<rparr>)"
  shows "\<exists>st. K st \<and> satisfied ps gs st \<and> ns = ps_ns st"
proof -
  let ?ps = "map (map_pos parse_known) ps"
  have same: "pos_dest (map_pos parse_known p) = pos_dest p" "required (map_pos parse_known p) = required p"
    "is_positional (map_pos parse_known p) = is_positional p" for p
    by (cases p; simp add: required_def is_positional_def)+
  have start: "start_state os ?ps = start_state os ps" by (simp add: start_state_def comp_def same)
  have sat: "satisfied ?ps gs st = satisfied ps gs st" for st by (simp add: satisfied_def list_all_iff same)
  obtain ts st where ts: "classify os ss = Inr ts" and st: "consume_all os gs ?ps ts (start_state os ps) = Inr st"
    and "satisfied ps gs st" "ns = ps_ns st"
    using assms(1) by (cases "classify os ss"; cases "consume_all os gs ?ps (projr (classify os ss)) (start_state os ps)")
      (auto simp: run_parser_def start sat split: if_splits)
  let ?J = "\<lambda>qs st. set qs \<subseteq> set ?ps \<and> K st"
  have "\<exists>qs. ?J qs st"
  proof (rule consume_all_invariant [where J = ?J, OF st])
    show "?J ?ps (start_state os ps)" using assms(3) by simp
    show "\<forall>s a k eq arg. (s, MOpt (Some a, k, eq, arg)) \<in> set ts \<longrightarrow> a \<in> set os" using classify_known [OF ts] by blast
    show "\<forall>qs x st st'. ?J qs st \<longrightarrow> usable os x \<longrightarrow> take_option gs x st = Inr st' \<longrightarrow> ?J qs st'" using opt by blast
    show "?J qs' st'" if J: "?J qs st" and c: "consume_positionals qs ts st = Inr (n, qs', st')" for qs ts st n qs' st'
    proof -
      have qs: "list_all is_positional qs" "pos_dest ` set qs \<subseteq> pos_dest ` set ps"
        using J assms(2) by (auto simp: list_all_iff same)
      obtain ns' where "take_positionals qs ns' (map fst ts) st = Inr st'" "qs' = drop (length ns') qs"
        using c by (cases "take_positionals qs (match_partial qs ts) (map fst ts) st") (auto simp: consume_positionals_def Let_def)
      with take_positionals_invariant [OF this(1) qs(1), of K] store qs(2) J show ?thesis
        by (metis (no_types, lifting) set_drop_subset subset_iff order_trans)
    qed
    show "?J qs (st\<lparr>ps_extras := xs\<rparr>)" if "?J qs st" for qs st xs using that left by blast
  qed
  with \<open>satisfied ps gs st\<close> \<open>ns = ps_ns st\<close> show ?thesis by blast
qed

lemma take_option_store:
  "take_option gs x st = Inr st' \<Longrightarrow> \<exists>v. st' = store (opt_dest (fst x)) v (st\<lparr>ps_given := opt_dest (fst x) # ps_given st\<rparr>)"
  by (cases x) (auto simp: give_def split: opt_kind.splits if_splits)

lemma opt_default_keys: "fst ` set (concat (map opt_default os)) \<subseteq> opt_dest ` set os"
proof -
  have "fst ` set (opt_default a) \<subseteq> {opt_dest a}" for a by (simp add: opt_default_def split: opt_kind.split)
  then show ?thesis by fastforce
qed

lemma start_keys: "dom (ps_ns (start_state os ps)) \<subseteq> opt_dest ` set os \<union> pos_dest ` set ps"
  using opt_default_keys [of os] by (auto simp: start_state_def dom_map_of_conv_image_fst)

lemma store_dom: "dom (ps_ns (store k v st)) = insert k (dom (ps_ns st))"
  by (simp add: store_def)

lemma plain_keys:
  assumes "parse_known (Parser os ps gs) ss = Inr (ns, extras)" and "list_all is_positional ps"
  shows "dom ns \<subseteq> opt_dest ` set os \<union> pos_dest ` set ps"
proof -
  let ?K = "\<lambda>st. dom (ps_ns st) \<subseteq> opt_dest ` set os \<union> pos_dest ` set ps"
  have "\<exists>st. ?K st \<and> satisfied ps gs st \<and> ns = ps_ns st"
  proof (rule plain_invariant [OF assms, of ?K, OF start_keys])
    show "?K st'" if K: "?K st" and x: "usable os x" and t: "take_option gs x st = Inr st'" for x st st'
    proof -
      obtain v where "st' = store (opt_dest (fst x)) v (st\<lparr>ps_given := opt_dest (fst x) # ps_given st\<rparr>)"
        using take_option_store [OF t] by blast
      then have "dom (ps_ns st') = insert (opt_dest (fst x)) (dom (ps_ns st))" by (simp add: store_dom)
      then show ?thesis using K x by (simp add: usable_def)
    qed
    show "?K (store k v st)" if "k \<in> pos_dest ` set ps" "?K st" for k v st using that by (simp add: store_dom)
  qed simp
  then show ?thesis by blast
qed

text \<open>A parser with a sub-command and no other positional argument.\<close>

lemma consume_command:
  assumes "consume_positionals [Command k r subs] ts st = Inr (n, ps', st')"
  shows "(ps' = [Command k r subs] \<and> st' = st) \<or>
    (ps' = [] \<and> (\<exists>v run ss ns extras. map_of subs v = Some run \<and> run ss = Inr (ns, extras) \<and>
      st' = (store k (NText v) st)\<lparr>ps_ns := ps_ns (store k (NText v) st) ++ ns, ps_unrecognized := ps_unrecognized st @ extras\<rparr>))"
proof (cases "match_all [Command k r subs] ts")
  case None
  then have "match_partial [Command k r subs] ts = []" by (simp add: match_partial_def)
  with assms show ?thesis by (simp add: consume_positionals_def)
next
  case (Some ms)
  have "length ms = 1"
  proof -
    have "length y = 1" if "first_some (map (\<lambda>n. Some [n]) xs) = Some y" for xs :: "nat list" and y
      using that by (cases xs) auto
    with Some show ?thesis by simp
  qed
  then obtain m where ms: "match_partial [Command k r subs] ts = [m]"
    using Some by (cases ms) (auto simp: match_partial_def)
  let ?args = "take m (map fst ts)"
  obtain v rest where v: "?args = v # rest"
    using assms by (cases ?args) (auto simp: consume_positionals_def ms take_positional_def)
  then obtain run where run: "map_of subs v = Some run"
    using assms by (cases "map_of subs v") (auto simp: consume_positionals_def ms take_positional_def)
  then obtain ns extras where "run rest = Inr (ns, extras)"
    using assms v by (cases "run rest") (auto simp: consume_positionals_def ms take_positional_def)
  then have "ps' = [] \<and>
      st' = (store k (NText v) st)\<lparr>ps_ns := ps_ns (store k (NText v) st) ++ ns, ps_unrecognized := ps_unrecognized st @ extras\<rparr>"
    using assms v run by (auto simp: consume_positionals_def ms take_positional_def Let_def store_def)
  with run \<open>run rest = Inr (ns, extras)\<close> show ?thesis by blast
qed

lemma command_invariant:
  assumes "parse_known (Parser os [Command k r subs] []) ss = Inr (ns, extras)" and "k \<notin> opt_dest ` set os"
  shows "(\<not> r \<and> ns k = Some NNone \<and> dom ns \<subseteq> insert k (opt_dest ` set os)) \<or>
    (\<exists>v p rest ns' extras'. map_of subs v = Some p \<and> parse_known p rest = Inr (ns', extras') \<and>
      (k \<notin> dom ns' \<longrightarrow> ns k = Some (NText v)) \<and> (\<forall>k'. k' \<notin> insert k (opt_dest ` set os) \<longrightarrow> ns k' = ns' k'))"
proof -
  let ?c = "Command k r (map (map_prod id parse_known) subs)" and ?D = "opt_dest ` set os"
  obtain ts st where ts: "classify os ss = Inr ts"
    and st: "consume_all os [] [?c] ts (start_state os [?c]) = Inr st"
    and sat: "satisfied [?c] [] st" and ns: "ns = ps_ns st"
    using assms(1) by (cases "classify os ss"; cases "consume_all os [] [?c] (projr (classify os ss)) (start_state os [?c])")
      (auto simp: run_parser_def split: if_splits)
  let ?taken = "\<lambda>st. \<exists>v p rest ns' extras'. map_of subs v = Some p \<and> parse_known p rest = Inr (ns', extras') \<and>
      (k \<notin> dom ns' \<longrightarrow> ps_ns st k = Some (NText v)) \<and> (\<forall>k'. k' \<notin> insert k ?D \<longrightarrow> ps_ns st k' = ns' k')"
  let ?J = "\<lambda>qs st. (qs = [?c] \<and> k \<notin> set (ps_seen st) \<and> ps_ns st k = Some NNone \<and> dom (ps_ns st) \<subseteq> insert k ?D) \<or>
      (qs = [] \<and> ?taken st)"
  have "\<exists>qs. ?J qs st"
  proof (rule consume_all_invariant [where J = ?J, OF st])
    have "map_of (concat (map opt_default os)) k = None"
      using opt_default_keys [of os] assms(2) by (auto simp: map_of_eq_None_iff)
    then have "ps_ns (start_state os [?c]) k = Some NNone" by (simp add: start_state_def map_add_def)
    with start_keys [of os "[?c]"] show "?J [?c] (start_state os [?c])" by (simp add: start_state_def)
    show "\<forall>s a k eq arg. (s, MOpt (Some a, k, eq, arg)) \<in> set ts \<longrightarrow> a \<in> set os" using classify_known [OF ts] by blast
    show "\<forall>qs x st st'. ?J qs st \<longrightarrow> usable os x \<longrightarrow> take_option [] x st = Inr st' \<longrightarrow> ?J qs st'"
    proof (intro allI impI)
      fix qs x st st' assume J: "?J qs st" and x: "usable os x" and t: "take_option [] x st = Inr st'"
      obtain v where st': "st' = store (opt_dest (fst x)) v (st\<lparr>ps_given := opt_dest (fst x) # ps_given st\<rparr>)"
        using take_option_store [OF t] by blast
      have d: "opt_dest (fst x) \<in> ?D" using x by (simp add: usable_def)
      then have "opt_dest (fst x) \<noteq> k" using assms(2) by blast
      with d have "ps_ns st' k = ps_ns st k" "\<And>k'. k' \<notin> insert k ?D \<Longrightarrow> ps_ns st' k' = ps_ns st k'"
        "dom (ps_ns st') \<subseteq> insert (opt_dest (fst x)) (dom (ps_ns st))" "ps_seen st' = opt_dest (fst x) # ps_seen st"
        by (auto simp: st' store_def)
      with J d \<open>opt_dest (fst x) \<noteq> k\<close> show "?J qs st'" by auto
    qed
    show "?J qs' st'" if J: "?J qs st" and c: "consume_positionals qs ts st = Inr (n, qs', st')" for qs ts st n qs' st'
    proof (cases "qs = []")
      case True
      then have "qs' = [] \<and> st' = st" using c by (simp add: consume_positionals_def match_partial_def)
      with J True show ?thesis by simp
    next
      case False
      with J have qs: "qs = [?c]" and J: "k \<notin> set (ps_seen st)" "ps_ns st k = Some NNone" "dom (ps_ns st) \<subseteq> insert k ?D" by auto
      from consume_command [OF c [unfolded qs]] consider "qs' = [?c]" "st' = st"
        | v run rest ns' ex where "qs' = []" "map_of (map (map_prod id parse_known) subs) v = Some run" "run rest = Inr (ns', ex)"
          "st' = (store k (NText v) st)\<lparr>ps_ns := ps_ns (store k (NText v) st) ++ ns', ps_unrecognized := ps_unrecognized st @ ex\<rparr>"
        by blast
      then show ?thesis
      proof cases
        case 1
        with J show ?thesis by simp
      next
        case (2 v run rest ns' ex)
        then obtain p where p: "map_of subs v = Some p" "run = parse_known p" by (auto simp: map_prod_def map_of_map)
        have "ps_ns st' k' = ns' k'" if "k' \<notin> insert k ?D" for k'
        proof -
          have "ps_ns st k' = None" using that J(3) by blast
          with that 2(4) show ?thesis by (auto simp: store_def map_add_def split: option.split)
        qed
        moreover have "k \<notin> dom ns' \<longrightarrow> ps_ns st' k = Some (NText v)"
          using 2(4) by (auto simp: store_def map_add_def split: option.split)
        ultimately show ?thesis using 2(1,3) p by blast
      qed
    qed
    show "?J qs (st\<lparr>ps_extras := xs\<rparr>)" if "?J qs st" for qs st xs using that by simp
  qed
  moreover have "\<not> r" if "k \<notin> set (ps_seen st)" using sat that by (auto simp: satisfied_def required_def)
  ultimately show ?thesis unfolding ns by blast
qed

end
