(* ===== verification/CliArgs.thy ===== *)
theory CliArgs
  imports Cli ArgParse
begin

text \<open>
  The command line of \<open>cli.py\<close>: the parser it builds, and how the parsed arguments become the
  records the verbs of \<open>Cli\<close> work on.
\<close>

subsection \<open>The parser\<close>

definition one_arg :: "string \<Rightarrow> string \<Rightarrow> opt" where
  "one_arg k dest = Opt [k] dest (OneArg None None)"

definition catalog_parser :: parser where
  "catalog_parser =
     Parser [HELP] [Command ''catalog_verb'' False
       [(''list'', Parser [HELP] [] []),
        (''lint'', Parser [HELP] [] []),
        (''publish'', Parser [HELP] [] []),
        (''fetch'', Parser [HELP] [Positional ''app'' True] [])]] []"

definition show_parser :: parser where
  "show_parser = Parser [HELP] [Positional ''target'' False, Positional ''key'' True] []"

definition put_parser :: parser where
  "put_parser =
     Parser [HELP, one_arg ''--file'' ''file'', one_arg ''--value'' ''value'', Opt [''--encrypted''] ''encrypted'' StoreTrue]
       [Positional ''key'' False] [[''file'', ''value'']]"

definition get_parser :: parser where
  "get_parser = Parser [HELP, Opt [''--output'', ''-o''] ''output'' (OneArg None None)] [Positional ''key'' False] []"

definition del_parser :: parser where
  "del_parser = Parser [HELP] [Positional ''key'' False] []"

definition set_parser :: parser where
  "set_parser =
     Parser [HELP, Opt [''--unset''] ''unset'' StoreTrue, Opt [''--encrypted''] ''encrypted'' StoreTrue]
       [Positional ''target'' False, Positional ''key'' False, Positional ''value'' True] []"

definition SYNTH_MODES :: "string list" where
  "SYNTH_MODES = [''q-only'', ''kv-only'', ''both'']"

definition synth_parser :: parser where
  "synth_parser =
     Parser [HELP, one_arg ''--queue'' ''queue'', one_arg ''--kv-key'' ''kv_key'',
         Opt [''--duration''] ''duration'' (OneArg (Some ''30s'') None),
         Opt [''--rate''] ''rate'' (OneArg (Some ''1'') None),
         Opt [''--mode''] ''mode'' (OneArg (Some ''both'') (Some SYNTH_MODES)),
         Opt [''--allow-high-rate''] ''allow_high_rate'' StoreTrue] [] []"

definition build_parser :: parser where
  "build_parser =
     Parser [HELP, one_arg ''--catalog'' ''catalog'', one_arg ''--profile'' ''profile'', one_arg ''--server'' ''server'',
         one_arg ''--client-id'' ''client_id'', one_arg ''--secret'' ''secret_hex'']
       [Command ''verb'' True
         [(''catalog'', catalog_parser), (''show'', show_parser), (''put'', put_parser), (''get'', get_parser),
          (''del'', del_parser), (''set'', set_parser), (''synth-traffic'', synth_parser)]] []"

lemmas parser_defs = build_parser_def catalog_parser_def show_parser_def put_parser_def get_parser_def del_parser_def
  set_parser_def synth_parser_def one_arg_def HELP_def

subsection \<open>The arguments of the verbs\<close>

definition ns_text :: "namespace \<Rightarrow> string \<Rightarrow> string option" where
  "ns_text ns k = (case ns k of Some (NText s) \<Rightarrow> Some s | _ \<Rightarrow> None)"

definition ns_flag :: "namespace \<Rightarrow> string \<Rightarrow> bool" where
  "ns_flag ns k \<longleftrightarrow> ns k = Some (NBool True)"

definition globals_of :: "namespace \<Rightarrow> globals" where
  "globals_of ns =
     \<lparr>g_catalog = ns_text ns ''catalog'', g_profile = ns_text ns ''profile'', g_server = ns_text ns ''server'',
      g_client_id = ns_text ns ''client_id'', g_secret_hex = ns_text ns ''secret_hex''\<rparr>"

text \<open>
  \<open>None\<close>: a required argument was a second \<open>--\<close>, for which \<open>argparse\<close> stores an empty list. What a
  verb makes of a list is not modelled.
\<close>

definition with_text :: "namespace \<Rightarrow> string \<Rightarrow> (string \<Rightarrow> verb option) \<Rightarrow> verb option" where
  "with_text ns k f = (case ns_text ns k of None \<Rightarrow> None | Some s \<Rightarrow> f s)"

definition verb_of :: "namespace \<Rightarrow> verb option" where
  "verb_of ns =
     with_text ns ''verb'' (\<lambda>v.
       if v = ''catalog'' then Some (CatalogVerb (ns_text ns ''catalog_verb'') (ns_text ns ''app''))
       else if v = ''show'' then with_text ns ''target'' (\<lambda>t. Some (ShowVerb t (ns_text ns ''key'')))
       else if v = ''put'' then
         with_text ns ''key'' (\<lambda>k. Some (PutVerb k (ns_text ns ''file'') (ns_text ns ''value'') (ns_flag ns ''encrypted'')))
       else if v = ''get'' then with_text ns ''key'' (\<lambda>k. Some (GetVerb k (ns_text ns ''output'')))
       else if v = ''del'' then with_text ns ''key'' (\<lambda>k. Some (DelVerb k))
       else if v = ''set'' then
         with_text ns ''target'' (\<lambda>t. with_text ns ''key'' (\<lambda>k.
         Some (SetVerb t k (ns_text ns ''value'') (ns_flag ns ''unset'') (ns_flag ns ''encrypted''))))
       else if v = ''synth-traffic'' then
         with_text ns ''duration'' (\<lambda>d. with_text ns ''rate'' (\<lambda>r. with_text ns ''mode'' (\<lambda>m.
         Some (SynthVerb (ns_text ns ''queue'') (ns_text ns ''kv_key'') d r m (ns_flag ns ''allow_high_rate'')))))
       else Some (OtherVerb v))"

definition command_line :: "string list \<Rightarrow> (globals \<times> verb option) parse" where
  "command_line argv = bind_parse (parse_args build_parser argv) (\<lambda>ns. Inr (globals_of ns, verb_of ns))"

subsection \<open>Writing a command\<close>

text \<open>
  A spelling that says every value safely: \<open>--option=value\<close> for options, \<open>--\<close> before the positional
  arguments. Only a positional argument that is itself \<open>--\<close> cannot be given.
\<close>

definition eq_opt :: "string \<Rightarrow> string option \<Rightarrow> string list" where
  "eq_opt k v = (case v of None \<Rightarrow> [] | Some s \<Rightarrow> [k @ ''='' @ s])"

definition flag_arg :: "string \<Rightarrow> bool \<Rightarrow> string list" where
  "flag_arg k b = (if b then [k] else [])"

definition last_arg :: "string option \<Rightarrow> string list" where
  "last_arg v = (case v of None \<Rightarrow> [] | Some s \<Rightarrow> [s])"

definition globals_argv :: "globals \<Rightarrow> string list" where
  "globals_argv g =
     eq_opt ''--catalog'' (g_catalog g) @ eq_opt ''--profile'' (g_profile g) @ eq_opt ''--server'' (g_server g) @
     eq_opt ''--client-id'' (g_client_id g) @ eq_opt ''--secret'' (g_secret_hex g)"

fun verb_argv :: "verb \<Rightarrow> string list" where
  "verb_argv (CatalogVerb cv app) =
     ''catalog'' # (case cv of None \<Rightarrow> [] | Some v \<Rightarrow> if v = ''fetch'' then [v, ''--''] @ last_arg app else [v])"
| "verb_argv (ShowVerb t k) = [''show'', ''--'', t] @ last_arg k"
| "verb_argv (PutVerb k f v e) =
     ''put'' # eq_opt ''--file'' f @ eq_opt ''--value'' v @ flag_arg ''--encrypted'' e @ [''--'', k]"
| "verb_argv (GetVerb k f) = ''get'' # eq_opt ''--output'' f @ [''--'', k]"
| "verb_argv (DelVerb k) = [''del'', ''--'', k]"
| "verb_argv (SetVerb t k v u e) =
     ''set'' # flag_arg ''--unset'' u @ flag_arg ''--encrypted'' e @ [''--'', t, k] @ last_arg v"
| "verb_argv (SynthVerb q k d r m h) =
     ''synth-traffic'' # eq_opt ''--queue'' q @ eq_opt ''--kv-key'' k @ eq_opt ''--duration'' (Some d) @
       eq_opt ''--rate'' (Some r) @ eq_opt ''--mode'' (Some m) @ flag_arg ''--allow-high-rate'' h"
| "verb_argv (OtherVerb v) = [v]"

text \<open>The commands there are.\<close>

fun well_formed :: "verb \<Rightarrow> bool" where
  "well_formed (CatalogVerb cv app) \<longleftrightarrow>
     (cv = None \<or> the cv \<in> {''list'', ''lint'', ''publish''}) \<and> app = None \<or> cv = Some ''fetch''"
| "well_formed (PutVerb k f v e) \<longleftrightarrow> (f = None) \<noteq> (v = None)"
| "well_formed (SynthVerb q k d r m h) \<longleftrightarrow> m \<in> set SYNTH_MODES"
| "well_formed (OtherVerb v) \<longleftrightarrow> False"
| "well_formed _ \<longleftrightarrow> True"

fun positionals_of :: "verb \<Rightarrow> string list" where
  "positionals_of (CatalogVerb cv app) = last_arg app"
| "positionals_of (ShowVerb t k) = t # last_arg k"
| "positionals_of (PutVerb k f v e) = [k]"
| "positionals_of (GetVerb k f) = [k]"
| "positionals_of (DelVerb k) = [k]"
| "positionals_of (SetVerb t k v u e) = [t, k] @ last_arg v"
| "positionals_of _ = []"

text \<open>\<open>--option=value\<close> is read as such, by the parser that has the option.\<close>

definition tidy_table :: "opt list \<Rightarrow> bool" where
  "tidy_table os \<longleftrightarrow> list_all (\<lambda>(k, _). CHR ''='' \<notin> set k) (option_table os)"

lemma tidy_lookup: "tidy_table os \<Longrightarrow> map_of (option_table os) (k @ CHR ''='' # v) = None"
  by (force simp: tidy_table_def list_all_iff map_of_eq_None_iff)

lemma parse_eq_opt:
  assumes "tidy_table os" and "map_of (option_table os) k = Some a" and "k = CHR ''-'' # CHR ''-'' # k'"
  shows "parse_optional os (k @ CHR ''='' # v) = Inr (Some (Some a, k, True, Some v))"
proof -
  have "CHR ''='' \<notin> set k" using assms(1) map_of_SomeD [OF assms(2)] by (auto simp: tidy_table_def list_all_iff)
  then have "split1 CHR ''='' (k @ CHR ''='' # v) = Some (k, v)" by simp
  with tidy_lookup [OF assms(1), of k v] show ?thesis
    using assms(2) unfolding assms(3) by (simp add: parse_optional_def)
qed

text \<open>An option that a parser does not have is left alone by it, unless it is short for several.\<close>

lemma parse_foreign:
  assumes "list_all (\<lambda>(k', _). \<not> prefix k k') (option_table os)" and "tidy_table os"
    and "k = CHR ''-'' # CHR ''-'' # k'" and "CHR ''='' \<notin> set k" and "s = k \<or> s = k @ CHR ''='' # v"
  shows "\<exists>h. parse_optional os s = Inr h"
proof -
  have n: "map_of (option_table os) k = None" using assms(1) by (auto simp: list_all_iff map_of_eq_None_iff)
  have f: "filter (\<lambda>(k', _). prefix k k') (option_table os) = []"
    using assms(1) by (auto simp: list_all_iff filter_empty_conv)
  have split: "split1 CHR ''='' k = None" "split1 CHR ''='' (k @ CHR ''='' # v) = Some (k, v)"
    using assms(4) by (simp_all add: split1_None_iff)
  have t: "option_tuples os s = []"
    using assms(5) f split unfolding assms(3) by (auto simp: option_tuples_def)
  show ?thesis
    using assms(5) n split tidy_lookup [OF assms(2), of k v] t unfolding assms(3) by (auto simp: parse_optional_def)
qed

lemma classify_strings: "classify os ss = Inr ts \<Longrightarrow> map fst ts = ss"
proof (induction os ss arbitrary: ts rule: classify.induct)
  case (2 os s ss)
  then show ?case
    by (cases "parse_optional os s"; cases "classify os ss") (auto simp: comp_def split: if_splits)
qed simp

lemma classify_eq_opt:
  assumes "tidy_table os" and "map_of (option_table os) k = Some a" and "k = CHR ''-'' # CHR ''-'' # k'"
  shows "classify os ((k @ CHR ''='' # v) # ss) =
    bind_parse (classify os ss) (\<lambda>ts. Inr ((k @ CHR ''='' # v, MOpt (Some a, k, True, Some v)) # ts))"
  using parse_eq_opt [OF assms] unfolding assms(3) by simp

subsection \<open>A parser on such a command line\<close>

definition run_strings ::
    "opt list \<Rightarrow> string list list \<Rightarrow> runner pos list \<Rightarrow> string list \<Rightarrow> pstate \<Rightarrow> pstate parse" where
  "run_strings os gs ps ss st = bind_parse (classify os ss) (\<lambda>ts. consume_all os gs ps ts st)"

lemma run_parser_strings:
  "run_parser os ps gs argv =
     bind_parse (run_strings os gs ps argv (start_state os ps))
       (\<lambda>st. if satisfied ps gs st then Inr (ps_ns st, ps_extras st @ ps_unrecognized st) else Inl UsageError)"
  by (simp add: run_parser_def run_strings_def bind_parse_def split: sum.split)

definition given :: "string \<Rightarrow> nsval \<Rightarrow> pstate \<Rightarrow> pstate" where
  "given k v st = store k v (st\<lparr>ps_given := k # ps_given st\<rparr>)"

lemma give_given: "\<not> conflicts gs k (ps_given st) \<Longrightarrow> give gs k v st = Inr (given k v st)"
  by (simp add: give_def given_def)

definition given_opt :: "string \<Rightarrow> string option \<Rightarrow> pstate \<Rightarrow> pstate" where
  "given_opt k v st = (case v of None \<Rightarrow> st | Some s \<Rightarrow> given k (NText s) st)"

definition given_flag :: "string \<Rightarrow> bool \<Rightarrow> pstate \<Rightarrow> pstate" where
  "given_flag k b st = (if b then given k (NBool True) st else st)"

lemma same_extras [simp]: "st\<lparr>ps_extras := ps_extras st\<rparr> = (st :: pstate)"
  by simp

lemma run_eq_opt:
  assumes "tidy_table os" and "map_of (option_table os) k = Some (Opt ks dest (OneArg dflt choices))"
    and "k = CHR ''-'' # CHR ''-'' # k'" and "\<not> conflicts gs dest (ps_given st) \<or> v = None"
    and "choices = None \<or> v = None \<or> the v \<in> set (the choices)"
  shows "run_strings os gs ps (eq_opt k v @ ss) st = run_strings os gs ps ss (given_opt dest v st)"
proof (cases v)
  case (Some s)
  let ?a = "Opt ks dest (OneArg dflt choices)"
  have c: "cluster os ?a k True s ts = Inr ([(?a, [s])], [], 0)" for ts by (cases s) (simp_all add: takes_arg_def)
  have "consume_all os gs ps ((k @ CHR ''='' # s, MOpt (Some ?a, k, True, Some s)) # ts) st = consume_all os gs ps ts (given_opt dest v st)" for ts
    using assms(4,5) by (subst consume_all.simps) (auto simp: is_opt_def consume_option_def c give_given given_opt_def Some)
  with classify_eq_opt [OF assms(1-3), of s ss] show ?thesis
    by (simp add: run_strings_def eq_opt_def Some bind_parse_def del: classify.simps split: sum.split)
qed (simp add: eq_opt_def given_opt_def)

lemma run_free_opt:
  assumes "tidy_table os" and "map_of (option_table os) k = Some (Opt ks dest (OneArg dflt None))"
    and "k = CHR ''-'' # CHR ''-'' # k'" and "\<not> conflicts gs dest (ps_given st) \<or> v = None"
  shows "run_strings os gs ps (eq_opt k v @ ss) st = run_strings os gs ps ss (given_opt dest v st)"
  by (rule run_eq_opt [OF assms]) simp

lemma run_flag:
  assumes "map_of (option_table os) k = Some (Opt ks dest StoreTrue)" and "k = CHR ''-'' # CHR ''-'' # c # k'"
    and "\<not> conflicts gs dest (ps_given st)"
  shows "run_strings os gs ps (flag_arg k b @ ss) st = run_strings os gs ps ss (given_flag dest b st)"
proof (cases b)
  case True
  let ?a = "Opt ks dest StoreTrue"
  have "consume_all os gs ps ((k, MOpt (Some ?a, k, False, None)) # ts) st = consume_all os gs ps ts (given dest (NBool True) st)" for ts
    using assms(3) by (subst consume_all.simps) (auto simp: is_opt_def consume_option_def option_alone_def takes_arg_def give_given)
  moreover have "parse_optional os k = Inr (Some (Some ?a, k, False, None))" "k \<noteq> ''--''"
    using assms(1) unfolding assms(2) by (simp_all add: parse_optional_def)
  ultimately show ?thesis
    using True by (simp add: run_strings_def flag_arg_def given_flag_def bind_parse_def split: sum.split)
qed (simp add: flag_arg_def given_flag_def)

lemma run_positionals:
  "run_strings os gs ps (''--'' # ss) st = finish ps ((''--'', MDash) # map (\<lambda>s. (s, MArg)) ss) st"
  by (simp add: run_strings_def consume_all.simps is_opt_def list_ex_iff)

lemma run_nothing: "run_strings os gs ps [] st = finish ps [] st"
  by (simp add: run_strings_def consume_all.simps)

text \<open>A sub-command takes all that follows it, options or not.\<close>

lemma finish_command:
  assumes "map_of subs v = Some run" and "run (map fst ts) = Inr (ns, extras)"
  shows "consume_positionals [Command k r subs] ((v, MArg) # ts) st =
    Inr (Suc (length ts), [], (store k (NText v) st)\<lparr>ps_ns := ps_ns (store k (NText v) st) ++ ns,
      ps_unrecognized := ps_unrecognized st @ extras\<rparr>)"
proof -
  let ?p = "Command k r subs" and ?t = "(v, MArg) # ts"
  have "match_lengths ?p ?t = Suc (length ts) # rev [1..<Suc (length ts)]"
    by (simp add: match_lengths_def dashes_def)
  then have "match_partial [?p] ?t = [Suc (length ts)]" by (simp add: match_partial_def)
  with assms show ?thesis by (simp add: consume_positionals_def take_positional_def Let_def store_def)
qed

lemma run_command:
  assumes "map_of subs v = Some run" and "run ss = Inr (ns, extras)" and "v \<noteq> []" and "hd v \<noteq> CHR ''-''"
    and "classify os ss = Inr ts"
  shows "run_strings os gs [Command k r subs] (v # ss) st =
    Inr ((store k (NText v) st)\<lparr>ps_ns := ps_ns (store k (NText v) st) ++ ns, ps_unrecognized := ps_unrecognized st @ extras\<rparr>)"
proof -
  have run: "run (map fst ts) = Inr (ns, extras)" using assms(2) classify_strings [OF assms(5)] by simp
  have last: "consume_all os gs [] [] st' = Inr st'" for st'
    by (simp add: consume_all.simps finish_def consume_positionals_def match_partial_def)
  have v: "parse_optional os v = Inr None" "v \<noteq> ''--''" using assms(3,4) by (auto simp: parse_optional_def)
  have "\<not> is_opt (v, MArg)" by (simp add: is_opt_def)
  then show ?thesis
    using finish_command [OF assms(1) run, of k r st] last v
    by (simp add: run_strings_def assms(5)) (subst consume_all.simps, simp add: finish_def store_def)
qed

text \<open>The positional arguments after \<open>--\<close>.\<close>

lemmas positionals_simps = finish_def consume_positionals_def match_partial_def match_lengths_def dashes_def
  take_positional_def last_arg_def

lemma finish_one: "finish [Positional k False] [(''--'', MDash), (s, MArg)] st = Inr (store k (NText s) st)"
  by (simp add: positionals_simps store_def)

lemma finish_last:
  assumes "''--'' \<notin> set (last_arg v)"
  shows "finish [Positional k True] ((''--'', MDash) # map (\<lambda>s. (s, MArg)) (last_arg v)) st =
    Inr (store k (case v of None \<Rightarrow> NNone | Some s \<Rightarrow> NText s) st)"
  using assms by (cases v) (simp_all add: positionals_simps store_def)

lemma finish_two:
  assumes "''--'' \<notin> set (last_arg v)"
  shows "finish [Positional k False, Positional l True] ((''--'', MDash) # (s, MArg) # map (\<lambda>s. (s, MArg)) (last_arg v)) st =
    Inr (store l (case v of None \<Rightarrow> NNone | Some s \<Rightarrow> NText s) (store k (NText s) st))"
  using assms by (cases v) (simp_all add: positionals_simps store_def)

lemma finish_three:
  assumes "s' \<noteq> ''--''" and "''--'' \<notin> set (last_arg v)"
  shows "finish [Positional k False, Positional k' False, Positional l True]
      ((''--'', MDash) # (s, MArg) # (s', MArg) # map (\<lambda>s. (s, MArg)) (last_arg v)) st =
    Inr (store l (case v of None \<Rightarrow> NNone | Some s \<Rightarrow> NText s) (store k' (NText s') (store k (NText s) st)))"
  using assms by (cases v) (simp_all add: positionals_simps store_def)

lemma finish_none: "finish [] [] st = Inr st"
  by (simp add: positionals_simps)

lemma finish_no_command: "finish [Command k False subs] [] st = Inr st"
  by (simp add: positionals_simps)

subsection \<open>What is left to the sub-commands\<close>

definition classifies :: "opt list \<Rightarrow> string list \<Rightarrow> bool" where
  "classifies os ss \<longleftrightarrow> (\<exists>ts. classify os ss = Inr ts)"

lemma classifies_dashes: "classifies os (''--'' # ss)" and classifies_nil: "classifies os []"
  by (simp_all add: classifies_def)

lemma classifies_word: "s \<noteq> [] \<Longrightarrow> hd s \<noteq> CHR ''-'' \<Longrightarrow> classifies os ss \<Longrightarrow> classifies os (s # ss)"
  by (auto simp: classifies_def parse_optional_def bind_parse_def)

lemma classifies_option:
  assumes "list_all (\<lambda>(k', _). \<not> prefix k k') (option_table os)" and "tidy_table os"
    and "k = CHR ''-'' # CHR ''-'' # c # k'" and "CHR ''='' \<notin> set k" and "classifies os ss"
  shows "classifies os (eq_opt k v @ ss)" "classifies os (flag_arg k b @ ss)"
proof -
  have "classifies os (s # ss)" if "s = k \<or> s = k @ CHR ''='' # x" for s x
    using parse_foreign [OF assms(1,2) _ assms(4) that] assms(3,5) that
    by (auto simp: classifies_def bind_parse_def)
  then show "classifies os (eq_opt k v @ ss)" "classifies os (flag_arg k b @ ss)"
    using assms(5) by (auto simp: eq_opt_def flag_arg_def split: option.split)
qed

definition global_opts :: "opt list" where
  "global_opts = (case build_parser of Parser os ps gs \<Rightarrow> os)"

definition verb_options :: "string list" where
  "verb_options =
     [''--file'', ''--value'', ''--encrypted'', ''--output'', ''--unset'', ''--queue'', ''--kv-key'', ''--duration'', ''--rate'',
      ''--mode'', ''--allow-high-rate'']"

lemma foreign_options:
  "k \<in> set verb_options \<Longrightarrow> list_all (\<lambda>(k', _). \<not> prefix k k') (option_table global_opts)"
proof -
  have "list_all (\<lambda>k. list_all (\<lambda>(k', _). \<not> prefix k k') (option_table global_opts)) verb_options" by code_simp
  then show "k \<in> set verb_options \<Longrightarrow> list_all (\<lambda>(k', _). \<not> prefix k k') (option_table global_opts)"
    unfolding list_all_iff by blast
qed

lemma tidy_global: "tidy_table global_opts"
  by code_simp

lemma verb_classifies:
  assumes "well_formed v"
  shows "classifies global_opts (tl (verb_argv v))"
proof (cases v)
  case (CatalogVerb cv app)
  with assms have "cv \<in> {None, Some ''list'', Some ''lint'', Some ''publish'', Some ''fetch''}" by (cases cv) auto
  with CatalogVerb show ?thesis by (auto intro!: classifies_word classifies_nil classifies_dashes)
next
  case (PutVerb k f x e)
  show ?thesis
    unfolding PutVerb verb_argv.simps list.sel
    by (intro classifies_option classifies_dashes tidy_global foreign_options) (auto simp: verb_options_def)
next
  case (GetVerb k f)
  show ?thesis
    unfolding GetVerb verb_argv.simps list.sel
    by (intro classifies_option classifies_dashes tidy_global foreign_options) (auto simp: verb_options_def)
next
  case (SetVerb t k x u e)
  show ?thesis
    unfolding SetVerb verb_argv.simps list.sel append_Cons append_Nil
    by (intro classifies_option classifies_dashes tidy_global foreign_options) (auto simp: verb_options_def)
next
  case (SynthVerb q k d r m h)
  have "classifies global_opts (flag_arg ''--allow-high-rate'' h @ [])"
    by (intro classifies_option classifies_nil tidy_global foreign_options) (auto simp: verb_options_def)
  then show ?thesis
    unfolding SynthVerb verb_argv.simps list.sel append_Nil2
    by (intro classifies_option tidy_global foreign_options) (auto simp: verb_options_def)
qed (use assms in \<open>simp_all add: classifies_dashes\<close>)

subsection \<open>Each verb\<close>

lemma given_simps [simp]:
  "ps_ns (store k v st) = (ps_ns st)(k \<mapsto> v)" "ps_seen (store k v st) = k # ps_seen st"
  "ps_given (store k v st) = ps_given st" "ps_extras (store k v st) = ps_extras st"
  "ps_unrecognized (store k v st) = ps_unrecognized st"
  "ps_given (given_opt k t st) = (if t = None then ps_given st else k # ps_given st)"
  "ps_extras (given_opt k t st) = ps_extras st" "ps_unrecognized (given_opt k t st) = ps_unrecognized st"
  "ps_given (given_flag k b st) = (if b then k # ps_given st else ps_given st)"
  "ps_extras (given_flag k b st) = ps_extras st" "ps_unrecognized (given_flag k b st) = ps_unrecognized st"
  by (simp_all add: store_def given_opt_def given_flag_def given_def split: option.split)

lemma no_conflicts [simp]: "\<not> conflicts [] k xs"
  by (simp add: conflicts_def)

text \<open>What a parser leaves when it is given well-formed arguments.\<close>

definition leaves :: "parser \<Rightarrow> string list \<Rightarrow> (namespace \<Rightarrow> bool) \<Rightarrow> bool" where
  "leaves p ss P \<longleftrightarrow> (\<exists>ns. parse_known p ss = Inr (ns, []) \<and> P ns)"

lemma pos_dest_map [simp]: "pos_dest (map_pos f p) = pos_dest p" "required (map_pos f p) = required p"
  by (cases p; simp add: required_def)+

lemma leavesI:
  assumes "run_strings os gs (map (map_pos parse_known) ps) ss (start_state os ps) = Inr st"
    and "satisfied ps gs st" and "ps_extras st = []" and "ps_unrecognized st = []" and "P (ps_ns st)"
  shows "leaves (Parser os ps gs) ss P"
proof -
  have "start_state os (map (map_pos parse_known) ps) = start_state os ps"
    by (simp add: start_state_def comp_def)
  moreover have "satisfied (map (map_pos parse_known) ps) gs st = satisfied ps gs st"
    by (simp add: satisfied_def list_all_iff)
  ultimately show ?thesis using assms by (simp add: leaves_def run_parser_strings)
qed

lemma start_simps [simp]:
  "ps_ns (start_state os ps) = map_of (concat (map opt_default os) @ map (\<lambda>p. (pos_dest p, NNone)) ps)"
  "ps_seen (start_state os ps) = []" "ps_given (start_state os ps) = []" "ps_extras (start_state os ps) = []"
  "ps_unrecognized (start_state os ps) = []"
  by (simp_all add: start_state_def)

lemma seen_simps [simp]:
  "ps_seen (given_opt k t st) = (if t = None then ps_seen st else k # ps_seen st)"
  "ps_seen (given_flag k b st) = (if b then k # ps_seen st else ps_seen st)"
  by (simp_all add: store_def given_opt_def given_flag_def given_def split: option.split)

definition text_or_none :: "string option \<Rightarrow> nsval" where
  "text_or_none v = (case v of None \<Rightarrow> NNone | Some s \<Rightarrow> NText s)"

lemma ns_text_simps [simp]:
  "ns_text (ns(k \<mapsto> NText s)) k = Some s"
  "ns_text (ns(k \<mapsto> case v of None \<Rightarrow> NNone | Some s \<Rightarrow> NText s)) k = v"
  "ns_text (ns(k \<mapsto> NNone)) k = None" "ns_text (ns(k \<mapsto> NBool b)) k = None" "ns_text Map.empty k = None"
  "ns_flag (ns(k \<mapsto> NBool b)) k = b" "\<not> ns_flag (ns(k \<mapsto> NNone)) k" "\<not> ns_flag (ns(k \<mapsto> NText s)) k" "\<not> ns_flag Map.empty k"
  "k \<noteq> k' \<Longrightarrow> ns_text (ns(k' \<mapsto> x)) k = ns_text ns k"
  "k \<noteq> k' \<Longrightarrow> ns_flag (ns(k' \<mapsto> x)) k = ns_flag ns k"
  "ns_text (ps_ns (given_opt k v st)) k' = (if k = k' \<and> v \<noteq> None then v else ns_text (ps_ns st) k')"
  "ns_text (ps_ns (given_flag k b st)) k' = (if k = k' \<and> b then None else ns_text (ps_ns st) k')"
  "ns_flag (ps_ns (given_opt k v st)) k' = (\<not> (k = k' \<and> v \<noteq> None) \<and> ns_flag (ps_ns st) k')"
  "ns_flag (ps_ns (given_flag k b st)) k' = (k = k' \<and> b \<or> ns_flag (ps_ns st) k')"
  by (auto simp: ns_text_def ns_flag_def given_opt_def given_flag_def given_def store_def split: option.split)

lemma given_other [simp]:
  "k' \<noteq> k \<Longrightarrow> ps_ns (given_opt k v st) k' = ps_ns st k'" "k \<noteq> k' \<Longrightarrow> ps_ns (given_opt k v st) k' = ps_ns st k'" "k \<noteq> k' \<Longrightarrow> ps_ns (given_flag k b st) k' = ps_ns st k'"
  by (simp_all add: given_opt_def given_flag_def given_def store_def split: option.split)

text \<open>No verb stores anything under the destinations of the main parser.\<close>

definition main_keys :: "string list" where
  "main_keys = [''verb'', ''catalog'', ''profile'', ''server'', ''client_id'', ''secret_hex'']"

definition apart :: "namespace \<Rightarrow> bool" where
  "apart ns \<longleftrightarrow> (\<forall>k \<in> set main_keys. ns k = None)"

lemmas verb_simps = satisfied_def required_def opt_default_def apart_def main_keys_def HELP_def

lemma show_leaves:
  assumes "''--'' \<notin> set (last_arg k)"
  shows "leaves show_parser (tl (verb_argv (ShowVerb t k)))
    (\<lambda>ns. ns_text ns ''target'' = Some t \<and> ns_text ns ''key'' = k \<and> apart ns)"
  unfolding show_parser_def
  by (rule leavesI, simp add: run_positionals finish_two [OF assms])
    (simp_all add: verb_simps)

lemma set_leaves:
  assumes "k \<noteq> ''--''" and "''--'' \<notin> set (last_arg v)"
  shows "leaves set_parser (tl (verb_argv (SetVerb t k v u e)))
    (\<lambda>ns. ns_text ns ''target'' = Some t \<and> ns_text ns ''key'' = Some k \<and> ns_text ns ''value'' = v \<and>
      ns_flag ns ''unset'' = u \<and> ns_flag ns ''encrypted'' = e \<and> apart ns)"
proof -
  let ?os = "[HELP, Opt [''--unset''] ''unset'' StoreTrue, Opt [''--encrypted''] ''encrypted'' StoreTrue]"
  have table: "option_table ?os = [(''-h'', HELP), (''--help'', HELP), (''--unset'', Opt [''--unset''] ''unset'' StoreTrue),
      (''--encrypted'', Opt [''--encrypted''] ''encrypted'' StoreTrue)]"
    by (simp add: option_table_def HELP_def)
  have f: "run_strings ?os [] ps (flag_arg ''--unset'' u @ ss) st = run_strings ?os [] ps ss (given_flag ''unset'' u st)"
    "run_strings ?os [] ps (flag_arg ''--encrypted'' e @ ss) st = run_strings ?os [] ps ss (given_flag ''encrypted'' e st)" for ps ss st
    by (rule run_flag; simp add: table)+
  show ?thesis
    unfolding set_parser_def
    by (rule leavesI, simp add: f run_positionals finish_three [OF assms])
      (simp_all add: verb_simps)
qed

lemma put_leaves:
  assumes "(f = None) \<noteq> (v = None)"
  shows "leaves put_parser (tl (verb_argv (PutVerb k f v e)))
    (\<lambda>ns. ns_text ns ''key'' = Some k \<and> ns_text ns ''file'' = f \<and> ns_text ns ''value'' = v \<and> ns_flag ns ''encrypted'' = e \<and> apart ns)"
proof -
  let ?os = "[HELP, Opt [''--file''] ''file'' (OneArg None None), Opt [''--value''] ''value'' (OneArg None None),
    Opt [''--encrypted''] ''encrypted'' StoreTrue]" and ?gs = "[[''file'', ''value'']]"
  have table: "option_table ?os = [(''-h'', HELP), (''--help'', HELP), (''--file'', Opt [''--file''] ''file'' (OneArg None None)),
      (''--value'', Opt [''--value''] ''value'' (OneArg None None)), (''--encrypted'', Opt [''--encrypted''] ''encrypted'' StoreTrue)]"
    by (simp add: option_table_def HELP_def)
  have o: "\<not> conflicts ?gs ''file'' (ps_given st) \<or> x = None \<Longrightarrow>
      run_strings ?os ?gs ps (eq_opt ''--file'' x @ ss) st = run_strings ?os ?gs ps ss (given_opt ''file'' x st)"
    "\<not> conflicts ?gs ''value'' (ps_given st) \<or> x = None \<Longrightarrow>
      run_strings ?os ?gs ps (eq_opt ''--value'' x @ ss) st = run_strings ?os ?gs ps ss (given_opt ''value'' x st)"
    "run_strings ?os ?gs ps (flag_arg ''--encrypted'' e @ ss) st = run_strings ?os ?gs ps ss (given_flag ''encrypted'' e st)"
    for x ps ss st
    by (rule run_free_opt run_flag; simp add: tidy_table_def table conflicts_def)+
  show ?thesis
    unfolding put_parser_def one_arg_def
  proof (rule leavesI)
    let ?st = "\<lambda>st. store ''key'' (NText k) (given_flag ''encrypted'' e (given_opt ''value'' v (given_opt ''file'' f st)))"
    show "run_strings ?os ?gs (map (map_pos parse_known) [Positional ''key'' False]) (tl (verb_argv (PutVerb k f v e)))
        (start_state ?os [Positional ''key'' False :: parser pos]) = Inr (?st (start_state ?os [Positional ''key'' False :: parser pos]))"
      using assms by (cases f; cases v) (simp_all add: o conflicts_def run_positionals finish_one)
  qed (use assms in \<open>auto simp: verb_simps split: if_splits\<close>)
qed

lemma get_leaves:
  "leaves get_parser (tl (verb_argv (GetVerb k f)))
    (\<lambda>ns. ns_text ns ''key'' = Some k \<and> ns_text ns ''output'' = f \<and> apart ns)"
proof -
  let ?os = "[HELP, Opt [''--output'', ''-o''] ''output'' (OneArg None None)]"
  have table: "option_table ?os = [(''-h'', HELP), (''--help'', HELP), (''--output'', Opt [''--output'', ''-o''] ''output'' (OneArg None None)),
      (''-o'', Opt [''--output'', ''-o''] ''output'' (OneArg None None))]"
    by (simp add: option_table_def HELP_def)
  have o: "run_strings ?os [] ps (eq_opt ''--output'' f @ ss) st = run_strings ?os [] ps ss (given_opt ''output'' f st)" for ps ss st
    by (rule run_free_opt; simp add: tidy_table_def table)
  show ?thesis
    unfolding get_parser_def
    by (rule leavesI, simp add: o run_positionals finish_one)
      (auto simp: verb_simps split: if_splits)
qed

lemma del_leaves: "leaves del_parser (tl (verb_argv (DelVerb k))) (\<lambda>ns. ns_text ns ''key'' = Some k \<and> apart ns)"
  unfolding del_parser_def
  by (rule leavesI, simp add: run_positionals finish_one) (simp_all add: verb_simps)

lemma synth_leaves:
  assumes "m \<in> set SYNTH_MODES"
  shows "leaves synth_parser (tl (verb_argv (SynthVerb q k d r m h)))
    (\<lambda>ns. ns_text ns ''queue'' = q \<and> ns_text ns ''kv_key'' = k \<and> ns_text ns ''duration'' = Some d \<and> ns_text ns ''rate'' = Some r \<and>
      ns_text ns ''mode'' = Some m \<and> ns_flag ns ''allow_high_rate'' = h \<and> apart ns)"
proof -
  let ?os = "[HELP, Opt [''--queue''] ''queue'' (OneArg None None), Opt [''--kv-key''] ''kv_key'' (OneArg None None),
    Opt [''--duration''] ''duration'' (OneArg (Some ''30s'') None), Opt [''--rate''] ''rate'' (OneArg (Some ''1'') None),
    Opt [''--mode''] ''mode'' (OneArg (Some ''both'') (Some SYNTH_MODES)), Opt [''--allow-high-rate''] ''allow_high_rate'' StoreTrue]"
  have table: "option_table ?os = (''-h'', HELP) # (''--help'', HELP) # map (\<lambda>a. (hd (opt_strings a), a)) (tl ?os)"
    by (simp add: option_table_def HELP_def)
  have o: "run_strings ?os [] ps (eq_opt ''--queue'' q @ ss) st = run_strings ?os [] ps ss (given_opt ''queue'' q st)"
    "run_strings ?os [] ps (eq_opt ''--kv-key'' k @ ss) st = run_strings ?os [] ps ss (given_opt ''kv_key'' k st)"
    "run_strings ?os [] ps (eq_opt ''--duration'' (Some d) @ ss) st = run_strings ?os [] ps ss (given_opt ''duration'' (Some d) st)"
    "run_strings ?os [] ps (eq_opt ''--rate'' (Some r) @ ss) st = run_strings ?os [] ps ss (given_opt ''rate'' (Some r) st)"
    for ps ss st
    by (rule run_free_opt; simp add: tidy_table_def table)+
  have m: "run_strings ?os [] ps (eq_opt ''--mode'' (Some m) @ ss) st = run_strings ?os [] ps ss (given_opt ''mode'' (Some m) st)"
    for ps ss st
    by (rule run_eq_opt [where choices = "Some SYNTH_MODES"]; simp add: tidy_table_def table assms)
  have f: "run_strings ?os [] ps (flag_arg ''--allow-high-rate'' h) st = finish ps [] (given_flag ''allow_high_rate'' h st)" for ps st
    using run_flag [of ?os "''--allow-high-rate''" "[''--allow-high-rate'']" "''allow_high_rate''" "CHR ''a''" "''llow-high-rate''" "[]" st ps h "[]"]
    by (simp add: table run_nothing)
  show ?thesis
    unfolding synth_parser_def one_arg_def
    by (rule leavesI, simp add: o m f finish_none)
      (auto simp: verb_simps split: if_splits)
qed

lemma catalog_leaves:
  assumes "well_formed (CatalogVerb cv app)" and "''--'' \<notin> set (last_arg app)"
  shows "leaves catalog_parser (tl (verb_argv (CatalogVerb cv app)))
    (\<lambda>ns. ns_text ns ''catalog_verb'' = cv \<and> ns_text ns ''app'' = app \<and> apart ns)"
proof -
  let ?subs = "[(''list'', Parser [HELP] [] []), (''lint'', Parser [HELP] [] []), (''publish'', Parser [HELP] [] []),
     (''fetch'', Parser [HELP] [Positional ''app'' True] [])]"
  let ?ps = "[Command ''catalog_verb'' False ?subs]"
  have plain: "parse_known (Parser [HELP] [] []) [] = Inr (Map.empty, [])"
    by (simp add: run_parser_strings run_nothing finish_none verb_simps)
  have fetch: "parse_known (Parser [HELP] [Positional ''app'' True] []) (''--'' # last_arg app) = Inr ([''app'' \<mapsto> text_or_none app], [])"
    by (simp add: run_parser_strings run_positionals finish_last [OF assms(2)] verb_simps
        text_or_none_def)
  show ?thesis
  proof (cases cv)
    case None
    with assms(1) show ?thesis
      unfolding catalog_parser_def
      by (intro leavesI [where st = "start_state [HELP] ?ps"])
        (simp_all add: run_nothing finish_no_command verb_simps)
  next
    case (Some v)
    let ?ss = "if v = ''fetch'' then ''--'' # last_arg app else []"
      and ?ns = "if v = ''fetch'' then [''app'' \<mapsto> text_or_none app] else Map.empty"
    have v: "v \<in> {''list'', ''lint'', ''publish'', ''fetch''}" "v \<noteq> ''fetch'' \<longrightarrow> app = None"
      using assms(1) Some by auto
    obtain p where p: "map_of ?subs v = Some p" "parse_known p ?ss = Inr (?ns, [])"
      using v(1) plain fetch by (elim insertE emptyE) auto
    have "classifies [HELP] ?ss" by (simp only: classifies_dashes classifies_nil split: if_split) simp
    then obtain ts where ts: "classify [HELP] ?ss = Inr ts" unfolding classifies_def ..
    have lookup: "map_of (map (map_prod id parse_known) ?subs) v = Some (parse_known p)"
      using p(1) by (auto split: if_splits)
    let ?init = "start_state [HELP] ?ps"
    let ?st = "(store ''catalog_verb'' (NText v) ?init)
      \<lparr>ps_ns := ps_ns (store ''catalog_verb'' (NText v) ?init) ++ ?ns, ps_unrecognized := ps_unrecognized ?init @ []\<rparr>"
    have vv: "v \<noteq> []" "hd v \<noteq> CHR ''-''" using v(1) by auto
    show ?thesis
      unfolding catalog_parser_def
    proof (rule leavesI)
      have "tl (verb_argv (CatalogVerb cv app)) = v # ?ss" using Some by simp
      then show "run_strings [HELP] [] (map (map_pos parse_known) ?ps) (tl (verb_argv (CatalogVerb cv app))) ?init = Inr ?st"
        using run_command [OF lookup p(2) vv ts, of "[]" "''catalog_verb''" False ?init] by (simp only: list.map pos.map)
    qed (use v Some in \<open>auto simp: verb_simps ns_text_def text_or_none_def
        split: option.splits\<close>)
  qed
qed

subsection \<open>The command line as a whole\<close>

definition global_state :: "globals \<Rightarrow> pstate \<Rightarrow> pstate" where
  "global_state g st =
     given_opt ''secret_hex'' (g_secret_hex g) (given_opt ''client_id'' (g_client_id g)
       (given_opt ''server'' (g_server g) (given_opt ''profile'' (g_profile g) (given_opt ''catalog'' (g_catalog g) st))))"

lemma run_globals:
  "run_strings global_opts [] ps (globals_argv g @ ss) st = run_strings global_opts [] ps ss (global_state g st)"
proof -
  have table: "option_table global_opts =
      [(''-h'', HELP), (''--help'', HELP), (''--catalog'', Opt [''--catalog''] ''catalog'' (OneArg None None)),
       (''--profile'', Opt [''--profile''] ''profile'' (OneArg None None)), (''--server'', Opt [''--server''] ''server'' (OneArg None None)),
       (''--client-id'', Opt [''--client-id''] ''client_id'' (OneArg None None)), (''--secret'', Opt [''--secret''] ''secret_hex'' (OneArg None None))]"
    by (simp add: option_table_def global_opts_def build_parser_def one_arg_def HELP_def)
  have o: "run_strings global_opts [] ps (eq_opt ''--catalog'' v @ ss) st = run_strings global_opts [] ps ss (given_opt ''catalog'' v st)"
    "run_strings global_opts [] ps (eq_opt ''--profile'' v @ ss) st = run_strings global_opts [] ps ss (given_opt ''profile'' v st)"
    "run_strings global_opts [] ps (eq_opt ''--server'' v @ ss) st = run_strings global_opts [] ps ss (given_opt ''server'' v st)"
    "run_strings global_opts [] ps (eq_opt ''--client-id'' v @ ss) st = run_strings global_opts [] ps ss (given_opt ''client_id'' v st)"
    "run_strings global_opts [] ps (eq_opt ''--secret'' v @ ss) st = run_strings global_opts [] ps ss (given_opt ''secret_hex'' v st)"
    for v ss st
    by (rule run_free_opt [OF tidy_global]; simp add: table)+
  show ?thesis by (simp add: globals_argv_def global_state_def o)
qed

lemma globals_of_state:
  assumes "apart ns"
  shows "globals_of (ps_ns (store ''verb'' v (global_state g (start_state global_opts [Command ''verb'' r subs]))) ++ ns) = g"
proof -
  have n: "ns_text (m ++ ns) k = ns_text m k" if "k \<in> set main_keys" for m k
    using assms that by (simp add: ns_text_def map_add_def apart_def)
  have d: "ns_text (ps_ns (start_state global_opts [Command ''verb'' r subs])) k = None" if "k \<in> set main_keys" for k
    using that by (auto simp: main_keys_def global_opts_def build_parser_def one_arg_def HELP_def opt_default_def)
  show ?thesis
    by (cases g) (simp add: globals_of_def n d main_keys_def global_state_def del: start_simps)
qed

lemma global_state_keys:
  assumes "k \<notin> set main_keys"
  shows "ps_ns (global_state g (start_state global_opts [Command ''verb'' True subs])) k = None"
proof -
  have "ps_ns (start_state global_opts [Command ''verb'' True subs]) k = None"
    using assms by (simp add: main_keys_def global_opts_def build_parser_def one_arg_def HELP_def opt_default_def)
  then show ?thesis using assms by (simp add: global_state_def main_keys_def del: start_simps)
qed

lemma verb_of_cong:
  assumes "ns_text ns' ''verb'' = Some v" and "\<And>k. k \<notin> set main_keys \<Longrightarrow> ns' k = ns k"
  shows "verb_of ns' = verb_of (ns(''verb'' \<mapsto> NText v))"
proof -
  have "ns_text ns' k = ns_text (ns(''verb'' \<mapsto> NText v)) k" "ns_flag ns' k = ns_flag (ns(''verb'' \<mapsto> NText v)) k"
    if "k \<notin> set main_keys" for k
    using assms(2) [OF that] that by (simp_all add: ns_text_def ns_flag_def main_keys_def)
  then show ?thesis by (simp add: verb_of_def with_text_def assms(1) main_keys_def)
qed

lemma run_verb:
  assumes "map_of subs v = Some p" and "leaves p ss P" and "v \<noteq> []" and "hd v \<noteq> CHR ''-''"
    and "classifies global_opts ss" and "build_parser = Parser global_opts [Command ''verb'' True subs] []"
    and "\<And>ns. P ns \<Longrightarrow> apart ns"
  shows "\<exists>ns. command_line (globals_argv g @ v # ss) = Inr (g, verb_of (ns(''verb'' \<mapsto> NText v))) \<and> P ns"
proof -
  obtain ns where ns: "parse_known p ss = Inr (ns, [])" "P ns" using assms(2) by (auto simp: leaves_def)
  obtain ts where ts: "classify global_opts ss = Inr ts" using assms(5) by (auto simp: classifies_def)
  let ?init = "global_state g (start_state global_opts [Command ''verb'' True subs])"
  let ?store = "store ''verb'' (NText v) ?init"
  have lookup: "map_of (map (map_prod id parse_known) subs) v = Some (parse_known p)"
    using assms(1) by (simp add: map_prod_def map_of_map)
  have s: "start_state global_opts [Command ''verb'' True (map (map_prod id parse_known) subs)] = start_state global_opts [Command ''verb'' True subs]"
    by (simp add: start_state_def)
  have d: "apart ns" by (rule assms(7) [OF ns(2)])
  have "parse_known build_parser (globals_argv g @ v # ss) = Inr (ps_ns ?store ++ ns, [])"
    using run_command [OF lookup ns(1) assms(3,4) ts, of "[]" "''verb''" True ?init]
    by (simp add: assms(6) run_parser_strings run_globals s satisfied_def required_def global_state_def)
  then have "command_line (globals_argv g @ v # ss) = Inr (globals_of (ps_ns ?store ++ ns), verb_of (ps_ns ?store ++ ns))"
    by (simp add: command_line_def parse_args_def)
  moreover have "globals_of (ps_ns ?store ++ ns) = g" using d by (rule globals_of_state)
  moreover have "ns_text (ps_ns ?store ++ ns) ''verb'' = Some v"
  proof -
    have "ns ''verb'' = None" using d by (simp add: apart_def main_keys_def)
    then show ?thesis by (simp add: ns_text_def map_add_def)
  qed
  moreover have "(ps_ns ?store ++ ns) k = ns k" if "k \<notin> set main_keys" for k
    using that global_state_keys [OF that] by (auto simp: map_add_def main_keys_def split: option.split)
  ultimately show ?thesis using ns(2) verb_of_cong [of "ps_ns ?store ++ ns" v ns] by auto
qed

text \<open>A well-formed command is parsed back to itself.\<close>

lemma command_line_round_trip:
  assumes "well_formed v" and "''--'' \<notin> set (positionals_of v)"
  shows "command_line (globals_argv g @ verb_argv v) = Inr (g, Some v)"
proof -
  let ?subs = "[(''catalog'', catalog_parser), (''show'', show_parser), (''put'', put_parser), (''get'', get_parser),
          (''del'', del_parser), (''set'', set_parser), (''synth-traffic'', synth_parser)]"
  have b: "build_parser = Parser global_opts [Command ''verb'' True ?subs] []"
    by (simp add: global_opts_def build_parser_def)
  note rv = run_verb [OF _ _ _ _ verb_classifies [OF assms(1)] b]
  show ?thesis
  proof (cases v)
    case (CatalogVerb cv app)
    have "leaves catalog_parser (tl (verb_argv v)) (\<lambda>ns. ns_text ns ''catalog_verb'' = cv \<and> ns_text ns ''app'' = app \<and> apart ns)"
      unfolding CatalogVerb by (rule catalog_leaves) (use assms CatalogVerb in auto)
    from rv [OF _ this, of "''catalog''" g] show ?thesis
      by (auto simp: CatalogVerb verb_of_def with_text_def)
  next
    case (ShowVerb t k)
    have "leaves show_parser (tl (verb_argv v)) (\<lambda>ns. ns_text ns ''target'' = Some t \<and> ns_text ns ''key'' = k \<and> apart ns)"
      unfolding ShowVerb by (rule show_leaves) (use assms ShowVerb in auto)
    from rv [OF _ this, of "''show''" g] show ?thesis
      by (auto simp: ShowVerb verb_of_def with_text_def)
  next
    case (PutVerb k f x e)
    have "leaves put_parser (tl (verb_argv v)) (\<lambda>ns. ns_text ns ''key'' = Some k \<and> ns_text ns ''file'' = f \<and> ns_text ns ''value'' = x \<and>
        ns_flag ns ''encrypted'' = e \<and> apart ns)"
      unfolding PutVerb by (rule put_leaves) (use assms PutVerb in auto)
    from rv [OF _ this, of "''put''" g] show ?thesis
      by (auto simp: PutVerb verb_of_def with_text_def)
  next
    case (GetVerb k f)
    have "leaves get_parser (tl (verb_argv v)) (\<lambda>ns. ns_text ns ''key'' = Some k \<and> ns_text ns ''output'' = f \<and> apart ns)"
      unfolding GetVerb by (rule get_leaves)
    from rv [OF _ this, of "''get''" g] show ?thesis
      by (auto simp: GetVerb verb_of_def with_text_def)
  next
    case (DelVerb k)
    have "leaves del_parser (tl (verb_argv v)) (\<lambda>ns. ns_text ns ''key'' = Some k \<and> apart ns)"
      unfolding DelVerb by (rule del_leaves)
    from rv [OF _ this, of "''del''" g] show ?thesis
      by (auto simp: DelVerb verb_of_def with_text_def)
  next
    case (SetVerb t k x u e)
    have "leaves set_parser (tl (verb_argv v)) (\<lambda>ns. ns_text ns ''target'' = Some t \<and> ns_text ns ''key'' = Some k \<and>
        ns_text ns ''value'' = x \<and> ns_flag ns ''unset'' = u \<and> ns_flag ns ''encrypted'' = e \<and> apart ns)"
      unfolding SetVerb by (rule set_leaves) (use assms SetVerb in auto)
    from rv [OF _ this, of "''set''" g] show ?thesis
      by (auto simp: SetVerb verb_of_def with_text_def)
  next
    case (SynthVerb q k d r m h)
    have "leaves synth_parser (tl (verb_argv v)) (\<lambda>ns. ns_text ns ''queue'' = q \<and> ns_text ns ''kv_key'' = k \<and>
        ns_text ns ''duration'' = Some d \<and> ns_text ns ''rate'' = Some r \<and> ns_text ns ''mode'' = Some m \<and>
        ns_flag ns ''allow_high_rate'' = h \<and> apart ns)"
      unfolding SynthVerb by (rule synth_leaves) (use assms SynthVerb in auto)
    from rv [OF _ this, of "''synth-traffic''" g] show ?thesis
      by (auto simp: SynthVerb verb_of_def with_text_def)
  qed (use assms in simp)
qed

subsection \<open>What a command line can be parsed to\<close>

lemma put_exclusive:
  assumes "parse_known put_parser ss = Inr (ns, extras)"
  shows "(ns_text ns ''file'' = None) \<noteq> (ns_text ns ''value'' = None)"
proof -
  let ?K = "\<lambda>st. (\<forall>k \<in> {''file'', ''value''}. k \<in> set (ps_given st) \<longleftrightarrow> ns_text (ps_ns st) k \<noteq> None) \<and>
    \<not> (''file'' \<in> set (ps_given st) \<and> ''value'' \<in> set (ps_given st))"
  have "\<exists>st. ?K st \<and> satisfied [Positional ''key'' False :: parser pos] [[''file'', ''value'']] st \<and> ns = ps_ns st"
    using assms unfolding put_parser_def one_arg_def
  proof (rule plain_invariant [where K = ?K])
    show "?K st'" if K: "?K st" and x: "usable [HELP, Opt [''--file''] ''file'' (OneArg None None),
        Opt [''--value''] ''value'' (OneArg None None), Opt [''--encrypted''] ''encrypted'' StoreTrue] x"
      and t: "take_option [[''file'', ''value'']] x st = Inr st'" for x st st'
      using x t K by (cases x) (auto simp: usable_def HELP_def give_def store_def conflicts_def split: if_splits)
  qed (auto simp: is_positional_def HELP_def opt_default_def)
  then show ?thesis by (auto simp: satisfied_def)
qed

lemma synth_mode:
  assumes "parse_known synth_parser ss = Inr (ns, extras)"
  shows "\<exists>m \<in> set SYNTH_MODES. ns_text ns ''mode'' = Some m"
proof -
  let ?K = "\<lambda>st. \<exists>m \<in> set SYNTH_MODES. ns_text (ps_ns st) ''mode'' = Some m"
  have "\<exists>st. ?K st \<and> satisfied ([] :: parser pos list) [] st \<and> ns = ps_ns st"
    using assms unfolding synth_parser_def one_arg_def
  proof (rule plain_invariant [where K = ?K])
    show "?K st'" if K: "?K st" and x: "usable [HELP, Opt [''--queue''] ''queue'' (OneArg None None),
         Opt [''--kv-key''] ''kv_key'' (OneArg None None), Opt [''--duration''] ''duration'' (OneArg (Some ''30s'') None),
         Opt [''--rate''] ''rate'' (OneArg (Some ''1'') None), Opt [''--mode''] ''mode'' (OneArg (Some ''both'') (Some SYNTH_MODES)),
         Opt [''--allow-high-rate''] ''allow_high_rate'' StoreTrue] x"
      and t: "take_option [] x st = Inr st'" for x st st'
      using x t K by (cases x) (auto simp: usable_def HELP_def give_def store_def split: if_splits)
  qed (auto simp: is_positional_def HELP_def opt_default_def SYNTH_MODES_def)
  then show ?thesis by blast
qed

lemma catalog_cases:
  assumes "parse_known catalog_parser ss = Inr (ns, extras)"
  shows "(ns ''catalog_verb'' = Some NNone \<and> dom ns \<subseteq> insert ''catalog_verb'' {''help''}) \<or>
    (\<exists>v p rest m ex. map_of [(''list'', Parser [HELP] [] []), (''lint'', Parser [HELP] [] []), (''publish'', Parser [HELP] [] []),
       (''fetch'', Parser [HELP] [Positional ''app'' True] [])] v = Some p \<and> parse_known p rest = Inr (m, ex) \<and>
      (''catalog_verb'' \<notin> dom m \<longrightarrow> ns ''catalog_verb'' = Some (NText v)) \<and>
      (\<forall>k. k \<notin> insert ''catalog_verb'' {''help''} \<longrightarrow> ns k = m k))"
proof -
  have d: "opt_dest ` set [HELP] = {''help''}" by (simp add: HELP_def)
  have "''catalog_verb'' \<notin> opt_dest ` set [HELP]" unfolding d by simp
  from command_invariant [OF assms [unfolded catalog_parser_def] this] show ?thesis unfolding d by (simp only: simp_thms)
qed

lemma catalog_subs:
  assumes "map_of [(''list'', Parser [HELP] [] []), (''lint'', Parser [HELP] [] []), (''publish'', Parser [HELP] [] []),
       (''fetch'', Parser [HELP] [Positional ''app'' True] [])] v = Some p"
  shows "v = ''fetch'' \<and> p = Parser [HELP] [Positional ''app'' True] [] \<or> v \<in> {''list'', ''lint'', ''publish''} \<and> p = Parser [HELP] [] []"
  using map_of_SomeD [OF assms] by auto

lemma catalog_sub_keys:
  "parse_known (Parser [HELP] [] []) rest = Inr (m, ex) \<Longrightarrow> dom m \<subseteq> {''help''}"
  "parse_known (Parser [HELP] [Positional ''app'' True] []) rest = Inr (m, ex) \<Longrightarrow> dom m \<subseteq> {''app'', ''help''}"
  using plain_keys [of "[HELP]" "[]" "[]" rest m ex] plain_keys [of "[HELP]" "[Positional ''app'' True]" "[]" rest m ex]
  by (simp_all add: HELP_def is_positional_def)

lemma catalog_known:
  assumes "parse_known catalog_parser ss = Inr (ns, extras)"
  shows "well_formed (CatalogVerb (ns_text ns ''catalog_verb'') (ns_text ns ''app''))" and "''verb'' \<notin> dom ns"
proof -
  have "well_formed (CatalogVerb (ns_text ns ''catalog_verb'') (ns_text ns ''app'')) \<and> ''verb'' \<notin> dom ns"
    using catalog_cases [OF assms]
  proof (elim disjE exE conjE)
    assume "ns ''catalog_verb'' = Some NNone" and d: "dom ns \<subseteq> insert ''catalog_verb'' {''help''}"
    moreover from d have "''app'' \<notin> dom ns" "''verb'' \<notin> dom ns" by auto
    ultimately show ?thesis by (auto simp: ns_text_def dom_def)
  next
    fix v p rest m ex
    assume sub: "map_of [(''list'', Parser [HELP] [] []), (''lint'', Parser [HELP] [] []), (''publish'', Parser [HELP] [] []),
         (''fetch'', Parser [HELP] [Positional ''app'' True] [])] v = Some p"
      and run: "parse_known p rest = Inr (m, ex)" and cv: "''catalog_verb'' \<notin> dom m \<longrightarrow> ns ''catalog_verb'' = Some (NText v)"
      and same: "\<forall>k. k \<notin> insert ''catalog_verb'' {''help''} \<longrightarrow> ns k = m k"
    have eq: "ns ''app'' = m ''app''" "ns ''verb'' = m ''verb''" using same by simp_all
    from catalog_subs [OF sub] show ?thesis
    proof
      assume v: "v = ''fetch'' \<and> p = Parser [HELP] [Positional ''app'' True] []"
      then have "dom m \<subseteq> {''app'', ''help''}" using run catalog_sub_keys(2) by blast
      then have "''catalog_verb'' \<notin> dom m" "''verb'' \<notin> dom m" by auto
      with cv v eq show ?thesis by (auto simp: ns_text_def dom_def)
    next
      assume v: "v \<in> {''list'', ''lint'', ''publish''} \<and> p = Parser [HELP] [] []"
      then have "dom m \<subseteq> {''help''}" using run catalog_sub_keys(1) by blast
      then have "''catalog_verb'' \<notin> dom m" "''verb'' \<notin> dom m" "''app'' \<notin> dom m" by auto
      with cv v eq show ?thesis by (auto simp: ns_text_def dom_def)
    qed
  qed
  then show "well_formed (CatalogVerb (ns_text ns ''catalog_verb'') (ns_text ns ''app''))" and "''verb'' \<notin> dom ns" by blast+
qed

lemma main_subcommand:
  assumes "parse_known build_parser argv = Inr (ns, extras)"
  shows "\<exists>v p rest m ex. map_of [(''catalog'', catalog_parser), (''show'', show_parser), (''put'', put_parser), (''get'', get_parser),
          (''del'', del_parser), (''set'', set_parser), (''synth-traffic'', synth_parser)] v = Some p \<and>
      parse_known p rest = Inr (m, ex) \<and> (''verb'' \<notin> dom m \<longrightarrow> ns ''verb'' = Some (NText v)) \<and>
      (\<forall>k. k \<notin> insert ''help'' (set main_keys) \<longrightarrow> ns k = m k)"
proof -
  have "opt_dest ` set global_opts = set (''help'' # tl main_keys)"
    by (auto simp: global_opts_def build_parser_def one_arg_def HELP_def main_keys_def)
  then have d: "''verb'' \<notin> opt_dest ` set global_opts" "insert ''verb'' (opt_dest ` set global_opts) = insert ''help'' (set main_keys)"
    by (auto simp: main_keys_def)
  have "build_parser = Parser global_opts [Command ''verb'' True [(''catalog'', catalog_parser), (''show'', show_parser),
      (''put'', put_parser), (''get'', get_parser), (''del'', del_parser), (''set'', set_parser), (''synth-traffic'', synth_parser)]] []"
    by (simp add: global_opts_def build_parser_def)
  from command_invariant [OF assms [unfolded this] d(1)] show ?thesis unfolding d(2) by (simp only: simp_thms)
qed

lemma sub_keys:
  assumes "p \<in> {show_parser, put_parser, get_parser, del_parser, set_parser, synth_parser}" and "parse_known p rest = Inr (m, ex)"
  shows "''verb'' \<notin> dom m"
proof -
  obtain os ps gs where p: "p = Parser os ps gs" "list_all is_positional ps" "''verb'' \<notin> opt_dest ` set os \<union> pos_dest ` set ps"
    using assms(1) by (auto simp: parser_defs is_positional_def)
  from plain_keys [OF assms(2) [unfolded p(1)] p(2)] p(3) show ?thesis by blast
qed

lemma command_line_well_formed:
  assumes "command_line argv = Inr (g, Some v)"
  shows "well_formed v"
proof -
  obtain ns where ns: "parse_known build_parser argv = Inr (ns, [])" "verb_of ns = Some v"
    using assms by (cases "parse_known build_parser argv") (auto simp: command_line_def parse_args_def split: if_splits)
  obtain w p rest m ex where w: "map_of [(''catalog'', catalog_parser), (''show'', show_parser), (''put'', put_parser), (''get'', get_parser),
          (''del'', del_parser), (''set'', set_parser), (''synth-traffic'', synth_parser)] w = Some p"
      "parse_known p rest = Inr (m, ex)" "''verb'' \<notin> dom m \<longrightarrow> ns ''verb'' = Some (NText w)"
      "\<forall>k. k \<notin> insert ''help'' (set main_keys) \<longrightarrow> ns k = m k"
    using main_subcommand [OF ns(1)] by (elim exE conjE) (rule that)
  have same: "ns_text ns k = ns_text m k" "ns_flag ns k = ns_flag m k" if "k \<notin> set main_keys" "k \<noteq> ''help''" for k
    using w(4) that by (simp_all add: ns_text_def ns_flag_def)
  have p: "(w, p) \<in> {(''catalog'', catalog_parser), (''show'', show_parser), (''put'', put_parser), (''get'', get_parser),
          (''del'', del_parser), (''set'', set_parser), (''synth-traffic'', synth_parser)}"
    using map_of_SomeD [OF w(1)] by simp
  have "''verb'' \<notin> dom m" using p w(2) catalog_known(2) sub_keys by blast
  then have verb: "ns_text ns ''verb'' = Some w" using w(3) by (simp add: ns_text_def)
  show ?thesis
    using p ns(2) put_exclusive [of rest m ex] synth_mode [of rest m ex] catalog_known(1) [of rest m ex] w(2)
    by (elim insertE emptyE)
      (auto simp: verb_of_def with_text_def verb same main_keys_def split: option.splits)
qed

text \<open>
  C40. The command line says everything the verbs can be asked, and nothing else. The commands it
  can be parsed to are exactly the well-formed ones: one of the declared verbs and catalog verbs,
  \<open>put\<close> with exactly one of a file and a value, a declared mode of the traffic generator; so the
  branches of \<open>main\<close> and of the catalog verbs that are kept for the rest are never reached. And
  every such command, with whatever global options, is parsed back to itself from one spelling:
  \<open>--option=value\<close>, and \<open>--\<close> before the positional arguments, whatever bytes the values hold, dashes,
  equals signs, spaces, empty texts, names of other options. (Only the positional argument \<open>--\<close> is
  left out, which Python's parser drops.)
\<close>

theorem command_line_exact:
  assumes "''--'' \<notin> set (positionals_of v)"
  shows "((\<exists>argv. command_line argv = Inr (g, Some v)) \<longleftrightarrow> well_formed v) \<and>
    (command_line (globals_argv g @ verb_argv v) = Inr (g, Some v) \<longleftrightarrow> well_formed v)"
  using command_line_round_trip [OF _ assms] command_line_well_formed by blast

theorem command_line_exact_witness:
  "command_line [''--server=http://h'', ''set'', ''--unset'', ''--'', ''-x'', ''k=v''] =
     Inr (\<lparr>g_catalog = None, g_profile = None, g_server = Some ''http://h'', g_client_id = None, g_secret_hex = None\<rparr>,
       Some (SetVerb ''-x'' ''k=v'' None True False))"
  using command_line_exact [of "SetVerb ''-x'' ''k=v'' None True False"
      "\<lparr>g_catalog = None, g_profile = None, g_server = Some ''http://h'', g_client_id = None, g_secret_hex = None\<rparr>"]
  by (simp add: globals_argv_def eq_opt_def flag_arg_def last_arg_def)

text \<open>
  What the spelling avoids: a value after a flag is not taken, since the argument that may be left
  out is settled before the flag; a global option after the verb is not recognized; a value that
  starts with a dash is taken for an option.
\<close>

lemma refused_lines:
  "command_line [''set'', ''app'', ''k'', ''--encrypted'', ''v''] = Inl UsageError"
  "command_line [''catalog'', ''lint'', ''--catalog'', ''f''] = Inl UsageError"
  "command_line [''synth-traffic'', ''--target'', ''h'', ''--client-id'', ''c''] = Inl UsageError"
  "command_line [''set'', ''app'', ''k'', ''-1e5''] = Inl UsageError"
  by code_simp+

end
