(* ===== verification/Migrate.thy ===== *)
theory Migrate
  imports AdminClients
begin

text \<open>
  \<open>backend/migrate_admin_acls.py\<close>: the provisioning step that gives every administrator of the
  password file an access list. The password file is its content; a \<open>SystemExit\<close> is an error
  value; the summary that is printed is a record.
\<close>

subsection \<open>The script\<close>

abbreviation system_exit :: "'a res" where
  "system_exit \<equiv> Inl (PyExn ''SystemExit'')"

text \<open>The names in the password file, in order, with repetitions.\<close>

fun htpasswd_names :: "string list \<Rightarrow> string list" where
  "htpasswd_names [] = []"
| "htpasswd_names (l # ls) =
     (case split1 CHR '':'' (strip l) of None \<Rightarrow> htpasswd_names ls | Some (u, _) \<Rightarrow> u # htpasswd_names ls)"

definition migrate_read_users :: "string option \<Rightarrow> string list res" where
  "migrate_read_users file = (case file of None \<Rightarrow> system_exit | Some raw \<Rightarrow> Inr (htpasswd_names (file_lines raw)))"

definition parse_default :: "string \<Rightarrow> perm res" where
  "parse_default spec =
     (case rsplit1 CHR '':'' spec of
        None \<Rightarrow> system_exit
      | Some (pre, access) \<Rightarrow>
         if access \<notin> {''r'', ''rw''} then system_exit
         else if pre = [] then system_exit
         else Inr (Perm pre access))"

record migrate_summary =
  ms_created :: "string list"
  ms_skipped :: "string list"
  ms_overwritten :: "string list"

definition dry_run_line :: "ext \<Rightarrow> perm \<Rightarrow> string \<Rightarrow> bool \<Rightarrow> string" where
  "dry_run_line E dflt user existing =
     ''  [dry-run] '' @ (if existing then ''would overwrite'' else ''would create'') @ '' '' @ admin_acl_key user @ '' -> ''
     @ e_dumps E (acl_doc [dflt])"

text \<open>One pass over the users: the lines printed, the summary and the store.\<close>

fun migrate_users ::
    "'db redis \<Rightarrow> ext \<Rightarrow> perm \<Rightarrow> bool \<Rightarrow> bool \<Rightarrow> string list \<Rightarrow> migrate_summary \<Rightarrow> 'db \<Rightarrow> string list \<times> migrate_summary \<times> 'db" where
  "migrate_users R E dflt force dry_run [] s d = ([], s, d)"
| "migrate_users R E dflt force dry_run (user # us) s d =
     (let existing = (get_truthy R (admin_acl_key user) d \<noteq> None) in
      if existing \<and> \<not> force
      then migrate_users R E dflt force dry_run us (s\<lparr>ms_skipped := ms_skipped s @ [user]\<rparr>) d
      else
      let d1 = (if dry_run then d else r_set R (admin_acl_key user) (e_dumps E (acl_doc [dflt])) d);
          s1 = (if existing then s\<lparr>ms_overwritten := ms_overwritten s @ [user]\<rparr>
                else s\<lparr>ms_created := ms_created s @ [user]\<rparr>);
          (out, s2, d2) = migrate_users R E dflt force dry_run us s1 d1
      in ((if dry_run then [dry_run_line E dflt user existing] else []) @ out, s2, d2))"

definition no_summary :: migrate_summary where
  "no_summary = \<lparr>ms_created = [], ms_skipped = [], ms_overwritten = []\<rparr>"

text \<open>The users considered: all, or the one that is asked for when it is in the file.\<close>

definition considered_users :: "string option \<Rightarrow> string list \<Rightarrow> string list res" where
  "considered_users user_filter users =
     (case user_filter of
        Some (c # cs) \<Rightarrow> if c # cs \<notin> set users then system_exit else Inr [c # cs]
      | _ \<Rightarrow> Inr users)"

definition migrate_run ::
    "'db redis \<Rightarrow> ext \<Rightarrow> string option \<Rightarrow> perm \<Rightarrow> string option \<Rightarrow> bool \<Rightarrow> bool \<Rightarrow> 'db
      \<Rightarrow> (string list \<times> migrate_summary) res \<times> 'db" where
  "migrate_run R E htpasswd dflt user_filter force dry_run d =
     (case bind_res (migrate_read_users htpasswd) (considered_users user_filter) of
        Inl e \<Rightarrow> (Inl e, d)
      | Inr users \<Rightarrow> (case migrate_users R E dflt force dry_run users no_summary d of (out, s, d') \<Rightarrow> (Inr (out, s), d')))"

definition migrate_main ::
    "'db redis \<Rightarrow> ext \<Rightarrow> string option \<Rightarrow> string \<Rightarrow> string option \<Rightarrow> bool \<Rightarrow> bool \<Rightarrow> 'db
      \<Rightarrow> (string list \<times> migrate_summary) res \<times> 'db" where
  "migrate_main R E htpasswd default_spec user_filter force dry_run d =
     lift_res (parse_default default_spec) d (\<lambda>dflt. migrate_run R E htpasswd dflt user_filter force dry_run d)"

subsection \<open>What a pass does\<close>

lemma htpasswd_names_agree: "read_htpasswd_users (Some raw) = htpasswd_names (file_lines raw)"
proof -
  have "List.map_filter (\<lambda>l. map_option fst (split1 CHR '':'' (strip l))) ls = htpasswd_names ls" for ls
    by (induction ls) (auto simp: List.map_filter_simps split: option.split)
  then show ?thesis by (simp add: read_htpasswd_users_def)
qed

lemma admin_acl_key_inj [simp]: "admin_acl_key a = admin_acl_key b \<longleftrightarrow> a = b"
  by (simp add: admin_acl_key_def)

lemma dry_run_keeps: "migrate_users R E dflt force True us s d = (out, s', d') \<Longrightarrow> d' = d"
  by (induction us arbitrary: s out) (auto simp: Let_def split: if_splits prod.splits)

context backend
begin

text \<open>Without \<open>--force\<close> a list that exists stays; every other considered user has the default afterwards.\<close>

lemma migrate_users_effect:
  assumes "migrate_users R E dflt force False us s d = (out, s', d')"
  shows "r_get R k d' =
    (if \<exists>u \<in> set us. k = admin_acl_key u \<and> (force \<or> get_truthy R k d = None)
     then Some (e_dumps E (acl_doc [dflt])) else r_get R k d)"
  using assms
proof (induction us arbitrary: s out d)
  case (Cons u us)
  show ?case
  proof (cases "get_truthy R (admin_acl_key u) d \<noteq> None \<and> \<not> force")
    case True
    with Cons.prems obtain s1 where "migrate_users R E dflt force False us s1 d = (out, s', d')" by auto
    from Cons.IH [OF this] True show ?thesis by auto
  next
    case False
    let ?d1 = "r_set R (admin_acl_key u) (e_dumps E (acl_doc [dflt])) d"
    from Cons.prems False obtain s1 out1 where "migrate_users R E dflt force False us s1 ?d1 = (out1, s', d')"
      by (auto simp: Let_def split: prod.splits if_splits)
    note ih = Cons.IH [OF this]
    have "get_truthy R k ?d1 = get_truthy R k d" if "k \<noteq> admin_acl_key u" using that by (simp add: get_truthy_def get_set)
    moreover have "r_get R (admin_acl_key u) ?d1 = Some (e_dumps E (acl_doc [dflt]))" by (simp add: get_set)
    ultimately show ?thesis
      using ih False by (cases "k = admin_acl_key u") (auto simp: get_set)
  qed
qed simp

text \<open>A second pass without \<open>--force\<close> finds a list for everyone.\<close>

lemma migrate_users_again:
  assumes "\<forall>u \<in> set us. get_truthy R (admin_acl_key u) d \<noteq> None"
  shows "migrate_users R E dflt False dry us s d = ([], s\<lparr>ms_skipped := ms_skipped s @ us\<rparr>, d)"
  using assms by (induction us arbitrary: s) auto

end

lemma considered_subset: "considered_users f users = Inr us \<Longrightarrow> set us \<subseteq> set users"
  by (auto simp: considered_users_def split: option.splits list.splits if_splits)

lemma rsplit1_append:
  assumes "rsplit1 CHR '':'' spec = Some (a, b)"
  shows "spec = a @ CHR '':'' # b"
proof -
  from assms obtain x y where xy: "split1 CHR '':'' (rev spec) = Some (x, y)" "a = rev y" "b = rev x"
    by (auto simp: rsplit1_def split: option.splits)
  then have "rev spec = x @ CHR '':'' # y" by (simp add: split1_Some_iff)
  then have "rev (rev spec) = rev (x @ CHR '':'' # y)" by (rule arg_cong)
  with xy show ?thesis by simp
qed

lemma parse_default_Inr:
  "parse_default spec = Inr p \<longleftrightarrow>
    perm_prefix p \<noteq> [] \<and> perm_access p \<in> {''r'', ''rw''} \<and> spec = perm_prefix p @ CHR '':'' # perm_access p"
proof
  assume "parse_default spec = Inr p"
  then show "perm_prefix p \<noteq> [] \<and> perm_access p \<in> {''r'', ''rw''} \<and> spec = perm_prefix p @ CHR '':'' # perm_access p"
    by (auto simp: parse_default_def split: option.splits if_splits dest!: rsplit1_append)
next
  assume r: "perm_prefix p \<noteq> [] \<and> perm_access p \<in> {''r'', ''rw''} \<and> spec = perm_prefix p @ CHR '':'' # perm_access p"
  then have "split1 CHR '':'' (rev spec) = Some (rev (perm_access p), rev (perm_prefix p))"
    using split1_append [of "CHR '':''" "rev (perm_access p)" "rev (perm_prefix p)"] by auto
  with r show "parse_default spec = Inr p" by (cases p) (auto simp: parse_default_def rsplit1_def)
qed

context backend
begin

lemma migrate_effect:
  assumes "migrate_main R E file spec user_filter force False d = (Inr (out, s), d')"
    and p: "parse_default spec = Inr p" and utf8: "utf8_valid (perm_prefix p)"
  shows "\<exists>users us. migrate_read_users file = Inr users \<and> considered_users user_filter users = Inr us \<and>
    (\<forall>u. load_admin_acl R E rescue u d' =
      (if u \<in> set us \<and> (force \<or> get_truthy R (admin_acl_key u) d = None) then acl_doc [p] else load_admin_acl R E rescue u d)) \<and>
    (\<forall>k. k \<notin> admin_acl_key ` set us \<longrightarrow> r_get R k d' = r_get R k d) \<and>
    migrate_main R E file spec user_filter False False d' = (Inr ([], \<lparr>ms_created = [], ms_skipped = us, ms_overwritten = []\<rparr>), d')"
proof -
  from assms(1) p obtain users us where run: "migrate_read_users file = Inr users"
    "considered_users user_filter users = Inr us" "migrate_users R E p force False us no_summary d = (out, s, d')"
    by (cases "bind_res (migrate_read_users file) (considered_users user_filter)")
      (auto simp: migrate_main_def migrate_run_def bind_res_Inr_iff split: prod.splits)
  note eff = migrate_users_effect [OF run(3)]
  have "utf8_valid (perm_access p)" using p by (auto simp: parse_default_Inr char_eval)
  with utf8 have "e_loads E (e_dumps E (acl_doc [p])) = Some (acl_doc [p])"
    by (intro loads_dumps json_ok_acl_doc) simp
  then have acl: "load_admin_acl R E rescue u d' =
      (if u \<in> set us \<and> (force \<or> get_truthy R (admin_acl_key u) d = None) then acl_doc [p] else load_admin_acl R E rescue u d)" for u
    using eff [of "admin_acl_key u"] dumps_nonempty by (auto simp: load_admin_acl_def get_truthy_def)
  have "\<forall>u \<in> set us. get_truthy R (admin_acl_key u) d' \<noteq> None"
    using eff dumps_nonempty by (auto simp: get_truthy_def split: option.splits if_splits)
  then have "migrate_users R E p False False us no_summary d' = ([], no_summary\<lparr>ms_skipped := us\<rparr>, d')"
    using migrate_users_again by (simp add: no_summary_def)
  then have "migrate_main R E file spec user_filter False False d' = (Inr ([], \<lparr>ms_created = [], ms_skipped = us, ms_overwritten = []\<rparr>), d')"
    using run p by (simp add: migrate_main_def migrate_run_def no_summary_def)
  moreover have "\<forall>k. k \<notin> admin_acl_key ` set us \<longrightarrow> r_get R k d' = r_get R k d" using eff by auto
  ultimately show ?thesis using run(1,2) acl by blast
qed

end

text \<open>What a list of one permission grants.\<close>

lemma single_grant:
  "ctx_acl ctx = acl_doc [p] \<Longrightarrow> check_acl ctx res mode = Inr () \<longleftrightarrow>
    (\<exists>x \<in> set (acl_candidate_paths (strip_type res)). covers (perm_prefix p) x) \<and> (mode = WriteMode \<longrightarrow> perm_access p = ''rw'')"
  by (auto simp: check_acl_doc acl_decide_Allow)

text \<open>
  Provisioning gives everybody a list and takes none away. When the script ends well, every
  considered user who had no access list (with \<open>--force\<close>: every considered user) is an
  administrator whose rights are exactly those of the default permission, every other user's list
  and every other key are as before, and running it again without \<open>--force\<close> changes nothing and
  skips everyone. With \<open>--dry-run\<close> the store is untouched.
\<close>

lemma migration_seeds_acls:
  assumes "backend R entries E" and "parse_default spec = Inr p" and "utf8_valid (perm_prefix p)"
    and "migrate_main R E file spec user_filter force dry_run d = (Inr (out, s), d')"
  shows "if dry_run then d' = d else
    (\<exists>users us. migrate_read_users file = Inr users \<and> considered_users user_filter users = Inr us \<and> set us \<subseteq> set users \<and>
      (\<forall>u rescue res mode ctx. u \<in> set us \<and> (force \<or> get_truthy R (admin_acl_key u) d = None) \<and>
        get_admin_context R E rescue (Some u) d' = Inr ctx \<longrightarrow>
          (check_acl ctx res mode = Inr () \<longleftrightarrow>
            (\<exists>x \<in> set (acl_candidate_paths (strip_type res)). covers (perm_prefix p) x) \<and>
            (mode = WriteMode \<longrightarrow> perm_access p = ''rw''))) \<and>
      (\<forall>u rescue. u \<notin> set us \<or> \<not> force \<and> get_truthy R (admin_acl_key u) d \<noteq> None \<longrightarrow>
        load_admin_acl R E rescue u d' = load_admin_acl R E rescue u d) \<and>
      (\<forall>k. k \<notin> admin_acl_key ` set us \<longrightarrow> r_get R k d' = r_get R k d) \<and>
      migrate_main R E file spec user_filter False False d' =
        (Inr ([], \<lparr>ms_created = [], ms_skipped = us, ms_overwritten = []\<rparr>), d'))"
proof (cases dry_run)
  case True
  with assms(2,4) show ?thesis
    by (cases "bind_res (migrate_read_users file) (considered_users user_filter)")
      (auto simp: migrate_main_def migrate_run_def dest: dry_run_keeps split: prod.splits)
next
  case False
  have acl: "get_admin_context R E rescue (Some u) d' = Inr ctx \<Longrightarrow> ctx_acl ctx = load_admin_acl R E rescue u d'" for u rescue ctx
    by (auto simp: get_admin_context_def split: if_splits)
  have run: "migrate_main R E file spec user_filter force False d = (Inr (out, s), d')" using assms(4) False by simp
  from backend.migrate_effect [OF assms(1) run assms(2,3)] obtain users us where r: "migrate_read_users file = Inr users"
    "considered_users user_filter users = Inr us" "\<And>k. k \<notin> admin_acl_key ` set us \<Longrightarrow> r_get R k d' = r_get R k d"
    "migrate_main R E file spec user_filter False False d' = (Inr ([], \<lparr>ms_created = [], ms_skipped = us, ms_overwritten = []\<rparr>), d')"
    by blast
  from backend.migrate_effect [OF assms(1) run assms(2,3)] r(1,2) have l: "load_admin_acl R E rescue u d' =
      (if u \<in> set us \<and> (force \<or> get_truthy R (admin_acl_key u) d = None) then acl_doc [p] else load_admin_acl R E rescue u d)"
    for u rescue by auto
  have grant: "check_acl ctx res mode = Inr () \<longleftrightarrow>
      (\<exists>x \<in> set (acl_candidate_paths (strip_type res)). covers (perm_prefix p) x) \<and> (mode = WriteMode \<longrightarrow> perm_access p = ''rw'')"
    if "u \<in> set us \<and> (force \<or> get_truthy R (admin_acl_key u) d = None) \<and> get_admin_context R E rescue (Some u) d' = Inr ctx"
    for u rescue res mode ctx
    using single_grant acl l that by metis
  have kept: "load_admin_acl R E rescue u d' = load_admin_acl R E rescue u d"
    if "u \<notin> set us \<or> \<not> force \<and> get_truthy R (admin_acl_key u) d \<noteq> None" for u rescue
    using l that by auto
  show ?thesis
    using False r(1,2) considered_subset [OF r(2)] grant kept r(3,4) by auto
qed

text \<open>Two administrators, one of whom has a list already.\<close>

definition ref_htpasswd :: string where
  "ref_htpasswd = ''ann:1'' @ [NL] @ ''bob:2''"

end
