(* ===== verification/Process.thy ===== *)
theory Process
  imports CliArgs App Migrate
begin

text \<open>
  What a process sets up: the connection to Redis (\<open>core/redis_client.py\<close>) and the page template
  (\<open>routes_app.py\<close>) that it keeps, the warning at start-up (\<open>main.py\<close>), the random state of a
  sign-in (\<open>core/oauth.py\<close>), and the command lines of the two scripts \<open>create_admin.py\<close> and
  \<open>migrate_admin_acls.py\<close>.
\<close>

subsection \<open>Kept for the life of the process\<close>

text \<open>The library's \<open>from_url\<close> is an argument. The text printed for a failure is left out.\<close>

definition get_redis_client ::
    "(string \<Rightarrow> 'c res) \<Rightarrow> string option \<Rightarrow> 'c option \<Rightarrow> 'c res \<times> 'c option" where
  "get_redis_client from_url env kept =
     (case kept of
        Some c \<Rightarrow> (Inr c, kept)
      | None \<Rightarrow>
         (case from_url (case env of None \<Rightarrow> ''redis://localhost:6379/0'' | Some url \<Rightarrow> url) of
            Inl e \<Rightarrow> (Inl e, None)
          | Inr c \<Rightarrow> (Inr c, Some c)))"

definition device_template :: "string option \<Rightarrow> string option \<Rightarrow> string res \<times> string option" where
  "device_template file kept =
     (case kept of
        Some t \<Rightarrow> (Inr t, kept)
      | None \<Rightarrow> (case file of None \<Rightarrow> (Inl (PyExn ''FileNotFoundError''), None) | Some t \<Rightarrow> (Inr t, Some t)))"

text \<open>
  The first success stands, whatever the environment, the library or the file does later; a
  failure is not kept, so the next call tries again.
\<close>

lemma redis_client_stable:
  assumes "get_redis_client from_url env kept = (r, kept')"
  shows "r = Inr c \<Longrightarrow> get_redis_client f e kept' = (Inr c, kept')" and "r = Inl x \<Longrightarrow> kept' = None"
  using assms by (auto simp: get_redis_client_def split: option.splits sum.splits)

lemma device_template_stable:
  assumes "device_template file kept = (r, kept')"
  shows "r = Inr t \<Longrightarrow> device_template f kept' = (Inr t, kept')" and "r = Inl x \<Longrightarrow> kept' = None"
  using assms by (auto simp: device_template_def split: option.splits)

subsection \<open>The warning at start-up\<close>

definition startup_warning :: "string option \<Rightarrow> string option \<Rightarrow> string list" where
  "startup_warning live_file default_file =
     (if is_rescue_on_default live_file default_file then
        let border = replicate 70 CHR ''='' in
        [border,
         ''WARNING: '' @ [CHR 39] @ ''rescue'' @ [CHR 39] @ '' user is on the bootstrap-default password.'',
         ''Change it before exposing the device hostname to anything'',
         ''sensitive:'',
         ''    cd backend && python3 create_admin.py rescue '' @ [CHR 39] @ ''<new-password>'' @ [CHR 39],
         border]
      else [])"

subsection \<open>The state of a sign-in\<close>

text \<open>\<open>secrets.token_urlsafe\<close> of the random bytes.\<close>

definition url_safe :: "char \<Rightarrow> char" where
  "url_safe c = (if c = CHR ''+'' then CHR ''-'' else if c = CHR ''/'' then CHR ''_'' else c)"

definition generate_state_token :: "string \<Rightarrow> string" where
  "generate_state_token random32 = map url_safe (filter (\<lambda>c. c \<noteq> CHR ''='') (b64encode random32))"

text \<open>A token is not empty and is accepted when it comes back; no cookie or query needs to quote it.\<close>

lemma state_token_accepted:
  assumes "random32 \<noteq> []"
  shows "verify_state_token (generate_state_token random32) (Some (generate_state_token random32)) = Inr True"
proof -
  have "generate_state_token random32 \<noteq> []"
    using assms by (cases random32 rule: b64encode.cases) (simp_all add: generate_state_token_def)
  moreover have "ascii (generate_state_token random32)"
    using b64encode_ascii [of _ random32]
    by (auto simp: generate_state_token_def ascii_def url_safe_def list_all_iff)
  ultimately show ?thesis by (simp add: verify_state_token_def compare_digest_def)
qed

subsection \<open>The scripts\<close>

definition create_admin_parser :: parser where
  "create_admin_parser = Parser [HELP] [Positional ''username'' False, Positional ''password'' False] []"

text \<open>\<open>None\<close>: an argument was a second \<open>--\<close>.\<close>

definition create_admin_command :: "ext \<Rightarrow> string \<Rightarrow> string option \<Rightarrow> string list \<Rightarrow> string option parse" where
  "create_admin_command E salt_bytes file argv =
     bind_parse (parse_args create_admin_parser argv) (\<lambda>ns.
     Inr (case (ns_text ns ''username'', ns_text ns ''password'') of
            (Some u, Some p) \<Rightarrow> Some (create_admin E salt_bytes u p file)
          | _ \<Rightarrow> None))"

definition migrate_parser :: "string \<Rightarrow> parser" where
  "migrate_parser default_htpasswd =
     Parser [HELP, Opt [''--htpasswd''] ''htpasswd'' (OneArg (Some default_htpasswd) None),
         Opt [''--default''] ''default_spec'' (OneArg (Some ''*:rw'') None), Opt [''--user''] ''user'' (OneArg None None),
         Opt [''--force''] ''force'' StoreTrue, Opt [''--dry-run''] ''dry_run'' StoreTrue] [] []"

definition migrate_command ::
    "'db redis \<Rightarrow> ext \<Rightarrow> (string \<Rightarrow> string option) \<Rightarrow> string \<Rightarrow> string list \<Rightarrow> 'db
      \<Rightarrow> ((string list \<times> migrate_summary) res \<times> 'db) parse" where
  "migrate_command R E file_at default_htpasswd argv d =
     bind_parse (parse_args (migrate_parser default_htpasswd) argv) (\<lambda>ns.
     Inr (migrate_main R E (file_at (the (ns_text ns ''htpasswd''))) (the (ns_text ns ''default_spec'')) (ns_text ns ''user'')
       (ns_flag ns ''force'') (ns_flag ns ''dry_run'') d))"

lemma create_admin_line:
  assumes "p \<noteq> ''--''"
  shows "create_admin_command E salt file [''--'', u, p] = Inr (Some (create_admin E salt u p file))"
proof -
  have "finish [Positional ''username'' False, Positional ''password'' False] [(''--'', MDash), (u, MArg), (p, MArg)] st =
      Inr (store ''password'' (NText p) (store ''username'' (NText u) st))" for st
    using assms by (simp add: positionals_simps store_def)
  then show ?thesis
    by (simp add: create_admin_command_def create_admin_parser_def parse_args_def run_parser_strings run_positionals
        satisfied_def required_def)
qed

text \<open>A password that starts with a dash is an option to the parser, so the call without \<open>--\<close> is refused.\<close>

lemma create_admin_dash: "create_admin_command E salt file [''rescue'', ''-pw''] = Inl UsageError"
proof -
  have "case parse_args create_admin_parser [''rescue'', ''-pw''] of Inl UsageError \<Rightarrow> True | _ \<Rightarrow> False" by code_simp
  then show ?thesis by (auto simp: create_admin_command_def split: sum.splits stop.splits)
qed

lemma migrate_default_line:
  "migrate_command R E file_at h [] d = Inr (migrate_main R E (file_at h) ''*:rw'' None False False d)"
  by (simp add: migrate_command_def migrate_parser_def parse_args_def run_parser_strings run_nothing finish_none
      satisfied_def HELP_def opt_default_def)

end
