(* ===== verification/Markdown.thy ===== *)
theory Markdown
  imports Pages UrlParse
begin

text \<open>
  \<open>tools/stra2us_cli/sanitizers/markdown.py\<close>: markdown from a catalog as sanitized HTML.

  The renderer (\<open>markdown_it\<close>) and the cleaner (\<open>bleach\<close>) are arguments; the cleaner gets the
  attribute filter and the tag list of the source. What follows them in the source are three
  substitutions by regular expressions on the cleaned text; each is written out here as the scan
  that \<open>re.sub\<close> makes, on UTF-8 bytes (a byte of a longer character counts as a word character).
  \<open>services/markdown_render.py\<close> is a copy of the file that only a test imports.
\<close>

subsection \<open>The filters given to the cleaner\<close>

definition MD_ALLOWED_TAGS :: "string list" where
  "MD_ALLOWED_TAGS =
     [''p'', ''br'', ''hr'', ''strong'', ''em'', ''code'', ''del'', ''h2'', ''h3'', ''h4'', ''ul'', ''ol'', ''li'', ''blockquote'', ''pre'',
      ''a'', ''img'']"

definition MD_ALLOWED_ATTRS :: "(string \<times> string list) list" where
  "MD_ALLOWED_ATTRS = [(''a'', [''href'']), (''img'', [''src'', ''alt''])]"

definition ALT_MAX_LEN :: nat where
  "ALT_MAX_LEN = 200"

definition url_scheme :: "string \<Rightarrow> string" where
  "url_scheme url0 =
     (let url = filter (\<lambda>c. c \<notin> {CHR 0x09, CHR 0x0A, CHR 0x0D}) (dropWhile c0_or_space url0) in
      case split1 CHR '':'' url of
        None \<Rightarrow> []
      | Some (a, _) \<Rightarrow> if a \<noteq> [] \<and> is_alpha (hd a) \<and> list_all scheme_char a then lower a else [])"

text \<open>\<open>urlparse\<close> raises for a host with one bracket only.\<close>

definition is_safe_https :: "string \<Rightarrow> bool" where
  "is_safe_https url \<longleftrightarrow>
     (let nl = netloc url in
      (CHR ''['' \<in> set nl \<longleftrightarrow> CHR '']'' \<in> set nl) \<and> lower (url_scheme url) = ''https'' \<and> nl \<noteq> [])"

definition allow_href :: "string \<Rightarrow> string \<Rightarrow> string \<Rightarrow> bool" where
  "allow_href tag name value \<longleftrightarrow> tag = ''a'' \<and> name = ''href'' \<and> is_safe_https value"

definition allowed_attribute :: "string \<Rightarrow> string \<Rightarrow> string \<Rightarrow> bool" where
  "allowed_attribute tag name value \<longleftrightarrow>
     (if tag = ''a'' \<and> name = ''href'' then allow_href tag name value
      else if tag = ''img'' \<and> name \<in> {''src'', ''alt''} then True
      else name \<in> set (case map_of MD_ALLOWED_ATTRS tag of None \<Rightarrow> [] | Some ns \<Rightarrow> ns))"

subsection \<open>The substitutions\<close>

definition resolve_img_src :: "string \<Rightarrow> string \<Rightarrow> string option" where
  "resolve_img_src src app =
     (let expected_prefix = ''/app/'' @ app @ ''/_assets/'' in
      if filename_match src then Some (expected_prefix @ src)
      else if prefix expected_prefix src \<and> filename_match (drop (length expected_prefix) src) then Some src
      else None)"

text \<open>The text before and after the first occurrence of \<open>p\<close>.\<close>

fun split_str :: "string \<Rightarrow> string \<Rightarrow> (string \<times> string) option" where
  "split_str p [] = (if p = [] then Some ([], []) else None)"
| "split_str p (c # s) =
     (if prefix p (c # s) then Some ([], drop (length p) (c # s))
      else map_option (\<lambda>(a, b). (c # a, b)) (split_str p s))"

lemma split_str_length: "split_str p s = Some (a, b) \<Longrightarrow> length b \<le> length s"
  by (induction p s arbitrary: a rule: split_str.induct) (auto split: if_splits)

text \<open>\<open>re.sub(r"<a>(.*?)</a>", r"\1", html)\<close>\<close>

function unwrap_links :: "string \<Rightarrow> string" where
  "unwrap_links [] = []"
| "unwrap_links (c # s) =
     (case (if prefix ''<a>'' (c # s) then split_str ''</a>'' (drop 3 (c # s)) else None) of
        Some (x, y) \<Rightarrow> x @ unwrap_links y
      | None \<Rightarrow> c # unwrap_links s)"
  by pat_completeness auto
termination
  by (relation "measure length") (auto dest!: split_str_length split: if_splits)

definition rel_attrs :: string where
  \<open>rel_attrs = '' rel="noopener noreferrer" target="_blank"''\<close>

definition href_open :: string where
  \<open>href_open = ''href="''\<close>

text \<open>The link pattern: a white space, \<open>href=\<close> and a quoted value, anywhere in the text.\<close>

function enrich_links :: "string \<Rightarrow> string" where
  "enrich_links [] = []"
| "enrich_links (c # s) =
     (case (if is_space c \<and> prefix href_open s then split1 CHR 0x22 (drop (length href_open) s) else None) of
        Some (href, r) \<Rightarrow> CHR '' '' # href_open @ href @ CHR 0x22 # rel_attrs @ enrich_links r
      | None \<Rightarrow> c # enrich_links s)"
  by pat_completeness auto
termination
  by (relation "measure length") (auto simp: split1_Some_iff href_open_def split: if_splits dest!: arg_cong [of _ _ length])

definition is_word :: "char \<Rightarrow> bool" where
  "is_word c \<longleftrightarrow> is_alnum c \<or> c = CHR ''_'' \<or> 128 \<le> (of_char c :: nat)"

text \<open>\<open>_ATTR_RE.finditer\<close>: a word, an equals sign and a quoted value.\<close>

text \<open>A quoted value after an equals sign, and the text after it.\<close>

definition quoted_value :: "string \<Rightarrow> (string \<times> string) option" where
  "quoted_value s = (if prefix [CHR ''='', CHR 0x22] s then split1 CHR 0x22 (drop 2 s) else None)"

lemma quoted_value_length: "quoted_value s = Some (v, r) \<Longrightarrow> length r < length s"
  by (auto simp: quoted_value_def split1_Some_iff split: if_splits dest!: arg_cong [of _ _ length])

function find_attrs :: "string \<Rightarrow> (string \<times> string) list" where
  "find_attrs [] = []"
| "find_attrs (c # s) =
     (if \<not> is_word c then find_attrs s
      else
      (case quoted_value (dropWhile is_word s) of
        Some (v, r) \<Rightarrow> (c # takeWhile is_word s, v) # find_attrs r
      | None \<Rightarrow> find_attrs (dropWhile is_word s)))"
  by pat_completeness auto
termination
proof -
  have d: "length (dropWhile is_word s) < Suc (length s)" for s using length_dropWhile_le [of is_word s] by simp
  show ?thesis
    by (relation "measure length") (use d in \<open>auto dest!: quoted_value_length intro: less_trans\<close>)
qed

text \<open>The value of an attribute: the last one wins.\<close>

definition attr_value :: "string \<Rightarrow> (string \<times> string) list \<Rightarrow> string option" where
  "attr_value name ms = map_of (rev (map (\<lambda>(k, v). (lower k, v)) ms)) name"

text \<open>The first \<open>n\<close> characters of UTF-8 text.\<close>

fun take_chars :: "nat \<Rightarrow> string \<Rightarrow> string" where
  "take_chars n [] = []"
| "take_chars n (c # s) =
     (if is_cont c then c # take_chars n s else if n = 0 then [] else c # take_chars (n - 1) s)"

definition quote_attr :: "string \<Rightarrow> string" where
  "quote_attr s = concat (map (\<lambda>c. if c = CHR 0x22 then ''&quot;'' else [c]) s)"

definition img_open :: string where
  \<open>img_open = ''<img src="''\<close>

definition alt_open :: string where
  \<open>alt_open = ''" alt="''\<close>

definition rewrite_img :: "string \<Rightarrow> string \<Rightarrow> string" where
  "rewrite_img app blob =
     (let ms = find_attrs blob in
      case attr_value ''src'' ms of
        None \<Rightarrow> []
      | Some src \<Rightarrow>
         (case resolve_img_src src app of
            None \<Rightarrow> []
          | Some resolved \<Rightarrow>
             (case map_option (take_chars ALT_MAX_LEN) (attr_value ''alt'' ms) of
                None \<Rightarrow> img_open @ resolved @ [CHR 0x22, CHR ''>'']
              | Some alt \<Rightarrow> img_open @ resolved @ alt_open @ quote_attr alt @ [CHR 0x22, CHR ''>''])))"

text \<open>\<open>_IMG_RE.sub\<close>: \<open><img\<close> in any case, not followed by a word character, up to the next closing bracket.\<close>

definition at_img :: "string \<Rightarrow> bool" where
  "at_img s \<longleftrightarrow> lower (take 4 s) = ''<img'' \<and> (case drop 4 s of [] \<Rightarrow> True | c # _ \<Rightarrow> \<not> is_word c)"

function rewrite_imgs :: "string \<Rightarrow> string \<Rightarrow> string" where
  "rewrite_imgs app [] = []"
| "rewrite_imgs app (c # s) =
     (case (if at_img (c # s) then split1 CHR ''>'' (drop 4 (c # s)) else None) of
        Some (blob, r) \<Rightarrow> rewrite_img app blob @ rewrite_imgs app r
      | None \<Rightarrow> c # rewrite_imgs app s)"
  by pat_completeness auto
termination
  by (relation "measure (\<lambda>(_, s). length s)") (auto simp: split1_Some_iff split: if_splits dest!: arg_cong [of _ _ length])

definition post_process :: "string \<Rightarrow> string \<Rightarrow> string" where
  "post_process html app = rewrite_imgs app (enrich_links (unwrap_links html))"

definition sanitize_markdown ::
    "(string \<Rightarrow> string) \<Rightarrow> ((string \<Rightarrow> string \<Rightarrow> string \<Rightarrow> bool) \<Rightarrow> string list \<Rightarrow> string \<Rightarrow> string) \<Rightarrow> string \<Rightarrow> string
      \<Rightarrow> nat option \<Rightarrow> string res" where
  "sanitize_markdown render bleach_clean source app max_bytes =
     (if (case max_bytes of None \<Rightarrow> False | Some n \<Rightarrow> n < length source) then Inl (PyExn ''MarkdownSanitizeError'')
      else Inr (post_process (bleach_clean allowed_attribute MD_ALLOWED_TAGS (render source)) app))"

subsection \<open>Cleaned text\<close>

text \<open>What the cleaner gives: characters, start tags with attributes, end tags.\<close>

datatype tok = Ch char | Open string "(string \<times> string) list" | Close string

definition attr_str :: "string \<times> string \<Rightarrow> string" where
  "attr_str = (\<lambda>(k, v). CHR '' '' # k @ CHR ''='' # CHR 0x22 # v @ [CHR 0x22])"

fun show_tok :: "tok \<Rightarrow> string" where
  "show_tok (Ch c) = [c]"
| "show_tok (Open n ats) = CHR ''<'' # n @ concat (map attr_str ats) @ ''>''"
| "show_tok (Close n) = CHR ''<'' # CHR ''/'' # n @ ''>''"

definition show_toks :: "tok list \<Rightarrow> string" where
  "show_toks ts = concat (map show_tok ts)"

lemma show_toks_simps [simp]: "show_toks [] = []" "show_toks (t # ts) = show_tok t @ show_toks ts"
  "show_toks (ts @ us) = show_toks ts @ show_toks us"
  by (simp_all add: show_toks_def)

text \<open>Characters that stand for themselves in text and in attribute values.\<close>

definition plain_char :: "char \<Rightarrow> bool" where
  "plain_char c \<longleftrightarrow> c \<noteq> CHR ''<'' \<and> c \<noteq> CHR ''>'' \<and> c \<noteq> CHR 0x22"

text \<open>The text of \<open>href=\<close> at the end of a value, after a white space.\<close>

definition href_tail :: "string \<Rightarrow> bool" where
  "href_tail v \<longleftrightarrow> (\<exists>u c. v = u @ c # ''href='' \<and> is_space c)"

fun tok_clean :: "tok \<Rightarrow> bool" where
  "tok_clean (Ch c) \<longleftrightarrow> plain_char c"
| "tok_clean (Open n ats) \<longleftrightarrow> n \<in> set MD_ALLOWED_TAGS \<and> distinct (map fst ats) \<and>
     list_all (\<lambda>(k, v). allowed_attribute n k v \<and> list_all plain_char v) ats"
| "tok_clean (Close n) \<longleftrightarrow> n \<in> set MD_ALLOWED_TAGS"

fun no_tail :: "tok \<Rightarrow> bool" where
  "no_tail (Open n ats) \<longleftrightarrow> list_all (\<lambda>(k, v). \<not> href_tail v) ats"
| "no_tail _ \<longleftrightarrow> True"

subsection \<open>Facts about the allowed names\<close>

lemma allowed_tag_facts:
  assumes "n \<in> set MD_ALLOWED_TAGS"
  shows "list_all is_alnum n" "n \<noteq> []" "n \<noteq> ''img'' \<Longrightarrow> lower_char (hd n) \<noteq> CHR ''i''" "hd n = CHR ''a'' \<Longrightarrow> n = ''a''"
proof -
  have "\<forall>n \<in> set MD_ALLOWED_TAGS. list_all is_alnum n \<and> n \<noteq> [] \<and> (n = ''img'' \<or> lower_char (hd n) \<noteq> CHR ''i'') \<and> (hd n = CHR ''a'' \<longrightarrow> n = ''a'')"
    by code_simp
  with assms show "list_all is_alnum n" "n \<noteq> []" "n \<noteq> ''img'' \<Longrightarrow> lower_char (hd n) \<noteq> CHR ''i''" "hd n = CHR ''a'' \<Longrightarrow> n = ''a''"
    by blast+
qed

lemma alnum_facts: "is_alnum c \<Longrightarrow> plain_char c \<and> \<not> is_space c \<and> is_word c \<and> c \<noteq> CHR ''/'' \<and> c \<noteq> CHR ''=''"
  by (auto simp: is_alnum_def is_alpha_def is_digit_def plain_char_def is_space_def is_word_def Let_def)

lemma name_plain: "n \<in> set MD_ALLOWED_TAGS \<Longrightarrow> c \<in> set n \<Longrightarrow> plain_char c \<and> \<not> is_space c"
  using allowed_tag_facts(1) alnum_facts by (simp add: list_all_iff)

text \<open>The attributes of a cleaned tag: a link has at most \<open>href\<close>, a picture \<open>src\<close> and \<open>alt\<close>.\<close>

lemma attr_names:
  "allowed_attribute n k v \<longleftrightarrow> (n = ''a'' \<and> k = ''href'' \<and> is_safe_https v) \<or> (n = ''img'' \<and> (k = ''src'' \<or> k = ''alt''))"
  by (auto simp: allowed_attribute_def allow_href_def MD_ALLOWED_ATTRS_def)

lemma other_no_attrs: "tok_clean (Open n ats) \<Longrightarrow> n \<noteq> ''a'' \<Longrightarrow> n \<noteq> ''img'' \<Longrightarrow> ats = []"
  by (cases ats) (auto simp: attr_names)

lemma link_attrs:
  assumes "tok_clean (Open ''a'' ats)"
  shows "ats = [] \<or> (\<exists>v. ats = [(''href'', v)] \<and> is_safe_https v \<and> list_all plain_char v)"
proof (cases ats)
  case (Cons x xs)
  with assms show ?thesis by (cases xs) (auto simp: attr_names)
qed simp

subsection \<open>Unwrapping\<close>

text \<open>The text of a tag after its opening bracket.\<close>

fun tag_body :: "tok \<Rightarrow> string" where
  "tag_body (Ch c) = []"
| "tag_body (Open n ats) = n @ concat (map attr_str ats) @ ''>''"
| "tag_body (Close n) = CHR ''/'' # n @ ''>''"

lemma attr_str_char:
  assumes "allowed_attribute n k v" and "list_all plain_char v" and "c \<in> set (attr_str (k, v))"
  shows "c \<noteq> CHR ''<''" "c \<noteq> CHR ''>''"
proof -
  have k: "k = ''href'' \<or> k = ''src'' \<or> k = ''alt''" using assms(1) by (auto simp: attr_names)
  have "c \<in> {CHR '' '', CHR ''='', CHR 0x22} \<or> c \<in> set k \<or> c \<in> set v" using assms(3) by (auto simp: attr_str_def)
  moreover have "c \<in> set v \<Longrightarrow> plain_char c" using assms(2) by (simp add: list_all_iff)
  ultimately show "c \<noteq> CHR ''<''" "c \<noteq> CHR ''>''" using k by (auto simp: plain_char_def)
qed

lemma md_attrs_no_bracket:
  assumes "tok_clean (Open n ats)"
  shows "CHR ''<'' \<notin> set (concat (map attr_str ats))" "CHR ''>'' \<notin> set (concat (map attr_str ats))"
proof -
  have "\<forall>(k, v) \<in> set ats. allowed_attribute n k v \<and> list_all plain_char v" using assms by (simp add: list_all_iff [of _ ats])
  then show "CHR ''<'' \<notin> set (concat (map attr_str ats))" "CHR ''>'' \<notin> set (concat (map attr_str ats))"
    using attr_str_char by (fastforce simp: set_concat)+
qed

lemma body_no_bracket: "tok_clean t \<Longrightarrow> CHR ''<'' \<notin> set (tag_body t)"
proof (cases t)
  case (Open n ats)
  assume "tok_clean t"
  with Open md_attrs_no_bracket(1) [of n ats] name_plain [of n "CHR ''<''"] show ?thesis by (auto simp: plain_char_def)
next
  case (Close n)
  assume "tok_clean t"
  with Close name_plain [of n "CHR ''<''"] show ?thesis by (auto simp: plain_char_def)
qed simp

lemma show_tag: "(\<nexists>c. t = Ch c) \<Longrightarrow> show_tok t = CHR ''<'' # tag_body t"
  by (cases t) auto

lemma unwrap_copy: "CHR ''<'' \<notin> set s \<Longrightarrow> unwrap_links (s @ r) = s @ unwrap_links r"
  by (induction s) auto

lemma split_copy:
  "CHR ''<'' \<notin> set s \<Longrightarrow> split_str (CHR ''<'' # p) (s @ r) = map_option (\<lambda>(a, b). (s @ a, b)) (split_str (CHR ''<'' # p) r)"
  by (induction s; cases "split_str (CHR ''<'' # p) r") auto

lemma not_close_name: "n \<in> set MD_ALLOWED_TAGS \<Longrightarrow> n \<noteq> ''a'' \<Longrightarrow> \<not> prefix (CHR ''a'' # p) (n @ r)"
  using allowed_tag_facts(2,4) [of n] by (cases n) auto

lemma not_slash_name: "n \<in> set MD_ALLOWED_TAGS \<Longrightarrow> \<not> prefix (CHR ''/'' # p) (n @ r)"
  using allowed_tag_facts(1,2) [of n] alnum_facts by (cases n) auto

lemma split_at_close:
  "list_all tok_clean ts \<Longrightarrow> split_str ''</a>'' (show_toks ts) = Some (x, y) \<Longrightarrow>
    \<exists>us vs. ts = us @ Close ''a'' # vs \<and> x = show_toks us \<and> y = show_toks vs"
proof (induction ts arbitrary: x)
  case (Cons t ts)
  note clean = body_no_bracket [of t]
  have step: ?case if "split_str ''</a>'' (show_tok t @ show_toks ts) =
      map_option (\<lambda>(a, b). (show_tok t @ a, b)) (split_str ''</a>'' (show_toks ts))"
  proof -
    from that Cons.prems(2) obtain a where a: "split_str ''</a>'' (show_toks ts) = Some (a, y)" "x = show_tok t @ a" by auto
    from Cons.IH [OF _ a(1)] Cons.prems(1) obtain us vs where "ts = us @ Close ''a'' # vs" "a = show_toks us" "y = show_toks vs"
      by auto
    with a(2) show ?thesis by (intro exI [of _ "t # us"] exI [of _ vs]) simp
  qed
  have tag: ?case if t: "\<nexists>c. t = Ch c" and no: "\<not> prefix ''/a>'' (tag_body t @ show_toks ts)"
  proof (rule step)
    show "split_str ''</a>'' (show_tok t @ show_toks ts) =
      map_option (\<lambda>(a, b). (show_tok t @ a, b)) (split_str ''</a>'' (show_toks ts))"
      using show_tag [OF t] no split_copy [OF clean] Cons.prems(1)
      by (cases "split_str ''</a>'' (show_toks ts)") auto
  qed
  show ?case
  proof (cases t)
    case (Ch c)
    with Cons.prems(1) show ?thesis by (intro step) (auto simp: plain_char_def)
  next
    case (Open n ats)
    with Cons.prems(1) not_slash_name [of n] show ?thesis by (intro tag) auto
  next
    case (Close n)
    show ?thesis
    proof (cases "n = ''a''")
      case True
      with Close Cons.prems(2) show ?thesis by (intro exI [of _ "[]"] exI [of _ ts]) simp
    next
      case False
      with Close Cons.prems(1) not_close_name [of n "''>''"] show ?thesis by (intro tag) auto
    qed
  qed
qed simp

lemma unwrap_tokens: "list_all tok_clean ts \<Longrightarrow> \<exists>ts'. unwrap_links (show_toks ts) = show_toks ts' \<and> set ts' \<subseteq> set ts"
proof (induction "length ts" arbitrary: ts rule: less_induct)
  case less
  show ?case
  proof (cases ts)
    case (Cons t us)
    from less.hyps [of us] less.prems Cons obtain vs where vs: "unwrap_links (show_toks us) = show_toks vs" "set vs \<subseteq> set us"
      by auto
    have clean: "tok_clean t" using less.prems Cons by simp
    have copy: ?thesis if "unwrap_links (show_tok t @ show_toks us) = show_tok t @ unwrap_links (show_toks us)"
      using that vs Cons by (intro exI [of _ "t # vs"]) auto
    have tag: ?thesis if t: "\<nexists>c. t = Ch c" and no: "\<not> prefix ''a>'' (tag_body t @ show_toks us)"
      by (rule copy) (use show_tag [OF t] no unwrap_copy [OF body_no_bracket [OF clean]] in simp)
    show ?thesis
    proof (cases t)
      case (Ch c)
      with clean show ?thesis by (intro copy) (auto simp: plain_char_def)
    next
      case (Close n)
      then show ?thesis by (intro tag) auto
    next
      case (Open n ats)
      show ?thesis
      proof (cases "n = ''a'' \<and> ats = []")
        case False
        have "\<not> prefix ''a>'' (tag_body t @ show_toks us)"
        proof (cases "n = ''a''")
          case True
          with False Open show ?thesis by (cases ats) (auto simp: attr_str_def)
        next
          case na: False
          with Open clean not_close_name [of n "''>''"] show ?thesis by auto
        qed
        with Open show ?thesis by (intro tag) auto
      next
        case True
        then have tok: "show_tok t = ''<a>''" using Open by simp
        show ?thesis
        proof (cases "split_str ''</a>'' (show_toks us)")
          case None
          then show ?thesis
            using tok unwrap_copy [of "''a>''" "show_toks us"] by (intro copy) simp
        next
          case (Some xy)
          obtain x y where xy: "xy = (x, y)" by force
          from split_at_close [of us x y] Some xy less.prems Cons obtain ps qs where
            pq: "us = ps @ Close ''a'' # qs" "x = show_toks ps" "y = show_toks qs" by auto
          from less.hyps [of qs] less.prems Cons pq obtain qs' where
            q: "unwrap_links (show_toks qs) = show_toks qs'" "set qs' \<subseteq> set qs" by auto
          have "unwrap_links (show_toks ts) = show_toks (ps @ qs')"
            using Cons tok Some xy pq(2,3) q(1) by simp
          then show ?thesis using q(2) pq(1) Cons by (intro exI [of _ "ps @ qs'"]) auto
        qed
      qed
    qed
  qed simp
qed

subsection \<open>Links\<close>

definition enr_attr :: "string \<times> string \<Rightarrow> string" where
  "enr_attr = (\<lambda>(k, v). attr_str (k, v) @ (if k = ''href'' then rel_attrs else []))"

fun show_enr :: "tok \<Rightarrow> string" where
  "show_enr (Open n ats) = CHR ''<'' # n @ concat (map enr_attr ats) @ ''>''"
| "show_enr t = show_tok t"

lemma enrich_copy:
  "(\<And>u c t. s = u @ c # t \<Longrightarrow> \<not> (is_space c \<and> prefix href_open (t @ r))) \<Longrightarrow> enrich_links (s @ r) = s @ enrich_links r"
proof (induction s)
  case (Cons c s)
  have "\<not> (is_space c \<and> prefix href_open (s @ r))" using Cons.prems [of "[]" c s] by simp
  moreover have "enrich_links (s @ r) = s @ enrich_links r"
    by (rule Cons.IH) (use Cons.prems [of "c # u" for u] in auto)
  ultimately show ?case by auto
qed simp

lemma enrich_no_space: "\<forall>c \<in> set s. \<not> is_space c \<Longrightarrow> enrich_links (s @ r) = s @ enrich_links r"
  by (rule enrich_copy) auto

lemma no_quote_prefix: "list_all tok_clean ts \<Longrightarrow> prefix p (show_toks ts) \<Longrightarrow> CHR ''<'' \<notin> set p \<Longrightarrow> CHR 0x22 \<notin> set p"
proof (induction ts arbitrary: p)
  case (Cons t ts)
  show ?case
  proof (cases t)
    case (Ch c)
    with Cons show ?thesis by (cases p) (auto simp: plain_char_def)
  next
    case (Open n ats)
    with Cons.prems show ?thesis by (cases p) auto
  next
    case (Close n)
    with Cons.prems show ?thesis by (cases p) auto
  qed
qed simp

lemma prefix_up_to_quote: "prefix (a @ [q]) (t @ q # r) \<Longrightarrow> q \<notin> set a \<Longrightarrow> q \<notin> set t \<Longrightarrow> t = a"
proof (induction a arbitrary: t)
  case Nil
  then show ?case by (cases t) auto
next
  case (Cons x a)
  then show ?case by (cases t) auto
qed

definition attr_good :: "string \<times> string \<Rightarrow> bool" where
  "attr_good = (\<lambda>(k, v). (k = ''href'' \<or> k = ''src'' \<or> k = ''alt'') \<and> list_all plain_char v \<and> \<not> href_tail v)"

lemma attrs_good: "tok_clean (Open n ats) \<Longrightarrow> no_tail (Open n ats) \<Longrightarrow> list_all attr_good ats"
  by (auto simp: attr_good_def list_all_iff [of _ ats] attr_names)

lemma no_quote_value: "list_all plain_char v \<Longrightarrow> CHR 0x22 \<notin> set v"
  by (auto simp: list_all_iff plain_char_def)

lemma enrich_value:
  assumes "list_all plain_char v" and "\<not> href_tail v"
  shows "enrich_links (v @ CHR 0x22 # r) = v @ CHR 0x22 # enrich_links r"
proof -
  have "enrich_links (v @ CHR 0x22 # r) = v @ enrich_links (CHR 0x22 # r)"
  proof (rule enrich_copy)
    fix u c t
    assume v: "v = u @ c # t"
    show "\<not> (is_space c \<and> prefix href_open (t @ CHR 0x22 # r))"
    proof
      assume h: "is_space c \<and> prefix href_open (t @ CHR 0x22 # r)"
      then have "prefix (''href='' @ [CHR 0x22]) (t @ CHR 0x22 # r)" by (simp add: href_open_def)
      then have "t = ''href=''" by (rule prefix_up_to_quote) (use no_quote_value [OF assms(1)] v in auto)
      with v h assms(2) show False by (auto simp: href_tail_def)
    qed
  qed
  moreover have "\<not> is_space CHR 0x22" by (simp add: is_space_def)
  ultimately show ?thesis by simp
qed

lemma enrich_attr:
  assumes "attr_good kv"
  shows "enrich_links (attr_str kv @ r) = enr_attr kv @ enrich_links r"
proof -
  obtain k v where kv: "kv = (k, v)" by force
  with assms have k: "k = ''href'' \<or> k = ''src'' \<or> k = ''alt''" and v: "list_all plain_char v" "\<not> href_tail v"
    by (auto simp: attr_good_def)
  show ?thesis
  proof (cases "k = ''href''")
    case True
    have "is_space CHR '' ''" by (simp add: is_space_def)
    moreover have "split1 CHR 0x22 (v @ CHR 0x22 # r) = Some (v, r)" using no_quote_value [OF v(1)] by (rule split1_append)
    moreover have "attr_str kv @ r = CHR '' '' # href_open @ v @ CHR 0x22 # r" using True kv by (simp add: attr_str_def href_open_def)
    ultimately show ?thesis using True kv by (simp add: enr_attr_def attr_str_def href_open_def)
  next
    case False
    let ?p = "CHR '' '' # k @ [CHR ''='', CHR 0x22]"
    from False k have k2: "k = ''src'' \<or> k = ''alt''" by simp
    then have start: "\<not> prefix href_open (k @ CHR ''='' # CHR 0x22 # x)" and chars: "\<forall>c \<in> set k. \<not> is_space c" for x
      by (auto simp: href_open_def is_space_def)
    have rest: "\<forall>c \<in> set (k @ [CHR ''='', CHR 0x22]). \<not> is_space c" using chars by (auto simp: is_space_def)
    have "enrich_links (?p @ v @ CHR 0x22 # r) = CHR '' '' # enrich_links ((k @ [CHR ''='', CHR 0x22]) @ v @ CHR 0x22 # r)"
      using start by simp
    also have "\<dots> = ?p @ enrich_links (v @ CHR 0x22 # r)"
      using enrich_no_space [OF rest, of "v @ CHR 0x22 # r"] by (simp del: enrich_links.simps)
    finally have "enrich_links (attr_str kv @ r) = ?p @ enrich_links (v @ CHR 0x22 # r)" by (simp add: attr_str_def kv)
    with enrich_value [OF v] False kv show ?thesis by (simp add: enr_attr_def attr_str_def)
  qed
qed

lemma enrich_attrs: "list_all attr_good ats \<Longrightarrow> enrich_links (concat (map attr_str ats) @ r) = concat (map enr_attr ats) @ enrich_links r"
  by (induction ats) (simp_all add: enrich_attr)

lemma enrich_tokens:
  "list_all tok_clean ts \<Longrightarrow> list_all no_tail ts \<Longrightarrow> enrich_links (show_toks ts) = concat (map show_enr ts)"
proof (induction ts)
  case (Cons t ts)
  then have ih: "enrich_links (show_toks ts) = concat (map show_enr ts)" by simp
  have name: "\<forall>c \<in> set n. \<not> is_space c" if "n \<in> set MD_ALLOWED_TAGS" for n using name_plain [OF that] by blast
  have sp: "\<not> is_space CHR ''<''" "\<not> is_space CHR ''>''" "\<not> is_space CHR ''/''" by (simp_all add: is_space_def)
  show ?case
  proof (cases t)
    case (Ch c)
    have "\<not> prefix href_open (show_toks ts)"
      using no_quote_prefix [of ts href_open] Cons.prems(1) by (auto simp: href_open_def)
    then have "enrich_links (show_toks (t # ts)) = c # enrich_links (show_toks ts)" using Ch by simp
    with ih Ch show ?thesis by simp
  next
    case (Close n)
    with Cons.prems(1) have "enrich_links ((CHR ''<'' # CHR ''/'' # n @ ''>'') @ show_toks ts) =
        (CHR ''<'' # CHR ''/'' # n @ ''>'') @ enrich_links (show_toks ts)"
      using name [of n] sp by (intro enrich_no_space) auto
    with ih Close show ?thesis by simp
  next
    case (Open n ats)
    let ?rest = "''>'' @ show_toks ts"
    have "enrich_links ((CHR ''<'' # n) @ concat (map attr_str ats) @ ?rest) =
        (CHR ''<'' # n) @ enrich_links (concat (map attr_str ats) @ ?rest)"
      using Open Cons.prems(1) name [of n] sp by (intro enrich_no_space) auto
    also have "enrich_links (concat (map attr_str ats) @ ?rest) = concat (map enr_attr ats) @ enrich_links ?rest"
      using attrs_good [of n ats] Open Cons.prems by (intro enrich_attrs) auto
    also have "enrich_links ?rest = ''>'' @ enrich_links (show_toks ts)"
      using sp by (intro enrich_no_space) auto
    finally show ?thesis using ih Open by simp
  qed
qed simp

subsection \<open>Pictures\<close>

fun show_fin :: "string \<Rightarrow> tok \<Rightarrow> string" where
  "show_fin app (Open n ats) = (if n = ''img'' then rewrite_img app (concat (map attr_str ats)) else show_enr (Open n ats))"
| "show_fin app t = show_enr t"

lemma lower_char_bracket: "lower_char c = CHR ''<'' \<longleftrightarrow> c = CHR ''<''"
proof
  assume h: "lower_char c = CHR ''<''"
  show "c = CHR ''<''"
  proof (cases "65 \<le> (of_char c :: nat) \<and> (of_char c :: nat) \<le> 90")
    case True
    then have "(of_char (lower_char c) :: nat) = of_char c + 32" by (simp add: lower_char_def Let_def)
    with h True show ?thesis by simp
  next
    case False
    with h show ?thesis by (auto simp: lower_char_def Let_def split: if_splits)
  qed
qed (simp add: lower_char_def)

lemma at_img_first: "at_img (c # s) \<Longrightarrow> c = CHR ''<''"
  by (auto simp: at_img_def lower_def lower_char_bracket)

lemma rewrite_copy: "CHR ''<'' \<notin> set s \<Longrightarrow> rewrite_imgs app (s @ r) = s @ rewrite_imgs app r"
proof (induction s)
  case (Cons c s)
  then have "\<not> at_img (c # s @ r)" using at_img_first by auto
  with Cons show ?case by simp
qed simp

lemma at_img_second: "at_img (CHR ''<'' # c # s) \<Longrightarrow> lower_char c = CHR ''i''"
  by (simp add: at_img_def lower_def)

lemma rewrite_tag:
  assumes "CHR ''<'' \<notin> set (c # b)" and "lower_char c \<noteq> CHR ''i''"
  shows "rewrite_imgs app (CHR ''<'' # c # b @ r) = CHR ''<'' # c # b @ rewrite_imgs app r"
proof -
  have "\<not> at_img (CHR ''<'' # c # b @ r)" using at_img_second assms(2) by blast
  then show ?thesis using rewrite_copy [OF assms(1), of app r] by simp
qed

lemma word_facts: "\<not> is_word CHR '' ''" "\<not> is_word CHR ''>''" "\<not> is_word CHR ''=''" "list_all is_word ''src''" "list_all is_word ''alt''"
  by (simp_all add: is_word_def is_alnum_def is_alpha_def is_digit_def)

lemma find_attr:
  assumes "list_all is_word (c # k)" and "CHR 0x22 \<notin> set v"
  shows "find_attrs (attr_str (c # k, v) @ r) = (c # k, v) # find_attrs r"
proof -
  let ?more = "CHR ''='' # CHR 0x22 # v @ CHR 0x22 # r"
  have "takeWhile is_word (k @ ?more) = k" "dropWhile is_word (k @ ?more) = ?more"
    using assms(1) word_facts(3) by (simp_all add: list_all_iff takeWhile_append dropWhile_append)
  moreover have "quoted_value ?more = Some (v, r)" using split1_append [OF assms(2)] by (simp add: quoted_value_def)
  ultimately show ?thesis using assms(1) word_facts(1) by (simp add: attr_str_def)
qed

lemma find_attrs_all:
  "list_all (\<lambda>(k, v). (k = ''src'' \<or> k = ''alt'') \<and> CHR 0x22 \<notin> set v) ats \<Longrightarrow> find_attrs (concat (map attr_str ats)) = ats"
proof (induction ats)
  case (Cons kv ats)
  obtain k v where kv: "kv = (k, v)" by force
  with Cons.prems have k: "k = ''src'' \<or> k = ''alt''" "CHR 0x22 \<notin> set v" by auto
  have "find_attrs (attr_str (k, v) @ concat (map attr_str ats)) = (k, v) # find_attrs (concat (map attr_str ats))"
    using k word_facts(4,5) find_attr [of _ _ v] by auto
  with Cons kv show ?case by simp
qed simp

lemma img_attrs:
  assumes "tok_clean (Open ''img'' ats)"
  shows "find_attrs (concat (map attr_str ats)) = ats" "\<forall>(k, v) \<in> set ats. list_all plain_char v"
proof -
  have a: "list_all (\<lambda>(k, v). (k = ''src'' \<or> k = ''alt'') \<and> list_all plain_char v) ats"
    using assms by (auto simp: attr_names list_all_iff [of _ ats])
  then have "list_all (\<lambda>(k, v). (k = ''src'' \<or> k = ''alt'') \<and> CHR 0x22 \<notin> set v) ats"
    using no_quote_value by (auto simp: list_all_iff [of _ ats])
  then show "find_attrs (concat (map attr_str ats)) = ats" by (rule find_attrs_all)
  from a show "\<forall>(k, v) \<in> set ats. list_all plain_char v" by (auto simp: list_all_iff [of _ ats])
qed

lemma no_href_enr: "tok_clean (Open ''img'' ats) \<Longrightarrow> concat (map enr_attr ats) = concat (map attr_str ats)"
proof -
  assume "tok_clean (Open ''img'' ats)"
  then have "\<forall>kv \<in> set ats. enr_attr kv = attr_str kv"
    by (auto simp: enr_attr_def list_all_iff [of _ ats] attr_names)
  then show ?thesis by (simp cong: map_cong)
qed

lemma enr_no_bracket:
  assumes "tok_clean (Open n ats)"
  shows "CHR ''<'' \<notin> set (concat (map enr_attr ats))"
proof -
  have "CHR ''<'' \<notin> set rel_attrs" by (simp add: rel_attrs_def)
  then show ?thesis using md_attrs_no_bracket(1) [OF assms] by (auto simp: enr_attr_def split: if_splits)
qed

lemma rewrite_tokens: "list_all tok_clean ts \<Longrightarrow> rewrite_imgs app (concat (map show_enr ts)) = concat (map (show_fin app) ts)"
proof (induction ts)
  case (Cons t ts)
  then have ih: "rewrite_imgs app (concat (map show_enr ts)) = concat (map (show_fin app) ts)" and t: "tok_clean t" by simp_all
  let ?R = "concat (map show_enr ts)"
  show ?case
  proof (cases t)
    case (Ch c)
    with t have "rewrite_imgs app ([c] @ ?R) = [c] @ rewrite_imgs app ?R" by (intro rewrite_copy) (auto simp: plain_char_def)
    with ih Ch show ?thesis by (simp del: rewrite_imgs.simps)
  next
    case (Close n)
    have "rewrite_imgs app (CHR ''<'' # CHR ''/'' # (n @ ''>'') @ ?R) = CHR ''<'' # CHR ''/'' # (n @ ''>'') @ rewrite_imgs app ?R"
      using t Close name_plain [of n "CHR ''<''"] by (intro rewrite_tag) (auto simp: plain_char_def lower_char_def)
    with ih Close show ?thesis by simp
  next
    case (Open n ats)
    show ?thesis
    proof (cases "n = ''img''")
      case True
      let ?blob = "concat (map attr_str ats)"
      have e: "show_enr t = ''<img'' @ ?blob @ ''>''" using Open True t no_href_enr by simp
      have "at_img (''<img'' @ ?blob @ CHR ''>'' # ?R)"
        using word_facts(1,2) by (cases ats) (auto simp: at_img_def lower_def lower_char_def attr_str_def split: prod.split)
      moreover have "split1 CHR ''>'' (?blob @ CHR ''>'' # ?R) = Some (?blob, ?R)"
        using md_attrs_no_bracket(2) [of n ats] Open t by (intro split1_append) simp
      ultimately show ?thesis using e ih Open True by simp
    next
      case False
      from t Open have n: "n \<in> set MD_ALLOWED_TAGS" by simp
      with allowed_tag_facts(2,3) [OF n] False obtain x xs where x: "n = x # xs" "lower_char x \<noteq> CHR ''i''" by (cases n) auto
      have "CHR ''<'' \<notin> set (x # xs @ concat (map enr_attr ats) @ ''>'')"
        using enr_no_bracket [of n ats] t Open name_plain [OF n, of "CHR ''<''"] x(1) by (auto simp: plain_char_def)
      from rewrite_tag [OF this x(2), of app ?R] ih Open False x(1) show ?thesis by (auto simp del: rewrite_imgs.simps)
    qed
  qed
qed simp

subsection \<open>What is left\<close>

text \<open>The pieces of a sanitized text: characters, bare tags, links and pictures.\<close>

datatype piece = PChar char | PTag string | PEnd string | PLink string | PImg string "string option"

fun show_piece :: "piece \<Rightarrow> string" where
  "show_piece (PChar c) = [c]"
| "show_piece (PTag n) = CHR ''<'' # n @ ''>''"
| "show_piece (PEnd n) = CHR ''<'' # CHR ''/'' # n @ ''>''"
| "show_piece (PLink u) = ''<a'' @ CHR '' '' # href_open @ u @ CHR 0x22 # rel_attrs @ ''>''"
| "show_piece (PImg u alt) = img_open @ u @ (case alt of None \<Rightarrow> [] | Some a \<Rightarrow> alt_open @ a) @ [CHR 0x22, CHR ''>'']"

text \<open>A link goes to an absolute \<open>https\<close> address, a picture to an asset of the application.\<close>

fun piece_safe :: "string \<Rightarrow> piece \<Rightarrow> bool" where
  "piece_safe app (PChar c) \<longleftrightarrow> plain_char c"
| "piece_safe app (PTag n) \<longleftrightarrow> n \<in> set MD_ALLOWED_TAGS"
| "piece_safe app (PEnd n) \<longleftrightarrow> n \<in> set MD_ALLOWED_TAGS"
| "piece_safe app (PLink u) \<longleftrightarrow> is_safe_https u \<and> list_all plain_char u"
| "piece_safe app (PImg u alt) \<longleftrightarrow>
     (\<exists>f. u = ''/app/'' @ app @ ''/_assets/'' @ f \<and> filename_match f) \<and> (\<forall>a. alt = Some a \<longrightarrow> list_all plain_char a)"

lemma take_chars_subset: "set (take_chars n s) \<subseteq> set s"
  by (induction n s rule: take_chars.induct) auto

lemma quote_plain: "list_all plain_char s \<Longrightarrow> quote_attr s = s"
  by (induction s) (auto simp: quote_attr_def plain_char_def)

lemma attr_value_mem:
  assumes "attr_value name ats = Some v"
  shows "\<exists>k. (k, v) \<in> set ats"
  using map_of_SomeD [OF assms [unfolded attr_value_def]] by auto

lemma resolve_safe: "resolve_img_src src app = Some u \<Longrightarrow> \<exists>f. u = ''/app/'' @ app @ ''/_assets/'' @ f \<and> filename_match f"
  by (auto simp: resolve_img_src_def Let_def prefix_def split: if_splits)

text \<open>A picture is dropped or shown with the address of an asset.\<close>

lemma fin_img:
  assumes "tok_clean (Open ''img'' ats)"
  shows "\<exists>ps. rewrite_img app (concat (map attr_str ats)) = concat (map show_piece ps) \<and> list_all (piece_safe app) ps"
proof (cases "\<exists>src u. attr_value ''src'' ats = Some src \<and> resolve_img_src src app = Some u")
  case False
  then have "rewrite_img app (concat (map attr_str ats)) = []"
    using img_attrs(1) [OF assms] by (auto simp: rewrite_img_def Let_def split: option.split)
  then show ?thesis by (intro exI [of _ "[]"]) simp
next
  case True
  then obtain src u where u: "attr_value ''src'' ats = Some src" "resolve_img_src src app = Some u" by blast
  let ?alt = "map_option (take_chars ALT_MAX_LEN) (attr_value ''alt'' ats)"
  have plain: "list_all plain_char a" if alt: "?alt = Some a" for a
  proof -
    from alt obtain v where "attr_value ''alt'' ats = Some v" "a = take_chars ALT_MAX_LEN v" by auto
    with attr_value_mem img_attrs(2) [OF assms] take_chars_subset [of ALT_MAX_LEN v] show ?thesis
      by (fastforce simp: list_all_iff [of plain_char])
  qed
  have "rewrite_img app (concat (map attr_str ats)) = show_piece (PImg u ?alt)"
    using u img_attrs(1) [OF assms] plain by (auto simp: rewrite_img_def quote_plain split: option.split)
  then show ?thesis
    using resolve_safe [OF u(2)] plain by (intro exI [of _ "[PImg u ?alt]"]) simp
qed

lemma fin_pieces:
  assumes "tok_clean t"
  shows "\<exists>ps. show_fin app t = concat (map show_piece ps) \<and> list_all (piece_safe app) ps"
proof (cases t)
  case (Ch c)
  with assms show ?thesis by (intro exI [of _ "[PChar c]"]) simp
next
  case (Close n)
  with assms show ?thesis by (intro exI [of _ "[PEnd n]"]) simp
next
  case (Open n ats)
  consider "n = ''img''" | v where "n = ''a''" "ats = [(''href'', v)]" "is_safe_https v" "list_all plain_char v" | "ats = []" "n \<noteq> ''img''"
    using assms Open link_attrs other_no_attrs by blast
  then show ?thesis
  proof cases
    case 1
    with fin_img [of ats app] assms Open show ?thesis by simp
  next
    case 2
    with Open show ?thesis
      by (intro exI [of _ "[PLink v]"]) (simp add: enr_attr_def attr_str_def href_open_def)
  next
    case 3
    with assms Open show ?thesis by (intro exI [of _ "[PTag n]"]) simp
  qed
qed

lemma all_pieces: "list_all tok_clean ts \<Longrightarrow> \<exists>ps. concat (map (show_fin app) ts) = concat (map show_piece ps) \<and> list_all (piece_safe app) ps"
proof (induction ts)
  case (Cons t ts)
  then obtain ps where ps: "concat (map (show_fin app) ts) = concat (map show_piece ps)" "list_all (piece_safe app) ps" by auto
  from fin_pieces [of t app] Cons.prems obtain qs where
    "show_fin app t = concat (map show_piece qs)" "list_all (piece_safe app) qs" by auto
  with ps show ?case by (intro exI [of _ "qs @ ps"]) simp
qed (auto intro: exI [of _ "[]"])

lemma post_process_safe:
  assumes "list_all tok_clean ts" and "list_all no_tail ts"
  shows "\<exists>ps. post_process (show_toks ts) app = concat (map show_piece ps) \<and> list_all (piece_safe app) ps"
proof -
  from unwrap_tokens [OF assms(1)] obtain us where us: "unwrap_links (show_toks ts) = show_toks us" "set us \<subseteq> set ts" by blast
  with assms have ok: "list_all tok_clean us" "list_all no_tail us" by (auto simp: list_all_iff [of _ ts] list_all_iff [of _ us])
  have "post_process (show_toks ts) app = concat (map (show_fin app) us)"
    by (simp add: post_process_def us(1) enrich_tokens [OF ok] rewrite_tokens [OF ok(1)])
  with all_pieces [OF ok(1)] show ?thesis by simp
qed


text \<open>
  The last condition is needed: a picture that loses its source and whose description ends in
  \<open>href=\<close> makes the substitution swallow the start of the next link, and the address of that link
  becomes attributes of it.
\<close>

definition ref_toks :: "tok list" where
  "ref_toks = [Open ''img'' [(''src'', ''a.png''), (''alt'', ''x'')], Ch CHR '' '', Open ''a'' [(''href'', ''https://e.com'')], Ch CHR ''t'', Close ''a'',
     Open ''a'' [], Ch CHR ''u'', Close ''a'']"

definition tail_toks :: "tok list" where
  "tail_toks = [Open ''img'' [(''alt'', ''x href='')], Ch CHR '' '', Open ''a'' [(''href'', ''https://e.com/onclick=alert(1)//'')],
     Ch CHR ''t'', Close ''a'']"

definition ref_output :: string where
  \<open>ref_output =
     ''<img src="/app/app/_assets/a.png" alt="x"> <a href="https://e.com" rel="noopener noreferrer" target="_blank">t</a>u''\<close>

definition tail_output :: string where
  \<open>tail_output = '' <a href=" rel="noopener noreferrer" target="_blank"https://e.com/onclick=alert(1)//">t</a>''\<close>


end
