(* ===== verification/Spec2Isabelle.thy ===== *)
theory Spec2Isabelle
  imports AppTrace Concurrent CliProps Process Markdown
begin

text \<open>
  A model of Stra2us, a store and message broker for small devices, and of its command-line
  client, with the theorems that make it correct.

  \<^bold>\<open>The program.\<close> A FastAPI server keeps everything in one Redis store. Devices talk to it with
  HMAC-signed requests, to put and get values and to post and read queues; administrators use an
  API and a console behind a login; customers have one page per device, rendered from the catalog
  that the operator publishes for an application. The operator's tools sign requests as a device
  does.

  \<^bold>\<open>Theories and sources.\<close>
  \<^item> \<open>Prelude\<close>: results, bytes as characters, parsing and printing of numbers, \<open>strip\<close>, \<open>split\<close>,
    UTF-8; the collections of facts the other theories use. \<open>PyValue\<close>: Python's dynamic values, the
    codecs (msgpack, JSON, YAML, the digests) as the record \<open>ext\<close>, and the locale \<open>codec\<close> of what
    the code relies on. \<open>RedisStore\<close>: the commands of Redis as the record \<open>redis\<close> and the locale
    \<open>redis_store\<close> of their documented behaviour. Both locales are interpreted on a concrete store
    and a concrete codec, which serve the witnesses.
  \<^item> \<open>Security\<close>: \<open>core/security.py\<close>, signatures and the keystream cipher, and its copy in the client.
  \<^item> \<open>Dependencies\<close>: \<open>api/dependencies.py\<close>, authentication of devices, access lists, the gates of
    the administrators.
  \<^item> \<open>DeviceRoutes\<close>, \<open>DeviceProps\<close>, \<open>DeviceTrace\<close>: \<open>api/routes_device.py\<close>, its properties, and the
    step relation of any sequence of device calls. The locale \<open>backend\<close> joins store and codec.
    \<open>Concurrent\<close>: the same handlers suspended at every Redis command, and the system in which the
    commands of any number of calls, and steps of the rest of the world, interleave.
  \<^item> \<open>Base64\<close>, \<open>UrlParse\<close>: what the code uses of the standard library. \<open>AdminAuth\<close>:
    \<open>core/admin_auth.py\<close> and \<open>create_admin.py\<close>. \<open>MainApp\<close>: the middlewares of \<open>main.py\<close>,
    \<open>middleware/csp.py\<close> and \<open>core/perf_log.py\<close>. \<open>OAuth\<close>: \<open>core/oauth.py\<close>, \<open>api/routes_oauth.py\<close>.
    \<open>AdminApi\<close>: the operations of \<open>api/routes_admin.py\<close> under one roof, \<open>core/version.py\<close>. \<open>App\<close>: the
    whole application, its routing table, endpoints and stack of middlewares. \<open>AppTrace\<close>: what a
    request may change through it, and histories of requests. \<open>Process\<close>: \<open>core/redis_client.py\<close>,
    what else a process keeps or prints at its start, the command lines of the scripts.
  \<^item> \<open>AdminClients\<close>, \<open>AdminData\<close>: \<open>api/routes_admin.py\<close>, identities and data. \<open>BackupFormat\<close>,
    \<open>BackupIO\<close>: \<open>services/backup_format.py\<close>, \<open>services/backup_io.py\<close> and their endpoints.
  \<^item> \<open>AppRoutes\<close>: the routes of the customer surface (\<open>api/routes_app*.py\<close>), \<open>value_resolver.py\<close>,
    \<open>theme_serializer.py\<close>. \<open>Html\<close>: escaping, and a reader of the markup that is produced.
    \<open>Widgets\<close>: \<open>services/widget_renderer.py\<close>. \<open>Pages\<close>: \<open>services/page_renderer.py\<close>,
    \<open>services/markdown_cache.py\<close> and the page of a device.
  \<^item> \<open>Client\<close>: \<open>tools/stra2us_cli/client.py\<close>, on any network and on the network whose other end is
    the device handlers. \<open>AppClient\<close>: the client against the whole application; the locale
    \<open>device_web\<close> states what is used of Starlette there. \<open>Catalog\<close>, \<open>CatalogLint\<close>, \<open>CatalogPublish\<close>: \<open>catalog.py\<close>,
    \<open>catalog_lint.py\<close>, \<open>catalog_publish.py\<close>. \<open>Config\<close>: \<open>config.py\<close>. \<open>Synth\<close>: \<open>synth.py\<close>, the
    traffic generator. \<open>Svg\<close>, \<open>Markdown\<close>: \<open>sanitizers/svg.py\<close>, \<open>sanitizers/markdown.py\<close>. \<open>Cli\<close>:
    every verb of \<open>cli.py\<close>, over all of these; \<open>CliProps\<close>: what \<open>set\<close> and \<open>show\<close> do together with
    the server and the customer page.
  \<^item> \<open>ArgParse\<close>: what is used of the standard library's \<open>argparse\<close>. \<open>CliArgs\<close>: the parser of \<open>cli.py\<close>
    and how its results become the commands of \<open>Cli\<close>.
  \<^item> \<open>Migrate\<close>: \<open>backend/migrate_admin_acls.py\<close>.

  \<^bold>\<open>How the code is read.\<close> A handler is a function of its request and of the store that returns a
  result, \<open>exn + 'a\<close>, and the store it leaves. Every \<open>raise\<close> and every Python error of a
  mis-shaped document is a value of \<open>exn\<close>. Strings are the bytes of their UTF-8 encoding. Time,
  random tokens and the environment are arguments. Floats are rational numbers; NaN and the
  infinities are left out.

  \<^bold>\<open>What is shown.\<close> For the application as a whole: a request without credentials changes nothing
  and learns nothing that is not public; whatever a request changes its user or device may change;
  through any history nobody gains authority but by a superuser; another site cannot use the
  session of an administrator; what the client puts through the whole stack it gets back, also
  through the cipher. For devices: each handler run command by command is the function the other
  theorems are about; however the commands of concurrent calls interleave, nonces never repeat, a
  live message is given at least once to every consumer, an encrypted value stays encrypted after
  its flag is set, and a read between the two commands of its first write sees it in clear; with
  calls one after the other queues are FIFO and a message is delivered once; access checks refine a
  first-match specification. For administrators: tokens and the origin check are exact,
  provisioning isolates a device, revocation is final, listings show only what may be read, backups
  restore what they saved and stay inside their application. For customers: a form changes only its
  fields and what it saves is shown next; no value breaks out of its place in the markup; the page
  cache is invisible. For the operator: coerced values have their declared type; publishing has a
  commit point however the network fails; a published picture has no script and no reference out
  of its document, a rendered text no tag or address outside the allowed ones; the command line
  says every command and only those; \<open>set\<close> either changes the server by its one write or leaves it
  as it was, and what it wrote is what \<open>show\<close> and the customer page give; a run of the traffic
  generator ends, having lasted its time and with a bounded number of ticks; the migration gives
  exactly the default rights and can be repeated.

  \<^bold>\<open>Loops and bounds.\<close> The poll loop of a consumer is a \<open>partial_function (option)\<close>, as nothing in
  its text bounds it; it is proved to return when the stream is finite. The look-up of a device
  runs over the pages of a \<open>SCAN\<close>, whose end is a hypothesis on Redis (\<open>scan_run\<close>). The filter of a
  stream page reads windows of the size the code has, counted down by its own limit. The loop of
  the traffic generator has no bound in its text either; on a clock that moves on while the program
  sleeps (\<open>timed_net\<close>) it is proved to return. The substitutions of \<open>Markdown\<close> are functions with
  the length of the remaining text as measure. The lossy
  network of \<open>CatalogPublish\<close> is a list of faults of any length. There is no fuel anywhere.

  \<^bold>\<open>Not modelled.\<close> The texts of \<open>argparse\<close> and the wording of messages on standard error; the
  libraries the sanitizers call (the XML parser, the markdown renderer, the cleaner: arguments); the
  formatting of dates (the time stamps of backups and of the console are arguments); static files
  and Starlette itself (the record \<open>web\<close>, an argument of \<open>App\<close>); everything in JavaScript and C.
  \<open>services/markdown_render.py\<close> is a verbatim copy of the tools' sanitizer, so \<open>Markdown\<close> is its model
  too. Redis is never unreachable and its commands are atomic. A handler runs as one step, except in
  \<open>Concurrent\<close>, where the handlers of the devices give up control at each command; the handlers of
  administrators and customers are the rest of the world there.
\<close>

end
